(* ===== verification/Outbox_Prelude.thy ===== *)
theory Outbox_Prelude
  imports Complex_Main "HOL-Library.Word" "HOL-Library.AList" "HOL-Library.Signed_Division"
    "HOL-Library.Multiset" "HOL-Library.Sublist"
begin

text \<open>
  The values, strings, maps, integers and times of Go that the relay uses, and the generic
  lemmas the components share.

  A Go \<open>string\<close> and a Go \<open>[]byte\<close> are both sequences of bytes; a \<^typ>\<open>char\<close> is a byte, so both
  are \<^typ>\<open>string\<close>. A Go \<open>map\<close> is an association list with distinct keys: the list order is one
  of the iteration orders Go may choose, and every theorem holds for all of them because it
  holds for all lists. An \<open>int\<close> is a HOL integer; where the code can overflow the wrap-around
  is written out (\<open>wrap64\<close>) or the value is a machine word.
\<close>

named_theorems go_string "evaluation of the modelled string routines"
named_theorems group_simps "grouping a list into a map of lists"

section \<open>Values\<close>

type_synonym bytes = string

text \<open>A float64 as the code compares it: a finite value, an infinity or not-a-number.\<close>

datatype float64 = Finite rat | Inf bool | NaN

text \<open>
  A Go value of type \<open>any\<close>: what a database driver returns for a column, or what
  \<open>json.Unmarshal\<close> produces. \<open>GTime\<close> carries nanoseconds since the Unix epoch (UTC).
\<close>

datatype goval =
    GNil
  | GBool bool
  | GInt int
  | GInt32 int
  | GInt64 int
  | GFloat64 float64
  | GString string
  | GBytes bytes
  | GTime int
  | GSlice "goval list"
  | GMap "(string \<times> goval) list"

type_synonym 'v gomap = "(string \<times> 'v) list"

section \<open>Integers and times\<close>

text \<open>Go's 64-bit \<open>int\<close>: two's complement wrap-around, written out on the integers.\<close>

definition wrap64 :: "int \<Rightarrow> int" where
  "wrap64 x = (x + 2 ^ 63) mod 2 ^ 64 - 2 ^ 63"

definition int64_range :: "int \<Rightarrow> bool" where
  "int64_range x \<longleftrightarrow> - (2 ^ 63) \<le> x \<and> x < 2 ^ 63"

lemma wrap64_range: "int64_range (wrap64 x)"
  by (simp add: wrap64_def int64_range_def)

lemma wrap64_id [simp]: "int64_range x \<Longrightarrow> wrap64 x = x"
  by (simp add: wrap64_def int64_range_def)

text \<open>
  \<open>t.Sub(u)\<close> of package time saturates at the smallest and largest \<open>Duration\<close>; the zero
  \<open>time.Time\<close> is January 1, year 1.
\<close>

definition time_Sub :: "int \<Rightarrow> int \<Rightarrow> int" where
  "time_Sub t u = max (- (2 ^ 63)) (min (2 ^ 63 - 1) (t - u))"

definition zero_time :: int where
  "zero_time = - 62135596800 * 1000000000"

lemma time_Sub_range: "int64_range (time_Sub t u)"
  by (simp add: time_Sub_def int64_range_def)

lemma time_Sub_exact: "int64_range (t - u) \<Longrightarrow> time_Sub t u = t - u"
  by (simp add: time_Sub_def int64_range_def)

section \<open>Strings\<close>

definition HasPrefix :: "string \<Rightarrow> string \<Rightarrow> bool" where
  "HasPrefix s p \<longleftrightarrow> take (length p) s = p"

definition HasSuffix :: "string \<Rightarrow> string \<Rightarrow> bool" where
  "HasSuffix s p \<longleftrightarrow> length p \<le> length s \<and> drop (length s - length p) s = p"

fun Contains :: "string \<Rightarrow> string \<Rightarrow> bool" where
  "Contains [] sub = (sub = [])"
| "Contains (c # s) sub = (HasPrefix (c # s) sub \<or> Contains s sub)"

definition ContainsAny :: "string \<Rightarrow> string \<Rightarrow> bool" where
  "ContainsAny s cs = list_ex (\<lambda>c. c \<in> set cs) s"

text \<open>\<open>strings.Cut\<close> at the first occurrence of a one-byte separator.\<close>

definition Cut :: "string \<Rightarrow> char \<Rightarrow> string \<times> string \<times> bool" where
  "Cut s sep =
     (if sep \<in> set s
      then (takeWhile (\<lambda>c. c \<noteq> sep) s, tl (dropWhile (\<lambda>c. c \<noteq> sep) s), True)
      else (s, [], False))"

text \<open>\<open>strings.Split\<close> on a one-byte separator; never empty.\<close>

fun Split :: "char \<Rightarrow> string \<Rightarrow> string list" where
  "Split sep [] = [[]]"
| "Split sep (c # s) =
     (if c = sep then [] # Split sep s
      else (case Split sep s of [] \<Rightarrow> [[c]] | p # ps \<Rightarrow> (c # p) # ps))"

fun Join :: "string list \<Rightarrow> string \<Rightarrow> string" where
  "Join [] sep = []"
| "Join [x] sep = x"
| "Join (x # y # ys) sep = x @ sep @ Join (y # ys) sep"

text \<open>\<open>strings.Trim\<close> with a cutset.\<close>

definition Trim :: "string \<Rightarrow> string \<Rightarrow> string" where
  "Trim s cs = rev (dropWhile (\<lambda>c. c \<in> set cs) (rev (dropWhile (\<lambda>c. c \<in> set cs) s)))"

text \<open>
  \<open>strings.ToLower\<close> on the bytes below 0x80. The code uses it only in front of prefix tests
  against ASCII words that contain neither \<open>k\<close> nor \<open>i\<close>; those are the only ASCII letters that are
  lower-case images of non-ASCII runes, so the tests do not depend on the other bytes.
\<close>

definition lower_char :: "char \<Rightarrow> char" where
  "lower_char c =
     (let n = of_char c :: nat in if 65 \<le> n \<and> n \<le> 90 then char_of (n + 32) else c)"

definition ToLower :: "string \<Rightarrow> string" where
  "ToLower s = map lower_char s"

lemma HasPrefix_iff [go_string]: "HasPrefix s p \<longleftrightarrow> (\<exists>t. s = p @ t)"
  unfolding HasPrefix_def by (metis append_eq_conv_conj append_take_drop_id)

lemma HasSuffix_iff [go_string]: "HasSuffix s p \<longleftrightarrow> (\<exists>t. s = t @ p)"
proof
  assume "HasSuffix s p"
  then show "\<exists>t. s = t @ p"
    unfolding HasSuffix_def by (metis append_take_drop_id)
next
  assume "\<exists>t. s = t @ p"
  then show "HasSuffix s p" by (auto simp: HasSuffix_def)
qed

lemma Contains_iff [go_string]: "Contains s sub \<longleftrightarrow> (\<exists>u v. s = u @ sub @ v)"
proof (induction s)
  case Nil
  then show ?case by auto
next
  case (Cons c s)
  show ?case
  proof
    assume "Contains (c # s) sub"
    then consider (here) "HasPrefix (c # s) sub" | (later) "Contains s sub" by auto
    then show "\<exists>u v. c # s = u @ sub @ v"
    proof cases
      case here
      then obtain t where "c # s = [] @ sub @ t" by (auto simp: HasPrefix_iff)
      then show ?thesis by blast
    next
      case later
      then obtain u v where "s = u @ sub @ v" using Cons.IH by blast
      then have "c # s = (c # u) @ sub @ v" by simp
      then show ?thesis by blast
    qed
  next
    assume "\<exists>u v. c # s = u @ sub @ v"
    then obtain u v where uv: "c # s = u @ sub @ v" by blast
    show "Contains (c # s) sub"
    proof (cases u)
      case Nil
      with uv have "HasPrefix (c # s) sub" by (auto simp: HasPrefix_iff)
      then show ?thesis by simp
    next
      case (Cons a u')
      with uv have "s = u' @ sub @ v" by simp
      then show ?thesis using \<open>Contains s sub = _\<close> by auto
    qed
  qed
qed

lemma Split_not_Nil [simp]: "Split sep s \<noteq> []"
  by (cases s) (auto split: list.splits)

lemma Join_Split: "Join (Split sep s) [sep] = s"
proof (induction s)
  case Nil
  then show ?case by simp
next
  case (Cons c s)
  obtain p ps where ps: "Split sep s = p # ps" by (cases "Split sep s") auto
  then show ?case using Cons by (cases ps) auto
qed

lemma Split_no_sep: "p \<in> set (Split sep s) \<Longrightarrow> sep \<notin> set p"
  by (induction s arbitrary: p) (auto split: if_splits list.splits)

subsection \<open>Decimal numerals\<close>

definition digit_char :: "nat \<Rightarrow> char" where
  "digit_char d = char_of (48 + d)"

fun dec_nat :: "nat \<Rightarrow> string" where
  "dec_nat n = (if n < 10 then [digit_char n] else dec_nat (n div 10) @ [digit_char (n mod 10)])"

declare dec_nat.simps [simp del]

text \<open>\<open>strconv.Itoa\<close>, \<open>strconv.FormatInt(x, 10)\<close> and \<open>%d\<close>.\<close>

definition Itoa :: "int \<Rightarrow> string" where
  "Itoa x = (if x < 0 then CHR ''-'' # dec_nat (nat (- x)) else dec_nat (nat x))"

definition undec :: "string \<Rightarrow> nat" where
  "undec s = foldl (\<lambda>a c. a * 10 + (of_char c - 48)) 0 s"

lemma of_char_digit_char: "d < 10 \<Longrightarrow> (of_char (digit_char d) :: nat) = 48 + d"
  by (simp add: digit_char_def)

lemma undec_dec_nat: "undec (dec_nat n) = n"
proof (induction n rule: dec_nat.induct)
  case (1 n)
  show ?case
  proof (cases "n < 10")
    case True
    then show ?thesis by (subst dec_nat.simps) (simp add: undec_def of_char_digit_char)
  next
    case False
    with "1.IH" have "undec (dec_nat (n div 10)) = n div 10" by simp
    with False show ?thesis
      by (subst dec_nat.simps) (simp add: undec_def of_char_digit_char)
  qed
qed

lemma dec_nat_inj: "dec_nat m = dec_nat n \<longleftrightarrow> m = n"
  by (metis undec_dec_nat)

lemma dec_nat_no_minus: "CHR ''-'' \<notin> set (dec_nat n)"
proof (induction n rule: dec_nat.induct)
  case (1 n)
  have digit: "digit_char d \<noteq> CHR ''-''" if "d < 10" for d
  proof
    assume "digit_char d = CHR ''-''"
    then have "(of_char (digit_char d) :: nat) = 45" by simp
    with that show False by (simp add: of_char_digit_char)
  qed
  show ?case
    using "1.IH" digit[of n] digit[of "n mod 10"]
    by (subst dec_nat.simps) (force split: if_splits)
qed

lemma Itoa_inj: "Itoa x = Itoa y \<longleftrightarrow> x = y"
proof
  assume eq: "Itoa x = Itoa y"
  have "CHR ''-'' \<notin> set (dec_nat n)" for n by (rule dec_nat_no_minus)
  then have "(x < 0) = (y < 0)"
    using eq by (auto simp: Itoa_def split: if_splits) (metis list.set_intros(1))+
  with eq show "x = y" by (auto simp: Itoa_def dec_nat_inj split: if_splits)
qed simp

section \<open>Grouping into a map of lists\<close>

text \<open>
  The idiom \<open>m[k] = append(m[k], x)\<close> over a slice: the entry of a key lists, in order, the
  elements with that key, and the keys stand in the order of their first occurrence.
\<close>

definition group_append :: "'k \<Rightarrow> 'a \<Rightarrow> ('k \<times> 'a list) list \<Rightarrow> ('k \<times> 'a list) list" where
  "group_append k x m = AList.map_default k [x] (\<lambda>xs. xs @ [x]) m"

definition group_by :: "('a \<Rightarrow> 'k) \<Rightarrow> 'a list \<Rightarrow> ('k \<times> 'a list) list" where
  "group_by f xs = foldl (\<lambda>m x. group_append (f x) x m) [] xs"

text \<open>A read of a missing map key yields the zero value, here the nil slice.\<close>

definition group_get :: "('k \<times> 'a list) list \<Rightarrow> 'k \<Rightarrow> 'a list" where
  "group_get m k = (case map_of m k of Some xs \<Rightarrow> xs | None \<Rightarrow> [])"

lemma map_default_conv:
  "map_of (AList.map_default k v f m) k' =
     (if k = k' then (case map_of m k of None \<Rightarrow> Some v | Some w \<Rightarrow> Some (f w)) else map_of m k')"
  by (induction m) auto

lemma map_default_keys:
  "map fst (AList.map_default k v f m) =
     (if k \<in> set (map fst m) then map fst m else map fst m @ [k])"
  by (induction m) auto

lemma group_get_append [group_simps]:
  "group_get (group_append k x m) k' = (if k = k' then group_get m k @ [x] else group_get m k')"
  by (simp add: group_get_def group_append_def map_default_conv split: option.splits)

lemma group_by_snoc [group_simps]: "group_by f (xs @ [x]) = group_append (f x) x (group_by f xs)"
  by (simp add: group_by_def)

lemma group_by_Nil [simp]: "group_by f [] = []"
  by (simp add: group_by_def)

lemma group_get_group_by [group_simps]:
  "group_get (group_by f xs) k = filter (\<lambda>x. f x = k) xs"
  by (induction xs rule: rev_induct) (auto simp: group_simps group_get_def[of "[]"])

lemma group_by_keys_distinct: "distinct (map fst (group_by f xs))"
  by (induction xs rule: rev_induct) (auto simp: group_simps group_append_def map_default_keys)

lemma group_by_keys_set: "set (map fst (group_by f xs)) = f ` set xs"
  by (induction xs rule: rev_induct) (auto simp: group_simps group_append_def map_default_keys)

lemma group_by_entry:
  assumes "(k, ys) \<in> set (group_by f xs)"
  shows "ys = filter (\<lambda>x. f x = k) xs"
proof -
  have "map_of (group_by f xs) k = Some ys"
    by (rule map_of_is_SomeI[OF group_by_keys_distinct assms])
  then have "group_get (group_by f xs) k = ys" by (simp add: group_get_def)
  then show ?thesis by (simp add: group_get_group_by)
qed

lemma group_by_entry_in:
  "(k, ys) \<in> set (group_by f xs) \<Longrightarrow> y \<in> set ys \<Longrightarrow> y \<in> set xs \<and> f y = k"
  by (auto dest: group_by_entry)

lemma group_by_entry_ne: "(k, ys) \<in> set (group_by f xs) \<Longrightarrow> ys \<noteq> []"
proof -
  assume e: "(k, ys) \<in> set (group_by f xs)"
  then have "k \<in> set (map fst (group_by f xs))" by force
  then have "k \<in> f ` set xs" by (simp only: group_by_keys_set)
  with group_by_entry[OF e] show "ys \<noteq> []" by (auto simp: filter_empty_conv)
qed

lemma group_by_lookup: "map_of (group_by f xs) k = (if k \<in> f ` set xs then Some (filter (\<lambda>x. f x = k) xs) else None)"
proof (cases "map_of (group_by f xs) k")
  case None
  then show ?thesis by (metis group_by_keys_set map_of_eq_None_iff set_map)
next
  case (Some ys)
  then have e: "(k, ys) \<in> set (group_by f xs)" by (rule map_of_SomeD)
  then have "k \<in> set (map fst (group_by f xs))" by force
  then have "k \<in> f ` set xs" by (simp only: group_by_keys_set)
  with Some group_by_entry[OF e] show ?thesis by simp
qed

lemma group_append_mset:
  "mset (concat (map snd (group_append k x m))) = add_mset x (mset (concat (map snd m)))"
  unfolding group_append_def by (induction m) auto

lemma group_by_mset: "mset (concat (map snd (group_by f xs))) = mset xs"
  by (induction xs rule: rev_induct) (simp_all add: group_simps group_append_mset)

section \<open>Lists\<close>

text \<open>Folding a partial traversal: the results in order, up to nothing missing.\<close>

lemma distinct_map_filter: "distinct (map f xs) \<Longrightarrow> distinct (map f (filter P xs))"
  by (induction xs) auto

lemma list_all_set: "list_all P xs \<longleftrightarrow> (\<forall>x. x \<in> set xs \<longrightarrow> P x)"
  by (auto simp: list_all_iff)

lemma shuffles_set: "zs \<in> shuffles xs ys \<Longrightarrow> set zs = set xs \<union> set ys"
  by (rule set_shuffles)

lemma shuffles_mset: "zs \<in> shuffles xs ys \<Longrightarrow> mset zs = mset xs + mset ys"
  by (rule mset_shuffles)

lemma map_filter_Nil' [simp]: "List.map_filter f [] = []"
  by (simp add: List.map_filter_simps)

lemma in_map_filter: "y \<in> set (List.map_filter f xs) \<longleftrightarrow> (\<exists>x. x \<in> set xs \<and> f x = Some y)"
  by (induction xs) (auto simp: List.map_filter_simps split: option.splits)

lemma map_filter_append: "List.map_filter f (xs @ ys) = List.map_filter f xs @ List.map_filter f ys"
  by (induction xs) (auto simp: List.map_filter_simps split: option.splits)

end
