(* ===== verification/Go_Errors.thy ===== *)
theory Go_Errors
  imports Outbox_Prelude
begin

text \<open>
  Go error values and the routines of package errors the relay uses, the counting of joined
  errors of \<open>processor.go\<close>, and the default rendering of values (\<open>fmt.Sprint\<close>, \<open>%T\<close>).

  An \<open>error\<close> interface value is a \<^typ>\<open>'e option\<close>: \<^term>\<open>None\<close> is \<open>nil\<close>.
\<close>

section \<open>Error values\<close>

datatype sentinel =
    errDatabaseBatch
  | ErrFatalAfterCommit
  | ErrMalformedOptions
  | context_Canceled
  | context_DeadlineExceeded

text \<open>
  \<open>WrapError\<close> is \<open>fmt.Errorf\<close> with one \<open>%w\<close> verb and \<open>WrapErrors\<close> with several: the first has
  \<open>Unwrap() error\<close>, the second \<open>Unwrap() []error\<close>; both carry their formatted text. The last
  two constructors are what the cloud SDKs return: an error with an \<open>ErrorCode()\<close> method and a
  \<open>*googleapi.Error\<close>.
\<close>

datatype go_error =
    Sentinel sentinel
  | ErrorString string
  | WrapError string go_error
  | WrapErrors string "go_error list"
  | JoinError "go_error list"
  | APIError string string
  | GoogleAPIError int string

fun sentinel_text :: "sentinel \<Rightarrow> string" where
  "sentinel_text errDatabaseBatch = ''database batch error''"
| "sentinel_text ErrFatalAfterCommit = ''fatal after commit''"
| "sentinel_text ErrMalformedOptions = ''malformed event options''"
| "sentinel_text context_Canceled = ''context canceled''"
| "sentinel_text context_DeadlineExceeded = ''context deadline exceeded''"

text \<open>\<open>err.Error()\<close>; a join separates the texts by newlines.\<close>

fun error_text :: "go_error \<Rightarrow> string" where
  "error_text (Sentinel s) = sentinel_text s"
| "error_text (ErrorString m) = m"
| "error_text (WrapError m e) = m"
| "error_text (WrapErrors m es) = m"
| "error_text (JoinError es) = Join (map error_text es) [char_of (10 :: nat)]"
| "error_text (APIError c m) = ''api error '' @ c @ '': '' @ m"
| "error_text (GoogleAPIError c m) = ''googleapi: Error '' @ Itoa c @ '': '' @ m"

text \<open>\<open>errors.Join\<close> drops nil errors and is nil when nothing is left.\<close>

definition errors_Join :: "go_error option list \<Rightarrow> go_error option" where
  "errors_Join es =
     (case List.map_filter (\<lambda>e. e) es of [] \<Rightarrow> None | xs \<Rightarrow> Some (JoinError xs))"

text \<open>The accumulation \<open>joined = errors.Join(joined, err)\<close> over the errors of a channel.\<close>

definition join_all :: "go_error list \<Rightarrow> go_error option" where
  "join_all es = foldl (\<lambda>j e. errors_Join [j, Some e]) None es"

text \<open>\<open>errors.Is(err, target)\<close> for the sentinels.\<close>

fun errors_Is :: "go_error \<Rightarrow> sentinel \<Rightarrow> bool" where
  "errors_Is (Sentinel t) s = (t = s)"
| "errors_Is (ErrorString m) s = False"
| "errors_Is (WrapError m e) s = errors_Is e s"
| "errors_Is (WrapErrors m es) s = list_ex (\<lambda>e. errors_Is e s) es"
| "errors_Is (JoinError es) s = list_ex (\<lambda>e. errors_Is e s) es"
| "errors_Is (APIError c m) s = False"
| "errors_Is (GoogleAPIError c m) s = False"

definition is_err :: "go_error option \<Rightarrow> sentinel \<Rightarrow> bool" where
  "is_err e s = (case e of None \<Rightarrow> False | Some x \<Rightarrow> errors_Is x s)"

text \<open>
  \<open>errors.As\<close> searches the tree depth first and stops at the first match: here for an
  \<open>ErrorCode()\<close> method and for a \<open>*googleapi.Error\<close>.
\<close>

fun first_some :: "'a option list \<Rightarrow> 'a option" where
  "first_some [] = None"
| "first_some (None # xs) = first_some xs"
| "first_some (Some x # xs) = Some x"

fun as_ErrorCode :: "go_error \<Rightarrow> string option" where
  "as_ErrorCode (APIError c m) = Some c"
| "as_ErrorCode (WrapError m e) = as_ErrorCode e"
| "as_ErrorCode (WrapErrors m es) = first_some (map as_ErrorCode es)"
| "as_ErrorCode (JoinError es) = first_some (map as_ErrorCode es)"
| "as_ErrorCode (Sentinel s) = None"
| "as_ErrorCode (ErrorString m) = None"
| "as_ErrorCode (GoogleAPIError c m) = None"

fun as_googleapi :: "go_error \<Rightarrow> int option" where
  "as_googleapi (GoogleAPIError c m) = Some c"
| "as_googleapi (WrapError m e) = as_googleapi e"
| "as_googleapi (WrapErrors m es) = first_some (map as_googleapi es)"
| "as_googleapi (JoinError es) = first_some (map as_googleapi es)"
| "as_googleapi (Sentinel s) = None"
| "as_googleapi (ErrorString m) = None"
| "as_googleapi (APIError c m) = None"

section \<open>Joined errors in the processor\<close>

text \<open>
  \<open>countJoinedErrors\<close> and \<open>firstLeafError\<close>: every error type with \<open>Unwrap() []error\<close> is
  descended into, which includes a \<open>fmt.Errorf\<close> with several \<open>%w\<close> verbs.
\<close>

fun countErrors :: "go_error \<Rightarrow> nat" where
  "countErrors (JoinError es) = sum_list (map countErrors es)"
| "countErrors (WrapErrors m es) = sum_list (map countErrors es)"
| "countErrors (Sentinel s) = 1"
| "countErrors (ErrorString m) = 1"
| "countErrors (WrapError m e) = 1"
| "countErrors (APIError c m) = 1"
| "countErrors (GoogleAPIError c m) = 1"

definition countJoinedErrors :: "go_error option \<Rightarrow> nat" where
  "countJoinedErrors err = (case err of None \<Rightarrow> 0 | Some e \<Rightarrow> countErrors e)"

fun firstLeafError :: "go_error \<Rightarrow> go_error" where
  "firstLeafError (JoinError (e # es)) = firstLeafError e"
| "firstLeafError (WrapErrors m (e # es)) = firstLeafError e"
| "firstLeafError e = e"

definition fmtDBError :: "go_error \<Rightarrow> go_error option" where
  "fmtDBError err = errors_Join [Some (Sentinel errDatabaseBatch), Some err]"

section \<open>Rendering values\<close>

text \<open>
  \<open>golib\<close> gathers the library routines whose results the relay only stores or passes on:
  the JSON codec, SHA-256, URL parsing, the textual form of floats, times and composite
  values, the parsing of timestamps and the gRPC status code of an error. Definitions take
  it as an argument; the theorems hold for every choice.
\<close>

datatype grpc_code = InvalidArgument | OutOfRange | OtherCode nat

record url =
  url_Scheme :: string
  url_Host :: string
  url_Path :: string

record golib =
  fmt_Value :: "goval \<Rightarrow> string"
  time_Format :: "int \<Rightarrow> string"
  time_Parse :: "string \<Rightarrow> string \<Rightarrow> int option"
  json_Unmarshal :: "bytes \<Rightarrow> go_error + goval"
  json_Marshal :: "goval \<Rightarrow> go_error + bytes"
  sha256_hex :: "bytes \<Rightarrow> string"
  url_Parse :: "string \<Rightarrow> url option"
  status_Code :: "go_error \<Rightarrow> grpc_code"

text \<open>\<open>fmt.Sprint(v)\<close>, which for a single operand is the \<open>%v\<close> verb.\<close>

definition byte_list_text :: "bytes \<Rightarrow> string" where
  "byte_list_text bs = ''['' @ Join (map (\<lambda>c. dec_nat (of_char c)) bs) '' '' @ '']''"

fun fmt_Sprint :: "golib \<Rightarrow> goval \<Rightarrow> string" where
  "fmt_Sprint L GNil = ''<nil>''"
| "fmt_Sprint L (GBool b) = (if b then ''true'' else ''false'')"
| "fmt_Sprint L (GInt i) = Itoa i"
| "fmt_Sprint L (GInt32 i) = Itoa i"
| "fmt_Sprint L (GInt64 i) = Itoa i"
| "fmt_Sprint L (GString s) = s"
| "fmt_Sprint L (GBytes b) = byte_list_text b"
| "fmt_Sprint L v = fmt_Value L v"

text \<open>The \<open>%T\<close> verb.\<close>

fun type_name :: "goval \<Rightarrow> string" where
  "type_name GNil = ''<nil>''"
| "type_name (GBool b) = ''bool''"
| "type_name (GInt i) = ''int''"
| "type_name (GInt32 i) = ''int32''"
| "type_name (GInt64 i) = ''int64''"
| "type_name (GFloat64 f) = ''float64''"
| "type_name (GString s) = ''string''"
| "type_name (GBytes b) = ''[]uint8''"
| "type_name (GTime t) = ''time.Time''"
| "type_name (GSlice vs) = ''[]interface {}''"
| "type_name (GMap m) = ''map[string]interface {}''"

definition eventIDKey :: "golib \<Rightarrow> goval \<Rightarrow> string" where
  "eventIDKey L v = type_name v @ '':'' @ fmt_Sprint L v"

text \<open>
  The kinds a primary key can have without going through the rendering of floats, times or
  composite values.
\<close>

fun plain_id :: "goval \<Rightarrow> bool" where
  "plain_id (GFloat64 f) = False"
| "plain_id (GTime t) = False"
| "plain_id (GSlice vs) = False"
| "plain_id (GMap m) = False"
| "plain_id v = True"

section \<open>Lemmas\<close>

lemma map_filter_id_Some: "List.map_filter (\<lambda>e. e) (map Some xs) = xs"
  by (induction xs) (auto simp: List.map_filter_simps)

lemma errors_Join_None_iff [simp]: "errors_Join es = None \<longleftrightarrow> (\<forall>e. e \<in> set es \<longrightarrow> e = None)"
  by (induction es) (auto simp: errors_Join_def List.map_filter_simps split: option.splits list.splits)

lemma errors_Join_empty [simp]: "errors_Join [None, None] = None"
  by (simp add: errors_Join_def List.map_filter_simps)

lemma errors_Join_Some_right [simp]: "errors_Join [None, Some e] = Some (JoinError [e])"
  by (simp add: errors_Join_def List.map_filter_simps)

lemma errors_Join_Some_left [simp]: "errors_Join [Some e, None] = Some (JoinError [e])"
  by (simp add: errors_Join_def List.map_filter_simps)

lemma errors_Join_Some_both [simp]: "errors_Join [Some d, Some e] = Some (JoinError [d, e])"
  by (simp add: errors_Join_def List.map_filter_simps)

lemma is_err_simps [simp]: "is_err None s = False" "is_err (Some e) s = errors_Is e s"
  by (simp_all add: is_err_def)

lemma is_err_errors_Join: "is_err (errors_Join es) s \<longleftrightarrow> list_ex (\<lambda>e. is_err e s) es"
proof -
  have ex: "list_ex (\<lambda>e. errors_Is e s) (List.map_filter (\<lambda>e. e) es) = list_ex (\<lambda>e. is_err e s) es"
    by (induction es) (auto simp: List.map_filter_simps is_err_def split: option.splits)
  show ?thesis
  proof (cases "List.map_filter (\<lambda>e. e) es")
    case Nil
    with ex show ?thesis by (simp add: errors_Join_def)
  next
    case (Cons x xs)
    with ex show ?thesis by (simp add: errors_Join_def)
  qed
qed

lemma join_all_Nil [simp]: "join_all [] = None"
  by (simp add: join_all_def)

lemma join_all_snoc: "join_all (es @ [e]) = errors_Join [join_all es, Some e]"
  by (simp add: join_all_def)

lemma join_all_None_iff [simp]: "join_all es = None \<longleftrightarrow> es = []"
  by (cases es rule: rev_cases) (auto simp: join_all_snoc)

lemma is_err_join_all: "is_err (join_all es) s \<longleftrightarrow> (\<exists>e. e \<in> set es \<and> errors_Is e s)"
  by (induction es rule: rev_induct) (auto simp: join_all_snoc is_err_errors_Join)

lemma countJoinedErrors_join:
  "countJoinedErrors (errors_Join [d, e]) = countJoinedErrors d + countJoinedErrors e"
  by (cases d; cases e) (simp_all add: countJoinedErrors_def)

lemma countJoinedErrors_join_all:
  "countJoinedErrors (join_all es) = sum_list (map countErrors es)"
proof (induction es rule: rev_induct)
  case Nil
  then show ?case by (simp add: countJoinedErrors_def)
next
  case (snoc e es)
  then show ?case
    by (simp add: join_all_snoc countJoinedErrors_join) (simp add: countJoinedErrors_def)
qed

lemma fmtDBError_is: "is_err (fmtDBError e) s \<longleftrightarrow> s = errDatabaseBatch \<or> errors_Is e s"
  by (auto simp: fmtDBError_def)

lemma fmtDBError_some: "fmtDBError e = Some (JoinError [Sentinel errDatabaseBatch, e])"
  by (simp add: fmtDBError_def)

subsection \<open>Event ID keys identify event IDs\<close>

lemma type_name_no_colon: "CHR '':'' \<notin> set (type_name v)"
  by (cases v) auto

lemma dec_nat_chars: "c \<in> set (dec_nat n) \<Longrightarrow> (48 :: nat) \<le> of_char c \<and> (of_char c :: nat) \<le> 57"
proof (induction n arbitrary: c rule: dec_nat.induct)
  case (1 n)
  show ?case
  proof (cases "n < 10")
    case True
    with "1.prems" show ?thesis
      by (subst (asm) dec_nat.simps) (auto simp: of_char_digit_char)
  next
    case False
    with "1.prems" have "c \<in> set (dec_nat (n div 10)) \<or> c = digit_char (n mod 10)"
      by (subst (asm) dec_nat.simps) auto
    then show ?thesis using "1.IH"[OF False] of_char_digit_char[of "n mod 10"] by auto
  qed
qed

lemma dec_nat_no_space: "CHR '' '' \<notin> set (dec_nat n)"
proof
  assume "CHR '' '' \<in> set (dec_nat n)"
  then have "(48 :: nat) \<le> of_char (CHR '' '')" by (metis dec_nat_chars)
  then show False by simp
qed

lemma dec_nat_not_Nil [simp]: "dec_nat n \<noteq> []"
  by (subst dec_nat.simps) simp

lemma Split_append_sep: "sep \<notin> set p \<Longrightarrow> Split sep (p @ sep # s) = p # Split sep s"
  by (induction p) auto

lemma Split_no_occurrence: "sep \<notin> set p \<Longrightarrow> Split sep p = [p]"
  by (induction p) auto

lemma Split_Join:
  "xs \<noteq> [] \<Longrightarrow> \<forall>x. x \<in> set xs \<longrightarrow> sep \<notin> set x \<Longrightarrow> Split sep (Join xs [sep]) = xs"
  by (induction xs "[sep]" rule: Join.induct) (auto simp: Split_append_sep Split_no_occurrence)

lemma Join_eq_Nil_dec: "Join (map (\<lambda>c. dec_nat (of_char c)) bs) sep = [] \<longleftrightarrow> bs = []"
proof (cases bs)
  case Nil
  then show ?thesis by simp
next
  case (Cons b bs')
  then show ?thesis by (cases bs') auto
qed

lemma byte_list_text_inj: "byte_list_text a = byte_list_text b \<longleftrightarrow> a = b"
proof
  let ?f = "\<lambda>c. dec_nat (of_char (c :: char))"
  assume "byte_list_text a = byte_list_text b"
  then have j: "Join (map ?f a) '' '' = Join (map ?f b) '' ''"
    by (simp add: byte_list_text_def)
  have inj: "inj ?f" by (auto simp: inj_def dec_nat_inj)
  show "a = b"
  proof (cases "a = [] \<or> b = []")
    case True
    with j show ?thesis by (metis Join_eq_Nil_dec)
  next
    case False
    have "Split (CHR '' '') (Join (map ?f x) '' '') = map ?f x" if "x \<noteq> []" for x
      using that by (intro Split_Join) (auto simp: dec_nat_no_space)
    with False j have "map ?f a = map ?f b" by metis
    then show ?thesis using inj by (metis inj_map_eq_map)
  qed
qed simp

lemma append_colon_inj:
  assumes "CHR '':'' \<notin> set a" "CHR '':'' \<notin> set b" "a @ '':'' @ s = b @ '':'' @ t"
  shows "a = b \<and> s = t"
proof -
  have "takeWhile (\<lambda>c. c \<noteq> CHR '':'') (x @ '':'' @ u) = x" if "CHR '':'' \<notin> set x" for x u
  proof -
    have "\<forall>c\<in>set x. c \<noteq> CHR '':''" using that by auto
    then show ?thesis by (simp add: takeWhile_append2)
  qed
  with assms have "a = b" by metis
  with assms(3) show ?thesis by simp
qed

lemma eventIDKey_plain_inj:
  assumes "plain_id v" "plain_id w"
  shows "eventIDKey L v = eventIDKey L w \<longleftrightarrow> v = w"
proof
  assume "eventIDKey L v = eventIDKey L w"
  then have "type_name v = type_name w \<and> fmt_Sprint L v = fmt_Sprint L w"
    unfolding eventIDKey_def using append_colon_inj type_name_no_colon by metis
  with assms show "v = w"
    by (cases v; cases w) (auto simp: Itoa_inj byte_list_text_inj split: if_splits)
qed simp

section \<open>A sample library\<close>

text \<open>
  One concrete library, on which the examples of the other theories run: SHA-256 is replaced by
  a constant digest, every URL parses, no text is JSON.
\<close>

definition sample_lib :: golib where
  "sample_lib = \<lparr> fmt_Value = (\<lambda>_. ''value''), time_Format = (\<lambda>_. ''time''),
     time_Parse = (\<lambda>_ _. None),
     json_Unmarshal = (\<lambda>_. Inl (ErrorString ''invalid character'')),
     json_Marshal = (\<lambda>_. Inr ''{}''),
     sha256_hex = (\<lambda>_. replicate 64 (CHR ''a'')),
     url_Parse = (\<lambda>u. Some \<lparr> url_Scheme = ''https'', url_Host = ''host'', url_Path = ''/'' @ u \<rparr>),
     status_Code = (\<lambda>_. OtherCode 2) \<rparr>"

end
