(* ===== verification/Goroutines.thy ===== *)
theory Goroutines
  imports Go_Errors
begin

text \<open>
  Concurrent sender code as programs. A program is a finite tree of the actions a goroutine
  performs: it reports through a callback, waits for the send semaphore, releases it, calls
  the cloud client and continues with the answer, or forks a list of programs and joins
  their errors (\<open>provider.RunConcurrent\<close>). The answers come from outside, so a program has
  one run per sequence of answers and per interleaving.

  \<open>runs p tr d e\<close> says that \<open>tr\<close> is the trace of a complete run of \<open>p\<close> that returns
  the pair \<open>(d, e)\<close> of Go results (a \<open>bool\<close> and an \<open>error\<close>; code that returns only an error
  ignores the first). \<open>exec\<close> is the run under one deterministic scheduler with a stateful client;
  it is total, so every program returns under every client.
\<close>

section \<open>Programs and traces\<close>

datatype ('o, 'q, 'r) prog =
    Ret bool "go_error option"
  | Out 'o "('o, 'q, 'r) prog"
  | Acquire "go_error option \<Rightarrow> ('o, 'q, 'r) prog"
  | Release "('o, 'q, 'r) prog"
  | Call 'q "'r \<Rightarrow> ('o, 'q, 'r) prog"
  | Par "('o, 'q, 'r) prog list" "go_error option \<Rightarrow> ('o, 'q, 'r) prog"

text \<open>
  \<open>Acquire\<close> is the select between a free slot (answer \<^term>\<open>None\<close>) and a cancelled context
  (answer the context's error).
\<close>

datatype ('o, 'q, 'r) act =
    AOut 'o
  | AAcquire
  | ACtxDone go_error
  | ARelease
  | ACall 'q 'r

text \<open>
  Each goroutine of a fork interleaves with the others arbitrarily, and the errors reach the
  channel in any order: both are shuffles.
\<close>

inductive
  runs :: "('o, 'q, 'r) prog \<Rightarrow> ('o, 'q, 'r) act list \<Rightarrow> bool \<Rightarrow> go_error option \<Rightarrow> bool" and
  runs_par :: "('o, 'q, 'r) prog list \<Rightarrow> ('o, 'q, 'r) act list \<Rightarrow> go_error list \<Rightarrow> bool"
where
  runs_Ret: "runs (Ret d e) [] d e"
| runs_Out: "runs p tr d e \<Longrightarrow> runs (Out x p) (AOut x # tr) d e"
| runs_Acquire: "runs (f None) tr d e \<Longrightarrow> runs (Acquire f) (AAcquire # tr) d e"
| runs_CtxDone: "runs (f (Some err)) tr d e \<Longrightarrow> runs (Acquire f) (ACtxDone err # tr) d e"
| runs_Release: "runs p tr d e \<Longrightarrow> runs (Release p) (ARelease # tr) d e"
| runs_Call: "runs (f r) tr d e \<Longrightarrow> runs (Call q f) (ACall q r # tr) d e"
| runs_Par: "runs_par ps tr1 es \<Longrightarrow> runs (k (join_all es)) tr2 d e \<Longrightarrow>
     runs (Par ps k) (tr1 @ tr2) d e"
| par_Nil: "runs_par [] [] []"
| par_Cons: "runs p tr1 d e \<Longrightarrow> runs_par ps tr2 es \<Longrightarrow> tr \<in> shuffles tr1 tr2 \<Longrightarrow>
     es' \<in> shuffles (case e of None \<Rightarrow> [] | Some x \<Rightarrow> [x]) es \<Longrightarrow> runs_par (p # ps) tr es'"

inductive_simps runs_Ret_iff [simp]: "runs (Ret d e) tr d' e'"
inductive_simps runs_Out_iff: "runs (Out x p) tr d e"
inductive_simps runs_Acquire_iff: "runs (Acquire f) tr d e"
inductive_simps runs_Release_iff: "runs (Release p) tr d e"
inductive_simps runs_Call_iff: "runs (Call q f) tr d e"
inductive_simps runs_Par_iff: "runs (Par ps k) tr d e"
inductive_simps runs_par_Nil_iff [simp]: "runs_par [] tr es"
inductive_simps runs_par_Cons_iff: "runs_par (p # ps) tr es"

lemmas runs_iffs = runs_Out_iff runs_Acquire_iff runs_Release_iff runs_Call_iff runs_Par_iff

section \<open>Composing programs\<close>

primrec bind :: "('o, 'q, 'r) prog \<Rightarrow> (bool \<Rightarrow> go_error option \<Rightarrow> ('o, 'q, 'r) prog) \<Rightarrow> ('o, 'q, 'r) prog"
where
  "bind (Ret d e) f = f d e"
| "bind (Out x p) f = Out x (bind p f)"
| "bind (Acquire g) f = Acquire (\<lambda>a. bind (g a) f)"
| "bind (Release p) f = Release (bind p f)"
| "bind (Call q g) f = Call q (\<lambda>r. bind (g r) f)"
| "bind (Par ps k) f = Par ps (\<lambda>e. bind (k e) f)"

definition emit :: "'o list \<Rightarrow> ('o, 'q, 'r) prog \<Rightarrow> ('o, 'q, 'r) prog" where
  "emit xs p = foldr Out xs p"

text \<open>
  \<open>provider.RunConcurrent\<close>: one goroutine per item, every error joined in the order of the
  channel, no sibling cancelled.
\<close>

definition RunConcurrent :: "'a list \<Rightarrow> ('a \<Rightarrow> ('o, 'q, 'r) prog) \<Rightarrow> ('o, 'q, 'r) prog" where
  "RunConcurrent items run = Par (map run items) (\<lambda>joined. Ret False joined)"

lemma emit_Nil [simp]: "emit [] p = p"
  by (simp add: emit_def)

lemma emit_Cons [simp]: "emit (x # xs) p = Out x (emit xs p)"
  by (simp add: emit_def)

lemma runs_emit: "runs (emit xs p) tr d e \<longleftrightarrow> (\<exists>tr'. tr = map AOut xs @ tr' \<and> runs p tr' d e)"
  by (induction xs arbitrary: tr) (auto simp: runs_Out_iff)

lemma runs_bindI:
  "runs p tr1 d' e' \<Longrightarrow> runs (f d' e') tr2 d e \<Longrightarrow> runs (bind p f) (tr1 @ tr2) d e"
proof (induction p arbitrary: tr1)
  case (Acquire g)
  then show ?case by (auto simp: runs_Acquire_iff)
next
  case (Call q g)
  then show ?case by (auto simp: runs_Call_iff)
next
  case (Par ps k)
  from Par.prems(1) obtain t u es where
    t: "tr1 = t @ u" "runs_par ps t es" "runs (k (join_all es)) u d' e'"
    by (auto simp: runs_Par_iff)
  have "runs (bind (k (join_all es)) f) (u @ tr2) d e"
    using Par.IH(2)[OF rangeI t(3) Par.prems(2)] .
  with t(2) have "runs (bind (Par ps k) f) (t @ u @ tr2) d e" by (simp add: runs_Par)
  with t(1) show ?case by simp
qed (auto simp: runs_Out_iff runs_Release_iff)

lemma runs_bindD:
  "runs (bind p f) tr d e \<Longrightarrow>
     \<exists>tr1 tr2 d' e'. tr = tr1 @ tr2 \<and> runs p tr1 d' e' \<and> runs (f d' e') tr2 d e"
proof (induction p arbitrary: tr)
  case (Ret d' e')
  then have "tr = [] @ tr \<and> runs (Ret d' e' :: ('a, 'b, 'c) prog) [] d' e' \<and> runs (f d' e') tr d e"
    by simp
  then show ?case by blast
next
  case (Out x p)
  from Out.prems obtain t where t: "tr = AOut x # t" "runs (bind p f) t d e"
    by (auto simp: runs_Out_iff)
  from Out.IH[OF t(2)] t(1) show ?case by (metis append_Cons runs_Out)
next
  case (Acquire g)
  from Acquire.prems obtain a y t where t: "tr = y # t" "runs (bind (g a) f) t d e"
    "\<And>u d' e'. runs (g a) u d' e' \<Longrightarrow> runs (Acquire g) (y # u) d' e'"
    by (auto simp: runs_Acquire_iff)
  from Acquire.IH[OF rangeI t(2)] t(1,3) show ?case by (metis append_Cons)
next
  case (Release p)
  from Release.prems obtain t where t: "tr = ARelease # t" "runs (bind p f) t d e"
    by (auto simp: runs_Release_iff)
  from Release.IH[OF t(2)] t(1) show ?case by (metis append_Cons runs_Release)
next
  case (Call q g)
  from Call.prems obtain r t where t: "tr = ACall q r # t" "runs (bind (g r) f) t d e"
    by (auto simp: runs_Call_iff)
  from Call.IH[OF rangeI t(2)] t(1) show ?case by (metis append_Cons runs_Call)
next
  case (Par ps k)
  from Par.prems obtain t u es where
    t: "tr = t @ u" "runs_par ps t es" "runs (bind (k (join_all es)) f) u d e"
    by (auto simp: runs_Par_iff)
  from Par.IH(2)[OF rangeI t(3)] t(1,2) show ?case by (metis append.assoc runs_Par)
qed

lemma runs_bind:
  "runs (bind p f) tr d e \<longleftrightarrow>
     (\<exists>tr1 tr2 d' e'. tr = tr1 @ tr2 \<and> runs p tr1 d' e' \<and> runs (f d' e') tr2 d e)"
  using runs_bindI runs_bindD by metis

lemma runs_RunConcurrent:
  "runs (RunConcurrent items run) tr d e \<longleftrightarrow>
     (\<exists>es. runs_par (map run items) tr es \<and> d = False \<and> e = join_all es)"
  by (auto simp: RunConcurrent_def runs_Par_iff)

section \<open>Reasoning about every run\<close>

text \<open>
  \<open>always P p\<close>: every action of every run of \<open>p\<close> satisfies \<open>P\<close>. The rules decompose it along
  the program, so a property of all actions of a sender is proved by following its code.
\<close>

definition always :: "(('o, 'q, 'r) act \<Rightarrow> bool) \<Rightarrow> ('o, 'q, 'r) prog \<Rightarrow> bool" where
  "always P p \<longleftrightarrow> (\<forall>tr d e. runs p tr d e \<longrightarrow> list_all P tr)"

lemma alwaysI: "(\<And>tr d e. runs p tr d e \<Longrightarrow> list_all P tr) \<Longrightarrow> always P p"
  by (simp add: always_def)

lemma alwaysD: "always P p \<Longrightarrow> runs p tr d e \<Longrightarrow> list_all P tr"
  unfolding always_def by blast

lemma always_Ret [simp]: "always P (Ret d e)"
  by (simp add: always_def)

lemma always_Out: "P (AOut x) \<Longrightarrow> always P p \<Longrightarrow> always P (Out x p)"
  by (rule alwaysI) (auto simp: runs_Out_iff dest: alwaysD)

lemma always_emit: "list_all (\<lambda>x. P (AOut x)) xs \<Longrightarrow> always P p \<Longrightarrow> always P (emit xs p)"
  by (induction xs) (auto intro: always_Out)

lemma always_Acquire:
  assumes "P AAcquire" "\<And>x. P (ACtxDone x)" "\<And>a. always P (f a)"
  shows "always P (Acquire f)"
  using assms(1,2) by (intro alwaysI) (auto simp: runs_Acquire_iff dest: alwaysD[OF assms(3)])

lemma always_Release: "P ARelease \<Longrightarrow> always P p \<Longrightarrow> always P (Release p)"
  by (rule alwaysI) (auto simp: runs_Release_iff dest: alwaysD)

lemma always_Call:
  assumes "\<And>r. P (ACall q r)" "\<And>r. always P (f r)"
  shows "always P (Call q f)"
  using assms(1) by (intro alwaysI) (auto simp: runs_Call_iff dest: alwaysD[OF assms(2)])

lemma always_bind:
  assumes "always P p" "\<And>d e. always P (f d e)"
  shows "always P (bind p f)"
  by (intro alwaysI) (auto simp: runs_bind dest: alwaysD[OF assms(1)] alwaysD[OF assms(2)])

lemma runs_par_all:
  assumes "runs_par ps tr es" "\<And>p. p \<in> set ps \<Longrightarrow> always P p"
  shows "list_all P tr"
  using assms
proof (induction ps arbitrary: tr es)
  case Nil
  then show ?case by simp
next
  case (Cons p ps)
  from Cons.prems(1) obtain tr1 tr2 d e es' where
    r: "runs p tr1 d e" "runs_par ps tr2 es'" "tr \<in> shuffles tr1 tr2"
    by (auto simp: runs_par_Cons_iff)
  have "list_all P tr1" using r(1) Cons.prems(2)[of p] by (auto simp: always_def)
  moreover have "list_all P tr2" using Cons.IH[OF r(2)] Cons.prems(2) by simp
  ultimately show ?case using shuffles_set[OF r(3)] by (auto simp: list_all_iff)
qed

lemma always_Par:
  assumes "\<And>p. p \<in> set ps \<Longrightarrow> always P p" "\<And>e. always P (k e)"
  shows "always P (Par ps k)"
proof (rule alwaysI)
  fix tr d e
  assume "runs (Par ps k) tr d e"
  then obtain t u es where t: "tr = t @ u" "runs_par ps t es" "runs (k (join_all es)) u d e"
    by (auto simp: runs_Par_iff)
  show "list_all P tr" using runs_par_all[OF t(2) assms(1)] alwaysD[OF assms(2) t(3)] t(1) by simp
qed

lemma always_RunConcurrent:
  "(\<And>x. x \<in> set items \<Longrightarrow> always P (run x)) \<Longrightarrow> always P (RunConcurrent items run)"
  unfolding RunConcurrent_def by (rule always_Par) auto

lemmas always_intros = always_Out always_emit always_Acquire always_Release always_Call
  always_bind always_Par always_RunConcurrent

text \<open>
  The actions of one goroutine keep their order under interleaving: if the actions selected by
  \<open>P\<close> can only come from the program at position \<open>i\<close>, the selected part of the joint trace is the
  selected part of one run of that program.
\<close>

lemma filter_none: "list_all (\<lambda>a. \<not> P a) xs \<Longrightarrow> filter P xs = []"
  by (induction xs) auto

lemma runs_par_project:
  assumes "runs_par ps tr es" "i < length ps"
    "\<And>j. j < length ps \<Longrightarrow> j \<noteq> i \<Longrightarrow> always (\<lambda>a. \<not> P a) (ps ! j)"
  shows "\<exists>tr' d e. runs (ps ! i) tr' d e \<and> filter P tr = filter P tr'"
  using assms
proof (induction ps arbitrary: tr es i)
  case Nil
  then show ?case by simp
next
  case (Cons p ps)
  from Cons.prems(1) obtain tr1 tr2 d e es' where
    r: "runs p tr1 d e" "runs_par ps tr2 es'" "tr \<in> shuffles tr1 tr2"
    by (auto simp: runs_par_Cons_iff)
  have f: "filter P tr \<in> shuffles (filter P tr1) (filter P tr2)"
    using r(3) by (metis filter_shuffles imageI)
  show ?case
  proof (cases i)
    case 0
    have "always (\<lambda>a. \<not> P a) q" if q: "q \<in> set ps" for q
    proof -
      obtain j where "j < length ps" "ps ! j = q" using q by (auto simp: in_set_conv_nth)
      then show ?thesis using Cons.prems(3)[of "Suc j"] 0 by simp
    qed
    then have "filter P tr2 = []" using runs_par_all[OF r(2)] filter_none by blast
    with f r(1) 0 show ?thesis by auto
  next
    case (Suc i')
    have "always (\<lambda>a. \<not> P a) p" using Cons.prems(3)[of 0] Suc by simp
    then have "filter P tr1 = []" using r(1) filter_none by (auto simp: always_def)
    with f have eq: "filter P tr = filter P tr2" by simp
    have "always (\<lambda>a. \<not> P a) (ps ! j)" if "j < length ps" "j \<noteq> i'" for j
      using Cons.prems(3)[of "Suc j"] that Suc by simp
    then have "\<exists>tr' d e. runs (ps ! i') tr' d e \<and> filter P tr2 = filter P tr'"
      using Cons.prems(2) Suc by (intro Cons.IH[OF r(2)]) auto
    with eq Suc show ?thesis by auto
  qed
qed

text \<open>Every goroutine of a fork runs to completion, and its actions all appear.\<close>

lemma subseq_set: "subseq xs ys \<Longrightarrow> set xs \<subseteq> set ys"
  by (induction rule: list_emb.induct) auto

lemma shuffles_subseq: "zs \<in> shuffles xs ys \<Longrightarrow> subseq xs zs \<and> subseq ys zs"
proof (induction xs ys arbitrary: zs rule: shuffles.induct)
  case (3 x xs y ys)
  from "3.prems" consider
    (l) zs' where "zs = x # zs'" "zs' \<in> shuffles xs (y # ys)"
    | (r) zs' where "zs = y # zs'" "zs' \<in> shuffles (x # xs) ys"
    by auto
  then show ?case
  proof cases
    case l
    then show ?thesis using "3.IH"(1)[OF l(2)] by (metis list_emb_Cons subseq_Cons2)
  next
    case r
    then show ?thesis using "3.IH"(2)[OF r(2)] by (metis list_emb_Cons subseq_Cons2)
  qed
qed auto

lemma runs_par_member:
  assumes "runs_par ps tr es" "p \<in> set ps"
  shows "\<exists>tr' d e. runs p tr' d e \<and> subseq tr' tr \<and> (\<forall>x. e = Some x \<longrightarrow> x \<in> set es)"
  using assms
proof (induction ps arbitrary: tr es)
  case Nil
  then show ?case by simp
next
  case (Cons q ps)
  from Cons.prems(1) obtain tr1 tr2 d e es' where
    r: "runs q tr1 d e" "runs_par ps tr2 es'" "tr \<in> shuffles tr1 tr2"
      "es \<in> shuffles (case e of None \<Rightarrow> [] | Some x \<Rightarrow> [x]) es'"
    by (auto simp: runs_par_Cons_iff)
  have sub: "subseq tr1 tr" "subseq tr2 tr"
    using shuffles_subseq[OF r(3)] by auto
  show ?case
  proof (cases "p = q")
    case True
    then show ?thesis using r sub(1) shuffles_set[OF r(4)] by auto
  next
    case False
    then obtain tr' d' e' where t: "runs p tr' d' e'" "subseq tr' tr2" "\<forall>x. e' = Some x \<longrightarrow> x \<in> set es'"
      using Cons.IH[OF r(2)] Cons.prems(2) by auto
    have "subseq tr' tr" using t(2) sub(2) by (rule subseq_order.trans)
    moreover have "\<forall>x. e' = Some x \<longrightarrow> x \<in> set es" using t(3) shuffles_set[OF r(4)] by auto
    ultimately show ?thesis using t(1) by blast
  qed
qed

text \<open>Where every action of a joint trace comes from.\<close>

lemma runs_par_origin:
  assumes "runs_par ps tr es" "a \<in> set tr"
  shows "\<exists>p tr' d e. p \<in> set ps \<and> runs p tr' d e \<and> a \<in> set tr' \<and> subseq tr' tr \<and>
     (\<forall>x. e = Some x \<longrightarrow> x \<in> set es)"
  using assms
proof (induction ps arbitrary: tr es)
  case Nil
  then show ?case by simp
next
  case (Cons q ps)
  from Cons.prems(1) obtain tr1 tr2 d e es' where
    r: "runs q tr1 d e" "runs_par ps tr2 es'" "tr \<in> shuffles tr1 tr2"
      "es \<in> shuffles (case e of None \<Rightarrow> [] | Some x \<Rightarrow> [x]) es'"
    by (auto simp: runs_par_Cons_iff)
  have sub: "subseq tr1 tr" "subseq tr2 tr"
    using shuffles_subseq[OF r(3)] by auto
  have "a \<in> set tr1 \<or> a \<in> set tr2" using Cons.prems(2) shuffles_set[OF r(3)] by auto
  then show ?case
  proof
    assume "a \<in> set tr1"
    then show ?thesis using r(1) sub(1) shuffles_set[OF r(4)] by auto
  next
    assume "a \<in> set tr2"
    then obtain p tr' d' e' where
      t: "p \<in> set ps" "runs p tr' d' e'" "a \<in> set tr'" "subseq tr' tr2" "\<forall>x. e' = Some x \<longrightarrow> x \<in> set es'"
      using Cons.IH[OF r(2)] by blast
    have "subseq tr' tr" using t(4) sub(2) by (rule subseq_order.trans)
    moreover have "\<forall>x. e' = Some x \<longrightarrow> x \<in> set es" using t(5) shuffles_set[OF r(4)] by auto
    ultimately show ?thesis using t(1-3) by auto
  qed
qed

section \<open>One deterministic schedule\<close>

type_synonym ('o, 'q, 'r, 'w) outcome = "(('o, 'q, 'r) act list \<times> bool \<times> go_error option) \<times> 'w"

primrec exec_all ::
  "('w \<Rightarrow> ('o, 'q, 'r, 'w) outcome) list \<Rightarrow> 'w \<Rightarrow> (('o, 'q, 'r) act list \<times> go_error list) \<times> 'w"
where
  "exec_all [] w = (([], []), w)"
| "exec_all (g # gs) w =
     (case g w of ((tr1, d, e), w1) \<Rightarrow>
        (case exec_all gs w1 of ((tr2, es), w2) \<Rightarrow>
           ((tr1 @ tr2, (case e of None \<Rightarrow> [] | Some x \<Rightarrow> [x]) @ es), w2)))"

primrec exec ::
  "('q \<Rightarrow> 'w \<Rightarrow> 'r \<times> 'w) \<Rightarrow> ('o, 'q, 'r) prog \<Rightarrow> 'w \<Rightarrow> ('o, 'q, 'r, 'w) outcome"
where
  "exec client (Ret d e) w = (([], d, e), w)"
| "exec client (Out x p) w = (case exec client p w of ((tr, d, e), w') \<Rightarrow> ((AOut x # tr, d, e), w'))"
| "exec client (Acquire f) w =
     (case exec client (f None) w of ((tr, d, e), w') \<Rightarrow> ((AAcquire # tr, d, e), w'))"
| "exec client (Release p) w =
     (case exec client p w of ((tr, d, e), w') \<Rightarrow> ((ARelease # tr, d, e), w'))"
| "exec client (Call q f) w =
     (case client q w of (r, w1) \<Rightarrow>
        (case exec client (f r) w1 of ((tr, d, e), w2) \<Rightarrow> ((ACall q r # tr, d, e), w2)))"
| "exec client (Par ps k) w =
     (case exec_all (map (exec client) ps) w of ((tr1, es), w1) \<Rightarrow>
        (case exec client (k (join_all es)) w1 of ((tr2, d, e), w2) \<Rightarrow> ((tr1 @ tr2, d, e), w2)))"

lemma append_in_shuffles: "xs @ ys \<in> shuffles xs ys"
  by (induction xs arbitrary: ys) (auto simp: Cons_in_shuffles_iff)

lemma exec_all_runs:
  assumes "\<And>p w tr d e w'. p \<in> set ps \<Longrightarrow> exec client p w = ((tr, d, e), w') \<Longrightarrow> runs p tr d e"
    and "exec_all (map (exec client) ps) w = ((tr, es), w')"
  shows "runs_par ps tr es"
  using assms
proof (induction ps arbitrary: w tr es w')
  case Nil
  then show ?case by simp
next
  case (Cons p ps)
  obtain tr1 d e w1 where g: "exec client p w = ((tr1, d, e), w1)" by (metis prod_cases4 surj_pair)
  obtain tr2 es2 w2 where gs: "exec_all (map (exec client) ps) w1 = ((tr2, es2), w2)"
    by (metis surj_pair)
  have "runs p tr1 d e" using Cons.prems(1)[OF _ g] by simp
  moreover have "runs_par ps tr2 es2" using Cons.IH[OF Cons.prems(1) gs] by simp
  moreover have "tr = tr1 @ tr2" "es = (case e of None \<Rightarrow> [] | Some x \<Rightarrow> [x]) @ es2"
    using Cons.prems(2) g gs by auto
  ultimately show ?case by (auto intro: par_Cons append_in_shuffles)
qed

theorem exec_runs: "exec client p w = ((tr, d, e), w') \<Longrightarrow> runs p tr d e"
proof (induction p arbitrary: w tr d e w')
  case (Par ps k)
  obtain tr1 es w1 where a: "exec_all (map (exec client) ps) w = ((tr1, es), w1)"
    by (metis surj_pair)
  obtain tr2 w2 where b: "exec client (k (join_all es)) w1 = ((tr2, d, e), w2)" "tr = tr1 @ tr2"
    using Par.prems a by (auto split: prod.splits)
  have "runs_par ps tr1 es" using exec_all_runs[OF _ a] Par.IH(1) by blast
  moreover have "runs (k (join_all es)) tr2 d e" using Par.IH(2) b(1) by blast
  ultimately show ?case using b(2) by (auto intro: runs_Par)
qed (auto split: prod.splits intro: runs_runs_par.intros)

text \<open>Every program returns, whatever the client answers.\<close>

lemma exec_total: "\<exists>tr d e w'. exec client p w = ((tr, d, e), w') \<and> runs p tr d e"
proof -
  obtain tr d e w' where x: "exec client p w = ((tr, d, e), w')" by (metis prod_cases4 surj_pair)
  with exec_runs[OF x] show ?thesis by blast
qed

section \<open>Semaphore slots\<close>

text \<open>
  The number of slots held after a trace, and the traces in which a slot is only released after
  it was acquired and all are returned at the end.
\<close>

fun slot_delta :: "('o, 'q, 'r) act \<Rightarrow> int" where
  "slot_delta AAcquire = 1"
| "slot_delta ARelease = -1"
| "slot_delta _ = 0"

definition slots_held :: "('o, 'q, 'r) act list \<Rightarrow> int" where
  "slots_held tr = sum_list (map slot_delta tr)"

definition slots_balanced :: "('o, 'q, 'r) act list \<Rightarrow> bool" where
  "slots_balanced tr \<longleftrightarrow> slots_held tr = 0 \<and> (\<forall>n. 0 \<le> slots_held (take n tr))"

lemma slots_held_Nil [simp]: "slots_held [] = 0"
  by (simp add: slots_held_def)

lemma slots_held_Cons [simp]: "slots_held (a # tr) = slot_delta a + slots_held tr"
  by (simp add: slots_held_def)

lemma slots_held_append [simp]: "slots_held (tr @ tr') = slots_held tr + slots_held tr'"
  by (simp add: slots_held_def)

lemma slots_held_outs [simp]: "slots_held (map AOut xs) = 0"
  by (induction xs) auto

lemma slots_balanced_Nil [simp]: "slots_balanced []"
  by (simp add: slots_balanced_def)

lemma slots_balanced_append:
  "slots_balanced tr \<Longrightarrow> slots_balanced tr' \<Longrightarrow> slots_balanced (tr @ tr')"
  by (simp add: slots_balanced_def)

lemma shuffle_take:
  assumes "zs \<in> shuffles xs ys"
  shows "\<exists>i j. take n zs \<in> shuffles (take i xs) (take j ys)"
  using assms
proof (induction xs ys arbitrary: zs n rule: shuffles.induct)
  case (1 ys)
  then show ?case by auto
next
  case (2 xs)
  then show ?case by auto
next
  case (3 x xs y ys)
  show ?case
  proof (cases n)
    case 0
    have "take n zs \<in> shuffles (take 0 (x # xs)) (take 0 (y # ys))" using 0 by simp
    then show ?thesis by blast
  next
    case (Suc m)
    from "3.prems" consider
      (l) zs' where "zs = x # zs'" "zs' \<in> shuffles xs (y # ys)"
      | (r) zs' where "zs = y # zs'" "zs' \<in> shuffles (x # xs) ys"
      by auto
    then show ?thesis
    proof cases
      case l
      obtain i j where "take m zs' \<in> shuffles (take i xs) (take j (y # ys))"
        using "3.IH"(1)[OF l(2)] by blast
      then have "x # take m zs' \<in> shuffles (x # take i xs) (take j (y # ys))"
        by (rule Cons_in_shuffles_leftI)
      then have "take n zs \<in> shuffles (take (Suc i) (x # xs)) (take j (y # ys))" using l Suc by simp
      then show ?thesis by blast
    next
      case r
      obtain i j where "take m zs' \<in> shuffles (take i (x # xs)) (take j ys)"
        using "3.IH"(2)[OF r(2)] by blast
      then have "y # take m zs' \<in> shuffles (take i (x # xs)) (y # take j ys)"
        by (rule Cons_in_shuffles_rightI)
      then have "take n zs \<in> shuffles (take i (x # xs)) (take (Suc j) (y # ys))" using r Suc by simp
      then show ?thesis by blast
    qed
  qed
qed

lemma slots_held_shuffle: "zs \<in> shuffles xs ys \<Longrightarrow> slots_held zs = slots_held xs + slots_held ys"
proof -
  assume "zs \<in> shuffles xs ys"
  then have "mset zs = mset xs + mset ys" by (rule shuffles_mset)
  then have "sum_mset (image_mset slot_delta (mset zs)) =
      sum_mset (image_mset slot_delta (mset xs)) + sum_mset (image_mset slot_delta (mset ys))"
    by simp
  then show ?thesis by (simp add: slots_held_def flip: sum_mset_sum_list mset_map)
qed

lemma slots_balanced_shuffle:
  assumes "zs \<in> shuffles xs ys" "slots_balanced xs" "slots_balanced ys"
  shows "slots_balanced zs"
  unfolding slots_balanced_def
proof (intro conjI allI)
  show "slots_held zs = 0"
    using slots_held_shuffle[OF assms(1)] assms(2,3) by (simp add: slots_balanced_def)
next
  fix n
  obtain i j where "take n zs \<in> shuffles (take i xs) (take j ys)"
    using shuffle_take[OF assms(1)] by blast
  then show "0 \<le> slots_held (take n zs)"
    using slots_held_shuffle assms(2,3) by (fastforce simp: slots_balanced_def)
qed

text \<open>A program is balanced when each of its runs is.\<close>

definition balanced :: "('o, 'q, 'r) prog \<Rightarrow> bool" where
  "balanced p \<longleftrightarrow> (\<forall>tr d e. runs p tr d e \<longrightarrow> slots_balanced tr)"

lemma balancedI: "(\<And>tr d e. runs p tr d e \<Longrightarrow> slots_balanced tr) \<Longrightarrow> balanced p"
  by (simp add: balanced_def)

lemma balancedD: "balanced p \<Longrightarrow> runs p tr d e \<Longrightarrow> slots_balanced tr"
  unfolding balanced_def by blast

lemma slots_balanced_neutral: "slot_delta a = 0 \<Longrightarrow> slots_balanced tr \<Longrightarrow> slots_balanced (a # tr)"
  using slots_balanced_append[of "[a]" tr]
  by (simp add: slots_balanced_def take_Cons split: nat.splits)

lemma balanced_Ret [simp]: "balanced (Ret d e)"
  by (simp add: balanced_def)

lemma balanced_Out: "balanced p \<Longrightarrow> balanced (Out x p)"
  by (rule balancedI) (auto simp: runs_Out_iff intro!: slots_balanced_neutral dest: balancedD)

lemma balanced_emit: "balanced p \<Longrightarrow> balanced (emit xs p)"
  by (induction xs) (auto intro: balanced_Out)

lemma balanced_Call:
  assumes "\<And>r. balanced (f r)"
  shows "balanced (Call q f)"
  by (rule balancedI) (auto simp: runs_Call_iff intro!: slots_balanced_neutral dest: balancedD[OF assms])

lemma balanced_bind:
  assumes "balanced p" "\<And>d e. balanced (f d e)"
  shows "balanced (bind p f)"
  by (rule balancedI)
    (auto simp: runs_bind intro!: slots_balanced_append dest: balancedD[OF assms(1)] balancedD[OF assms(2)])

lemma runs_par_balanced:
  "runs_par ps tr es \<Longrightarrow> (\<And>p. p \<in> set ps \<Longrightarrow> balanced p) \<Longrightarrow> slots_balanced tr"
proof (induction ps arbitrary: tr es)
  case Nil
  then show ?case by simp
next
  case (Cons p ps)
  from Cons.prems(1) obtain tr1 tr2 d e es' where
    r: "runs p tr1 d e" "runs_par ps tr2 es'" "tr \<in> shuffles tr1 tr2"
    by (auto simp: runs_par_Cons_iff)
  have "slots_balanced tr1" using r(1) Cons.prems(2)[of p] by (auto simp: balanced_def)
  moreover have "slots_balanced tr2" using Cons.IH[OF r(2)] Cons.prems(2) by simp
  ultimately show ?case using r(3) slots_balanced_shuffle by blast
qed

lemma balanced_RunConcurrent:
  "(\<And>x. x \<in> set items \<Longrightarrow> balanced (run x)) \<Longrightarrow> balanced (RunConcurrent items run)"
  by (rule balancedI) (auto simp: runs_RunConcurrent elim!: runs_par_balanced)

text \<open>
  The pattern of \<open>sendSQSBatchWithSemaphore\<close>: a body that touches no slot runs between an
  acquire and the deferred release.
\<close>

lemma balanced_with_slot:
  assumes "always (\<lambda>a. slot_delta a = 0) p"
  shows "balanced (Acquire (\<lambda>a. case a of Some err \<Rightarrow> Ret False (Some err)
           | None \<Rightarrow> bind p (\<lambda>d e. Release (Ret d e))))"
  unfolding balanced_def
proof (intro allI impI)
  fix tr d e
  assume "runs (Acquire (\<lambda>a. case a of Some err \<Rightarrow> Ret False (Some err)
           | None \<Rightarrow> bind p (\<lambda>d e. Release (Ret d e)))) tr d e"
  then consider (slot) body where "tr = AAcquire # body @ [ARelease]" "list_all (\<lambda>a. slot_delta a = 0) body"
    | (ctx) err where "tr = [ACtxDone err]"
    by (auto simp: runs_Acquire_iff runs_bind runs_Release_iff dest: alwaysD[OF assms])
  then show "slots_balanced tr"
  proof cases
    case slot
    have zero: "slots_held xs = 0" if "list_all (\<lambda>a. slot_delta a = 0) xs" for xs :: "('a, 'b, 'c) act list"
      using that by (induction xs) auto
    have held: "slots_held (take n body) = 0" for n
      using slot(2) by (intro zero) (auto simp: list_all_iff dest: in_set_takeD)
    have "slots_held body = 0" using held[of "length body"] by simp
    moreover have "0 \<le> slots_held (take n (body @ [ARelease])) + 1" for n
      using held[of n] by (cases "n - length body") auto
    ultimately show ?thesis
      using slot(1) by (simp add: slots_balanced_def take_Cons add.commute split: nat.split)
  next
    case ctx
    then show ?thesis by (simp add: slots_balanced_def take_Cons split: nat.splits)
  qed
qed

section \<open>Order of actions\<close>

text \<open>
  \<open>precedes A B tr\<close>: no action satisfying \<open>B\<close> happens before one satisfying \<open>A\<close>. \<open>H\<close> is what is
  assumed of every single action (for example of the answers of a service).
\<close>

fun precedes :: "('a \<Rightarrow> bool) \<Rightarrow> ('a \<Rightarrow> bool) \<Rightarrow> 'a list \<Rightarrow> bool" where
  "precedes A B [] = True"
| "precedes A B (a # tr) = (\<not> B a \<and> (A a \<or> precedes A B tr))"

lemma precedes_iff:
  "precedes A B tr \<longleftrightarrow> (\<forall>us b vs. tr = us @ b # vs \<longrightarrow> B b \<longrightarrow> (\<exists>a. a \<in> set us \<and> A a))"
proof (induction tr)
  case Nil
  then show ?case by simp
next
  case (Cons x tr)
  show ?case
  proof (intro iffI allI impI)
    fix us b vs
    assume "precedes A B (x # tr)" and eq: "x # tr = us @ b # vs" and "B b"
    then show "\<exists>a. a \<in> set us \<and> A a" using Cons.IH by (cases us) (auto, metis)
  next
    assume all: "\<forall>us b vs. x # tr = us @ b # vs \<longrightarrow> B b \<longrightarrow> (\<exists>a. a \<in> set us \<and> A a)"
    have "\<not> B x" using all[rule_format, of "[]" x tr] by auto
    moreover have "precedes A B tr" if "\<not> A x"
      unfolding Cons.IH using all[rule_format, of "x # us" b vs for us b vs] that by fastforce
    ultimately show "precedes A B (x # tr)" by auto
  qed
qed

lemma precedes_append:
  "precedes A B (tr @ tr') \<longleftrightarrow> precedes A B tr \<and> ((\<exists>a. a \<in> set tr \<and> A a) \<or> precedes A B tr')"
  by (induction tr) auto

lemma precedes_never: "list_all (\<lambda>a. \<not> B a) tr \<Longrightarrow> precedes A B tr"
  by (induction tr) auto

lemma precedes_shuffle:
  "zs \<in> shuffles xs ys \<Longrightarrow> precedes A B xs \<Longrightarrow> precedes A B ys \<Longrightarrow> precedes A B zs"
proof (induction xs ys arbitrary: zs rule: shuffles.induct)
  case (3 x xs y ys)
  from "3.prems"(1) consider
    (l) zs' where "zs = x # zs'" "zs' \<in> shuffles xs (y # ys)"
    | (r) zs' where "zs = y # zs'" "zs' \<in> shuffles (x # xs) ys"
    by auto
  then show ?case
  proof cases
    case l
    then show ?thesis using "3.IH"(1)[OF l(2)] "3.prems"(2,3) by auto
  next
    case r
    then show ?thesis using "3.IH"(2)[OF r(2)] "3.prems"(2,3) by auto
  qed
qed auto

definition ordered ::
  "(('o, 'q, 'r) act \<Rightarrow> bool) \<Rightarrow> (('o, 'q, 'r) act \<Rightarrow> bool) \<Rightarrow> (('o, 'q, 'r) act \<Rightarrow> bool) \<Rightarrow> ('o, 'q, 'r) prog \<Rightarrow> bool"
where
  "ordered H A B p \<longleftrightarrow> (\<forall>tr d e. runs p tr d e \<longrightarrow> list_all H tr \<longrightarrow> precedes A B tr)"

lemma orderedI:
  "(\<And>tr d e. runs p tr d e \<Longrightarrow> list_all H tr \<Longrightarrow> precedes A B tr) \<Longrightarrow> ordered H A B p"
  by (simp add: ordered_def)

lemma orderedD: "ordered H A B p \<Longrightarrow> runs p tr d e \<Longrightarrow> list_all H tr \<Longrightarrow> precedes A B tr"
  unfolding ordered_def by blast

lemma ordered_never: "always (\<lambda>a. \<not> B a) p \<Longrightarrow> ordered H A B p"
  by (intro orderedI precedes_never) (rule alwaysD)

lemma ordered_emit:
  assumes "\<And>x. x \<in> set xs \<Longrightarrow> \<not> B (AOut x)" "(\<exists>x. x \<in> set xs \<and> A (AOut x)) \<or> ordered H A B p"
  shows "ordered H A B (emit xs p)"
proof (rule orderedI)
  fix tr d e
  assume "runs (emit xs p) tr d e" "list_all H tr"
  then obtain t where t: "tr = map AOut xs @ t" "runs p t d e" "list_all H t" by (auto simp: runs_emit)
  have "precedes A B (map AOut xs)" by (rule precedes_never) (auto simp: list_all_iff assms(1))
  then show "precedes A B tr" using t assms(2) by (auto simp: precedes_append dest: orderedD)
qed

lemma ordered_Out:
  "\<not> B (AOut x) \<Longrightarrow> A (AOut x) \<or> ordered H A B p \<Longrightarrow> ordered H A B (Out x p)"
  using ordered_emit[of "[x]" B A H p] by simp

lemma ordered_Call:
  assumes "\<And>r. \<not> B (ACall q r)" "\<And>r. ordered H A B (f r)"
  shows "ordered H A B (Call q f)"
  using assms(1) by (intro orderedI) (auto simp: runs_Call_iff intro: orderedD[OF assms(2)])

lemma ordered_bind:
  assumes "always (\<lambda>a. \<not> B a) p"
    "\<And>tr d e. runs p tr d e \<Longrightarrow> list_all H tr \<Longrightarrow> (\<exists>a. a \<in> set tr \<and> A a) \<or> ordered H A B (f d e)"
  shows "ordered H A B (bind p f)"
proof (rule orderedI)
  fix tr d e
  assume "runs (bind p f) tr d e" "list_all H tr"
  then obtain t u d' e' where t: "tr = t @ u" "runs p t d' e'" "runs (f d' e') u d e" "list_all H t" "list_all H u"
    by (auto simp: runs_bind)
  have "precedes A B t" by (rule precedes_never) (rule alwaysD[OF assms(1) t(2)])
  then show "precedes A B tr"
    using assms(2)[OF t(2,4)] t orderedD[of H A B "f d' e'"] by (auto simp: precedes_append)
qed

lemma runs_par_precedes:
  assumes "runs_par ps tr es" "\<And>p. p \<in> set ps \<Longrightarrow> ordered H A B p" "list_all H tr"
  shows "precedes A B tr"
  using assms
proof (induction ps arbitrary: tr es)
  case Nil
  then show ?case by simp
next
  case (Cons p ps)
  from Cons.prems(1) obtain tr1 tr2 d e es' where
    r: "runs p tr1 d e" "runs_par ps tr2 es'" "tr \<in> shuffles tr1 tr2"
    by (auto simp: runs_par_Cons_iff)
  have H: "list_all H tr1" "list_all H tr2"
    using Cons.prems(3) shuffles_set[OF r(3)] by (auto simp: list_all_iff)
  have "precedes A B tr1" using orderedD[OF Cons.prems(2) r(1) H(1)] by simp
  moreover have "precedes A B tr2" using Cons.IH[OF r(2) Cons.prems(2) H(2)] by simp
  ultimately show ?case using r(3) precedes_shuffle by blast
qed

lemma ordered_RunConcurrent:
  assumes "\<And>x. x \<in> set items \<Longrightarrow> ordered H A B (run x)"
  shows "ordered H A B (RunConcurrent items run)"
proof (rule orderedI)
  fix tr d e
  assume "runs (RunConcurrent items run) tr d e" and H: "list_all H tr"
  then obtain es where "runs_par (map run items) tr es" by (auto simp: runs_RunConcurrent)
  then show "precedes A B tr" by (rule runs_par_precedes) (use assms H in auto)
qed

section \<open>What a run without error has done\<close>

text \<open>\<open>achieves H G p\<close>: a run of \<open>p\<close> that returns no error contains an action satisfying \<open>G\<close>.\<close>

definition achieves ::
  "(('o, 'q, 'r) act \<Rightarrow> bool) \<Rightarrow> (('o, 'q, 'r) act \<Rightarrow> bool) \<Rightarrow> ('o, 'q, 'r) prog \<Rightarrow> bool"
where
  "achieves H G p \<longleftrightarrow> (\<forall>tr d. runs p tr d None \<longrightarrow> list_all H tr \<longrightarrow> (\<exists>a. a \<in> set tr \<and> G a))"

lemma achievesI:
  "(\<And>tr d. runs p tr d None \<Longrightarrow> list_all H tr \<Longrightarrow> \<exists>a. a \<in> set tr \<and> G a) \<Longrightarrow> achieves H G p"
  by (simp add: achieves_def)

lemma achievesD: "achieves H G p \<Longrightarrow> runs p tr d None \<Longrightarrow> list_all H tr \<Longrightarrow> \<exists>a. a \<in> set tr \<and> G a"
  unfolding achieves_def by blast

lemma achieves_emit:
  "(\<exists>x. x \<in> set xs \<and> G (AOut x)) \<or> achieves H G p \<Longrightarrow> achieves H G (emit xs p)"
  by (rule achievesI) (fastforce simp: runs_emit dest: achievesD)

lemma achieves_Out: "G (AOut x) \<or> achieves H G p \<Longrightarrow> achieves H G (Out x p)"
  using achieves_emit[of "[x]" G H p] by simp

lemma achieves_Call:
  assumes "\<And>r. achieves H G (f r)"
  shows "achieves H G (Call q f)"
proof (rule achievesI)
  fix tr d
  assume "runs (Call q f) tr d None" "list_all H tr"
  then obtain r t where "tr = ACall q r # t" "runs (f r) t d None" "list_all H t" by (auto simp: runs_Call_iff)
  with achievesD[OF assms] show "\<exists>a. a \<in> set tr \<and> G a" by (meson list.set_intros(2))
qed

lemma achieves_error: "achieves H G (Ret d (Some e))"
  by (rule achievesI) simp

lemma achieves_bind:
  assumes "\<And>tr d e. runs p tr d e \<Longrightarrow> list_all H tr \<Longrightarrow> (\<exists>a. a \<in> set tr \<and> G a) \<or> achieves H G (f d e)"
  shows "achieves H G (bind p f)"
proof (rule achievesI)
  fix tr d
  assume "runs (bind p f) tr d None" "list_all H tr"
  then obtain t u d' e' where t: "tr = t @ u" "runs p t d' e'" "runs (f d' e') u d None" "list_all H t" "list_all H u"
    by (auto simp: runs_bind)
  then show "\<exists>a. a \<in> set tr \<and> G a" using assms[OF t(2,4)] achievesD[of H G "f d' e'"] by auto
qed

lemma achieves_RunConcurrent:
  assumes "x \<in> set items" "achieves H G (run x)"
  shows "achieves H G (RunConcurrent items run)"
proof (rule achievesI)
  fix tr d
  assume "runs (RunConcurrent items run) tr d None" and H: "list_all H tr"
  then obtain es where es: "runs_par (map run items) tr es" "es = []"
    by (metis runs_RunConcurrent join_all_None_iff)
  have "run x \<in> set (map run items)" using assms(1) by simp
  from runs_par_member[OF es(1) this] es(2) obtain t d' where
    t: "runs (run x) t d' None" "subseq t tr" by (metis list.set(1) not_None_eq empty_iff)
  then have "list_all H t" using H subseq_set[OF t(2)] by (auto simp: list_all_iff)
  then show "\<exists>a. a \<in> set tr \<and> G a" using achievesD[OF assms(2) t(1)] subseq_set[OF t(2)] by blast
qed

section \<open>Justified outputs\<close>

text \<open>
  A judgement \<open>J A x\<close> says that the actions \<open>A\<close> justify the output \<open>x\<close>. When more actions
  never take a justification away, the justification of a program follows from its parts,
  whatever runs beside them.
\<close>

definition explained :: "(('o, 'q, 'r) act set \<Rightarrow> 'o \<Rightarrow> bool) \<Rightarrow> ('o, 'q, 'r) prog \<Rightarrow> bool" where
  "explained J p \<longleftrightarrow> (\<forall>tr d e x. runs p tr d e \<longrightarrow> AOut x \<in> set tr \<longrightarrow> J (set tr) x)"

lemma explainedI: "(\<And>tr d e x. runs p tr d e \<Longrightarrow> AOut x \<in> set tr \<Longrightarrow> J (set tr) x) \<Longrightarrow> explained J p"
  by (simp add: explained_def)

lemma explainedD: "explained J p \<Longrightarrow> runs p tr d e \<Longrightarrow> AOut x \<in> set tr \<Longrightarrow> J (set tr) x"
  unfolding explained_def by blast

locale justification =
  fixes J :: "('o, 'q, 'r) act set \<Rightarrow> 'o \<Rightarrow> bool"
  assumes J_mono: "A \<subseteq> B \<Longrightarrow> J A x \<Longrightarrow> J B x"
begin

lemma explained_Ret [simp]: "explained J (Ret d e)"
  by (simp add: explained_def)

lemma explained_emit:
  assumes "\<And>x. x \<in> set xs \<Longrightarrow> J {} x" "explained J p"
  shows "explained J (emit xs p)"
proof (rule explainedI)
  fix tr d e x
  assume "runs (emit xs p) tr d e" and x: "AOut x \<in> set tr"
  then obtain t where t: "tr = map AOut xs @ t" "runs p t d e" by (auto simp: runs_emit)
  show "J (set tr) x"
  proof (cases "x \<in> set xs")
    case True
    then show ?thesis using assms(1) J_mono by blast
  next
    case False
    with x t(1) have "AOut x \<in> set t" by auto
    then have "J (set t) x" using explainedD[OF assms(2) t(2)] by blast
    then show ?thesis using J_mono[of "set t" "set tr"] t(1) by auto
  qed
qed

lemma explained_bind:
  assumes "explained J p" "\<And>d e. explained J (f d e)"
  shows "explained J (bind p f)"
proof (rule explainedI)
  fix tr d e x
  assume "runs (bind p f) tr d e" and x: "AOut x \<in> set tr"
  then obtain t u d' e' where t: "tr = t @ u" "runs p t d' e'" "runs (f d' e') u d e"
    by (auto simp: runs_bind)
  have "J (set t) x \<or> J (set u) x"
    using x t explainedD[OF assms(1) t(2)] explainedD[OF assms(2) t(3)] by auto
  then show "J (set tr) x" using J_mono[of "set t" "set tr"] J_mono[of "set u" "set tr"] t(1) by auto
qed

lemma explained_Acquire:
  assumes "\<And>a. explained J (f a)"
  shows "explained J (Acquire f)"
proof (rule explainedI)
  fix tr d e x
  assume "runs (Acquire f) tr d e" and x: "AOut x \<in> set tr"
  then obtain a y t where t: "tr = y # t" "runs (f a) t d e" "AOut x \<in> set t"
    by (auto simp: runs_Acquire_iff)
  then show "J (set tr) x" using explainedD[OF assms t(2,3)] J_mono[of "set t" "set tr"] by auto
qed

lemma explained_Release:
  assumes "explained J p"
  shows "explained J (Release p)"
proof (rule explainedI)
  fix tr d e x
  assume "runs (Release p) tr d e" and x: "AOut x \<in> set tr"
  then obtain t where t: "tr = ARelease # t" "runs p t d e" "AOut x \<in> set t"
    by (auto simp: runs_Release_iff)
  then show "J (set tr) x" using explainedD[OF assms t(2,3)] J_mono[of "set t" "set tr"] by auto
qed

lemma explained_Out:
  assumes "J {} x" "explained J p"
  shows "explained J (Out x p)"
  using explained_emit[of "[x]" p] assms by simp

text \<open>After a call the judgement may use the call and its answer.\<close>

lemma explained_Call:
  assumes "\<And>r. explained (\<lambda>A. J (insert (ACall q r) A)) (f r)"
  shows "explained J (Call q f)"
proof (rule explainedI)
  fix tr d e x
  assume "runs (Call q f) tr d e" and x: "AOut x \<in> set tr"
  then obtain r t where t: "tr = ACall q r # t" "runs (f r) t d e" "AOut x \<in> set t"
    by (auto simp: runs_Call_iff)
  show "J (set tr) x" using explainedD[OF assms t(2,3)] t(1) by simp
qed

lemma explained_weaken:
  assumes "explained J p" "\<And>A x. J A x \<Longrightarrow> K A x"
  shows "explained K p"
  using assms by (auto simp: explained_def)

lemma explained_RunConcurrent:
  assumes "\<And>y. y \<in> set items \<Longrightarrow> explained J (run y)"
  shows "explained J (RunConcurrent items run)"
proof (rule explainedI)
  fix tr d e x
  assume "runs (RunConcurrent items run) tr d e" and x: "AOut x \<in> set tr"
  then obtain es where "runs_par (map run items) tr es" by (auto simp: runs_RunConcurrent)
  from runs_par_origin[OF this x] obtain p t d' e' where
    t: "p \<in> set (map run items)" "runs p t d' e'" "AOut x \<in> set t" "subseq t tr" by blast
  then obtain y where y: "y \<in> set items" "p = run y" by auto
  have "J (set t) x" using explainedD[OF assms[OF y(1)]] t(2,3) y(2) by blast
  moreover have "set t \<subseteq> set tr"
    using subseq_set[OF t(4)] .
  ultimately show "J (set tr) x" using J_mono by blast
qed

end

end
