(* ===== verification/Provider_Contract.thy ===== *)
theory Provider_Contract
  imports Goroutines
begin

text \<open>
  Package \<open>provider\<close>: the event a sender receives, typed access to its options, the callbacks
  through which it reports, and the contract of \<open>provider.Sender\<close> as a locale. A sender's
  effect on the relay is the sequence of callbacks it invokes; the relay's own state is not
  visible to it.
\<close>

section \<open>Events and options\<close>

text \<open>A nil options map reads like an empty one.\<close>

record Options =
  Values :: "goval gomap"

record Event =
  ev_ID :: goval
  ev_Payload :: bytes
  ev_Timestamp :: int
  ev_Destination :: string
  ev_Options :: Options

definition malformed :: "string \<Rightarrow> go_error" where
  "malformed m =
     WrapError (sentinel_text ErrMalformedOptions @ '': '' @ m) (Sentinel ErrMalformedOptions)"

text \<open>A present value: the comma-ok lookup succeeds and the value is not nil.\<close>

definition lookup_value :: "goval gomap \<Rightarrow> string \<Rightarrow> goval option" where
  "lookup_value m k = (case map_of m k of Some v \<Rightarrow> if v = GNil then None else Some v | None \<Rightarrow> None)"

definition Options_String :: "Options \<Rightarrow> string \<Rightarrow> go_error + string" where
  "Options_String opts key =
     (case lookup_value (Values opts) key of
        None \<Rightarrow> Inr []
      | Some (GString s) \<Rightarrow> Inr s
      | Some _ \<Rightarrow> Inl (malformed (key @ '' must be a string'')))"

fun Object :: "goval \<Rightarrow> goval gomap option" where
  "Object (GMap m) = Some m"
| "Object _ = None"

text \<open>The result distinguishes the nil map (\<^term>\<open>None\<close>) of an absent option.\<close>

definition Options_Object :: "Options \<Rightarrow> string \<Rightarrow> go_error + goval gomap option" where
  "Options_Object opts key =
     (case lookup_value (Values opts) key of
        None \<Rightarrow> Inr None
      | Some v \<Rightarrow> (case Object v of
            None \<Rightarrow> Inl (malformed (key @ '' must be an object''))
          | Some m \<Rightarrow> Inr (Some m)))"

section \<open>Callbacks\<close>

text \<open>
  One callback invocation. The attributes of a failure report only feed the log line and are
  left out; its message and signature are kept because the failure logger keys on the
  signature.
\<close>

datatype report =
    AddConfirmedID goval
  | AddPoisonID goval string
  | MarkProgress
  | LogFailure string string

text \<open>The two optional callbacks may be nil; a report through a nil callback is dropped.\<close>

record Callbacks =
  has_MarkProgress :: bool
  has_LogFailure :: bool

definition Progress :: "Callbacks \<Rightarrow> report list" where
  "Progress c = (if has_MarkProgress c then [MarkProgress] else [])"

definition ReportFailure :: "Callbacks \<Rightarrow> string \<Rightarrow> string \<Rightarrow> report list" where
  "ReportFailure c message signature =
     (if has_LogFailure c then [LogFailure message signature] else [])"

definition RejectMalformedOptions ::
  "Callbacks \<Rightarrow> string \<Rightarrow> Event \<Rightarrow> string \<Rightarrow> go_error \<Rightarrow> report list" where
  "RejectMalformedOptions c target evt field err =
     AddPoisonID (ev_ID evt) (error_text err) #
     ReportFailure c ''Failed to send event''
       (target @ ''|'' @ ev_Destination evt @ ''|'' @ field @ ''|malformed-options'')"

text \<open>
  \<open>WithTimeout\<close> on deadlines: \<open>context.WithTimeout\<close> keeps the earlier of the parent's deadline
  and \<open>now + timeout\<close>; a non-positive timeout returns the parent unchanged.
\<close>

definition WithTimeout :: "int \<Rightarrow> int option \<Rightarrow> int \<Rightarrow> int option" where
  "WithTimeout now deadline timeout =
     (if timeout \<le> 0 then deadline
      else (case deadline of None \<Rightarrow> Some (now + timeout) | Some d \<Rightarrow> Some (min d (now + timeout))))"

section \<open>Publish logs\<close>

text \<open>
  The identifying fields of one publish. The latency field needs the wall clock and, like the
  attributes, only feeds debug lines; both are left out.
\<close>

record PublishLog =
  log_ID :: goval
  log_Timestamp :: "int option"
  log_PayloadSize :: nat
  log_OrderingKey :: string
  log_Target :: string
  log_Destination :: string

definition NewPublishLog :: "Event \<Rightarrow> string \<Rightarrow> PublishLog" where
  "NewPublishLog evt target =
     \<lparr> log_ID = ev_ID evt,
       log_Timestamp = (if ev_Timestamp evt = zero_time then None else Some (ev_Timestamp evt)),
       log_PayloadSize = length (ev_Payload evt),
       log_OrderingKey = [],
       log_Target = target,
       log_Destination = ev_Destination evt \<rparr>"

text \<open>The zero value a read of a missing map key yields.\<close>

definition zero_log :: PublishLog where
  "zero_log = \<lparr> log_ID = GNil, log_Timestamp = None, log_PayloadSize = 0, log_OrderingKey = [],
     log_Target = [], log_Destination = [] \<rparr>"

section \<open>What a sender reports\<close>

fun reported_id :: "report \<Rightarrow> goval option" where
  "reported_id (AddConfirmedID i) = Some i"
| "reported_id (AddPoisonID i _) = Some i"
| "reported_id _ = None"

fun confirmed_id :: "report \<Rightarrow> goval option" where
  "confirmed_id (AddConfirmedID i) = Some i"
| "confirmed_id _ = None"

fun poison_id :: "report \<Rightarrow> goval option" where
  "poison_id (AddPoisonID i _) = Some i"
| "poison_id _ = None"

definition confirmed_ids :: "report list \<Rightarrow> goval list" where
  "confirmed_ids rs = List.map_filter confirmed_id rs"

definition poison_ids :: "report list \<Rightarrow> goval list" where
  "poison_ids rs = List.map_filter poison_id rs"

fun act_report :: "(report, 'q, 'r) act \<Rightarrow> report option" where
  "act_report (AOut r) = Some r"
| "act_report _ = None"

definition reports_of :: "(report, 'q, 'r) act list \<Rightarrow> report list" where
  "reports_of tr = List.map_filter act_report tr"

lemma confirmed_id_iff: "confirmed_id r = Some i \<longleftrightarrow> r = AddConfirmedID i"
  by (cases r) auto

lemma poison_id_iff: "poison_id r = Some i \<longleftrightarrow> (\<exists>m. r = AddPoisonID i m)"
  by (cases r) auto

lemma act_report_iff: "act_report a = Some r \<longleftrightarrow> a = AOut r"
  by (cases a) auto

lemma in_confirmed_ids: "i \<in> set (confirmed_ids rs) \<longleftrightarrow> AddConfirmedID i \<in> set rs"
  by (simp add: confirmed_ids_def in_map_filter confirmed_id_iff)

lemma in_poison_ids: "i \<in> set (poison_ids rs) \<longleftrightarrow> (\<exists>m. AddPoisonID i m \<in> set rs)"
  by (auto simp: poison_ids_def in_map_filter poison_id_iff)

lemma in_reports_of: "r \<in> set (reports_of tr) \<longleftrightarrow> AOut r \<in> set tr"
  by (simp add: reports_of_def in_map_filter act_report_iff)

lemma reports_of_append [simp]: "reports_of (tr @ tr') = reports_of tr @ reports_of tr'"
  by (simp add: reports_of_def map_filter_append)

lemma reported_id_confirmed: "reported_id (AddConfirmedID i) = Some i"
  by simp

lemma Progress_no_id [simp]: "r \<in> set (Progress c) \<Longrightarrow> reported_id r = None"
  by (auto simp: Progress_def split: if_splits)

lemma ReportFailure_no_id [simp]: "r \<in> set (ReportFailure c m s) \<Longrightarrow> reported_id r = None"
  by (auto simp: ReportFailure_def split: if_splits)

lemma RejectMalformedOptions_id:
  "r \<in> set (RejectMalformedOptions c t evt f e) \<Longrightarrow> reported_id r = Some i \<Longrightarrow> i = ev_ID evt"
  by (auto simp: RejectMalformedOptions_def)

section \<open>Order in a list\<close>

definition before :: "'a \<Rightarrow> 'a \<Rightarrow> 'a list \<Rightarrow> bool" where
  "before x y zs \<longleftrightarrow> (\<exists>us vs ws. zs = us @ x # vs @ y # ws)"

lemma before_filter: "before x y zs \<Longrightarrow> P x \<Longrightarrow> P y \<Longrightarrow> before x y (filter P zs)"
  unfolding before_def by force

lemma before_map_filter:
  assumes "before x y zs" "f x = Some x'" "f y = Some y'"
  shows "before x' y' (List.map_filter f zs)"
proof -
  from assms(1) obtain us vs ws where zs: "zs = us @ x # vs @ y # ws" by (auto simp: before_def)
  have "List.map_filter f zs =
      List.map_filter f us @ x' # List.map_filter f vs @ y' # List.map_filter f ws"
    unfolding zs using assms(2,3) by (simp add: map_filter_append List.map_filter_simps)
  then show ?thesis unfolding before_def by blast
qed

lemma before_Cons: "before x y (z # zs) \<Longrightarrow> (z = x \<and> y \<in> set zs) \<or> before x y zs"
  unfolding before_def by (auto simp: Cons_eq_append_conv)

lemma before_set: "before x y zs \<Longrightarrow> x \<in> set zs \<and> y \<in> set zs"
  by (auto simp: before_def)

lemma distinct_map_of_map_filter:
  assumes "distinct (map k xs)" "\<And>x y. f x = Some y \<Longrightarrow> k' y = k x"
  shows "distinct (map k' (List.map_filter f xs))"
  using assms(1)
proof (induction xs)
  case Nil
  then show ?case by simp
next
  case (Cons x xs)
  have "k' ` set (List.map_filter f xs) \<subseteq> k ` set xs" using assms(2) by (auto simp: in_map_filter)
  with Cons show ?case
    by (cases "f x") (auto simp: List.map_filter_simps assms(2) dest!: subsetD)
qed

section \<open>The sender contract\<close>

text \<open>
  What the relay may rely on. \<open>sends\<close> relates the events handed to \<open>Send\<close> to a trace of the
  sender's actions and the error it returns; \<open>accepted\<close> says that the cloud service acknowledged an
  event in that trace, \<open>rejected\<close> that the event was refused for good. A confirmation stands for
  an acknowledgement, a poison report for a refusal, and every reported ID is an ID of the
  batch (the nil ID stands for an answer that names no entry of the request; the relay ignores
  it).
\<close>

locale provider_sender =
  fixes sends :: "Event list \<Rightarrow> 't \<Rightarrow> go_error option \<Rightarrow> bool"
    and reports :: "'t \<Rightarrow> report list"
    and accepted :: "'t \<Rightarrow> Event \<Rightarrow> bool"
    and rejected :: "'t \<Rightarrow> Event \<Rightarrow> bool"
  assumes confirm_sound:
      "sends events tr err \<Longrightarrow> i \<in> set (confirmed_ids (reports tr)) \<Longrightarrow> i \<noteq> GNil \<Longrightarrow>
         \<exists>evt. evt \<in> set events \<and> ev_ID evt = i \<and> accepted tr evt"
    and poison_sound:
      "sends events tr err \<Longrightarrow> i \<in> set (poison_ids (reports tr)) \<Longrightarrow> i \<noteq> GNil \<Longrightarrow>
         \<exists>evt. evt \<in> set events \<and> ev_ID evt = i \<and> rejected tr evt"
begin

lemma reported_in_batch:
  assumes "sends events tr err" "r \<in> set (reports tr)" "reported_id r = Some i" "i \<noteq> GNil"
  shows "i \<in> ev_ID ` set events"
proof (cases r)
  case (AddConfirmedID j)
  with assms have "i \<in> set (confirmed_ids (reports tr))" by (auto simp: in_confirmed_ids)
  then show ?thesis using confirm_sound assms(1,4) by blast
next
  case (AddPoisonID j m)
  with assms have "i \<in> set (poison_ids (reports tr))" by (auto simp: in_poison_ids)
  then show ?thesis using poison_sound assms(1,4) by blast
qed (use assms in auto)

text \<open>An event that is neither acknowledged nor refused is never reported: it stays pending.\<close>

lemma unsettled_not_reported:
  assumes "sends events tr err" "evt \<in> set events" "ev_ID evt \<noteq> GNil"
    and "\<And>e. e \<in> set events \<Longrightarrow> ev_ID e = ev_ID evt \<Longrightarrow> e = evt"
    and "\<not> accepted tr evt" "\<not> rejected tr evt"
  shows "ev_ID evt \<notin> set (confirmed_ids (reports tr)) \<union> set (poison_ids (reports tr))"
  using assms confirm_sound poison_sound by blast

end

end
