(* ===== verification/SQS_Options.thy ===== *)
theory SQS_Options
  imports Provider_Contract
begin

text \<open>
  \<open>sqs/options.go\<close> and the constants of \<open>sqs/sender.go\<close>: the message attribute, the parsing of
  an event's SQS options and the checks that decide locally whether SQS can ever accept an
  event (\<open>isSQSPoison\<close>). UTF-8 and base64 decoding are modelled, SHA-256 and URL parsing are
  arguments.
\<close>

section \<open>Limits and patterns\<close>

definition sqsEventBatchSize :: nat where "sqsEventBatchSize = 10"
definition sqsEventMaxSizeByte :: nat where "sqsEventMaxSizeByte = 1024 * 1024"
definition sqsMaxAttributes :: nat where "sqsMaxAttributes = 10"
definition sqsMaxDelaySeconds :: int where "sqsMaxDelaySeconds = 900"

definition sqs_Target :: string where "sqs_Target = ''sqs''"

definition alnum :: "char \<Rightarrow> bool" where
  "alnum c = (let n = of_char c :: nat in
     (65 \<le> n \<and> n \<le> 90) \<or> (97 \<le> n \<and> n \<le> 122) \<or> (48 \<le> n \<and> n \<le> 57))"

definition sqsBatchEntryIDPattern :: "string \<Rightarrow> bool" where
  "sqsBatchEntryIDPattern s \<longleftrightarrow>
     1 \<le> length s \<and> length s \<le> 80 \<and> list_all (\<lambda>c. alnum c \<or> c \<in> set ''_-'') s"

text \<open>The class lists the letters, the digits and every other printable ASCII byte but the space.\<close>

definition sqsFIFOIDPattern :: "string \<Rightarrow> bool" where
  "sqsFIFOIDPattern s \<longleftrightarrow>
     1 \<le> length s \<and> length s \<le> 128 \<and>
     list_all (\<lambda>c. let n = of_char c :: nat in 33 \<le> n \<and> n \<le> 126) s"

definition sqsAttributeNameRe :: "string \<Rightarrow> bool" where
  "sqsAttributeNameRe s \<longleftrightarrow>
     1 \<le> length s \<and> length s \<le> 256 \<and> list_all (\<lambda>c. alnum c \<or> c \<in> set ''_.-'') s"

section \<open>UTF-8\<close>

definition cont_byte :: "char \<Rightarrow> bool" where
  "cont_byte c = (let n = of_char c :: nat in 128 \<le> n \<and> n < 192)"

definition byte_in :: "char \<Rightarrow> nat \<Rightarrow> nat \<Rightarrow> bool" where
  "byte_in c lo hi = (let n = of_char c :: nat in lo \<le> n \<and> n \<le> hi)"

definition cont_bits :: "char \<Rightarrow> nat" where
  "cont_bits c = of_char c - 128"

text \<open>
  The first rune of a byte sequence as \<open>unicode/utf8\<close> accepts it: no overlong form, no
  surrogate, nothing above U+10FFFF.
\<close>

definition utf8_first :: "bytes \<Rightarrow> (nat \<times> bytes) option" where
  "utf8_first s =
     (case s of
        [] \<Rightarrow> None
      | a # s1 \<Rightarrow>
          if byte_in a 0 127 then Some (of_char a, s1)
          else (case s1 of
            [] \<Rightarrow> None
          | b # s2 \<Rightarrow>
              if byte_in a 194 223
              then if cont_byte b then Some ((of_char a - 192) * 64 + cont_bits b, s2) else None
              else (case s2 of
                [] \<Rightarrow> None
              | c # s3 \<Rightarrow>
                  if byte_in a 224 239
                  then if byte_in b (if of_char a = (224 :: nat) then 160 else 128)
                            (if of_char a = (237 :: nat) then 159 else 191) \<and> cont_byte c
                       then Some (((of_char a - 224) * 64 + cont_bits b) * 64 + cont_bits c, s3)
                       else None
                  else (case s3 of
                    [] \<Rightarrow> None
                  | d # s4 \<Rightarrow>
                      if byte_in a 240 244 \<and>
                         byte_in b (if of_char a = (240 :: nat) then 144 else 128)
                           (if of_char a = (244 :: nat) then 143 else 191) \<and>
                         cont_byte c \<and> cont_byte d
                      then Some ((((of_char a - 240) * 64 + cont_bits b) * 64 + cont_bits c) * 64
                                   + cont_bits d, s4)
                      else None))))"

lemma utf8_first_shorter: "utf8_first s = Some (r, s') \<Longrightarrow> length s' < length s"
  by (auto simp: utf8_first_def split: list.splits if_splits)

function utf8_runes :: "bytes \<Rightarrow> nat list option" where
  "utf8_runes s =
     (if s = [] then Some []
      else (case utf8_first s of
              None \<Rightarrow> None
            | Some (r, s') \<Rightarrow> map_option (\<lambda>rs. r # rs) (utf8_runes s')))"
  by pat_completeness auto
termination
  by (relation "measure length") (auto dest: utf8_first_shorter)

declare utf8_runes.simps [simp del]

definition allowed_rune :: "nat \<Rightarrow> bool" where
  "allowed_rune r \<longleftrightarrow>
     r = 9 \<or> r = 10 \<or> r = 13 \<or> (32 \<le> r \<and> r \<le> 55295) \<or>
     (57344 \<le> r \<and> r \<le> 65533) \<or> (65536 \<le> r \<and> r \<le> 1114111)"

text \<open>\<open>utf8.Valid\<close> and the rune loop: an invalid sequence is refused before the loop.\<close>

definition sqsAllowedUnicodeBytes :: "bytes \<Rightarrow> bool" where
  "sqsAllowedUnicodeBytes value =
     (case utf8_runes value of None \<Rightarrow> False | Some rs \<Rightarrow> list_all allowed_rune rs)"

section \<open>Base64\<close>

definition b64_value :: "char \<Rightarrow> nat option" where
  "b64_value c =
     (let n = of_char c :: nat in
      if 65 \<le> n \<and> n \<le> 90 then Some (n - 65)
      else if 97 \<le> n \<and> n \<le> 122 then Some (n - 71)
      else if 48 \<le> n \<and> n \<le> 57 then Some (n + 4)
      else if n = 43 then Some 62
      else if n = 47 then Some 63
      else None)"

text \<open>
  The padded standard alphabet of \<open>base64.StdEncoding\<close>, decoded in quanta of four characters.
  The decoder skips carriage returns and line feeds wherever they stand; it does not insist
  that the unused bits before the padding are zero.
\<close>

fun b64_quanta :: "string \<Rightarrow> bytes option" where
  "b64_quanta [] = Some []"
| "b64_quanta (a # b # c # d # s) =
     (case (b64_value a, b64_value b) of
        (Some va, Some vb) \<Rightarrow>
          if c = CHR ''='' \<and> d = CHR ''='' \<and> s = []
          then Some [char_of (va * 4 + vb div 16)]
          else (case b64_value c of
              None \<Rightarrow> None
            | Some vc \<Rightarrow>
                if d = CHR ''='' \<and> s = []
                then Some [char_of (va * 4 + vb div 16), char_of (vb mod 16 * 16 + vc div 4)]
                else (case b64_value d of
                    None \<Rightarrow> None
                  | Some vd \<Rightarrow>
                      map_option
                        (\<lambda>t. char_of (va * 4 + vb div 16) # char_of (vb mod 16 * 16 + vc div 4) #
                             char_of (vc mod 4 * 64 + vd) # t)
                        (b64_quanta s)))
      | _ \<Rightarrow> None)"
| "b64_quanta _ = None"

definition base64_DecodeString :: "string \<Rightarrow> bytes option" where
  "base64_DecodeString s = b64_quanta (filter (\<lambda>c. c \<notin> {char_of (13 :: nat), char_of (10 :: nat)}) s)"

section \<open>Message attributes\<close>

record MessageAttribute =
  DataType :: string
  StringValue :: string
  BinaryValue :: bytes
  StringListValues :: "string list"
  BinaryListValues :: "bytes list"
  HasStringValue :: bool
  HasBinaryValue :: bool
  HasStringList :: bool
  HasBinaryList :: bool

definition zero_attribute :: MessageAttribute where
  "zero_attribute = \<lparr> DataType = [], StringValue = [], BinaryValue = [], StringListValues = [],
     BinaryListValues = [], HasStringValue = False, HasBinaryValue = False,
     HasStringList = False, HasBinaryList = False \<rparr>"

definition optionalString :: "goval gomap \<Rightarrow> string \<Rightarrow> go_error + string option" where
  "optionalString object key =
     (case lookup_value object key of
        None \<Rightarrow> Inr None
      | Some (GString s) \<Rightarrow> Inr (Some s)
      | Some _ \<Rightarrow> Inl (ErrorString (key @ '' must be a string'')))"

definition requiredString :: "goval gomap \<Rightarrow> string \<Rightarrow> go_error + string" where
  "requiredString object key =
     (case optionalString object key of
        Inl err \<Rightarrow> Inl err
      | Inr None \<Rightarrow> Inl (ErrorString (key @ '' is required''))
      | Inr (Some v) \<Rightarrow> if v = [] then Inl (ErrorString (key @ '' is required'')) else Inr v)"

text \<open>The decoder's error text also names the offset of the first bad byte, left out here.\<close>

definition optionalBase64 :: "goval gomap \<Rightarrow> string \<Rightarrow> go_error + bytes option" where
  "optionalBase64 object key =
     (case optionalString object key of
        Inl err \<Rightarrow> Inl err
      | Inr None \<Rightarrow> Inr None
      | Inr (Some v) \<Rightarrow>
          (case base64_DecodeString v of
             None \<Rightarrow> Inl (WrapError (key @ '' must be base64: illegal base64 data'')
                            (ErrorString ''illegal base64 data''))
           | Some d \<Rightarrow> Inr (Some d)))"

definition sqsMessageAttributeValue :: "goval \<Rightarrow> go_error + MessageAttribute" where
  "sqsMessageAttributeValue v =
     (case Object v of
        None \<Rightarrow> Inl (ErrorString ''must be a MessageAttributeValue object'')
      | Some object \<Rightarrow>
     (case requiredString object ''DataType'' of
        Inl err \<Rightarrow> Inl err
      | Inr dataType \<Rightarrow>
          let attribute = zero_attribute\<lparr>DataType := dataType\<rparr> in
     (case optionalString object ''StringValue'' of
        Inl err \<Rightarrow> Inl err
      | Inr sv \<Rightarrow>
          let attribute = (case sv of None \<Rightarrow> attribute
                | Some s \<Rightarrow> attribute\<lparr>StringValue := s, HasStringValue := True\<rparr>) in
     (case optionalBase64 object ''BinaryValue'' of
        Inl err \<Rightarrow> Inl err
      | Inr bv \<Rightarrow>
          let attribute = (case bv of None \<Rightarrow> attribute
                | Some b \<Rightarrow> attribute\<lparr>BinaryValue := b, HasBinaryValue := True\<rparr>) in
          if map_of object ''StringListValues'' \<noteq> None
          then Inl (ErrorString ''StringListValues is reserved by SQS and not supported'')
          else if map_of object ''BinaryListValues'' \<noteq> None
          then Inl (ErrorString ''BinaryListValues is reserved by SQS and not supported'')
          else Inr attribute))))"

text \<open>The loop over the attributes stops at the first malformed one in iteration order.\<close>

fun convert_attributes :: "goval gomap \<Rightarrow> go_error + MessageAttribute gomap" where
  "convert_attributes [] = Inr []"
| "convert_attributes ((name, raw) # rest) =
     (case sqsMessageAttributeValue raw of
        Inl err \<Rightarrow>
          Inl (WrapErrors (sentinel_text ErrMalformedOptions @ '': attribute '' @ name @ '': '' @
                 error_text err) [Sentinel ErrMalformedOptions, err])
      | Inr attr \<Rightarrow>
          (case convert_attributes rest of
             Inl e \<Rightarrow> Inl e
           | Inr m \<Rightarrow> Inr ((name, attr) # m)))"

text \<open>An absent or null option gives the nil map; reading it is like reading an empty one.\<close>

definition sqsAttributes :: "Options \<Rightarrow> go_error + MessageAttribute gomap" where
  "sqsAttributes opts =
     (case lookup_value (Values opts) ''attributes'' of
        None \<Rightarrow> Inr []
      | Some v \<Rightarrow> (case Object v of
            None \<Rightarrow> Inl (malformed ''attributes must be an object'')
          | Some attributes \<Rightarrow> convert_attributes attributes))"

section \<open>The other options\<close>

text \<open>
  \<open>int32(typed)\<close> keeps the low 32 bits of an integer. For a float that does not fit, the
  language leaves the result to the implementation: it is an argument of the model.
\<close>

definition int32_of_float :: "(float64 \<Rightarrow> 32 word) \<Rightarrow> float64 \<Rightarrow> 32 word" where
  "int32_of_float impl f =
     (case f of
        Finite q \<Rightarrow>
          let t = (if 0 \<le> q then \<lfloor>q\<rfloor> else \<lceil>q\<rceil>) in
          if - (2 ^ 31) \<le> t \<and> t < 2 ^ 31 then word_of_int t else impl f
      | _ \<Rightarrow> impl f)"

definition float_eq_int :: "float64 \<Rightarrow> int \<Rightarrow> bool" where
  "float_eq_int f i = (case f of Finite q \<Rightarrow> q = of_int i | _ \<Rightarrow> False)"

definition sqsDelaySeconds ::
  "(float64 \<Rightarrow> 32 word) \<Rightarrow> Options \<Rightarrow> go_error + (32 word) option" where
  "sqsDelaySeconds impl opts =
     (case lookup_value (Values opts) ''delaySeconds'' of
        None \<Rightarrow> Inr None
      | Some (GInt i) \<Rightarrow>
          let seconds = word_of_int i :: 32 word in
          if sint seconds \<noteq> i then Inl (malformed ''delaySeconds must be a valid int32'')
          else Inr (Some seconds)
      | Some (GInt32 i) \<Rightarrow> Inr (Some (word_of_int i))
      | Some (GInt64 i) \<Rightarrow>
          let seconds = word_of_int i :: 32 word in
          if sint seconds \<noteq> i then Inl (malformed ''delaySeconds must be a valid int32'')
          else Inr (Some seconds)
      | Some (GFloat64 f) \<Rightarrow>
          let seconds = int32_of_float impl f in
          if \<not> float_eq_int f (sint seconds) then Inl (malformed ''delaySeconds must be an integer'')
          else Inr (Some seconds)
      | Some _ \<Rightarrow> Inl (malformed ''delaySeconds must be an integer''))"

definition sqsAWSTraceHeader :: "Options \<Rightarrow> go_error + string" where
  "sqsAWSTraceHeader opts =
     (case lookup_value (Values opts) ''messageSystemAttributes'' of
        None \<Rightarrow> Inr []
      | Some v \<Rightarrow> (case Object v of
            None \<Rightarrow> Inl (malformed ''messageSystemAttributes must be an object'')
          | Some attributes \<Rightarrow>
              if attributes = [] then Inr []
              else if length attributes > 1
              then Inl (malformed ''only AWSTraceHeader is supported in messageSystemAttributes'')
              else if map_of attributes ''AWSTraceHeader'' = None
              then Inl (malformed ''only AWSTraceHeader is supported in messageSystemAttributes'')
              else (case requiredString attributes ''AWSTraceHeader'' of
                  Inl err \<Rightarrow> Inl (WrapErrors (sentinel_text ErrMalformedOptions @ '': '' @ error_text err)
                               [Sentinel ErrMalformedOptions, err])
                | Inr h \<Rightarrow> Inr h)))"

section \<open>Local validity\<close>

definition validSQSAttributeDataType :: "string \<Rightarrow> bool" where
  "validSQSAttributeDataType dataType =
     (let base = fst (Cut dataType (CHR ''.'')) in
      base = ''String'' \<or> base = ''Number'' \<or> base = ''Binary'')"

definition validSQSAttribute :: "string \<Rightarrow> MessageAttribute \<Rightarrow> bool" where
  "validSQSAttribute key attribute =
     (if key = [] \<or> DataType attribute = [] then False
      else if \<not> sqsAttributeNameRe key then False
      else if HasPrefix (ToLower key) ''aws.'' \<or> HasPrefix (ToLower key) ''amazon.'' then False
      else if HasPrefix key ''.'' \<or> HasSuffix key ''.'' \<or> Contains key ''..'' then False
      else if \<not> validSQSAttributeDataType (DataType attribute) then False
      else if HasStringList attribute \<or> HasBinaryList attribute then False
      else if HasPrefix (DataType attribute) ''Binary'' \<and>
              (\<not> HasBinaryValue attribute \<or> HasStringValue attribute) then False
      else if \<not> HasPrefix (DataType attribute) ''Binary'' \<and>
              (\<not> HasStringValue attribute \<or> HasBinaryValue attribute \<or>
               StringValue attribute = [] \<or> \<not> sqsAllowedUnicodeBytes (StringValue attribute)) then False
      else if HasBinaryValue attribute \<and> BinaryValue attribute = [] then False
      else True)"

definition validSQSAttributes :: "MessageAttribute gomap \<Rightarrow> bool" where
  "validSQSAttributes attributes =
     (if length attributes > sqsMaxAttributes then False
      else list_all (\<lambda>(key, attribute). validSQSAttribute key attribute) attributes)"

definition attribute_size :: "string \<Rightarrow> MessageAttribute \<Rightarrow> nat" where
  "attribute_size key v =
     length key + length (DataType v) +
     (if HasStringValue v then length (StringValue v) else 0) +
     (if HasBinaryValue v then length (BinaryValue v) else 0) +
     sum_list (map length (StringListValues v)) + sum_list (map length (BinaryListValues v))"

definition sqsMessageSize :: "bytes \<Rightarrow> MessageAttribute gomap \<Rightarrow> nat" where
  "sqsMessageSize body attributes =
     length body + sum_list (map (\<lambda>(key, v). attribute_size key v) attributes)"

definition isSQSPoison ::
  "bytes \<Rightarrow> MessageAttribute gomap \<Rightarrow> string \<Rightarrow> string \<Rightarrow> (32 word) option \<Rightarrow> bool" where
  "isSQSPoison body attributes orderingKey deduplicationID delaySeconds =
     (if body = [] \<or> \<not> sqsAllowedUnicodeBytes body then True
      else if sqsMessageSize body attributes > sqsEventMaxSizeByte then True
      else if \<not> validSQSAttributes attributes then True
      else if orderingKey \<noteq> [] \<and> \<not> sqsFIFOIDPattern orderingKey then True
      else if deduplicationID \<noteq> [] \<and> \<not> sqsFIFOIDPattern deduplicationID then True
      else (case delaySeconds of
          Some d \<Rightarrow> sint d < 0 \<or> sint d > sqsMaxDelaySeconds
        | None \<Rightarrow> False))"

section \<open>Identifiers, queue URLs and permanent errors\<close>

definition stableDigest :: "golib \<Rightarrow> string \<Rightarrow> string" where
  "stableDigest L v = sha256_hex L v"

definition syntheticFIFOGroupID :: "golib \<Rightarrow> string \<Rightarrow> string" where
  "syntheticFIFOGroupID L eventID = ''outboxer-'' @ stableDigest L eventID"

definition providerSafeID :: "golib \<Rightarrow> string \<Rightarrow> (string \<Rightarrow> bool) \<Rightarrow> string" where
  "providerSafeID L v pattern = (if pattern v then v else stableDigest L v)"

definition validSQSQueueURL :: "golib \<Rightarrow> string \<Rightarrow> bool" where
  "validSQSQueueURL L queueURL =
     (if queueURL = [] \<or> ContainsAny queueURL ('' '' @ map char_of [9, 13, 10 :: nat]) then False
      else (case url_Parse L queueURL of
          None \<Rightarrow> False
        | Some parsed \<Rightarrow>
            if url_Scheme parsed = [] then True
            else (url_Scheme parsed = ''http'' \<or> url_Scheme parsed = ''https'') \<and>
                 url_Host parsed \<noteq> [] \<and> Trim (url_Path parsed) ''/'' \<noteq> []))"

definition isSQSPermanentRequestError :: "go_error \<Rightarrow> bool" where
  "isSQSPermanentRequestError err =
     (case as_ErrorCode err of
        None \<Rightarrow> False
      | Some code \<Rightarrow> code \<in> {''InvalidMessageContents'', ''BatchRequestTooLong'', ''InvalidBatchEntryId'',
          ''BatchEntryIdsNotDistinct'', ''TooManyEntriesInBatchRequest''})"

section \<open>UTF-8: what the payload check accepts\<close>

text \<open>The encoder of RFC 3629, as a reference for the decoder.\<close>

definition utf8_encode :: "nat \<Rightarrow> bytes" where
  "utf8_encode r =
     (if r < 128 then [char_of r]
      else if r < 2048 then [char_of (192 + r div 64), char_of (128 + r mod 64)]
      else if r < 65536
      then [char_of (224 + r div 4096), char_of (128 + r div 64 mod 64), char_of (128 + r mod 64)]
      else [char_of (240 + r div 262144), char_of (128 + r div 4096 mod 64),
            char_of (128 + r div 64 mod 64), char_of (128 + r mod 64)])"

definition scalar_value :: "nat \<Rightarrow> bool" where
  "scalar_value r \<longleftrightarrow> r < 1114112 \<and> \<not> (55296 \<le> r \<and> r \<le> 57343)"

lemma of_char_char_of_nat: "n < 256 \<Longrightarrow> (of_char (char_of n :: char) :: nat) = n"
  by simp

lemma char_of_eqI: "(of_char c :: nat) = n \<Longrightarrow> c = char_of n"
  by (metis char_of_char)

text \<open>Base-64 digits of a number, and back.\<close>

lemma digit64: "z < 64 \<Longrightarrow> (q * 64 + z) div 64 = (q :: nat)" "z < 64 \<Longrightarrow> (q * 64 + z) mod 64 = (z :: nat)"
  by auto

lemma div_4096: "(r :: nat) div 4096 = r div 64 div 64"
  by (simp add: div_mult2_eq[symmetric])

lemma div_262144: "(r :: nat) div 262144 = r div 64 div 64 div 64"
  by (simp add: div_mult2_eq[symmetric])

lemma recompose_3: "(r :: nat) = ((r div 4096) * 64 + r div 64 mod 64) * 64 + r mod 64"
  unfolding div_4096 by simp

lemma recompose_4:
  "(r :: nat) = (((r div 262144) * 64 + r div 4096 mod 64) * 64 + r div 64 mod 64) * 64 + r mod 64"
  unfolding div_4096 div_262144 by simp

lemmas utf8_defs = utf8_first_def byte_in_def cont_byte_def cont_bits_def Let_def

lemma utf8_first_encode_2:
  "128 \<le> r \<Longrightarrow> r < 2048 \<Longrightarrow> utf8_first (utf8_encode r @ s) = Some (r, s)"
proof -
  assume r: "128 \<le> r" "r < 2048"
  then have a: "194 \<le> 192 + r div 64" "192 + r div 64 \<le> 223" by auto
  with r show ?thesis by (simp add: utf8_encode_def utf8_defs of_char_char_of_nat)
qed

lemma utf8_first_encode_3:
  assumes "2048 \<le> r" "r < 65536" "\<not> (55296 \<le> r \<and> r \<le> 57343)"
  shows "utf8_first (utf8_encode r @ s) = Some (r, s)"
proof -
  define x y z where xyz: "x = r div 4096" "y = r div 64 mod 64" "z = r mod 64"
  have b: "x < 16" "y < 64" "z < 64" using assms(2) by (auto simp: xyz)
  have r: "r = (x * 64 + y) * 64 + z" unfolding xyz by (rule recompose_3)
  have lo: "x = 0 \<Longrightarrow> 32 \<le> y" using assms(1) r b by auto
  have hi: "x = 13 \<Longrightarrow> y \<le> 31" using assms(3) r b by auto
  have "utf8_encode r = [char_of (224 + x), char_of (128 + y), char_of (128 + z)]"
    using assms by (simp add: utf8_encode_def xyz)
  then show ?thesis using b lo hi r by (simp add: utf8_defs of_char_char_of_nat)
qed

lemma utf8_first_encode_4:
  assumes "65536 \<le> r" "r < 1114112"
  shows "utf8_first (utf8_encode r @ s) = Some (r, s)"
proof -
  define w x y z where wxyz: "w = r div 262144" "x = r div 4096 mod 64" "y = r div 64 mod 64" "z = r mod 64"
  have b: "w < 5" "x < 64" "y < 64" "z < 64" using assms(2) by (auto simp: wxyz)
  have r: "r = ((w * 64 + x) * 64 + y) * 64 + z" unfolding wxyz by (rule recompose_4)
  have lo: "w = 0 \<Longrightarrow> 16 \<le> x" using assms(1) r b by auto
  have hi: "w = 4 \<Longrightarrow> x \<le> 15" using assms(2) r b by auto
  have "utf8_encode r = [char_of (240 + w), char_of (128 + x), char_of (128 + y), char_of (128 + z)]"
    using assms by (simp add: utf8_encode_def wxyz)
  then show ?thesis using b lo hi r by (simp add: utf8_defs of_char_char_of_nat)
qed

lemma utf8_first_encode: "scalar_value r \<Longrightarrow> utf8_first (utf8_encode r @ s) = Some (r, s)"
proof -
  assume sv: "scalar_value r"
  consider "r < 128" | "128 \<le> r" "r < 2048" | "2048 \<le> r" "r < 65536" | "65536 \<le> r" by linarith
  then show ?thesis
  proof cases
    case 1
    then show ?thesis by (simp add: utf8_encode_def utf8_defs of_char_char_of_nat)
  qed (use sv utf8_first_encode_2 utf8_first_encode_3 utf8_first_encode_4 in \<open>auto simp: scalar_value_def\<close>)
qed

text \<open>Conversely the decoder only accepts encodings of scalar values.\<close>

lemma utf8_first_cases:
  assumes "utf8_first s = Some (r, s')"
  obtains (one) a where "s = a # s'" "(of_char a :: nat) < 128" "r = of_char a"
  | (two) a b x y where "s = a # b # s'" "(of_char a :: nat) = 192 + x" "(of_char b :: nat) = 128 + y"
      "2 \<le> x" "x < 32" "y < 64" "r = x * 64 + y"
  | (three) a b c x y z where "s = a # b # c # s'" "(of_char a :: nat) = 224 + x"
      "(of_char b :: nat) = 128 + y" "(of_char c :: nat) = 128 + z" "x < 16" "y < 64" "z < 64"
      "x = 0 \<Longrightarrow> 32 \<le> y" "x = 13 \<Longrightarrow> y < 32" "r = (x * 64 + y) * 64 + z"
  | (four) a b c d w x y z where "s = a # b # c # d # s'" "(of_char a :: nat) = 240 + w"
      "(of_char b :: nat) = 128 + x" "(of_char c :: nat) = 128 + y" "(of_char d :: nat) = 128 + z"
      "w < 5" "x < 64" "y < 64" "z < 64" "w = 0 \<Longrightarrow> 16 \<le> x" "w = 4 \<Longrightarrow> x < 16"
      "r = ((w * 64 + x) * 64 + y) * 64 + z"
proof (cases s)
  case Nil
  with assms show ?thesis by (simp add: utf8_first_def)
next
  case (Cons a s1)
  show ?thesis
  proof (cases "(of_char a :: nat) < 128")
    case True
    with assms Cons show ?thesis by (intro one) (auto simp: utf8_defs)
  next
    case na: False
    then obtain b s2 where s1: "s1 = b # s2" using assms Cons by (cases s1) (auto simp: utf8_defs)
    show ?thesis
    proof (cases "byte_in a 194 223")
      case True
      with assms Cons s1 na show ?thesis
        by (intro two[of a b "of_char a - 192" "of_char b - 128"]) (auto simp: utf8_defs split: if_splits)
    next
      case nb: False
      then obtain c s3 where s2: "s2 = c # s3"
        using assms Cons s1 na by (cases s2) (auto simp: utf8_first_def byte_in_def Let_def)
      show ?thesis
      proof (cases "byte_in a 224 239")
        case True
        with assms Cons s1 s2 na nb show ?thesis
          by (intro three[of a b c "of_char a - 224" "of_char b - 128" "of_char c - 128"])
            (auto simp: utf8_defs split: if_splits)
      next
        case nc: False
        then obtain d s4 where s3: "s3 = d # s4"
          using assms Cons s1 s2 na nb by (cases s3) (auto simp: utf8_first_def byte_in_def Let_def)
        with assms Cons s1 s2 na nb nc show ?thesis
          by (intro four[of a b c d "of_char a - 240" "of_char b - 128" "of_char c - 128" "of_char d - 128"])
            (auto simp: utf8_defs split: if_splits)
      qed
    qed
  qed
qed

lemma utf8_first_decode:
  assumes "utf8_first s = Some (r, s')"
  shows "scalar_value r \<and> s = utf8_encode r @ s'"
  using assms
proof (cases rule: utf8_first_cases)
  case (one a)
  then show ?thesis by (simp add: scalar_value_def utf8_encode_def)
next
  case (two a b x y)
  then have "r div 64 = x" "r mod 64 = y" "128 \<le> r" "r < 2048" by auto
  with two show ?thesis by (simp add: scalar_value_def utf8_encode_def char_of_eqI)
next
  case (three a b c x y z)
  then have d: "r div 4096 = x" "r div 64 mod 64 = y" "r mod 64 = z"
    by (simp_all only: div_4096 digit64)
  have lo: "2048 \<le> r" using three by (cases "x = 0") auto
  have hi: "r < 65536" using three by simp
  have "\<not> (55296 \<le> r \<and> r \<le> 57343)" using three by (cases "x < 13"; cases "x = 13") auto
  with three d lo hi show ?thesis by (simp add: scalar_value_def utf8_encode_def char_of_eqI)
next
  case (four a b c d w x y z)
  then have d: "r div 262144 = w" "r div 4096 mod 64 = x" "r div 64 mod 64 = y" "r mod 64 = z"
    by (simp_all only: div_4096 div_262144 digit64)
  have "65536 \<le> r" using four by (cases "w = 0") auto
  moreover have "r < 1114112" using four by (cases "w = 4") auto
  ultimately show ?thesis using four d by (simp add: scalar_value_def utf8_encode_def char_of_eqI)
qed

lemma utf8_runes_sound: "utf8_runes s = Some rs \<Longrightarrow> list_all scalar_value rs \<and> s = concat (map utf8_encode rs)"
proof (induction s arbitrary: rs rule: utf8_runes.induct)
  case (1 s)
  show ?case
  proof (cases "s = []")
    case True
    with "1.prems" show ?thesis by (simp add: utf8_runes.simps)
  next
    case False
    with "1.prems" obtain r s' rs' where
      f: "utf8_first s = Some (r, s')" "utf8_runes s' = Some rs'" "rs = r # rs'"
      by (subst (asm) utf8_runes.simps) (auto split: option.splits)
    with "1.IH"[OF False f(1) refl f(2)] utf8_first_decode[OF f(1)] show ?thesis by simp
  qed
qed

lemma utf8_encode_not_Nil [simp]: "utf8_encode r \<noteq> []"
  by (simp add: utf8_encode_def)

lemma utf8_runes_complete: "list_all scalar_value rs \<Longrightarrow> utf8_runes (concat (map utf8_encode rs)) = Some rs"
proof (induction rs)
  case Nil
  then show ?case by (simp add: utf8_runes.simps)
next
  case (Cons r rs)
  then show ?case by (subst utf8_runes.simps) (simp add: utf8_first_encode)
qed

lemma allowed_rune_scalar: "allowed_rune r \<Longrightarrow> scalar_value r"
  by (auto simp: allowed_rune_def scalar_value_def)

lemma sqsAllowedUnicodeBytes_iff:
  "sqsAllowedUnicodeBytes v \<longleftrightarrow> (\<exists>rs. list_all allowed_rune rs \<and> v = concat (map utf8_encode rs))"
proof
  assume "sqsAllowedUnicodeBytes v"
  then show "\<exists>rs. list_all allowed_rune rs \<and> v = concat (map utf8_encode rs)"
    by (auto simp: sqsAllowedUnicodeBytes_def dest!: utf8_runes_sound split: option.splits)
next
  assume "\<exists>rs. list_all allowed_rune rs \<and> v = concat (map utf8_encode rs)"
  then obtain rs where rs: "list_all allowed_rune rs" "v = concat (map utf8_encode rs)" by blast
  then have "list_all scalar_value rs" using allowed_rune_scalar by (auto simp: list_all_iff)
  with rs show "sqsAllowedUnicodeBytes v" by (simp add: sqsAllowedUnicodeBytes_def utf8_runes_complete)
qed

section \<open>Base64 round trip\<close>

definition b64_char :: "nat \<Rightarrow> char" where
  "b64_char v = char_of (if v < 26 then v + 65 else if v < 52 then v + 71
     else if v < 62 then v - 4 else if v = 62 then 43 else 47)"

fun base64_EncodeToString :: "bytes \<Rightarrow> string" where
  "base64_EncodeToString [] = []"
| "base64_EncodeToString [a] =
     [b64_char (of_char a div 4), b64_char (of_char a mod 4 * 16), CHR ''='', CHR ''='']"
| "base64_EncodeToString [a, b] =
     [b64_char (of_char a div 4), b64_char (of_char a mod 4 * 16 + of_char b div 16),
      b64_char (of_char b mod 16 * 4), CHR ''='']"
| "base64_EncodeToString (a # b # c # s) =
     b64_char (of_char a div 4) # b64_char (of_char a mod 4 * 16 + of_char b div 16) #
     b64_char (of_char b mod 16 * 4 + of_char c div 64) # b64_char (of_char c mod 64) #
     base64_EncodeToString s"

lemma of_char_lt: "(of_char (c :: char) :: nat) < 256"
  using of_char_of[of "of_char c"] by (metis char_of_char mod_less_divisor of_char_of zero_less_numeral)

lemma b64_value_char: "v < 64 \<Longrightarrow> b64_value (b64_char v) = Some v"
  by (auto simp: b64_value_def b64_char_def Let_def of_char_char_of_nat)

lemma b64_char_not_special:
  "v < 64 \<Longrightarrow> b64_char v \<noteq> CHR ''='' \<and> b64_char v \<noteq> char_of (13 :: nat) \<and> b64_char v \<noteq> char_of (10 :: nat)"
proof -
  assume "v < 64"
  then have "b64_value (b64_char v) = Some v" by (rule b64_value_char)
  moreover have "b64_value (CHR ''='') = None" "b64_value (char_of (13 :: nat)) = None"
    "b64_value (char_of (10 :: nat)) = None"
    by (simp_all add: b64_value_def of_char_char_of_nat)
  ultimately show ?thesis by (metis option.distinct(1))
qed

lemma byte_parts:
  "of_char (c :: char) div 4 < (64 :: nat)" "of_char c div 16 < (16 :: nat)" "of_char c div 64 < (4 :: nat)"
  by (simp_all add: less_mult_imp_div_less of_char_lt)

lemma byte_parts_div:
  "of_char (c :: char) div 16 div 16 = (0 :: nat)" "of_char c div 64 div 4 = (0 :: nat)"
  "of_char c div 16 mod 16 = (of_char c div 16 :: nat)" "of_char c div 64 mod 4 = (of_char c div 64 :: nat)"
  by (simp_all only: div_less mod_less byte_parts)

lemma b64_bounds:
  "of_char (a :: char) div 4 < (64 :: nat)" "of_char a mod 4 * 16 < (64 :: nat)"
  "of_char a mod 4 * 16 + of_char (b :: char) div 16 < (64 :: nat)"
  "of_char b mod 16 * 4 < (64 :: nat)" "of_char b mod 16 * 4 + of_char (c :: char) div 64 < (64 :: nat)"
  "of_char c mod 64 < (64 :: nat)"
proof -
  have m: "of_char a mod 4 < (4 :: nat)" "of_char b mod 16 < (16 :: nat)" by simp_all
  show "of_char a mod 4 * 16 + of_char b div 16 < (64 :: nat)"
    using m(1) byte_parts(2)[of b] by linarith
  show "of_char b mod 16 * 4 + of_char c div 64 < (64 :: nat)"
    using m(2) byte_parts(3)[of c] by linarith
  show "of_char a mod 4 * 16 < (64 :: nat)" using m(1) by linarith
  show "of_char b mod 16 * 4 < (64 :: nat)" using m(2) by linarith
qed (simp_all add: byte_parts)

lemma b64_quanta_encode: "b64_quanta (base64_EncodeToString bs) = Some bs"
  by (induction bs rule: base64_EncodeToString.induct)
    (simp_all add: b64_value_char b64_bounds b64_char_not_special byte_parts_div)

lemma base64_no_newlines:
  "c \<in> set (base64_EncodeToString bs) \<Longrightarrow> c \<noteq> char_of (13 :: nat) \<and> c \<noteq> char_of (10 :: nat)"
proof -
  have eq: "CHR ''='' \<noteq> char_of (13 :: nat)" "CHR ''='' \<noteq> char_of (10 :: nat)" by code_simp+
  show "c \<in> set (base64_EncodeToString bs) \<Longrightarrow> c \<noteq> char_of (13 :: nat) \<and> c \<noteq> char_of (10 :: nat)"
    by (induction bs rule: base64_EncodeToString.induct)
      (use eq in \<open>auto simp: b64_char_not_special b64_bounds\<close>)
qed

lemma base64_roundtrip: "base64_DecodeString (base64_EncodeToString bs) = Some bs"
proof -
  have "filter (\<lambda>c. c \<notin> {char_of (13 :: nat), char_of (10 :: nat)}) (base64_EncodeToString bs) =
      base64_EncodeToString bs"
    using base64_no_newlines by (simp add: filter_id_conv)
  then show ?thesis by (simp only: base64_DecodeString_def b64_quanta_encode)
qed

end
