(* ===== verification/Pubsub_Validation.thy ===== *)
theory Pubsub_Validation
  imports Provider_Contract
begin

text \<open>
  \<open>pubsub/validation.go\<close>: the attributes an event keeps, the local checks of a message against
  the limits of Pub/Sub, and the classification of permanent backend errors.
\<close>

section \<open>Limits\<close>

definition pubsub_Target :: string where "pubsub_Target = ''pubsub''"

definition pubsubMaxMessageDataBytes :: nat where "pubsubMaxMessageDataBytes = 10000000"
definition pubsubMaxAttributes :: nat where "pubsubMaxAttributes = 100"
definition pubsubMaxAttributeKeyBytes :: nat where "pubsubMaxAttributeKeyBytes = 256"
definition pubsubMaxAttributeValueBytes :: nat where "pubsubMaxAttributeValueBytes = 1024"
definition pubsubPermanentBackendErrorCode :: int where "pubsubPermanentBackendErrorCode = 400"

definition ascii_letter :: "char \<Rightarrow> bool" where
  "ascii_letter c = (let n = of_char c :: nat in (65 \<le> n \<and> n \<le> 90) \<or> (97 \<le> n \<and> n \<le> 122))"

definition ascii_digit :: "char \<Rightarrow> bool" where
  "ascii_digit c = (let n = of_char c :: nat in 48 \<le> n \<and> n \<le> 57)"

text \<open>\<open>^[A-Za-z][A-Za-z0-9._~+%-]{2,254}$\<close>\<close>

fun pubsubTopicIDPattern :: "string \<Rightarrow> bool" where
  "pubsubTopicIDPattern [] = False"
| "pubsubTopicIDPattern (c # s) =
     (ascii_letter c \<and> 2 \<le> length s \<and> length s \<le> 254 \<and>
      list_all (\<lambda>x. ascii_letter x \<or> ascii_digit x \<or> x \<in> set ''._~+%-'') s)"

section \<open>Messages\<close>

text \<open>A nil attribute map is the empty one: the code only reads its length and its entries.\<close>

record Message =
  msg_Topic :: string
  msg_Data :: bytes
  msg_OrderingKey :: string
  msg_Attributes :: "string gomap"

fun attr_string :: "string \<times> goval \<Rightarrow> (string \<times> string) option" where
  "attr_string (k, GString s) = Some (k, s)"
| "attr_string _ = None"

definition sanitizeStringAttributes :: "goval gomap option \<Rightarrow> string gomap \<times> goval gomap" where
  "sanitizeStringAttributes attributes =
     (case attributes of
        None \<Rightarrow> ([], [])
      | Some m \<Rightarrow> (List.map_filter attr_string m, filter (\<lambda>kv. attr_string kv = None) m))"

definition validPubSubAttributes :: "string gomap \<Rightarrow> bool" where
  "validPubSubAttributes attributes =
     (if length attributes > pubsubMaxAttributes then False
      else list_all (\<lambda>(key, v).
        \<not> (key = []) \<and>
        \<not> (length key > pubsubMaxAttributeKeyBytes \<or> length v > pubsubMaxAttributeValueBytes) \<and>
        \<not> HasPrefix (ToLower key) ''goog'') attributes)"

definition validPubSubTopicID :: "string \<Rightarrow> bool" where
  "validPubSubTopicID topicID \<longleftrightarrow> \<not> HasPrefix (ToLower topicID) ''goog'' \<and> pubsubTopicIDPattern topicID"

definition validPubSubTopic :: "string \<Rightarrow> bool" where
  "validPubSubTopic topic =
     (let parts = Split (CHR ''/'') topic in
      if length parts = 4
      then parts ! 0 = ''projects'' \<and> parts ! 1 \<noteq> [] \<and> parts ! 2 = ''topics'' \<and> validPubSubTopicID (parts ! 3)
      else if Contains topic ''/'' then False
      else validPubSubTopicID topic)"

text \<open>The reason, or nothing when the message may be published.\<close>

definition pubsubPoisonReason :: "Message \<Rightarrow> string option" where
  "pubsubPoisonReason message =
     (if length (msg_Data message) > pubsubMaxMessageDataBytes
      then Some ''Pub/Sub message data exceeds 10 MB''
      else if msg_Data message = [] \<and> msg_Attributes message = [] \<and> msg_OrderingKey message = []
      then Some ''Pub/Sub message has no data, attributes, or ordering key''
      else if \<not> validPubSubAttributes (msg_Attributes message)
      then Some ''Pub/Sub attributes exceed provider limits''
      else if \<not> validPubSubTopic (msg_Topic message)
      then Some ''Pub/Sub topic name is syntactically invalid''
      else None)"

definition isPubSubPermanentBackendError :: "golib \<Rightarrow> go_error \<Rightarrow> bool" where
  "isPubSubPermanentBackendError L err =
     (if as_googleapi err = Some pubsubPermanentBackendErrorCode then True
      else (let code = status_Code L err in code = InvalidArgument \<or> code = OutOfRange))"

section \<open>What the topic check accepts\<close>

text \<open>
  The topic check accepts exactly the two documented forms: a bare topic ID, or
  \<open>projects/<project>/topics/<topic ID>\<close> with a project part that is not empty and holds no slash.
\<close>

theorem validPubSubTopic_iff:
  "validPubSubTopic topic \<longleftrightarrow>
     (validPubSubTopicID topic \<and> CHR ''/'' \<notin> set topic) \<or>
     (\<exists>project topicID. topic = ''projects/'' @ project @ ''/topics/'' @ topicID \<and>
        project \<noteq> [] \<and> CHR ''/'' \<notin> set project \<and> CHR ''/'' \<notin> set topicID \<and> validPubSubTopicID topicID)"
  (is "_ \<longleftrightarrow> ?bare \<or> ?full")
proof -
  let ?sep = "CHR ''/''"
  have contains: "Contains topic ''/'' \<longleftrightarrow> ?sep \<in> set topic"
    by (auto simp: Contains_iff in_set_conv_decomp)
  have one: "?sep \<notin> set topic \<Longrightarrow> length (Split ?sep topic) = 1" by (simp add: Split_no_occurrence)
  have full: "Split ?sep topic = [''projects'', project, ''topics'', topicID]"
    if "topic = ''projects/'' @ project @ ''/topics/'' @ topicID" "?sep \<notin> set project" "?sep \<notin> set topicID"
    for project topicID
  proof -
    have "topic = Join [''projects'', project, ''topics'', topicID] [?sep]" using that(1) by simp
    then show ?thesis using that(2,3) Split_Join[of "[''projects'', project, ''topics'', topicID]" ?sep] by simp
  qed
  show ?thesis
  proof
    assume v: "validPubSubTopic topic"
    show "?bare \<or> ?full"
    proof (cases "length (Split ?sep topic) = 4")
      case True
      then obtain a b c d where s: "Split ?sep topic = [a, b, c, d]"
        by (auto simp: length_Suc_conv eval_nat_numeral)
      with v have "a = ''projects''" "b \<noteq> []" "c = ''topics''" "validPubSubTopicID d"
        by (auto simp: validPubSubTopic_def)
      moreover have "topic = Join [a, b, c, d] [?sep]" using Join_Split[of ?sep topic] s by simp
      moreover have "?sep \<notin> set b" "?sep \<notin> set d" using Split_no_sep[of _ ?sep topic] s by auto
      ultimately show ?thesis by auto
    next
      case False
      with v contains show ?thesis by (auto simp: validPubSubTopic_def Let_def split: if_splits)
    qed
  next
    assume "?bare \<or> ?full"
    then show "validPubSubTopic topic"
    proof
      assume ?bare
      then show ?thesis using contains one by (auto simp: validPubSubTopic_def)
    next
      assume ?full
      then obtain project topicID where f: "topic = ''projects/'' @ project @ ''/topics/'' @ topicID"
        "project \<noteq> []" "?sep \<notin> set project" "?sep \<notin> set topicID" "validPubSubTopicID topicID" by blast
      then show ?thesis using full[OF f(1,3,4)] by (simp add: validPubSubTopic_def)
    qed
  qed
qed

end
