(* ===== verification/Pubsub_Sender.thy ===== *)
theory Pubsub_Sender
  imports Pubsub_Validation
begin

text \<open>
  \<open>pubsub/sender.go\<close>. A publish is asynchronous: \<open>Publish\<close> returns a result object on which the
  sender later waits with \<open>Get\<close>. In the model \<open>Publish\<close>, \<open>Flush\<close> and \<open>ResumePublish\<close> are
  outputs, \<open>Get\<close> is the call, and the result object is named by its handle: the prepared event
  and whether it is the isolated second attempt.
\<close>

section \<open>Data\<close>

record pubsub_Config =
  ps_ProjectID :: string
  ps_APIEndpoint :: string
  PublishTimeout :: int
  PublishResultGrace :: int

record pubsubCandidateEvent =
  pc_evt :: Event
  pc_orderingKey :: string

text \<open>The start time of a publish only feeds a debug line and is left out.\<close>

record pubsubPreparedEvent =
  pp_log :: PublishLog
  pp_message :: Message

type_synonym handle = "pubsubPreparedEvent \<times> bool"

datatype ps_out =
    Report report
  | Publish handle
  | Flush string
  | ResumePublish string string

text \<open>\<open>Get\<close> with its timeout, answered by an error or the message ID.\<close>

type_synonym ps_request = "handle \<times> int"
type_synonym ps_answer = "go_error + string"
type_synonym ps_prog = "(ps_out, ps_request, ps_answer) prog"
type_synonym ps_act = "(ps_out, ps_request, ps_answer) act"

section \<open>Preparing events\<close>

definition parsePubsubCandidate :: "Callbacks \<Rightarrow> Event \<Rightarrow> report list \<times> pubsubCandidateEvent option" where
  "parsePubsubCandidate cb evt =
     (case Options_String (ev_Options evt) ''orderingKey'' of
        Inl err \<Rightarrow> (RejectMalformedOptions cb pubsub_Target evt ''orderingKey'' err, None)
      | Inr orderingKey \<Rightarrow> ([], Some \<lparr> pc_evt = evt, pc_orderingKey = orderingKey \<rparr>))"

definition preparePubsubEvent ::
  "Callbacks \<Rightarrow> pubsubCandidateEvent \<Rightarrow> report list \<times> pubsubPreparedEvent option" where
  "preparePubsubEvent cb candidate =
     (let evt = pc_evt candidate in
      case Options_Object (ev_Options evt) ''attributes'' of
        Inl err \<Rightarrow> (RejectMalformedOptions cb pubsub_Target evt ''attributes'' err, None)
      | Inr attributes \<Rightarrow>
          let stringAttributes = fst (sanitizeStringAttributes attributes);
              plog = (NewPublishLog evt pubsub_Target)\<lparr>log_OrderingKey := pc_orderingKey candidate\<rparr>;
              message = \<lparr> msg_Topic = ev_Destination evt, msg_Data = ev_Payload evt,
                msg_OrderingKey = pc_orderingKey candidate, msg_Attributes = stringAttributes \<rparr> in
          (case pubsubPoisonReason message of
             Some reason \<Rightarrow> ([AddPoisonID (ev_ID evt) reason], None)
           | None \<Rightarrow> ([], Some \<lparr> pp_log = plog, pp_message = message \<rparr>)))"

section \<open>Waiting for a result\<close>

definition reports :: "report list \<Rightarrow> ps_out list" where
  "reports rs = map Report rs"

definition publishPubsubEvent :: "handle \<Rightarrow> ps_prog \<Rightarrow> ps_prog" where
  "publishPubsubEvent h p = Out (Publish h) p"

definition awaitPubsubResult ::
  "pubsub_Config \<Rightarrow> Callbacks \<Rightarrow> handle \<Rightarrow> (ps_answer \<Rightarrow> ps_prog) \<Rightarrow> ps_prog" where
  "awaitPubsubResult cfg cb h k =
     Call (h, wrap64 (PublishTimeout cfg + PublishResultGrace cfg))
       (\<lambda>answer. emit (reports (Progress cb)) (k answer))"

definition markPubsubDone :: "pubsubPreparedEvent \<Rightarrow> ps_out list" where
  "markPubsubDone p = [Report (AddConfirmedID (log_ID (pp_log p)))]"

definition logPubsubFailure :: "Callbacks \<Rightarrow> pubsubPreparedEvent \<Rightarrow> go_error \<Rightarrow> ps_out list" where
  "logPubsubFailure cb p err =
     reports (ReportFailure cb ''Failed to send event''
       (pubsub_Target @ ''|'' @ msg_Topic (pp_message p) @ ''|'' @ msg_OrderingKey (pp_message p) @ ''|'' @
        error_text err))"

definition sendPubsubIsolated ::
  "pubsub_Config \<Rightarrow> golib \<Rightarrow> Callbacks \<Rightarrow> pubsubPreparedEvent \<Rightarrow> bool \<Rightarrow> ps_prog" where
  "sendPubsubIsolated cfg L cb prepared isOrdered =
     publishPubsubEvent (prepared, True)
       (Out (Flush (msg_Topic (pp_message prepared)))
         (awaitPubsubResult cfg cb (prepared, True) (\<lambda>answer. case answer of
            Inr messageID \<Rightarrow> emit (markPubsubDone prepared) (Ret True None)
          | Inl err \<Rightarrow>
              emit (if isOrdered \<and> \<not> errors_Is err context_DeadlineExceeded
                    then [ResumePublish (msg_Topic (pp_message prepared)) (msg_OrderingKey (pp_message prepared))]
                    else [])
                (if errors_Is err context_DeadlineExceeded \<and> isOrdered
                 then emit (logPubsubFailure cb prepared err)
                   (Ret False (errors_Join [Some (Sentinel ErrFatalAfterCommit), Some err]))
                 else if isPubSubPermanentBackendError L err
                 then emit (Report (AddPoisonID (log_ID (pp_log prepared)) (error_text err)) #
                            logPubsubFailure cb prepared err)
                   (Ret True None)
                 else emit (logPubsubFailure cb prepared err) (Ret False (Some err))))))"

section \<open>Unordered events\<close>

fun unordered_await ::
  "pubsub_Config \<Rightarrow> golib \<Rightarrow> Callbacks \<Rightarrow> pubsubPreparedEvent list \<Rightarrow> go_error option \<Rightarrow> ps_prog" where
  "unordered_await cfg L cb [] joined = Ret False joined"
| "unordered_await cfg L cb (prepared # pending) joined =
     awaitPubsubResult cfg cb (prepared, False) (\<lambda>answer. case answer of
        Inr messageID \<Rightarrow> emit (markPubsubDone prepared) (unordered_await cfg L cb pending joined)
      | Inl err \<Rightarrow>
          if errors_Is err context_DeadlineExceeded
          then emit (logPubsubFailure cb prepared err)
            (unordered_await cfg L cb pending (errors_Join [joined, Some err]))
          else if isPubSubPermanentBackendError L err
          then bind (sendPubsubIsolated cfg L cb prepared False)
            (\<lambda>done isolateErr.
               let joined' = (if \<not> done then errors_Join [joined, Some err] else joined) in
               unordered_await cfg L cb pending (errors_Join [joined', isolateErr]))
          else emit (logPubsubFailure cb prepared err)
            (unordered_await cfg L cb pending (errors_Join [joined, Some err])))"

definition unordered_publish :: "Callbacks \<Rightarrow> pubsubCandidateEvent \<Rightarrow> ps_out list" where
  "unordered_publish cb candidate =
     (case preparePubsubEvent cb candidate of
        (rs, None) \<Rightarrow> reports rs
      | (rs, Some prepared) \<Rightarrow> reports rs @ [Publish (prepared, False)])"

text \<open>\<open>order\<close> is the iteration order Go picks for the map of topics.\<close>

definition sendPubsubUnorderedEvents ::
  "(string list \<Rightarrow> string list) \<Rightarrow> pubsub_Config \<Rightarrow> golib \<Rightarrow> Callbacks \<Rightarrow> pubsubCandidateEvent list \<Rightarrow> ps_prog" where
  "sendPubsubUnorderedEvents order cfg L cb events =
     (let pending = List.map_filter (\<lambda>c. snd (preparePubsubEvent cb c)) events;
          topics = remdups (map (msg_Topic \<circ> pp_message) pending) in
      emit (concat (map (unordered_publish cb) events))
        (emit (map Flush (order topics)) (unordered_await cfg L cb pending None)))"

section \<open>Ordered groups\<close>

fun sendPubsubOrderedGroup ::
  "pubsub_Config \<Rightarrow> golib \<Rightarrow> Callbacks \<Rightarrow> pubsubCandidateEvent list \<Rightarrow> ps_prog" where
  "sendPubsubOrderedGroup cfg L cb [] = Ret False None"
| "sendPubsubOrderedGroup cfg L cb (candidate # events) =
     (case preparePubsubEvent cb candidate of
        (rs, None) \<Rightarrow> emit (reports rs) (sendPubsubOrderedGroup cfg L cb events)
      | (rs, Some prepared) \<Rightarrow>
          emit (reports rs)
            (publishPubsubEvent (prepared, False)
              (Out (Flush (msg_Topic (pp_message prepared)))
                (awaitPubsubResult cfg cb (prepared, False) (\<lambda>answer. case answer of
                   Inr messageID \<Rightarrow> emit (markPubsubDone prepared) (sendPubsubOrderedGroup cfg L cb events)
                 | Inl err \<Rightarrow>
                     if errors_Is err context_DeadlineExceeded
                     then emit (logPubsubFailure cb prepared err)
                       (Ret False (errors_Join [Some (Sentinel ErrFatalAfterCommit), Some err]))
                     else if isPubSubPermanentBackendError L err
                     then Out (ResumePublish (msg_Topic (pp_message prepared)) (msg_OrderingKey (pp_message prepared)))
                       (bind (sendPubsubIsolated cfg L cb prepared True)
                         (\<lambda>done isolateErr.
                            if isolateErr \<noteq> None then Ret False isolateErr
                            else if \<not> done then Ret False (Some err)
                            else sendPubsubOrderedGroup cfg L cb events))
                     else Out (ResumePublish (msg_Topic (pp_message prepared)) (msg_OrderingKey (pp_message prepared)))
                       (emit (logPubsubFailure cb prepared err) (Ret False (Some err))))))))"

section \<open>Sending a batch\<close>

definition orderedGroupID :: "pubsubCandidateEvent \<Rightarrow> string" where
  "orderedGroupID c = ev_Destination (pc_evt c) @ [char_of (0 :: nat)] @ pc_orderingKey c"

definition sendPubsubEventsWithCallbacks ::
  "(string list \<Rightarrow> string list) \<Rightarrow> pubsub_Config \<Rightarrow> golib \<Rightarrow> Callbacks \<Rightarrow> Event list \<Rightarrow> ps_prog" where
  "sendPubsubEventsWithCallbacks order cfg L cb events =
     (let candidates = List.map_filter (\<lambda>e. snd (parsePubsubCandidate cb e)) events;
          unordered = filter (\<lambda>c. pc_orderingKey c = []) candidates;
          orderedByGroup = group_by orderedGroupID (filter (\<lambda>c. pc_orderingKey c \<noteq> []) candidates);
          groupOrder = map fst orderedByGroup in
      emit (concat (map (\<lambda>e. reports (fst (parsePubsubCandidate cb e))) events))
        (bind (sendPubsubUnorderedEvents order cfg L cb unordered)
          (\<lambda>_ unorderedErr.
             bind (RunConcurrent groupOrder
                 (\<lambda>groupID. sendPubsubOrderedGroup cfg L cb (group_get orderedByGroup groupID)))
               (\<lambda>_ orderedErr. Ret False (errors_Join [unorderedErr, orderedErr])))))"

definition pubsub_Send ::
  "(string list \<Rightarrow> string list) \<Rightarrow> pubsub_Config \<Rightarrow> golib \<Rightarrow> Callbacks \<Rightarrow> Event list \<Rightarrow> ps_prog" where
  "pubsub_Send order cfg L cb events = sendPubsubEventsWithCallbacks order cfg L cb events"

end
