(* ===== verification/Config.thy ===== *)
theory Config
  imports SQS_Options Pubsub_Sender
begin

text \<open>
  \<open>config.go\<close>, \<open>config_validate.go\<close> and the routing part of \<open>providers.go\<close>: the configuration
  record with its defaults, the derived notification channel, the validation rules, and the
  provider routes that collection and dispatch share. Durations are nanoseconds.
\<close>

section \<open>The configuration record\<close>

record appConfig =
  EventTable :: string
  EventID :: string
  EventTimestamp :: string
  EventPayload :: string
  EventTarget :: string
  EventDestination :: string
  EventOptions :: string
  CollectBatchTarget :: int
  BacklogCountLimit :: int
  SQSSendConcurrency :: int
  DLQTable :: string
  NotifyChannel :: string
  LogLevel :: string
  LogFormat :: string
  WatchdogInterval :: int
  HealthPort :: int
  HealthStaleAfter :: int
  PubSubEnabled :: bool
  SQSEnabled :: bool
  DefaultPubSubTopic :: string
  DefaultSQSQueueURL :: string
  PubSubDestinations :: "string list"
  SQSDestinations :: "string list"
  PubSubProjectID :: string
  PubSubAPIEndpoint :: string
  SQSAPIEndpoint :: string
  ErrorCooldown :: int
  cfg_PublishTimeout :: int
  cfg_PublishResultGrace :: int
  MaxEventAge :: int
  StatsInterval :: int
  PGHost :: string
  PGPort :: "16 word"
  PGUser :: string
  PGPassword :: string
  PGDatabase :: string
  PGSchema :: string
  PGSSL :: bool
  PGSSLRejectUnauthorized :: bool
  PGSSLRootCert :: string
  PGConnectTimeout :: int
  PGQueryTimeout :: int
  PGInitUser :: string
  PGInitPassword :: string
  PGProducerRoles :: "string list"
  AWSRegion :: string
  AWSRoleARN :: string
  AWSRoleSessionName :: string
  AWSRoleDuration :: int
  AWSCredentialRefreshWindow :: int
  AWSWebIdentityProvider :: string
  AWSWebIdentityAudience :: string

definition time_Millisecond :: int where "time_Millisecond = 1000000"
definition time_Second :: int where "time_Second = 1000 * time_Millisecond"
definition time_Minute :: int where "time_Minute = 60 * time_Second"
definition time_Hour :: int where "time_Hour = 60 * time_Minute"

definition sqsSendConcurrency :: int where "sqsSendConcurrency = 128"
definition backlogCountLimit :: int where "backlogCountLimit = 100000"
definition errorCooldown :: int where "errorCooldown = 5 * time_Second"
definition publishResultGrace :: int where "publishResultGrace = 5 * time_Second"
definition statsInterval :: int where "statsInterval = 10 * time_Second"
definition pgConnectTimeout :: int where "pgConnectTimeout = 10 * time_Second"
definition awsRoleDuration :: int where "awsRoleDuration = time_Hour"
definition awsCredentialRefreshWindow :: int where "awsCredentialRefreshWindow = 5 * time_Minute"
definition pollInterval :: int where "pollInterval = time_Second"
definition healthStaleAfter :: int where "healthStaleAfter = 5 * time_Minute"
definition watchdogInterval :: int where "watchdogInterval = 10 * time_Minute"
definition notifyChannelPrefix :: string where "notifyChannelPrefix = ''outboxer_''"
definition notifyChannelMaxBytes :: nat where "notifyChannelMaxBytes = 63"

definition deriveNotifyChannel :: "string \<Rightarrow> string" where
  "deriveNotifyChannel eventTable =
     (let channel = notifyChannelPrefix @ eventTable in
      if length channel > notifyChannelMaxBytes then take notifyChannelMaxBytes channel else channel)"

definition deriveConfig :: "appConfig \<Rightarrow> appConfig" where
  "deriveConfig cfg = cfg\<lparr>NotifyChannel := deriveNotifyChannel (EventTable cfg)\<rparr>"

definition defaultConfig :: appConfig where
  "defaultConfig = \<lparr>
     EventTable = ''events'', EventID = ''id'', EventTimestamp = ''timestamp'', EventPayload = ''payload'',
     EventTarget = ''target'', EventDestination = ''destination'', EventOptions = ''options'',
     CollectBatchTarget = 10000, BacklogCountLimit = backlogCountLimit,
     SQSSendConcurrency = sqsSendConcurrency, DLQTable = [], NotifyChannel = deriveNotifyChannel ''events'',
     LogLevel = ''info'', LogFormat = ''text'',
     WatchdogInterval = watchdogInterval, HealthPort = 0, HealthStaleAfter = healthStaleAfter,
     PubSubEnabled = False, SQSEnabled = False, DefaultPubSubTopic = ''default'', DefaultSQSQueueURL = [],
     PubSubDestinations = [], SQSDestinations = [], PubSubProjectID = [], PubSubAPIEndpoint = [],
     SQSAPIEndpoint = [], ErrorCooldown = errorCooldown, cfg_PublishTimeout = 30 * time_Second,
     cfg_PublishResultGrace = publishResultGrace, MaxEventAge = 0, StatsInterval = statsInterval,
     PGHost = ''localhost'', PGPort = 5432, PGUser = ''postgres'', PGPassword = [], PGDatabase = ''postgres'',
     PGSchema = ''public'', PGSSL = False, PGSSLRejectUnauthorized = True, PGSSLRootCert = [],
     PGConnectTimeout = pgConnectTimeout, PGQueryTimeout = 30 * time_Second,
     PGInitUser = [], PGInitPassword = [], PGProducerRoles = [],
     AWSRegion = [], AWSRoleARN = [], AWSRoleSessionName = ''outboxer'', AWSRoleDuration = awsRoleDuration,
     AWSCredentialRefreshWindow = awsCredentialRefreshWindow, AWSWebIdentityProvider = [],
     AWSWebIdentityAudience = [] \<rparr>"

section \<open>String lists\<close>

text \<open>
  \<open>strings.TrimSpace\<close>: the UTF-8 encodings of the runes \<open>unicode.IsSpace\<close> accepts, stripped from
  both ends.
\<close>

definition space_seqs :: "string list" where
  "space_seqs = map (map char_of)
     ([[9], [10], [11], [12], [13], [32], [194, 133], [194, 160], [225, 154, 128]] @
      map (\<lambda>n. [226, 128, n]) [128..<139] @
      [[226, 128, 168], [226, 128, 169], [226, 128, 175], [226, 129, 159], [227, 128, 128 :: nat]])"

function strip :: "string list \<Rightarrow> string \<Rightarrow> string" where
  "strip seqs s =
     (case List.find (\<lambda>p. p \<noteq> [] \<and> HasPrefix s p) seqs of
        None \<Rightarrow> s
      | Some p \<Rightarrow> strip seqs (drop (length p) s))"
  by pat_completeness auto
termination
  by (relation "measure (\<lambda>(seqs, s). length s)")
    (auto simp: List.find_Some_iff HasPrefix_iff)

declare strip.simps [simp del]

definition TrimSpace :: "string \<Rightarrow> string" where
  "TrimSpace s = rev (strip (map rev space_seqs) (rev (strip space_seqs s)))"

definition parseStringList :: "string \<Rightarrow> string list" where
  "parseStringList v = filter (\<lambda>t. t \<noteq> []) (map TrimSpace (Split (CHR '','') v))"

section \<open>Provider routes\<close>

record providerRoute =
  route_target :: string
  defaultDestination :: string
  ownedDestinations :: "string list"

definition pubsub_route :: "appConfig \<Rightarrow> providerRoute" where
  "pubsub_route cfg = \<lparr> route_target = pubsub_Target, defaultDestination = DefaultPubSubTopic cfg,
     ownedDestinations = PubSubDestinations cfg \<rparr>"

definition sqs_route :: "appConfig \<Rightarrow> providerRoute" where
  "sqs_route cfg = \<lparr> route_target = sqs_Target, defaultDestination = DefaultSQSQueueURL cfg,
     ownedDestinations = SQSDestinations cfg \<rparr>"

text \<open>\<open>providerSpecs\<close>: the enabling switch and the route of each provider, in this order.\<close>

definition providerSpecs :: "((appConfig \<Rightarrow> bool) \<times> (appConfig \<Rightarrow> providerRoute)) list" where
  "providerSpecs = [(PubSubEnabled, pubsub_route), (SQSEnabled, sqs_route)]"

definition configuredProviderRoutes :: "appConfig \<Rightarrow> providerRoute list" where
  "configuredProviderRoutes cfg =
     map (\<lambda>spec. snd spec cfg) (filter (\<lambda>spec. fst spec cfg) providerSpecs)"

definition pubsubConfig :: "appConfig \<Rightarrow> pubsub_Config" where
  "pubsubConfig cfg = \<lparr> ps_ProjectID = PubSubProjectID cfg, ps_APIEndpoint = PubSubAPIEndpoint cfg,
     PublishTimeout = cfg_PublishTimeout cfg, PublishResultGrace = cfg_PublishResultGrace cfg \<rparr>"

section \<open>Validation\<close>

datatype configValidationMode = configValidationRelay | configValidationInit | OtherMode nat

text \<open>\<open>fmt\<close>'s \<open>%q\<close> verb and the text of a duration are arguments, as their text is not checked.\<close>

type_synonym fmt = "(string \<Rightarrow> string) \<times> (int \<Rightarrow> string)"

fun duplicate_column :: "(string \<times> string) list \<Rightarrow> (string \<times> string) list \<Rightarrow> (string \<times> string \<times> string) option" where
  "duplicate_column seen [] = None"
| "duplicate_column seen ((v, label) # columns) =
     (if v = [] then duplicate_column seen columns
      else (case map_of seen v of
          Some previous \<Rightarrow> Some (previous, label, v)
        | None \<Rightarrow> duplicate_column ((v, label) # seen) columns))"

definition config_columns :: "appConfig \<Rightarrow> (string \<times> string) list" where
  "config_columns cfg =
     [(EventID cfg, ''EVENT_ID''), (EventPayload cfg, ''EVENT_PAYLOAD''), (EventTarget cfg, ''EVENT_TARGET''),
      (EventDestination cfg, ''EVENT_DESTINATION''), (EventTimestamp cfg, ''EVENT_TIMESTAMP''),
      (EventOptions cfg, ''EVENT_OPTIONS'')]"

definition validateStorage :: "fmt \<Rightarrow> appConfig \<Rightarrow> go_error option" where
  "validateStorage F cfg =
     (if EventTable cfg = [] then Some (ErrorString ''an event table is required: set EVENT_TABLE'')
      else if EventID cfg = [] then Some (ErrorString ''an id column is required: set EVENT_ID'')
      else if EventPayload cfg = [] then Some (ErrorString ''a payload column is required: set EVENT_PAYLOAD'')
      else if PGSchema cfg = [] then Some (ErrorString ''a PostgreSQL schema is required: set PG_SCHEMA'')
      else if DLQTable cfg \<noteq> [] \<and> DLQTable cfg = EventTable cfg
      then Some (ErrorString ''DLQ_TABLE must not equal EVENT_TABLE'')
      else (case duplicate_column [] (config_columns cfg) of
          Some (previous, label, v) \<Rightarrow>
            Some (ErrorString (previous @ '' and '' @ label @ '' both resolve to the same column name '' @ fst F v))
        | None \<Rightarrow> None))"

definition awsWebIdentityProviderGoogle :: string where
  "awsWebIdentityProviderGoogle = ''google''"

definition validateRuntime :: "fmt \<Rightarrow> appConfig \<Rightarrow> go_error option" where
  "validateRuntime F cfg =
     (let routes = configuredProviderRoutes cfg in
      if length routes = 0 then Some (ErrorString ''no publishing provider enabled'')
      else if length routes > 1 \<and> EventTarget cfg = []
      then Some (ErrorString ''a target column is required when multiple providers are enabled: set EVENT_TARGET'')
      else (case List.find (\<lambda>route. defaultDestination route = [] \<and> EventDestination cfg = []) routes of
        Some route \<Rightarrow> Some (ErrorString (''provider '' @ fst F (route_target route) @
          '' needs a destination: set EVENT_DESTINATION or its default destination''))
      | None \<Rightarrow>
      (case List.find (\<lambda>spec. \<not> fst spec cfg \<and> ownedDestinations (snd spec cfg) \<noteq> []) providerSpecs of
        Some spec \<Rightarrow> Some (ErrorString (''destination ownership for provider '' @
          fst F (route_target (snd spec cfg)) @ '' requires that provider to be enabled''))
      | None \<Rightarrow>
        if CollectBatchTarget cfg \<le> 0
        then Some (ErrorString (''batch collection target ('' @ Itoa (CollectBatchTarget cfg) @
          '') must be positive: set COLLECT_BATCH_TARGET''))
        else if cfg_PublishTimeout cfg \<le> 0
        then Some (ErrorString (''publish timeout ('' @ snd F (cfg_PublishTimeout cfg) @
          '') must be positive: set PUBLISH_TIMEOUT_MS''))
        else if MaxEventAge cfg < 0
        then Some (ErrorString (''max event age ('' @ snd F (MaxEventAge cfg) @
          '') must not be negative: set MAX_EVENT_AGE_MS''))
        else if MaxEventAge cfg > 0 \<and> EventTimestamp cfg = []
        then Some (ErrorString ''MAX_EVENT_AGE_MS requires an event timestamp column: set EVENT_TIMESTAMP'')
        else if AWSWebIdentityProvider cfg \<noteq> []
        then (if AWSWebIdentityProvider cfg \<noteq> awsWebIdentityProviderGoogle
              then Some (ErrorString (''unsupported AWS_WEB_IDENTITY_PROVIDER '' @
                fst F (AWSWebIdentityProvider cfg) @ '': the only supported value is '' @
                fst F awsWebIdentityProviderGoogle))
              else if AWSRoleARN cfg = []
              then Some (ErrorString ''AWS_WEB_IDENTITY_PROVIDER requires AWS_ROLE_ARN (the role to assume with the web identity token)'')
              else if AWSWebIdentityAudience cfg = []
              then Some (ErrorString ''AWS_WEB_IDENTITY_PROVIDER requires AWS_WEB_IDENTITY_AUDIENCE'')
              else None)
        else None)))"

definition validate :: "fmt \<Rightarrow> configValidationMode \<Rightarrow> appConfig \<Rightarrow> go_error option" where
  "validate F mode cfg =
     (case validateStorage F cfg of
        Some err \<Rightarrow> Some err
      | None \<Rightarrow> (case mode of
            configValidationInit \<Rightarrow> None
          | configValidationRelay \<Rightarrow> validateRuntime F cfg
          | OtherMode n \<Rightarrow> Some (ErrorString (''unknown configuration validation mode '' @ dec_nat n))))"

section \<open>What validation establishes\<close>

lemma duplicate_column_None:
  "duplicate_column seen columns = None \<longleftrightarrow>
     distinct (filter (\<lambda>c. c \<noteq> []) (map fst columns)) \<and>
     set (filter (\<lambda>c. c \<noteq> []) (map fst columns)) \<inter> fst ` set seen = {}"
proof (induction seen columns rule: duplicate_column.induct)
  case (2 seen v label columns)
  show ?case
  proof (cases "v = [] \<or> map_of seen v \<noteq> None")
    case True
    with 2 show ?thesis by (auto simp: map_of_eq_None_iff split: option.splits)
  next
    case False
    then have "v \<notin> fst ` set seen" by (simp add: map_of_eq_None_iff)
    with 2 False show ?thesis by auto
  qed
qed simp

lemma routes_distinct: "distinct (map route_target (configuredProviderRoutes cfg))"
  by (simp add: configuredProviderRoutes_def providerSpecs_def pubsub_route_def sqs_route_def
      pubsub_Target_def sqs_Target_def)

text \<open>The configurations the relay can run with.\<close>

definition runnable :: "appConfig \<Rightarrow> bool" where
  "runnable cfg \<longleftrightarrow>
     EventTable cfg \<noteq> [] \<and> EventID cfg \<noteq> [] \<and> EventPayload cfg \<noteq> [] \<and> PGSchema cfg \<noteq> [] \<and>
     DLQTable cfg \<noteq> EventTable cfg \<and>
     distinct (filter (\<lambda>c. c \<noteq> []) (map fst (config_columns cfg))) \<and>
     configuredProviderRoutes cfg \<noteq> [] \<and>
     (length (configuredProviderRoutes cfg) > 1 \<longrightarrow> EventTarget cfg \<noteq> []) \<and>
     list_all (\<lambda>r. defaultDestination r \<noteq> [] \<or> EventDestination cfg \<noteq> []) (configuredProviderRoutes cfg) \<and>
     (PubSubDestinations cfg \<noteq> [] \<longrightarrow> PubSubEnabled cfg) \<and> (SQSDestinations cfg \<noteq> [] \<longrightarrow> SQSEnabled cfg) \<and>
     CollectBatchTarget cfg > 0 \<and> cfg_PublishTimeout cfg > 0 \<and> MaxEventAge cfg \<ge> 0 \<and>
     (MaxEventAge cfg > 0 \<longrightarrow> EventTimestamp cfg \<noteq> []) \<and>
     (AWSWebIdentityProvider cfg \<noteq> [] \<longrightarrow>
        AWSWebIdentityProvider cfg = ''google'' \<and> AWSRoleARN cfg \<noteq> [] \<and> AWSWebIdentityAudience cfg \<noteq> [])"

lemma validateStorage_None:
  "validateStorage F cfg = None \<longleftrightarrow>
     EventTable cfg \<noteq> [] \<and> EventID cfg \<noteq> [] \<and> EventPayload cfg \<noteq> [] \<and> PGSchema cfg \<noteq> [] \<and>
     DLQTable cfg \<noteq> EventTable cfg \<and> distinct (filter (\<lambda>c. c \<noteq> []) (map fst (config_columns cfg)))"
  using duplicate_column_None[of "[]" "config_columns cfg"]
  by (auto simp: validateStorage_def split: option.splits prod.splits)

lemma disabled_ownership_None:
  "List.find (\<lambda>spec. \<not> fst spec cfg \<and> ownedDestinations (snd spec cfg) \<noteq> []) providerSpecs = None \<longleftrightarrow>
     (PubSubDestinations cfg \<noteq> [] \<longrightarrow> PubSubEnabled cfg) \<and> (SQSDestinations cfg \<noteq> [] \<longrightarrow> SQSEnabled cfg)"
  by (auto simp: List.find_None_iff providerSpecs_def pubsub_route_def sqs_route_def)

lemma missing_destination_None:
  "List.find (\<lambda>route. defaultDestination route = [] \<and> EventDestination cfg = []) routes = None \<longleftrightarrow>
     list_all (\<lambda>r. defaultDestination r \<noteq> [] \<or> EventDestination cfg \<noteq> []) routes"
  by (auto simp: List.find_None_iff list_all_iff)

lemma validateRuntime_None:
  "validateRuntime F cfg = None \<longleftrightarrow>
     configuredProviderRoutes cfg \<noteq> [] \<and>
     (length (configuredProviderRoutes cfg) > 1 \<longrightarrow> EventTarget cfg \<noteq> []) \<and>
     list_all (\<lambda>r. defaultDestination r \<noteq> [] \<or> EventDestination cfg \<noteq> []) (configuredProviderRoutes cfg) \<and>
     (PubSubDestinations cfg \<noteq> [] \<longrightarrow> PubSubEnabled cfg) \<and> (SQSDestinations cfg \<noteq> [] \<longrightarrow> SQSEnabled cfg) \<and>
     CollectBatchTarget cfg > 0 \<and> cfg_PublishTimeout cfg > 0 \<and> MaxEventAge cfg \<ge> 0 \<and>
     (MaxEventAge cfg > 0 \<longrightarrow> EventTimestamp cfg \<noteq> []) \<and>
     (AWSWebIdentityProvider cfg \<noteq> [] \<longrightarrow>
        AWSWebIdentityProvider cfg = ''google'' \<and> AWSRoleARN cfg \<noteq> [] \<and> AWSWebIdentityAudience cfg \<noteq> [])"
proof -
  let ?find1 = "List.find (\<lambda>route. defaultDestination route = [] \<and> EventDestination cfg = []) (configuredProviderRoutes cfg)"
  let ?find2 = "List.find (\<lambda>spec. \<not> fst spec cfg \<and> ownedDestinations (snd spec cfg) \<noteq> []) providerSpecs"
  have "validateRuntime F cfg = None \<longleftrightarrow>
      configuredProviderRoutes cfg \<noteq> [] \<and>
      (length (configuredProviderRoutes cfg) > 1 \<longrightarrow> EventTarget cfg \<noteq> []) \<and> ?find1 = None \<and> ?find2 = None \<and>
      CollectBatchTarget cfg > 0 \<and> cfg_PublishTimeout cfg > 0 \<and> MaxEventAge cfg \<ge> 0 \<and>
      (MaxEventAge cfg > 0 \<longrightarrow> EventTimestamp cfg \<noteq> []) \<and>
      (AWSWebIdentityProvider cfg \<noteq> [] \<longrightarrow>
        AWSWebIdentityProvider cfg = ''google'' \<and> AWSRoleARN cfg \<noteq> [] \<and> AWSWebIdentityAudience cfg \<noteq> [])"
    unfolding validateRuntime_def Let_def awsWebIdentityProviderGoogle_def
    by (cases ?find1; cases ?find2) (simp_all add: not_le not_less)
  then show ?thesis unfolding missing_destination_None disabled_ownership_None by simp
qed

lemma validate_runnable: "validate F configValidationRelay cfg = None \<longleftrightarrow> runnable cfg"
proof -
  have "validate F configValidationRelay cfg = None \<longleftrightarrow> validateStorage F cfg = None \<and> validateRuntime F cfg = None"
    by (simp add: validate_def split: option.splits)
  then show ?thesis unfolding validateStorage_None validateRuntime_None runnable_def by (simp only: conj_assoc)
qed

text \<open>
  (C36) The relay starts exactly with the runnable configurations: the validation of the relay
  command reports no error if and only if the table, the required columns and the schema are
  named, no column is used twice, some provider is enabled, every event can find a target and
  a destination, ownership lists belong to enabled providers, the batch target and the publish
  timeout are positive, and expiry and web identity come with what they need.
\<close>

theorem validate_relay_iff: "validate F configValidationRelay cfg = None \<longleftrightarrow> runnable cfg"
  by (rule validate_runnable)

section \<open>Notification channels\<close>

text \<open>
  The notification channel always fits a PostgreSQL identifier, carries the prefix, and
  distinguishes tables whose names differ within the first 54 bytes.
\<close>

theorem notify_channel_ok:
  "length (deriveNotifyChannel t) \<le> 63 \<and> HasPrefix (deriveNotifyChannel t) ''outboxer_'' \<and>
   (deriveNotifyChannel t = deriveNotifyChannel u \<longleftrightarrow> take 54 t = take 54 u)"
proof -
  have eq: "deriveNotifyChannel t = ''outboxer_'' @ take 54 t" for t
    by (simp add: deriveNotifyChannel_def notifyChannelPrefix_def notifyChannelMaxBytes_def Let_def)
  show ?thesis unfolding eq by (auto simp: HasPrefix_iff)
qed

section \<open>String lists\<close>

lemma strip_Nil [simp]: "strip seqs [] = []"
  by (subst strip.simps) (auto simp: HasPrefix_def split: option.splits dest!: List.find_Some_iff[THEN iffD1])

lemma TrimSpace_Nil [simp]: "TrimSpace [] = []"
  by (simp add: TrimSpace_def)

text \<open>
  A comma-separated list reads back: joining non-empty trimmed names without commas and
  parsing the result gives the same names, in the same order.
\<close>

theorem parseStringList_Join:
  assumes "list_all (\<lambda>x. x \<noteq> [] \<and> CHR '','' \<notin> set x \<and> TrimSpace x = x) xs"
  shows "parseStringList (Join xs '','') = xs"
proof (cases "xs = []")
  case True
  then show ?thesis by (simp add: parseStringList_def)
next
  case False
  then have "Split (CHR '','') (Join xs '','') = xs"
    using assms by (intro Split_Join) (auto simp: list_all_iff)
  moreover have "map TrimSpace xs = xs" "filter (\<lambda>t. t \<noteq> []) xs = xs"
    using assms by (auto simp: list_all_iff intro: map_idI)
  ultimately show ?thesis by (simp add: parseStringList_def)
qed

lemma TrimSpace_ab: "TrimSpace ''a'' = ''a''" "TrimSpace ''b'' = ''b''"
  by (simp_all add: TrimSpace_def strip.simps space_seqs_def HasPrefix_def upt_rec char_of_def)

theorem parseStringList_Join_witness: "parseStringList (Join [''a'', ''b''] '','') = [''a'', ''b'']"
  by (rule parseStringList_Join) (simp add: TrimSpace_ab)

end
