(* ===== verification/Monitoring.thy ===== *)
theory Monitoring
  imports Config
begin

text \<open>
  The parts of the relay that observe it: the counters and gauges of \<open>stats.go\<close>, the health
  answer of \<open>http.go\<close>, the watchdog of \<open>watchdog.go\<close> and the rate-limited failure log of
  \<open>failure_logger.go\<close>. Times are nanoseconds since the Unix epoch.
\<close>

section \<open>Counters\<close>

record batchStats =
  bs_selected :: int
  bs_sent :: int
  bs_poison :: int
  bs_dlq :: int
  bs_keptForRetry :: int
  bs_senderErrors :: int
  bs_fatalAfterCommitErrors :: int
  bs_oldestEventAge :: int
  bs_publishDuration :: int
  bs_dbDuration :: int

definition zero_batch :: batchStats where
  "zero_batch = \<lparr> bs_selected = 0, bs_sent = 0, bs_poison = 0, bs_dlq = 0, bs_keptForRetry = 0,
     bs_senderErrors = 0, bs_fatalAfterCommitErrors = 0, bs_oldestEventAge = 0, bs_publishDuration = 0,
     bs_dbDuration = 0 \<rparr>"

record statsSnapshot =
  sn_selected :: int
  sn_sent :: int
  sn_poison :: int
  sn_dlq :: int
  sn_keptForRetry :: int
  sn_batchesProcessed :: int
  sn_batchErrors :: int
  sn_senderErrors :: int
  sn_fatalAfterCommitErrors :: int

text \<open>The nine cumulative counters are kept as one record, as \<open>snapshot()\<close> reads them.\<close>

record appStats =
  counters :: statsSnapshot
  lastBatchSelected :: int
  lastBatchKeptForRetry :: int
  oldestEventAgeMillis :: int
  lastSuccessUnixMilli :: int
  lastBatchPublishMillis :: int
  lastBatchDBMillis :: int
  backlogEvents :: int
  backlogFloor :: int
  lastLogged :: statsSnapshot

definition zero_snapshot :: statsSnapshot where
  "zero_snapshot = \<lparr> sn_selected = 0, sn_sent = 0, sn_poison = 0, sn_dlq = 0, sn_keptForRetry = 0,
     sn_batchesProcessed = 0, sn_batchErrors = 0, sn_senderErrors = 0, sn_fatalAfterCommitErrors = 0 \<rparr>"

definition UnixMilli :: "int \<Rightarrow> int" where
  "UnixMilli t = t div 1000000"

definition Milliseconds :: "int \<Rightarrow> int" where
  "Milliseconds d = d sdiv 1000000"

definition newAppStats :: "int \<Rightarrow> appStats" where
  "newAppStats now = \<lparr> counters = zero_snapshot, lastBatchSelected = 0, lastBatchKeptForRetry = 0,
     oldestEventAgeMillis = 0, lastSuccessUnixMilli = UnixMilli now, lastBatchPublishMillis = 0,
     lastBatchDBMillis = 0, backlogEvents = 0, backlogFloor = 1, lastLogged = zero_snapshot \<rparr>"

definition setBacklog :: "appStats \<Rightarrow> int \<Rightarrow> bool \<Rightarrow> appStats" where
  "setBacklog s events is_floor = s\<lparr>backlogEvents := events, backlogFloor := if is_floor then 1 else 0\<rparr>"

definition sub :: "statsSnapshot \<Rightarrow> statsSnapshot \<Rightarrow> statsSnapshot" where
  "sub s other = \<lparr>
     sn_selected = wrap64 (sn_selected s - sn_selected other),
     sn_sent = wrap64 (sn_sent s - sn_sent other),
     sn_poison = wrap64 (sn_poison s - sn_poison other),
     sn_dlq = wrap64 (sn_dlq s - sn_dlq other),
     sn_keptForRetry = wrap64 (sn_keptForRetry s - sn_keptForRetry other),
     sn_batchesProcessed = wrap64 (sn_batchesProcessed s - sn_batchesProcessed other),
     sn_batchErrors = wrap64 (sn_batchErrors s - sn_batchErrors other),
     sn_senderErrors = wrap64 (sn_senderErrors s - sn_senderErrors other),
     sn_fatalAfterCommitErrors = wrap64 (sn_fatalAfterCommitErrors s - sn_fatalAfterCommitErrors other) \<rparr>"

definition add_batch :: "statsSnapshot \<Rightarrow> batchStats \<Rightarrow> statsSnapshot" where
  "add_batch s b = s\<lparr>
     sn_selected := wrap64 (sn_selected s + bs_selected b),
     sn_sent := wrap64 (sn_sent s + bs_sent b),
     sn_poison := wrap64 (sn_poison s + bs_poison b),
     sn_dlq := wrap64 (sn_dlq s + bs_dlq b),
     sn_keptForRetry := wrap64 (sn_keptForRetry s + bs_keptForRetry b),
     sn_senderErrors := wrap64 (sn_senderErrors s + bs_senderErrors b),
     sn_fatalAfterCommitErrors := wrap64 (sn_fatalAfterCommitErrors s + bs_fatalAfterCommitErrors b),
     sn_batchesProcessed := wrap64 (sn_batchesProcessed s + 1)\<rparr>"

definition addCommittedBatch :: "appStats \<Rightarrow> batchStats \<Rightarrow> int \<Rightarrow> appStats" where
  "addCommittedBatch s batch now = s\<lparr>
     counters := add_batch (counters s) batch,
     lastBatchSelected := bs_selected batch,
     lastBatchKeptForRetry := bs_keptForRetry batch,
     oldestEventAgeMillis := Milliseconds (bs_oldestEventAge batch),
     lastSuccessUnixMilli := UnixMilli now,
     lastBatchPublishMillis := Milliseconds (bs_publishDuration batch),
     lastBatchDBMillis := Milliseconds (bs_dbDuration batch)\<rparr>"

definition addBatchError :: "appStats \<Rightarrow> appStats" where
  "addBatchError s = s\<lparr>counters := (counters s)\<lparr>sn_batchErrors := wrap64 (sn_batchErrors (counters s) + 1)\<rparr>\<rparr>"

definition intervalSnapshot :: "appStats \<Rightarrow> statsSnapshot \<times> appStats" where
  "intervalSnapshot s =
     (let current = counters s in (sub current (lastLogged s), s\<lparr>lastLogged := current\<rparr>))"

text \<open>The zero time when the gauge was never seeded.\<close>

definition lastSuccess :: "appStats \<Rightarrow> int" where
  "lastSuccess s =
     (if lastSuccessUnixMilli s = 0 then zero_time else lastSuccessUnixMilli s * 1000000)"

section \<open>Health\<close>

definition handleHealthz :: "appConfig \<Rightarrow> appStats \<Rightarrow> int \<Rightarrow> int" where
  "handleHealthz cfg s now =
     (let threshold = HealthStaleAfter cfg in
      if threshold \<le> 0 then 200
      else let last = lastSuccess s; age = time_Sub now last in
           if last = zero_time \<or> age > threshold then 503 else 200)"

section \<open>Watchdog\<close>

text \<open>
  \<open>markProgress\<close> adds one to a 64-bit counter. The goroutine started by \<open>start\<close> reads the counter
  at every tick; \<open>watch\<close> takes the values it reads and gives the number of the tick at which it
  calls \<open>onStall\<close>, if any.
\<close>

definition markProgress :: "int \<Rightarrow> int" where
  "markProgress progress = wrap64 (progress + 1)"

fun watch :: "int \<Rightarrow> int list \<Rightarrow> nat option" where
  "watch previous [] = None"
| "watch previous (current # ticks) =
     (if current = previous then Some 0 else map_option Suc (watch current ticks))"

text \<open>The values read when the loop marks progress \<open>n\<close> times before each tick.\<close>

fun readings :: "int \<Rightarrow> nat list \<Rightarrow> int list" where
  "readings progress [] = []"
| "readings progress (n # ns) =
     (let p = (markProgress ^^ n) progress in p # readings p ns)"

section \<open>Failure log\<close>

record failureLogEntry =
  nextLogAt :: int
  suppressed :: int

record failureLogger =
  fl_window :: int
  fl_entries :: "(string \<times> failureLogEntry) list"

definition failureLogWindow :: int where
  "failureLogWindow = 60 * time_Second"

definition newFailureLogger :: "int \<Rightarrow> failureLogger" where
  "newFailureLogger window =
     \<lparr> fl_window = (if window \<le> 0 then failureLogWindow else window), fl_entries = [] \<rparr>"

definition shouldLog :: "failureLogger \<Rightarrow> int \<Rightarrow> string \<Rightarrow> (bool \<times> int) \<times> failureLogger" where
  "shouldLog l now signature =
     (case map_of (fl_entries l) signature of
        None \<Rightarrow> ((True, 0), l\<lparr>fl_entries := AList.update signature
          \<lparr> nextLogAt = now + fl_window l, suppressed = 0 \<rparr> (fl_entries l)\<rparr>)
      | Some entry \<Rightarrow>
          if now < nextLogAt entry
          then ((False, 0), l\<lparr>fl_entries := AList.update signature
            (entry\<lparr>suppressed := wrap64 (suppressed entry + 1)\<rparr>) (fl_entries l)\<rparr>)
          else ((True, suppressed entry), l\<lparr>fl_entries := AList.update signature
            (entry\<lparr>suppressed := 0, nextLogAt := now + fl_window l\<rparr>) (fl_entries l)\<rparr>))"

text \<open>
  \<open>log\<close>: the line that is written, if any, with the suppressed count when it is positive.
\<close>

definition log_failure_line ::
  "failureLogger \<Rightarrow> int \<Rightarrow> string \<Rightarrow> string \<Rightarrow> (string \<times> int option) option \<times> failureLogger" where
  "log_failure_line l now message signature =
     (case shouldLog l now signature of
        ((ok, n), l') \<Rightarrow> (if ok then Some (message, if n > 0 then Some n else None) else None, l'))"

text \<open>\<open>logFailure\<close>: nothing is logged once the context is cancelled; without a logger every failure is.\<close>

definition logFailure ::
  "bool \<Rightarrow> failureLogger option \<Rightarrow> int \<Rightarrow> string \<Rightarrow> string \<Rightarrow> (string \<times> int option) option \<times> failureLogger option" where
  "logFailure cancelled logger now message signature =
     (if cancelled then (None, logger)
      else (case logger of
          None \<Rightarrow> (Some (message, None), None)
        | Some l \<Rightarrow> (case log_failure_line l now message signature of (line, l') \<Rightarrow> (line, Some l'))))"

end
