(* ===== verification/Monitoring_Facts.thy ===== *)
theory Monitoring_Facts
  imports Monitoring
begin

text \<open>
  What the observers guarantee: the periodic statistics partition the counters, the health answer
  follows the last commit, the watchdog fires exactly on a silent interval, and the failure log
  keeps its rate without losing a count.
\<close>

section \<open>Intervals partition the counters\<close>

text \<open>The selectors of the nine counters.\<close>

definition counter_fields :: "(statsSnapshot \<Rightarrow> int) list" where
  "counter_fields = [sn_selected, sn_sent, sn_poison, sn_dlq, sn_keptForRetry, sn_batchesProcessed,
     sn_batchErrors, sn_senderErrors, sn_fatalAfterCommitErrors]"

datatype stats_op = Committed batchStats int | Failed | Interval

fun stats_step :: "appStats \<Rightarrow> stats_op \<Rightarrow> appStats" where
  "stats_step s (Committed batch now) = addCommittedBatch s batch now"
| "stats_step s Failed = addBatchError s"
| "stats_step s Interval = snd (intervalSnapshot s)"

fun deltas :: "appStats \<Rightarrow> stats_op list \<Rightarrow> statsSnapshot list" where
  "deltas s [] = []"
| "deltas s (op # ops) =
     (case op of Interval \<Rightarrow> [fst (intervalSnapshot s)] | _ \<Rightarrow> []) @ deltas (stats_step s op) ops"

lemma sub_field: "f \<in> set counter_fields \<Longrightarrow> f (sub a b) = wrap64 (f a - f b)"
  by (auto simp: counter_fields_def sub_def)

lemma step_lastLogged:
  "lastLogged (stats_step s op) = (case op of Interval \<Rightarrow> counters s | _ \<Rightarrow> lastLogged s)"
  by (cases op) (simp_all add: addCommittedBatch_def addBatchError_def intervalSnapshot_def Let_def)

lemma step_Interval_counters: "counters (stats_step s Interval) = counters s"
  by (simp add: intervalSnapshot_def Let_def)

lemma wrap64_cong: "wrap64 x = wrap64 y \<longleftrightarrow> x mod 2 ^ 64 = y mod 2 ^ 64"
proof -
  have "(x + a) mod m = (y + a) mod m \<longleftrightarrow> x mod m = y mod m" for a m :: int by (simp add: mod_eq_dvd_iff)
  then show ?thesis unfolding wrap64_def by simp
qed

lemma wrap64_mod: "wrap64 x mod 2 ^ 64 = x mod 2 ^ 64"
  by (metis wrap64_cong wrap64_id wrap64_range)

lemma wrap64_add_left: "wrap64 (wrap64 x + y) = wrap64 (x + y)"
  unfolding wrap64_cong by (metis mod_add_cong wrap64_mod)

lemma wrap64_add_right: "wrap64 (x + wrap64 y) = wrap64 (x + y)"
  by (metis add.commute wrap64_add_left)

lemma deltas_sum:
  assumes "f \<in> set counter_fields"
  shows "wrap64 (sum_list (map f (deltas s ops))) =
     wrap64 (f (lastLogged (foldl stats_step s ops)) - f (lastLogged s))"
proof (induction ops arbitrary: s)
  case Nil
  then show ?case by simp
next
  case (Cons op ops)
  show ?case
  proof (cases op)
    case Interval
    let ?s = "stats_step s Interval" and ?d = "f (counters s) - f (lastLogged s)"
    have "sum_list (map f (deltas s (op # ops))) = wrap64 ?d + sum_list (map f (deltas ?s ops))"
      using Interval sub_field[OF assms] by (simp add: intervalSnapshot_def Let_def)
    then have "wrap64 (sum_list (map f (deltas s (op # ops)))) = wrap64 (?d + wrap64 (sum_list (map f (deltas ?s ops))))"
      by (simp add: wrap64_add_left wrap64_add_right)
    also have "\<dots> = wrap64 (?d + (f (lastLogged (foldl stats_step ?s ops)) - f (lastLogged ?s)))"
      unfolding Cons.IH wrap64_add_right ..
    also have "lastLogged ?s = counters s" by (simp only: step_lastLogged stats_op.case)
    finally show ?thesis using Interval by (simp add: algebra_simps)
  qed (use Cons.IH[of "stats_step s op"] in \<open>simp_all add: addCommittedBatch_def addBatchError_def\<close>)
qed

text \<open>
  The statistics lines partition the counters: over any sequence of committed batches,
  failed batches and interval snapshots since the start of the relay, the reported deltas of
  every counter add up, in 64-bit arithmetic, to the counter's value at the last snapshot;
  nothing is counted twice and nothing between two snapshots is missed.
\<close>

theorem intervals_partition:
  assumes "f \<in> set counter_fields"
  shows "wrap64 (sum_list (map f (deltas (newAppStats t0) (ops @ [Interval])))) =
     f (counters (foldl stats_step (newAppStats t0) ops))"
proof -
  let ?s = "foldl stats_step (newAppStats t0) ops"
  have inv: "int64_range (f (counters (foldl stats_step (newAppStats t0) os)))" for os
  proof (induction os rule: rev_induct)
    case Nil
    then show ?case using assms
      by (auto simp: counter_fields_def newAppStats_def zero_snapshot_def int64_range_def)
  next
    case (snoc op os)
    then show ?case using assms
      by (cases op) (auto simp: counter_fields_def addCommittedBatch_def add_batch_def addBatchError_def
          intervalSnapshot_def Let_def wrap64_range)
  qed
  have zero: "f (lastLogged (newAppStats t0)) = 0"
    using assms by (auto simp: counter_fields_def newAppStats_def zero_snapshot_def)
  have "lastLogged (stats_step ?s Interval) = counters ?s" by (simp only: step_lastLogged stats_op.case)
  then have "wrap64 (sum_list (map f (deltas (newAppStats t0) (ops @ [Interval])))) = wrap64 (f (counters ?s))"
    using deltas_sum[OF assms, of "newAppStats t0" "ops @ [Interval]"] zero by simp
  then show ?thesis using inv[of ops] by simp
qed

theorem intervals_partition_witness:
  "wrap64 (sum_list (map sn_batchErrors (deltas (newAppStats 5) ([Failed, Interval, Failed, Failed] @ [Interval])))) =
     sn_batchErrors (counters (foldl stats_step (newAppStats 5) [Failed, Interval, Failed, Failed]))"
  by (rule intervals_partition) (simp add: counter_fields_def)

section \<open>Health\<close>

text \<open>
  Health follows the last commit: with the staleness check on, after a batch committed at
  time \<open>t\<close> (later than the epoch), whatever failed or was logged since, the health answer at a
  later time \<open>now\<close> is 503 exactly when more than the threshold has passed since the millisecond of
  that commit. Provider failures never matter.
\<close>

theorem health_follows_commit:
  assumes "HealthStaleAfter cfg > 0" "t \<ge> 1000000" "now \<ge> t" "now < 2 ^ 63"
    and "list_all (\<lambda>op. op = Failed \<or> op = Interval) ops"
  shows "handleHealthz cfg (foldl stats_step (addCommittedBatch s batch t) ops) now =
     (if now - (t div 1000000) * 1000000 > HealthStaleAfter cfg then 503 else 200)"
proof -
  have "lastSuccessUnixMilli (foldl stats_step s' ops) = lastSuccessUnixMilli s'" for s'
    using assms(5)
    by (induction ops arbitrary: s') (auto simp: addBatchError_def intervalSnapshot_def Let_def)
  then have ms: "lastSuccessUnixMilli (foldl stats_step (addCommittedBatch s batch t) ops) = t div 1000000"
    by (simp add: addCommittedBatch_def UnixMilli_def)
  have pos: "t div 1000000 \<ge> 1" using assms(2) by simp
  have "(t div 1000000) * 1000000 \<le> t" by simp
  with pos assms(3,4) have r: "int64_range (now - (t div 1000000) * 1000000)" by (simp add: int64_range_def)
  have z: "t div 1000000 * 1000000 \<noteq> zero_time" using pos by (simp add: zero_time_def)
  show ?thesis
    using assms(1) pos z by (simp add: handleHealthz_def lastSuccess_def ms time_Sub_exact[OF r] Let_def)
qed

theorem health_follows_commit_witness:
  "handleHealthz defaultConfig (foldl stats_step (addCommittedBatch (newAppStats 0) zero_batch 1000000000) [Failed, Interval])
     2000000000 = 200"
proof -
  have "HealthStaleAfter defaultConfig > 1000000000" by code_simp
  then show ?thesis
    using health_follows_commit[of defaultConfig 1000000000 2000000000 "[Failed, Interval]" "newAppStats 0" zero_batch]
    by simp
qed

section \<open>Watchdog\<close>

lemma markProgress_funpow: "(markProgress ^^ n) (wrap64 p) = wrap64 (p + int n)"
proof (induction n)
  case (Suc n)
  then have "(markProgress ^^ Suc n) (wrap64 p) = wrap64 (p + int n + 1)" by (simp add: wrap64_add_left markProgress_def[of "wrap64 (p + int n)"])
  moreover have "p + int n + 1 = p + int (Suc n)" by simp
  ultimately show ?case by simp
qed simp

lemma progress_same: "wrap64 (p + int n) = wrap64 p \<longleftrightarrow> n mod 2 ^ 64 = 0"
proof -
  have "wrap64 (p + int n) = wrap64 p \<longleftrightarrow> (p + int n - p) mod 2 ^ 64 = 0"
    unfolding wrap64_cong by (metis mod_eq_dvd_iff dvd_eq_mod_eq_0)
  also have "\<dots> \<longleftrightarrow> int (n mod 2 ^ 64) = 0" by (simp add: zmod_int)
  finally show ?thesis by simp
qed

lemma watch_readings:
  "watch (wrap64 p) (readings (wrap64 p) ns) = Some i \<longleftrightarrow>
     i < length ns \<and> ns ! i mod 2 ^ 64 = 0 \<and> (\<forall>j < i. ns ! j mod 2 ^ 64 \<noteq> 0)"
proof (induction ns arbitrary: p i)
  case Nil
  then show ?case by simp
next
  case (Cons n ns)
  show ?case
  proof (cases i)
    case 0
    then show ?thesis
      using progress_same[of p n] by (auto simp: markProgress_funpow Let_def)
  next
    case (Suc k)
    then show ?thesis
      using progress_same[of p n] Cons.IH[of "p + int n" k]
      by (auto simp: markProgress_funpow Let_def All_less_Suc2)
  qed
qed

text \<open>
  The watchdog fires at exactly the first interval without progress: a loop that marks
  progress at least once (and fewer than \<open>2 ^ 64\<close> times) before every tick is never declared
  stuck, and the first silent interval is detected at its own tick.
\<close>

theorem watchdog_exact:
  "watch 0 (readings 0 ns) = Some i \<longleftrightarrow>
     i < length ns \<and> ns ! i mod 2 ^ 64 = 0 \<and> list_all (\<lambda>n. n mod 2 ^ 64 \<noteq> 0) (take i ns)"
proof -
  have "wrap64 0 = 0" by (simp add: int64_range_def)
  then show ?thesis using watch_readings[of 0 ns i] by (auto simp: list_all_length)
qed

section \<open>Failure log\<close>

text \<open>A sequence of failures, each with its time and signature, and what was logged of it.\<close>

fun log_run :: "failureLogger \<Rightarrow> (int \<times> string) list \<Rightarrow> (int \<times> string \<times> bool \<times> int) list \<times> failureLogger" where
  "log_run l [] = ([], l)"
| "log_run l ((t, sig) # ts) =
     (case shouldLog l t sig of
        ((ok, n), l') \<Rightarrow> (case log_run l' ts of (out, l'') \<Rightarrow> ((t, sig, ok, n) # out, l'')))"

definition pending :: "failureLogger \<Rightarrow> string \<Rightarrow> int" where
  "pending l sig = (case map_of (fl_entries l) sig of None \<Rightarrow> 0 | Some e \<Rightarrow> suppressed e)"

definition next_at :: "failureLogger \<Rightarrow> string \<Rightarrow> int option" where
  "next_at l sig = map_option nextLogAt (map_of (fl_entries l) sig)"

definition logged_times :: "string \<Rightarrow> (int \<times> string \<times> bool \<times> int) list \<Rightarrow> int list" where
  "logged_times sig out = map fst (filter (\<lambda>(t, g, ok, n). ok \<and> g = sig) out)"

definition reported_count :: "string \<Rightarrow> (int \<times> string \<times> bool \<times> int) list \<Rightarrow> int" where
  "reported_count sig out = sum_list (map (\<lambda>(t, g, ok, n). if g = sig then n else 0) out)"

lemma shouldLog_same:
  assumes "shouldLog l t sig = ((ok, n), l')"
  shows "(ok \<longrightarrow> (\<forall>a. next_at l sig = Some a \<longrightarrow> a \<le> t) \<and> n = pending l sig \<and> pending l' sig = 0 \<and>
       next_at l' sig = Some (t + fl_window l)) \<and>
    (\<not> ok \<longrightarrow> n = 0 \<and> pending l' sig = wrap64 (pending l sig + 1) \<and> next_at l' sig = next_at l sig)"
  using assms
  by (auto simp: shouldLog_def pending_def next_at_def update_conv' split: option.splits if_splits)

lemma shouldLog_other:
  assumes "shouldLog l t g = ((ok, n), l')" "g \<noteq> sig"
  shows "pending l' sig = pending l sig \<and> next_at l' sig = next_at l sig"
  using assms
  by (auto simp: shouldLog_def pending_def next_at_def update_conv' split: option.splits if_splits)

lemma shouldLog_window: "shouldLog l t g = ((ok, n), l') \<Longrightarrow> fl_window l' = fl_window l"
  by (auto simp: shouldLog_def split: option.splits if_splits)

lemma log_run_ConsE:
  assumes "log_run l ((t, g) # ts) = (out, l'')"
  obtains ok n l' out' where "shouldLog l t g = ((ok, n), l')" "log_run l' ts = (out', l'')"
    "out = (t, g, ok, n) # out'"
  using assms by (auto split: prod.splits)

lemma logged_times_Cons:
  "logged_times sig ((t, g, ok, n) # out) = (if ok \<and> g = sig then t # logged_times sig out else logged_times sig out)"
  by (simp add: logged_times_def)

lemma reported_count_Cons:
  "reported_count sig ((t, g, ok, n) # out) = (if g = sig then n else 0) + reported_count sig out"
  by (simp add: reported_count_def)

lemma log_run_spaced:
  assumes "log_run l ts = (out, l')" "fl_window l \<ge> 0"
  shows "sorted_wrt (\<lambda>a b. a + fl_window l \<le> b) (logged_times sig out) \<and>
    (\<forall>a b. next_at l sig = Some a \<longrightarrow> b \<in> set (logged_times sig out) \<longrightarrow> a \<le> b)"
  using assms
proof (induction l ts arbitrary: out l' rule: log_run.induct)
  case (1 l)
  then show ?case by (simp add: logged_times_def)
next
  case (2 l t g ts)
  obtain ok n l1 out' where st: "shouldLog l t g = ((ok, n), l1)" "log_run l1 ts = (out', l')"
    "out = (t, g, ok, n) # out'" by (rule log_run_ConsE[OF 2(2)])
  note w = shouldLog_window[OF st(1)]
  from 2(1)[OF st(1)[symmetric] refl st(2)] 2(3) w
  have ih: "sorted_wrt (\<lambda>a b. a + fl_window l \<le> b) (logged_times sig out')"
    "\<And>a b. next_at l1 sig = Some a \<Longrightarrow> b \<in> set (logged_times sig out') \<Longrightarrow> a \<le> b" by auto
  show ?case
  proof (cases "ok \<and> g = sig")
    case True
    then have "next_at l1 sig = Some (t + fl_window l)" "\<And>a. next_at l sig = Some a \<Longrightarrow> a \<le> t"
      using shouldLog_same[of l t sig ok n l1] st(1) by auto
    then show ?thesis using True ih 2(3) unfolding st(3) logged_times_Cons by fastforce
  next
    case False
    then have "next_at l1 sig = next_at l sig"
      using shouldLog_same[of l t sig ok n l1] shouldLog_other[OF st(1), of sig] st(1) by auto
    then show ?thesis using False ih unfolding st(3) logged_times_Cons by auto
  qed
qed

lemma log_run_count:
  assumes "log_run l ts = (out, l')" "0 \<le> pending l sig" "pending l sig + int (length ts) < 2 ^ 63"
  shows "pending l sig + int (length (filter (\<lambda>(t, g). g = sig) ts)) =
    int (length (logged_times sig out)) + reported_count sig out + pending l' sig"
  using assms
proof (induction l ts arbitrary: out l' rule: log_run.induct)
  case (1 l)
  then show ?case by (simp add: logged_times_def reported_count_def)
next
  case (2 l t g ts)
  obtain ok n l1 out' where st: "shouldLog l t g = ((ok, n), l1)" "log_run l1 ts = (out', l')"
    "out = (t, g, ok, n) # out'" by (rule log_run_ConsE[OF 2(2)])
  note ih = 2(1)[OF st(1)[symmetric] refl st(2)]
  show ?case
  proof (cases "g = sig")
    case False
    then show ?thesis
      using shouldLog_other[OF st(1) False] ih 2(3,4) by (simp add: st(3) logged_times_Cons reported_count_Cons)
  next
    case True
    have wrap: "wrap64 (pending l sig + 1) = pending l sig + 1" using 2(3,4) by (simp add: int64_range_def)
    show ?thesis
      using shouldLog_same[of l t sig ok n l1] st(1) True ih 2(3,4)
      by (cases ok) (simp_all add: wrap st(3) logged_times_Cons reported_count_Cons)
  qed
qed

text \<open>
  The failure log is limited and complete. Whatever failures occur with whatever signatures,
  two logged lines of one signature are at least a window apart; and every failure of a
  signature is a logged line, part of the suppressed count of a later line, or still counted
  as suppressed for the next one.
\<close>

theorem failure_log_rate:
  assumes "log_run (newFailureLogger window) failures = (out, l)" "int (length failures) < 2 ^ 63"
  shows "sorted_wrt (\<lambda>a b. a + (if window \<le> 0 then failureLogWindow else window) \<le> b) (logged_times sig out) \<and>
    int (length (filter (\<lambda>(t, g). g = sig) failures)) =
      int (length (logged_times sig out)) + reported_count sig out + pending l sig"
proof -
  let ?l = "newFailureLogger window"
  have w: "fl_window ?l = (if window \<le> 0 then failureLogWindow else window)" by (simp add: newFailureLogger_def)
  have pos: "fl_window ?l \<ge> 0" by (simp add: w failureLogWindow_def time_Second_def time_Millisecond_def)
  have p: "pending ?l sig = 0" by (simp add: pending_def newFailureLogger_def)
  have "pending ?l sig + int (length failures) < 2 ^ 63" using assms(2) p by simp
  from log_run_count[OF assms(1) _ this] p log_run_spaced[OF assms(1) pos, of sig] show ?thesis
    unfolding w by simp
qed

theorem failure_log_rate_witness:
  "sorted_wrt (\<lambda>a b. a + 10 \<le> b) (logged_times ''a'' (fst (log_run (newFailureLogger 10) [(0, ''a''), (5, ''a''), (7, ''b''), (12, ''a'')]))) \<and>
   reported_count ''a'' (fst (log_run (newFailureLogger 10) [(0, ''a''), (5, ''a''), (7, ''b''), (12, ''a'')])) = 1"
proof -
  let ?f = "[(0, ''a''), (5, ''a''), (7, ''b''), (12, ''a'')] :: (int \<times> string) list"
  have "reported_count ''a'' (fst (log_run (newFailureLogger 10) ?f)) = 1" by code_simp
  then show ?thesis
    using failure_log_rate[of 10 ?f "fst (log_run (newFailureLogger 10) ?f)" "snd (log_run (newFailureLogger 10) ?f)" "''a''"]
    by simp
qed

end
