(* ===== verification/Events.thy ===== *)
theory Events
  imports Config
begin

text \<open>
  \<open>events.go\<close>: a selected outbox row with its resolved route, the parsing of its options column,
  the conversion of raw database values, and the view of the event a provider receives.
\<close>

section \<open>Events\<close>

record eventRoute =
  target :: string
  destination :: string

record event =
  columns :: "goval gomap"
  route :: eventRoute
  evt_options :: Options

text \<open>\<open>evt.columns[column]\<close>: a missing column reads as nil.\<close>

definition read_column :: "goval gomap \<Rightarrow> string \<Rightarrow> goval" where
  "read_column m c = (case map_of m c of Some v \<Rightarrow> v | None \<Rightarrow> GNil)"

definition eventValue :: "event \<Rightarrow> string \<Rightarrow> goval" where
  "eventValue evt column = read_column (columns evt) column"

section \<open>Options\<close>

definition empty_options :: Options where
  "empty_options = \<lparr> Values = [] \<rparr>"

definition parseOptionsJSON :: "golib \<Rightarrow> bytes \<Rightarrow> go_error + goval gomap" where
  "parseOptionsJSON L content =
     (if content = [] then Inr []
      else (case json_Unmarshal L content of
          Inl err \<Rightarrow> Inl (WrapErrors (sentinel_text ErrMalformedOptions @ '': '' @ error_text err)
            [Sentinel ErrMalformedOptions, err])
        | Inr GNil \<Rightarrow> Inr []
        | Inr (GMap options) \<Rightarrow> Inr options
        | Inr _ \<Rightarrow> Inl (malformed ''options column must be an object'')))"

definition optionsRoot :: "golib \<Rightarrow> goval \<Rightarrow> go_error + goval gomap" where
  "optionsRoot L v =
     (case v of
        GNil \<Rightarrow> Inr []
      | GMap m \<Rightarrow> Inr m
      | GBytes b \<Rightarrow> parseOptionsJSON L b
      | GString s \<Rightarrow> parseOptionsJSON L s
      | _ \<Rightarrow> Inl (malformed ''options column must be an object''))"

definition eventOptions :: "golib \<Rightarrow> goval \<Rightarrow> string \<Rightarrow> go_error + Options" where
  "eventOptions L raw tgt =
     (case optionsRoot L raw of
        Inl err \<Rightarrow> Inl err
      | Inr obj \<Rightarrow>
          (case lookup_value obj tgt of
             None \<Rightarrow> Inr empty_options
           | Some section \<Rightarrow>
               (case Object section of
                  None \<Rightarrow> Inl (malformed (tgt @ '' section must be an object''))
                | Some vs \<Rightarrow> Inr \<lparr> Values = vs \<rparr>)))"

definition withParsedOptions :: "golib \<Rightarrow> appConfig \<Rightarrow> event \<Rightarrow> go_error + event" where
  "withParsedOptions L cfg e =
     (case eventOptions L (eventValue e (EventOptions cfg)) (target (route e)) of
        Inl err \<Rightarrow> Inl err
      | Inr options \<Rightarrow> Inr (e\<lparr>evt_options := options\<rparr>))"

section \<open>Values\<close>

definition RFC3339Nano :: string where
  "RFC3339Nano = ''2006-01-02T15:04:05.999999999Z07:00''"

definition valueString :: "golib \<Rightarrow> goval \<Rightarrow> string" where
  "valueString L v =
     (case v of
        GNil \<Rightarrow> []
      | GString s \<Rightarrow> s
      | GBytes b \<Rightarrow> b
      | GTime t \<Rightarrow> time_Format L t
      | _ \<Rightarrow> fmt_Sprint L v)"

definition valueBytes :: "golib \<Rightarrow> goval \<Rightarrow> bytes" where
  "valueBytes L v =
     (case v of
        GNil \<Rightarrow> []
      | GBytes b \<Rightarrow> b
      | GString s \<Rightarrow> s
      | _ \<Rightarrow> fmt_Sprint L v)"

text \<open>A parsed time, or nothing for the zero time with \<open>false\<close>.\<close>

definition parseTimestampString :: "golib \<Rightarrow> string \<Rightarrow> int option" where
  "parseTimestampString L v =
     (if v = [] then None
      else (case time_Parse L RFC3339Nano v of
          Some t \<Rightarrow> Some t
        | None \<Rightarrow>
            (case time_Parse L ''2006-01-02 15:04:05.999999999'' v of
               Some t \<Rightarrow> Some t
             | None \<Rightarrow> time_Parse L ''2006-01-02 15:04:05'' v)))"

definition eventTimestamp :: "golib \<Rightarrow> goval \<Rightarrow> int option" where
  "eventTimestamp L v =
     (case v of
        GTime t \<Rightarrow> Some t
      | GString s \<Rightarrow> parseTimestampString L s
      | GBytes b \<Rightarrow> parseTimestampString L b
      | _ \<Rightarrow> None)"

definition providerEvent :: "golib \<Rightarrow> appConfig \<Rightarrow> event \<Rightarrow> Event" where
  "providerEvent L cfg evt =
     \<lparr> ev_ID = eventValue evt (EventID cfg),
       ev_Payload = valueBytes L (eventValue evt (EventPayload cfg)),
       ev_Timestamp = (case eventTimestamp L (eventValue evt (EventTimestamp cfg)) of
          Some t \<Rightarrow> t | None \<Rightarrow> zero_time),
       ev_Destination = destination (route evt),
       ev_Options = evt_options evt \<rparr>"

definition providerEvents :: "golib \<Rightarrow> appConfig \<Rightarrow> event list \<Rightarrow> Event list" where
  "providerEvents L cfg events = map (providerEvent L cfg) events"

section \<open>Parsing options never loses the error class\<close>

lemma parseOptionsJSON_error: "parseOptionsJSON L c = Inl err \<Longrightarrow> errors_Is err ErrMalformedOptions"
  by (auto simp: parseOptionsJSON_def malformed_def split: if_splits sum.splits goval.splits)

lemma optionsRoot_error: "optionsRoot L v = Inl err \<Longrightarrow> errors_Is err ErrMalformedOptions"
  by (auto simp: optionsRoot_def malformed_def dest: parseOptionsJSON_error split: goval.splits)

text \<open>
  Parsing an event's options has two outcomes only: a malformed-options error, which sends
  the event to the dead letters, or the section of the event's own target; the sections of
  other targets never matter.
\<close>

theorem eventOptions_cases:
  "(case eventOptions L raw tgt of
      Inl err \<Rightarrow> errors_Is err ErrMalformedOptions
    | Inr opts \<Rightarrow> (\<exists>obj. optionsRoot L raw = Inr obj \<and>
        (case lookup_value obj tgt of None \<Rightarrow> Values opts = [] | Some v \<Rightarrow> v = GMap (Values opts))))"
proof (cases "optionsRoot L raw")
  case (Inl err)
  then show ?thesis using optionsRoot_error[OF Inl] by (simp add: eventOptions_def)
next
  case (Inr obj)
  show ?thesis
  proof (cases "lookup_value obj tgt")
    case None
    then show ?thesis using Inr by (simp add: eventOptions_def empty_options_def)
  next
    case (Some v)
    then show ?thesis using Inr by (cases v) (auto simp: eventOptions_def malformed_def)
  qed
qed

end
