(* ===== verification/Routing_SQL.thy ===== *)
theory Routing_SQL
  imports Events
begin

text \<open>
  The routing predicates of \<open>db.go\<close>. The Go code assembles SQL text; the definitions below
  assemble the same text. A small syntax of SQL expressions with a rendering to text and the
  three-valued semantics of SQL then gives the text its meaning: the rendered predicate selects
  exactly the rows that an abstract routing function resolves.

  \<open>pgx.Identifier.Sanitize\<close> is the argument \<open>sanitize\<close>.
\<close>

section \<open>Building blocks\<close>

definition quote_char :: char where "quote_char = char_of (39 :: nat)"

text \<open>\<open>strings.ReplaceAll(value, "'", "''")\<close>\<close>

definition double_quotes :: "string \<Rightarrow> string" where
  "double_quotes v = concat (map (\<lambda>c. if c = quote_char then [quote_char, quote_char] else [c]) v)"

definition sqlStringLiteral :: "string \<Rightarrow> string" where
  "sqlStringLiteral v = [quote_char] @ double_quotes v @ [quote_char]"

definition sqlStringList :: "string list \<Rightarrow> string" where
  "sqlStringList vs = Join (map sqlStringLiteral vs) '', ''"

text \<open>The empty literal.\<close>

definition empty_lit :: string where "empty_lit = [quote_char, quote_char]"

definition ident :: "(string list \<Rightarrow> string) \<Rightarrow> string \<Rightarrow> string" where
  "ident sanitize name = sanitize [name]"

definition qualifiedIdent :: "(string list \<Rightarrow> string) \<Rightarrow> string \<Rightarrow> string \<Rightarrow> string" where
  "qualifiedIdent sanitize schema name = sanitize [schema, name]"

definition columnSQL :: "(string list \<Rightarrow> string) \<Rightarrow> string \<Rightarrow> string \<Rightarrow> string" where
  "columnSQL sanitize tableAlias name =
     (if tableAlias = [] then ident sanitize name
      else ident sanitize tableAlias @ ''.'' @ ident sanitize name)"

definition providerTargets :: "providerRoute list \<Rightarrow> string list" where
  "providerTargets routes = map route_target routes"

section \<open>The predicates as text\<close>

definition resolvedTargetSQL :: "(string list \<Rightarrow> string) \<Rightarrow> appConfig \<Rightarrow> string \<Rightarrow> string \<times> string" where
  "resolvedTargetSQL sanitize cfg tableAlias =
     (let routes = configuredProviderRoutes cfg in
      if length routes = 0 then (''NULL'', ''FALSE'')
      else if length routes = 1
      then (let tgt = sqlStringLiteral (route_target (routes ! 0)) in
            if EventTarget cfg = [] then (tgt, ''TRUE'')
            else (let targetCol = columnSQL sanitize tableAlias (EventTarget cfg);
                      expr = ''COALESCE(NULLIF('' @ targetCol @ '', '' @ empty_lit @ ''), '' @ tgt @ '')'' in
                  (expr, expr @ '' = '' @ tgt)))
      else if EventTarget cfg = [] then (''NULL'', ''FALSE'')
      else (let targetCol = columnSQL sanitize tableAlias (EventTarget cfg);
                expr = ''NULLIF('' @ targetCol @ '', '' @ empty_lit @ '')'' in
            (expr, expr @ '' IN ('' @ sqlStringList (providerTargets routes) @ '')'')))"

definition defaultDestinationSQL :: "appConfig \<Rightarrow> string \<Rightarrow> string" where
  "defaultDestinationSQL cfg targetExpr =
     ''CASE '' @
     Join (map (\<lambda>r. ''WHEN '' @ targetExpr @ '' = '' @ sqlStringLiteral (route_target r) @
                    '' THEN '' @ sqlStringLiteral (defaultDestination r)) (configuredProviderRoutes cfg)) '' '' @
     '' ELSE '' @ empty_lit @ '' END''"

definition resolvedDestinationSQL ::
  "(string list \<Rightarrow> string) \<Rightarrow> appConfig \<Rightarrow> string \<Rightarrow> string \<Rightarrow> string" where
  "resolvedDestinationSQL sanitize cfg tableAlias targetExpr =
     (let routes = configuredProviderRoutes cfg;
          destinationCol = columnSQL sanitize tableAlias (EventDestination cfg) in
      if EventDestination cfg = []
      then (if length routes = 1 then sqlStringLiteral (defaultDestination (routes ! 0))
            else defaultDestinationSQL cfg targetExpr)
      else ''COALESCE(NULLIF('' @ destinationCol @ '', '' @ empty_lit @ ''), '' @
             defaultDestinationSQL cfg targetExpr @ '')'')"

definition defaultTargetSQL :: "appConfig \<Rightarrow> string" where
  "defaultTargetSQL cfg =
     (let routes = configuredProviderRoutes cfg in
      if length routes = 1 then sqlStringLiteral (route_target (routes ! 0)) else empty_lit)"

definition routeMatchSQL ::
  "(string list \<Rightarrow> string) \<Rightarrow> appConfig \<Rightarrow> string \<Rightarrow> string \<Rightarrow> string \<Rightarrow> string" where
  "routeMatchSQL sanitize cfg tableAlias targetExpr destinationExpr =
     (let targetMatch =
            (if EventTarget cfg \<noteq> []
             then (let targetCol = columnSQL sanitize tableAlias (EventTarget cfg);
                       defaultTarget = defaultTargetSQL cfg in
                   if defaultTarget \<noteq> empty_lit
                   then ''(NULLIF('' @ targetCol @ '', '' @ empty_lit @ '') = routes.resolved_target OR (NULLIF('' @
                        targetCol @ '', '' @ empty_lit @ '') IS NULL AND '' @ defaultTarget @
                        '' = routes.resolved_target))''
                   else targetCol @ '' = routes.resolved_target'')
             else targetExpr @ '' = routes.resolved_target'');
          destinationMatch =
            (if EventDestination cfg \<noteq> []
             then (let destinationCol = columnSQL sanitize tableAlias (EventDestination cfg) in
                   ''(NULLIF('' @ destinationCol @ '', '' @ empty_lit @ '') = routes.resolved_destination OR (NULLIF('' @
                   destinationCol @ '', '' @ empty_lit @ '') IS NULL AND '' @
                   defaultDestinationSQL cfg targetExpr @ '' = routes.resolved_destination))'')
             else destinationExpr @ '' = routes.resolved_destination'') in
      ''('' @ targetMatch @ '') AND ('' @ destinationMatch @ '')'')"

definition routeOwnershipSQL :: "appConfig \<Rightarrow> string \<Rightarrow> string \<Rightarrow> string" where
  "routeOwnershipSQL cfg targetExpr destinationExpr =
     (let predicates = map (\<lambda>r. ''('' @ targetExpr @ '' <> '' @ sqlStringLiteral (route_target r) @ '' OR '' @
            destinationExpr @ '' IN ('' @ sqlStringList (ownedDestinations r) @ ''))'')
            (filter (\<lambda>r. ownedDestinations r \<noteq> []) (configuredProviderRoutes cfg)) in
      if predicates = [] then ''TRUE'' else Join predicates '' AND '')"

definition routableSQL :: "appConfig \<Rightarrow> string \<Rightarrow> string \<Rightarrow> string \<Rightarrow> string" where
  "routableSQL cfg targetExpr destinationExpr targetPredicate =
     (let predicate = (if targetPredicate = []
            then targetExpr @ '' IN ('' @ sqlStringList (providerTargets (configuredProviderRoutes cfg)) @ '')''
            else targetPredicate) in
      ''('' @ predicate @ '') AND COALESCE('' @ destinationExpr @ '', '' @ empty_lit @ '') <> '' @ empty_lit @
      '' AND '' @ routeOwnershipSQL cfg targetExpr destinationExpr)"

section \<open>A syntax for the expressions\<close>

datatype sql_expr =
    SNull
  | SLit string
  | SCol string string
  | SRoute string
  | SCoalesce sql_expr sql_expr
  | SNullIf sql_expr sql_expr
  | SCase "(sql_expr \<times> sql_expr \<times> sql_expr) list" sql_expr

datatype sql_pred =
    STrue
  | SFalse
  | SEq sql_expr sql_expr
  | SNe sql_expr sql_expr
  | SIn sql_expr "string list"
  | SIsNull sql_expr
  | SAnd sql_pred sql_pred
  | SOr sql_pred sql_pred
  | SParen sql_pred

fun render_expr :: "(string list \<Rightarrow> string) \<Rightarrow> sql_expr \<Rightarrow> string" where
  "render_expr f SNull = ''NULL''"
| "render_expr f (SLit v) = sqlStringLiteral v"
| "render_expr f (SCol t n) = columnSQL f t n"
| "render_expr f (SRoute n) = ''routes.'' @ n"
| "render_expr f (SCoalesce a b) = ''COALESCE('' @ render_expr f a @ '', '' @ render_expr f b @ '')''"
| "render_expr f (SNullIf a b) = ''NULLIF('' @ render_expr f a @ '', '' @ render_expr f b @ '')''"
| "render_expr f (SCase bs e) =
     ''CASE '' @ Join (map (\<lambda>(a, b, c). ''WHEN '' @ render_expr f a @ '' = '' @ render_expr f b @ '' THEN '' @
       render_expr f c) bs) '' '' @ '' ELSE '' @ render_expr f e @ '' END''"

fun render :: "(string list \<Rightarrow> string) \<Rightarrow> sql_pred \<Rightarrow> string" where
  "render f STrue = ''TRUE''"
| "render f SFalse = ''FALSE''"
| "render f (SEq a b) = render_expr f a @ '' = '' @ render_expr f b"
| "render f (SNe a b) = render_expr f a @ '' <> '' @ render_expr f b"
| "render f (SIn a vs) = render_expr f a @ '' IN ('' @ sqlStringList vs @ '')''"
| "render f (SIsNull a) = render_expr f a @ '' IS NULL''"
| "render f (SAnd p q) = render f p @ '' AND '' @ render f q"
| "render f (SOr p q) = render f p @ '' OR '' @ render f q"
| "render f (SParen p) = ''('' @ render f p @ '')''"

text \<open>
  \<open>AND\<close> binds tighter than \<open>OR\<close>: the text means what the tree means when no disjunction stands
  bare under a conjunction.
\<close>

fun bare_or :: "sql_pred \<Rightarrow> bool" where
  "bare_or (SOr p q) = True"
| "bare_or _ = False"

fun unambiguous :: "sql_pred \<Rightarrow> bool" where
  "unambiguous (SAnd p q) = (\<not> bare_or p \<and> \<not> bare_or q \<and> unambiguous p \<and> unambiguous q)"
| "unambiguous (SOr p q) = (unambiguous p \<and> unambiguous q)"
| "unambiguous (SParen p) = unambiguous p"
| "unambiguous _ = True"

section \<open>Semantics\<close>

text \<open>
  A row gives each column its text or NULL; \<open>r\<close> is the row of the \<open>routes\<close> relation the
  expression is evaluated beside. Truth is three-valued, \<^term>\<open>None\<close> being unknown.
\<close>

type_synonym sql_row = "string \<Rightarrow> string option"

fun eval_expr :: "sql_row \<Rightarrow> sql_row \<Rightarrow> sql_expr \<Rightarrow> string option" where
  "eval_expr row r SNull = None"
| "eval_expr row r (SLit v) = Some v"
| "eval_expr row r (SCol t n) = row n"
| "eval_expr row r (SRoute n) = r n"
| "eval_expr row r (SCoalesce a b) =
     (case eval_expr row r a of Some v \<Rightarrow> Some v | None \<Rightarrow> eval_expr row r b)"
| "eval_expr row r (SNullIf a b) =
     (case eval_expr row r a of
        None \<Rightarrow> None
      | Some v \<Rightarrow> if eval_expr row r b = Some v then None else Some v)"
| "eval_expr row r (SCase [] e) = eval_expr row r e"
| "eval_expr row r (SCase ((a, b, c) # bs) e) =
     (if eval_expr row r a \<noteq> None \<and> eval_expr row r a = eval_expr row r b then eval_expr row r c
      else eval_expr row r (SCase bs e))"

definition sql_compare :: "(string \<Rightarrow> string \<Rightarrow> bool) \<Rightarrow> string option \<Rightarrow> string option \<Rightarrow> bool option" where
  "sql_compare f a b = (case (a, b) of (Some x, Some y) \<Rightarrow> Some (f x y) | _ \<Rightarrow> None)"

fun sql_and :: "bool option \<Rightarrow> bool option \<Rightarrow> bool option" where
  "sql_and (Some False) q = Some False"
| "sql_and p (Some False) = Some False"
| "sql_and (Some True) (Some True) = Some True"
| "sql_and _ _ = None"

fun sql_or :: "bool option \<Rightarrow> bool option \<Rightarrow> bool option" where
  "sql_or (Some True) q = Some True"
| "sql_or p (Some True) = Some True"
| "sql_or (Some False) (Some False) = Some False"
| "sql_or _ _ = None"

fun truth :: "sql_row \<Rightarrow> sql_row \<Rightarrow> sql_pred \<Rightarrow> bool option" where
  "truth row r STrue = Some True"
| "truth row r SFalse = Some False"
| "truth row r (SEq a b) = sql_compare (=) (eval_expr row r a) (eval_expr row r b)"
| "truth row r (SNe a b) = sql_compare (\<noteq>) (eval_expr row r a) (eval_expr row r b)"
| "truth row r (SIn a vs) = map_option (\<lambda>v. v \<in> set vs) (eval_expr row r a)"
| "truth row r (SIsNull a) = Some (eval_expr row r a = None)"
| "truth row r (SAnd p q) = sql_and (truth row r p) (truth row r q)"
| "truth row r (SOr p q) = sql_or (truth row r p) (truth row r q)"
| "truth row r (SParen p) = truth row r p"

text \<open>A \<open>WHERE\<close> clause keeps a row when its predicate is true, not unknown.\<close>

definition holds :: "sql_row \<Rightarrow> sql_row \<Rightarrow> sql_pred \<Rightarrow> bool" where
  "holds row r p \<longleftrightarrow> truth row r p = Some True"

lemma sql_and_True [simp]: "sql_and p q = Some True \<longleftrightarrow> p = Some True \<and> q = Some True"
  by (cases "(p, q)" rule: sql_and.cases) auto

lemma sql_or_True [simp]: "sql_or p q = Some True \<longleftrightarrow> p = Some True \<or> q = Some True"
  by (cases "(p, q)" rule: sql_or.cases) auto

lemma sql_compare_True [simp]: "sql_compare f a b = Some True \<longleftrightarrow> (\<exists>x y. a = Some x \<and> b = Some y \<and> f x y)"
  by (auto simp: sql_compare_def split: option.splits)

lemma holds_simps [simp]:
  "holds row r STrue" "\<not> holds row r SFalse"
  "holds row r (SEq a b) \<longleftrightarrow> (\<exists>x. eval_expr row r a = Some x \<and> eval_expr row r b = Some x)"
  "holds row r (SNe a b) \<longleftrightarrow> (\<exists>x y. eval_expr row r a = Some x \<and> eval_expr row r b = Some y \<and> x \<noteq> y)"
  "holds row r (SIn a vs) \<longleftrightarrow> (\<exists>x. eval_expr row r a = Some x \<and> x \<in> set vs)"
  "holds row r (SIsNull a) \<longleftrightarrow> eval_expr row r a = None"
  "holds row r (SAnd p q) \<longleftrightarrow> holds row r p \<and> holds row r q"
  "holds row r (SOr p q) \<longleftrightarrow> holds row r p \<or> holds row r q"
  "holds row r (SParen p) \<longleftrightarrow> holds row r p"
  by (auto simp: holds_def)

section \<open>The predicates as trees\<close>

definition target_expr :: "appConfig \<Rightarrow> string \<Rightarrow> sql_expr" where
  "target_expr cfg t =
     (let routes = configuredProviderRoutes cfg; col = SNullIf (SCol t (EventTarget cfg)) (SLit []) in
      if length routes = 0 then SNull
      else if length routes = 1
      then (if EventTarget cfg = [] then SLit (route_target (routes ! 0))
            else SCoalesce col (SLit (route_target (routes ! 0))))
      else if EventTarget cfg = [] then SNull else col)"

definition target_pred :: "appConfig \<Rightarrow> string \<Rightarrow> sql_pred" where
  "target_pred cfg t =
     (let routes = configuredProviderRoutes cfg in
      if length routes = 0 then SFalse
      else if length routes = 1
      then (if EventTarget cfg = [] then STrue
            else SEq (target_expr cfg t) (SLit (route_target (routes ! 0))))
      else if EventTarget cfg = [] then SFalse
      else SIn (target_expr cfg t) (providerTargets routes))"

definition default_destination_expr :: "appConfig \<Rightarrow> sql_expr \<Rightarrow> sql_expr" where
  "default_destination_expr cfg e =
     SCase (map (\<lambda>r. (e, SLit (route_target r), SLit (defaultDestination r))) (configuredProviderRoutes cfg)) (SLit [])"

definition destination_expr :: "appConfig \<Rightarrow> string \<Rightarrow> sql_expr" where
  "destination_expr cfg t =
     (let routes = configuredProviderRoutes cfg in
      if EventDestination cfg = []
      then (if length routes = 1 then SLit (defaultDestination (routes ! 0))
            else default_destination_expr cfg (target_expr cfg t))
      else SCoalesce (SNullIf (SCol t (EventDestination cfg)) (SLit []))
             (default_destination_expr cfg (target_expr cfg t)))"

fun conj_pred :: "sql_pred list \<Rightarrow> sql_pred" where
  "conj_pred [] = STrue"
| "conj_pred [p] = p"
| "conj_pred (p # ps) = SAnd p (conj_pred ps)"

definition ownership_pred :: "appConfig \<Rightarrow> string \<Rightarrow> sql_pred" where
  "ownership_pred cfg t =
     conj_pred (map (\<lambda>r. SParen (SOr (SNe (target_expr cfg t) (SLit (route_target r)))
         (SIn (destination_expr cfg t) (ownedDestinations r))))
       (filter (\<lambda>r. ownedDestinations r \<noteq> []) (configuredProviderRoutes cfg)))"

definition routable_pred :: "appConfig \<Rightarrow> string \<Rightarrow> sql_pred" where
  "routable_pred cfg t =
     SAnd (SParen (target_pred cfg t))
       (SAnd (SNe (SCoalesce (destination_expr cfg t) (SLit [])) (SLit [])) (ownership_pred cfg t))"

definition nullif_match :: "string \<Rightarrow> string \<Rightarrow> sql_expr \<Rightarrow> string \<Rightarrow> sql_pred" where
  "nullif_match t name dflt c =
     (let col = SNullIf (SCol t name) (SLit []) in
      SParen (SOr (SEq col (SRoute c)) (SParen (SAnd (SIsNull col) (SEq dflt (SRoute c))))))"

definition match_pred :: "appConfig \<Rightarrow> string \<Rightarrow> sql_pred" where
  "match_pred cfg t =
     (let routes = configuredProviderRoutes cfg in
      SAnd (SParen
        (if EventTarget cfg \<noteq> []
         then (if length routes = 1
               then nullif_match t (EventTarget cfg) (SLit (route_target (routes ! 0))) ''resolved_target''
               else SEq (SCol t (EventTarget cfg)) (SRoute ''resolved_target''))
         else SEq (target_expr cfg t) (SRoute ''resolved_target'')))
      (SParen
        (if EventDestination cfg \<noteq> []
         then nullif_match t (EventDestination cfg) (default_destination_expr cfg (target_expr cfg t)) ''resolved_destination''
         else SEq (destination_expr cfg t) (SRoute ''resolved_destination''))))"

section \<open>The text is the rendering of the trees\<close>

lemma empty_lit_SLit: "empty_lit = sqlStringLiteral []"
  by (simp add: empty_lit_def sqlStringLiteral_def double_quotes_def)

lemma routes_cases:
  "configuredProviderRoutes cfg =
     (if PubSubEnabled cfg then [pubsub_route cfg] else []) @ (if SQSEnabled cfg then [sqs_route cfg] else [])"
  by (simp add: configuredProviderRoutes_def providerSpecs_def)

lemma literal_eq_empty: "sqlStringLiteral v = empty_lit \<longleftrightarrow> v = []"
  by (cases v) (auto simp: sqlStringLiteral_def empty_lit_def double_quotes_def)

lemma render_target:
  "resolvedTargetSQL f cfg t = (render_expr f (target_expr cfg t), render f (target_pred cfg t))"
  by (simp add: resolvedTargetSQL_def target_expr_def target_pred_def Let_def empty_lit_SLit)

lemma render_default_destination:
  "render_expr f (default_destination_expr cfg e) = defaultDestinationSQL cfg (render_expr f e)"
  by (simp add: default_destination_expr_def defaultDestinationSQL_def comp_def empty_lit_SLit)

lemma render_destination:
  "render_expr f (destination_expr cfg t) = resolvedDestinationSQL f cfg t (render_expr f (target_expr cfg t))"
  by (simp add: destination_expr_def resolvedDestinationSQL_def Let_def render_default_destination empty_lit_SLit)

lemma render_conj: "ps \<noteq> [] \<Longrightarrow> render f (conj_pred ps) = Join (map (render f) ps) '' AND ''"
  by (induction ps rule: conj_pred.induct) auto

lemma render_ownership:
  "render f (ownership_pred cfg t) =
     routeOwnershipSQL cfg (render_expr f (target_expr cfg t)) (render_expr f (destination_expr cfg t))"
proof (cases "filter (\<lambda>r. ownedDestinations r \<noteq> []) (configuredProviderRoutes cfg) = []")
  case True
  then show ?thesis by (simp add: ownership_pred_def routeOwnershipSQL_def Let_def)
next
  case False
  then show ?thesis by (simp add: ownership_pred_def routeOwnershipSQL_def Let_def render_conj comp_def)
qed

lemma target_pred_text: "snd (resolvedTargetSQL f cfg t) \<noteq> []"
  by (simp add: resolvedTargetSQL_def Let_def)

lemma render_routable:
  "render f (routable_pred cfg t) =
     (case resolvedTargetSQL f cfg t of (targetExpr, targetPredicate) \<Rightarrow>
        routableSQL cfg targetExpr (resolvedDestinationSQL f cfg t targetExpr) targetPredicate)"
  using target_pred_text[of f cfg t]
  by (simp add: render_target routable_pred_def routableSQL_def Let_def render_ownership render_destination
      empty_lit_SLit)

lemma default_target_text:
  "defaultTargetSQL cfg \<noteq> empty_lit \<longleftrightarrow> length (configuredProviderRoutes cfg) = 1"
  by (auto simp: defaultTargetSQL_def Let_def literal_eq_empty routes_cases pubsub_route_def sqs_route_def
      pubsub_Target_def sqs_Target_def)

lemma render_match:
  "render f (match_pred cfg t) =
     routeMatchSQL f cfg t (fst (resolvedTargetSQL f cfg t))
       (resolvedDestinationSQL f cfg t (fst (resolvedTargetSQL f cfg t)))"
proof -
  have d: "length (configuredProviderRoutes cfg) = 1 \<Longrightarrow>
      defaultTargetSQL cfg = sqlStringLiteral (route_target (configuredProviderRoutes cfg ! 0))"
    by (simp add: defaultTargetSQL_def)
  show ?thesis
    using default_target_text[of cfg] d
    by (simp add: match_pred_def routeMatchSQL_def Let_def nullif_match_def render_target render_destination
        render_default_destination empty_lit_SLit)
qed

section \<open>The abstract routing function\<close>

text \<open>
  Which route a row takes, stated on texts instead of SQL: the target is the row's own when it
  names an enabled provider, or the only provider when the row names none; the destination is
  the row's own or the provider's default; a row without destination, or with one the relay
  does not own, takes no route.
\<close>

definition filled :: "sql_row \<Rightarrow> string \<Rightarrow> string option" where
  "filled row c = (if c = [] then None else (case row c of Some v \<Rightarrow> if v = [] then None else Some v | None \<Rightarrow> None))"

definition resolve_provider :: "appConfig \<Rightarrow> sql_row \<Rightarrow> providerRoute option" where
  "resolve_provider cfg row =
     (case filled row (EventTarget cfg) of
        Some t \<Rightarrow> List.find (\<lambda>r. route_target r = t) (configuredProviderRoutes cfg)
      | None \<Rightarrow> (case configuredProviderRoutes cfg of [r] \<Rightarrow> Some r | _ \<Rightarrow> None))"

definition resolve :: "appConfig \<Rightarrow> sql_row \<Rightarrow> eventRoute option" where
  "resolve cfg row =
     (case resolve_provider cfg row of
        None \<Rightarrow> None
      | Some r \<Rightarrow>
          let d = (case filled row (EventDestination cfg) of Some d \<Rightarrow> d | None \<Rightarrow> defaultDestination r) in
          if d \<noteq> [] \<and> (ownedDestinations r = [] \<or> d \<in> set (ownedDestinations r))
          then Some \<lparr> target = route_target r, destination = d \<rparr> else None)"

section \<open>The predicates implement it\<close>

lemma eval_nullif:
  "n \<noteq> [] \<Longrightarrow> eval_expr row r (SNullIf (SCol t n) (SLit [])) = filled row n"
  by (auto simp: filled_def split: option.splits)

lemma filled_Nil [simp]: "filled row [] = None"
  by (simp add: filled_def)

lemma filled_not_empty: "filled row n \<noteq> Some []"
  by (auto simp: filled_def split: option.splits if_splits)

lemmas route_defs = routes_cases pubsub_route_def sqs_route_def pubsub_Target_def sqs_Target_def

lemma eval_target:
  assumes "holds row r (target_pred cfg t)"
  shows "\<exists>p. resolve_provider cfg row = Some p \<and> eval_expr row r (target_expr cfg t) = Some (route_target p)"
  using assms eval_nullif[of "EventTarget cfg" row r t]
  by (auto simp: target_pred_def target_expr_def resolve_provider_def Let_def providerTargets_def route_defs
      split: if_splits option.splits)

lemma target_pred_complete:
  assumes "resolve_provider cfg row = Some p"
  shows "holds row r (target_pred cfg t)"
  using assms eval_nullif[of "EventTarget cfg" row r t]
  by (auto simp: target_pred_def target_expr_def resolve_provider_def Let_def providerTargets_def route_defs
      split: if_splits option.splits list.splits)

lemma resolve_provider_route: "resolve_provider cfg row = Some p \<Longrightarrow> p \<in> set (configuredProviderRoutes cfg)"
  by (auto simp: resolve_provider_def List.find_Some_iff split: option.splits list.splits)

lemma eval_default_destination:
  assumes "eval_expr row r e = Some (route_target p)" "p \<in> set (configuredProviderRoutes cfg)"
  shows "eval_expr row r (default_destination_expr cfg e) = Some (defaultDestination p)"
  using assms by (auto simp: default_destination_expr_def route_defs)

lemma eval_destination:
  assumes "resolve_provider cfg row = Some p" "eval_expr row r (target_expr cfg t) = Some (route_target p)"
  shows "eval_expr row r (destination_expr cfg t) =
     Some (case filled row (EventDestination cfg) of Some d \<Rightarrow> d | None \<Rightarrow> defaultDestination p)"
proof -
  have p: "p \<in> set (configuredProviderRoutes cfg)" by (rule resolve_provider_route[OF assms(1)])
  then have one: "length (configuredProviderRoutes cfg) = 1 \<Longrightarrow> configuredProviderRoutes cfg ! 0 = p"
    by (auto simp: length_Suc_conv)
  show ?thesis
    using one eval_default_destination[OF assms(2) p] eval_nullif[of "EventDestination cfg" row r t]
    by (auto simp: destination_expr_def Let_def split: option.splits)
qed

lemma holds_conj: "holds row r (conj_pred ps) \<longleftrightarrow> list_all (holds row r) ps"
  by (induction ps rule: conj_pred.induct) auto

lemma eval_ownership:
  assumes "eval_expr row r (target_expr cfg t) = Some (route_target p)" "p \<in> set (configuredProviderRoutes cfg)"
    "eval_expr row r (destination_expr cfg t) = Some d"
  shows "holds row r (ownership_pred cfg t) \<longleftrightarrow> ownedDestinations p = [] \<or> d \<in> set (ownedDestinations p)"
proof -
  have "inj_on route_target (set (configuredProviderRoutes cfg))"
    using routes_distinct[of cfg] by (simp add: distinct_map)
  with assms show ?thesis
    by (auto simp: ownership_pred_def holds_conj list_all_iff dest: inj_onD)
qed

lemma routable_resolves:
  "holds row r (routable_pred cfg t) \<longleftrightarrow> resolve cfg row \<noteq> None"
proof (cases "resolve_provider cfg row")
  case None
  then show ?thesis using eval_target[of row r cfg t] by (auto simp: routable_pred_def resolve_def)
next
  case (Some p)
  have e: "eval_expr row r (target_expr cfg t) = Some (route_target p)"
    using eval_target[OF target_pred_complete[OF Some]] Some by auto
  note d = eval_destination[OF Some e]
  show ?thesis
    using target_pred_complete[OF Some, of r t] d eval_ownership[OF e resolve_provider_route[OF Some] d] Some
    by (auto simp: routable_pred_def resolve_def Let_def)
qed

lemma resolved_values:
  assumes "resolve cfg row = Some rt"
  shows "eval_expr row r (target_expr cfg t) = Some (target rt)"
    "eval_expr row r (destination_expr cfg t) = Some (destination rt)"
proof -
  from assms obtain p where p: "resolve_provider cfg row = Some p" "target rt = route_target p"
    "destination rt = (case filled row (EventDestination cfg) of Some d \<Rightarrow> d | None \<Rightarrow> defaultDestination p)"
    by (auto simp: resolve_def Let_def split: option.splits if_splits)
  have e: "eval_expr row r (target_expr cfg t) = Some (route_target p)"
    using eval_target[OF target_pred_complete[OF p(1)]] p(1) by auto
  then show "eval_expr row r (target_expr cfg t) = Some (target rt)" using p(2) by simp
  show "eval_expr row r (destination_expr cfg t) = Some (destination rt)"
    using eval_destination[OF p(1) e] p(3) by simp
qed

definition route_row :: "eventRoute \<Rightarrow> sql_row" where
  "route_row rt c = (if c = ''resolved_target'' then Some (target rt)
     else if c = ''resolved_destination'' then Some (destination rt) else None)"

lemma holds_nullif_match:
  assumes "n \<noteq> []" "eval_expr row r dflt = Some d" "r c = Some v"
  shows "holds row r (nullif_match t n dflt c) \<longleftrightarrow> (case filled row n of Some x \<Rightarrow> x | None \<Rightarrow> d) = v"
  using assms eval_nullif[OF assms(1), of row r t]
  by (auto simp: nullif_match_def Let_def split: option.splits)

lemma match_resolves:
  assumes "resolve cfg row = Some rt0"
  shows "holds row (route_row rt) (match_pred cfg t) \<longleftrightarrow> rt0 = rt"
proof -
  let ?r = "route_row rt"
  from assms obtain p where p: "resolve_provider cfg row = Some p" "target rt0 = route_target p"
    "destination rt0 = (case filled row (EventDestination cfg) of Some d \<Rightarrow> d | None \<Rightarrow> defaultDestination p)"
    by (auto simp: resolve_def Let_def split: option.splits if_splits)
  note vals = resolved_values[OF assms, of ?r t]
  have e: "eval_expr row ?r (target_expr cfg t) = Some (route_target p)" using vals(1) p(2) by simp
  note dd = eval_default_destination[OF e resolve_provider_route[OF p(1)]]
  have r: "?r ''resolved_target'' = Some (target rt)" "?r ''resolved_destination'' = Some (destination rt)"
    by (auto simp: route_row_def)
  have dest: "holds row ?r (if EventDestination cfg \<noteq> []
         then nullif_match t (EventDestination cfg) (default_destination_expr cfg (target_expr cfg t)) ''resolved_destination''
         else SEq (destination_expr cfg t) (SRoute ''resolved_destination'')) \<longleftrightarrow> destination rt0 = destination rt"
    using holds_nullif_match[OF _ dd r(2), of "EventDestination cfg" t] vals(2) r p(3) by auto
  have targ: "holds row ?r (if EventTarget cfg \<noteq> []
         then (if length (configuredProviderRoutes cfg) = 1
               then nullif_match t (EventTarget cfg) (SLit (route_target (configuredProviderRoutes cfg ! 0))) ''resolved_target''
               else SEq (SCol t (EventTarget cfg)) (SRoute ''resolved_target''))
         else SEq (target_expr cfg t) (SRoute ''resolved_target'')) \<longleftrightarrow> target rt0 = target rt"
  proof (cases "EventTarget cfg \<noteq> [] \<and> length (configuredProviderRoutes cfg) \<noteq> 1")
    case True
    then have "filled row (EventTarget cfg) = Some (target rt0)"
      using p(1,2) by (auto simp: resolve_provider_def List.find_Some_iff split: option.splits list.splits)
    then have "row (EventTarget cfg) = Some (target rt0)" by (auto simp: filled_def split: if_splits option.splits)
    with True r show ?thesis by auto
  next
    case False
    have "length (configuredProviderRoutes cfg) = 1 \<Longrightarrow>
        (case filled row (EventTarget cfg) of Some x \<Rightarrow> x | None \<Rightarrow> route_target (configuredProviderRoutes cfg ! 0)) = target rt0"
      using p(1,2) by (auto simp: resolve_provider_def List.find_Some_iff length_Suc_conv split: option.splits if_splits)
    with False show ?thesis
      using holds_nullif_match[of "EventTarget cfg" row ?r "SLit (route_target (configuredProviderRoutes cfg ! 0))"
          "route_target (configuredProviderRoutes cfg ! 0)" "''resolved_target''" "target rt" t] vals(1) r by auto
  qed
  show ?thesis
    unfolding match_pred_def Let_def holds_simps dest targ by (cases rt0; cases rt) auto
qed

lemma trees_unambiguous: "unambiguous (routable_pred cfg t)" "unambiguous (match_pred cfg t)"
proof -
  have "unambiguous (conj_pred (map (\<lambda>r. SParen (f r)) rs)) \<and> \<not> bare_or (conj_pred (map (\<lambda>r. SParen (f r)) rs))"
    if "\<And>r. unambiguous (f r)" for f :: "providerRoute \<Rightarrow> sql_pred" and rs
    using that by (induction rs rule: induct_list012) auto
  then show "unambiguous (routable_pred cfg t)"
    by (auto simp: routable_pred_def ownership_pred_def target_pred_def Let_def)
  show "unambiguous (match_pred cfg t)"
    by (auto simp: match_pred_def nullif_match_def Let_def)
qed

text \<open>
  (C21) The collection query's eligibility predicate, as the text the code builds, parses without
  ambiguity to a predicate that is true exactly on the rows the routing function resolves, and
  the two route expressions then evaluate to the resolved target and destination. It holds for
  every configuration, NULL and empty columns included.
\<close>

theorem routable_sql_correct:
  "(case resolvedTargetSQL f cfg t of (targetExpr, targetPredicate) \<Rightarrow>
      render f (routable_pred cfg t) =
        routableSQL cfg targetExpr (resolvedDestinationSQL f cfg t targetExpr) targetPredicate \<and>
      render_expr f (target_expr cfg t) = targetExpr \<and>
      render_expr f (destination_expr cfg t) = resolvedDestinationSQL f cfg t targetExpr) \<and>
   unambiguous (routable_pred cfg t) \<and>
   (if holds row r (routable_pred cfg t)
    then \<exists>rt. resolve cfg row = Some rt \<and>
       eval_expr row r (target_expr cfg t) = Some (target rt) \<and>
       eval_expr row r (destination_expr cfg t) = Some (destination rt)
    else resolve cfg row = None)"
  using routable_resolves[of row r cfg t] resolved_values[of cfg row _ r t] render_routable[of f cfg t]
  by (auto simp: trees_unambiguous render_destination render_target split: prod.splits)

text \<open>
  The route-matching predicate of the lateral query, as the text the code builds, is true on
  an eligible row exactly for the route the row resolves to. Collection by route therefore
  partitions the eligible rows.
\<close>

theorem route_match_sql_correct:
  assumes "resolve cfg row = Some rt0"
  shows "render f (match_pred cfg t) =
      routeMatchSQL f cfg t (fst (resolvedTargetSQL f cfg t))
        (resolvedDestinationSQL f cfg t (fst (resolvedTargetSQL f cfg t))) \<and>
    unambiguous (match_pred cfg t) \<and>
    (holds row (route_row rt) (match_pred cfg t) \<longleftrightarrow> rt0 = rt)"
  using match_resolves[OF assms, of rt t] render_match[of f cfg t] trees_unambiguous(2)[of cfg t] by simp

definition sample_config :: appConfig where
  "sample_config = defaultConfig\<lparr>SQSEnabled := True, PubSubEnabled := True, DefaultSQSQueueURL := ''q''\<rparr>"

definition sample_row :: sql_row where
  "sample_row c = (if c = ''target'' then Some ''sqs'' else if c = ''destination'' then Some [] else None)"

lemma sample_resolve: "resolve sample_config sample_row = Some \<lparr> target = ''sqs'', destination = ''q'' \<rparr>"
  by (simp add: resolve_def resolve_provider_def sample_config_def sample_row_def defaultConfig_def filled_def
      route_defs)

theorem route_match_sql_correct_witness:
  "holds sample_row (route_row \<lparr> target = ''sqs'', destination = ''q'' \<rparr>) (match_pred sample_config ''candidate'')"
  using route_match_sql_correct[OF sample_resolve, of "\<lambda>_. []" "''candidate''" "\<lparr> target = ''sqs'', destination = ''q'' \<rparr>"]
  by simp

section \<open>String literals\<close>

text \<open>
  How PostgreSQL reads a string constant (with \<open>standard_conforming_strings\<close>): up to the first
  quote that is not doubled. The result is the value and the text after the constant.
\<close>

fun scan_body :: "string \<Rightarrow> (string \<times> string) option" where
  "scan_body [] = None"
| "scan_body [c] = (if c = quote_char then Some ([], []) else None)"
| "scan_body (c # d # s) =
     (if c \<noteq> quote_char then map_option (\<lambda>(v, r). (c # v, r)) (scan_body (d # s))
      else if d = quote_char then map_option (\<lambda>(v, r). (c # v, r)) (scan_body s)
      else Some ([], d # s))"

fun scan_literal :: "string \<Rightarrow> (string \<times> string) option" where
  "scan_literal [] = None"
| "scan_literal (c # s) = (if c = quote_char then scan_body s else None)"

lemma scan_body_double:
  "rest = [] \<or> hd rest \<noteq> quote_char \<Longrightarrow> scan_body (double_quotes v @ quote_char # rest) = Some (v, rest)"
proof (induction v)
  case Nil
  then show ?case by (cases rest) (auto simp: double_quotes_def)
next
  case (Cons c v)
  then have IH: "scan_body (double_quotes v @ quote_char # rest) = Some (v, rest)" by simp
  obtain x xs where x: "double_quotes v @ quote_char # rest = x # xs" by (cases "double_quotes v") auto
  show ?case
  proof (cases "c = quote_char")
    case True
    then have "double_quotes (c # v) = quote_char # quote_char # double_quotes v" by (simp add: double_quotes_def)
    then show ?thesis using IH True by simp
  next
    case False
    then have "double_quotes (c # v) = c # double_quotes v" by (simp add: double_quotes_def)
    then show ?thesis using IH False x by simp
  qed
qed

text \<open>
  No value escapes its literal: whatever bytes a configured target or destination holds,
  PostgreSQL reads the literal built for it back as exactly that value and stops at its end.
\<close>

theorem sqlStringLiteral_roundtrip:
  assumes "rest = [] \<or> hd rest \<noteq> quote_char"
  shows "scan_literal (sqlStringLiteral v @ rest) = Some (v, rest)"
  using scan_body_double[OF assms, of v] by (simp add: sqlStringLiteral_def)

theorem sqlStringLiteral_roundtrip_witness:
  "scan_literal (sqlStringLiteral [CHR ''a'', quote_char, CHR ''b''] @ '' OR'') = Some ([CHR ''a'', quote_char, CHR ''b''], '' OR'')"
  by (rule sqlStringLiteral_roundtrip) (simp add: quote_char_def char_of_def)

end
