(* ===== verification/Collection.thy ===== *)
theory Collection
  imports Routing_SQL
begin

text \<open>
  The collection query of \<open>db.go\<close>, the reading of its rows, and the backlog arithmetic of
  \<open>backlog.go\<close>. The query text is assembled as the code does; what PostgreSQL returns for it
  is given by \<open>select_rows\<close>, which follows the clauses of the query: the distinct eligible
  routes, for each route its oldest eligible rows up to an even share of the batch target, and
  the selected rows in the order of the id column.
\<close>

section \<open>The database\<close>

text \<open>
  What the model takes from PostgreSQL and its driver: quoting of identifiers, the order of the
  id column as a rank, and the text of a column value (NULL has none).
\<close>

record pg =
  pg_sanitize :: "string list \<Rightarrow> string"
  pg_rank :: "goval \<Rightarrow> int"
  pg_text :: "goval \<Rightarrow> string option"

type_synonym row = "goval gomap"

definition row_id :: "appConfig \<Rightarrow> row \<Rightarrow> goval" where
  "row_id cfg row = read_column row (EventID cfg)"

definition rank :: "pg \<Rightarrow> appConfig \<Rightarrow> row \<Rightarrow> int" where
  "rank P cfg row = pg_rank P (row_id cfg row)"

definition cells :: "pg \<Rightarrow> row \<Rightarrow> sql_row" where
  "cells P row c = (case map_of row c of None \<Rightarrow> None | Some v \<Rightarrow> pg_text P v)"

section \<open>The query text\<close>

definition selectEventsQuerySQL :: "pg \<Rightarrow> appConfig \<Rightarrow> string" where
  "selectEventsQuerySQL P cfg =
     (let f = pg_sanitize P; table = qualifiedIdent f (PGSchema cfg) (EventTable cfg);
          idCol = ident f (EventID cfg);
          sourceAlias = ''route_source''; candidateAlias = ''candidate''; eventsAlias = ''events'' in
      case resolvedTargetSQL f cfg sourceAlias of (sourceTargetExpr, sourceTargetPredicate) \<Rightarrow>
      let sourceDestinationExpr = resolvedDestinationSQL f cfg sourceAlias sourceTargetExpr;
          sourceRoutablePredicate = routableSQL cfg sourceTargetExpr sourceDestinationExpr sourceTargetPredicate in
      case resolvedTargetSQL f cfg candidateAlias of (candidateTargetExpr, candidateTargetPredicate) \<Rightarrow>
      let candidateDestinationExpr = resolvedDestinationSQL f cfg candidateAlias candidateTargetExpr;
          candidateRoutablePredicate =
            routableSQL cfg candidateTargetExpr candidateDestinationExpr candidateTargetPredicate;
          candidateRouteMatchPredicate =
            routeMatchSQL f cfg candidateAlias candidateTargetExpr candidateDestinationExpr;
          routesCTE = ''SELECT resolved_target, resolved_destination, count(*) OVER () AS route_count FROM (SELECT DISTINCT '' @
            sourceTargetExpr @ '' AS resolved_target, '' @ sourceDestinationExpr @ '' AS resolved_destination FROM '' @
            table @ '' AS '' @ ident f sourceAlias @ '' WHERE '' @ sourceRoutablePredicate @ '') AS resolved_routes'';
          pickedLateral = ''SELECT '' @ ident f candidateAlias @ ''.'' @ idCol @ '' FROM '' @ table @ '' AS '' @
            ident f candidateAlias @ '' WHERE '' @ candidateRoutablePredicate @ '' AND '' @
            candidateRouteMatchPredicate @ '' ORDER BY '' @ ident f candidateAlias @ ''.'' @ idCol @
            '' LIMIT GREATEST(1, (($1::bigint + routes.route_count - 1) / routes.route_count))'';
          selectedCTE = ''SELECT picked.'' @ idCol @
            '' AS id, routes.resolved_target, routes.resolved_destination FROM routes CROSS JOIN LATERAL ('' @
            pickedLateral @ '') AS picked'' in
      ''WITH routes AS ('' @ routesCTE @ ''), selected AS ('' @ selectedCTE @
      '') SELECT selected.resolved_target, selected.resolved_destination, '' @ ident f eventsAlias @ ''.* FROM '' @
      table @ '' AS '' @ ident f eventsAlias @ '' JOIN selected ON '' @ ident f eventsAlias @ ''.'' @ idCol @
      '' = selected.id ORDER BY '' @ ident f eventsAlias @ ''.'' @ idCol @ '' FOR UPDATE'')"

section \<open>What the query returns\<close>

definition no_route :: sql_row where "no_route = (\<lambda>_. None)"

definition text_or_empty :: "string option \<Rightarrow> string" where
  "text_or_empty v = (case v of Some s \<Rightarrow> s | None \<Rightarrow> [])"

definition eligible :: "pg \<Rightarrow> appConfig \<Rightarrow> string \<Rightarrow> row \<Rightarrow> bool" where
  "eligible P cfg t row = holds (cells P row) no_route (routable_pred cfg t)"

definition resolved_route :: "pg \<Rightarrow> appConfig \<Rightarrow> row \<Rightarrow> eventRoute" where
  "resolved_route P cfg row =
     \<lparr> target = text_or_empty (eval_expr (cells P row) no_route (target_expr cfg ''route_source'')),
       destination = text_or_empty (eval_expr (cells P row) no_route (destination_expr cfg ''route_source'')) \<rparr>"

definition query_routes :: "pg \<Rightarrow> appConfig \<Rightarrow> row list \<Rightarrow> eventRoute list" where
  "query_routes P cfg rows = remdups (map (resolved_route P cfg) (filter (eligible P cfg ''route_source'') rows))"

text \<open>\<open>GREATEST(1, (($1::bigint + route_count - 1) / route_count))\<close>; a bigint overflow is an error.\<close>

definition query_share :: "int \<Rightarrow> int \<Rightarrow> int option" where
  "query_share batchTarget n =
     (if \<not> int64_range (batchTarget + n) \<or> \<not> int64_range (batchTarget + n - 1) then None
      else Some (max 1 ((batchTarget + n - 1) sdiv n)))"

definition picked :: "pg \<Rightarrow> appConfig \<Rightarrow> row list \<Rightarrow> int \<Rightarrow> eventRoute \<Rightarrow> row list" where
  "picked P cfg rows share rt =
     take (nat share) (sort_key (rank P cfg)
       (filter (\<lambda>row. eligible P cfg ''candidate'' row \<and>
          holds (cells P row) (route_row rt) (match_pred cfg ''candidate'')) rows))"

definition overflow_error :: go_error where
  "overflow_error = ErrorString ''bigint out of range''"

definition select_rows :: "pg \<Rightarrow> appConfig \<Rightarrow> row list \<Rightarrow> go_error + (eventRoute \<times> row) list" where
  "select_rows P cfg rows =
     (let routes = query_routes P cfg rows in
      if routes = [] then Inr []
      else (case query_share (CollectBatchTarget cfg) (int (length routes)) of
          None \<Rightarrow> Inl overflow_error
        | Some share \<Rightarrow>
            let selected = concat (map (\<lambda>rt. map (\<lambda>row. (row_id cfg row, rt)) (picked P cfg rows share rt)) routes) in
            Inr (concat (map (\<lambda>row. map (\<lambda>(i, rt). (rt, row)) (filter (\<lambda>(i, rt). i = row_id cfg row) selected))
              (sort_key (rank P cfg) rows)))))"

text \<open>
  The columns the query names. PostgreSQL refuses a query over a column the table does not
  have, whatever its rows.
\<close>

fun expr_columns :: "sql_expr \<Rightarrow> string list" where
  "expr_columns (SCol t n) = [n]"
| "expr_columns (SCoalesce a b) = expr_columns a @ expr_columns b"
| "expr_columns (SNullIf a b) = expr_columns a @ expr_columns b"
| "expr_columns (SCase bs e) =
     concat (map (\<lambda>(a, b, c). expr_columns a @ expr_columns b @ expr_columns c) bs) @ expr_columns e"
| "expr_columns _ = []"

fun pred_columns :: "sql_pred \<Rightarrow> string list" where
  "pred_columns (SEq a b) = expr_columns a @ expr_columns b"
| "pred_columns (SNe a b) = expr_columns a @ expr_columns b"
| "pred_columns (SIn a vs) = expr_columns a"
| "pred_columns (SIsNull a) = expr_columns a"
| "pred_columns (SAnd p q) = pred_columns p @ pred_columns q"
| "pred_columns (SOr p q) = pred_columns p @ pred_columns q"
| "pred_columns (SParen p) = pred_columns p"
| "pred_columns _ = []"

definition query_columns :: "appConfig \<Rightarrow> string list" where
  "query_columns cfg = EventID cfg # expr_columns (target_expr cfg ''route_source'') @
     expr_columns (destination_expr cfg ''route_source'') @ pred_columns (routable_pred cfg ''route_source'') @
     pred_columns (routable_pred cfg ''candidate'') @ pred_columns (match_pred cfg ''candidate'')"

definition undefined_column :: go_error where
  "undefined_column = ErrorString ''column does not exist''"

section \<open>Reading the rows\<close>

definition normalizeDBValue :: "goval \<Rightarrow> goval" where
  "normalizeDBValue v = v"

definition scan_columns :: "string list \<Rightarrow> goval list \<Rightarrow> goval gomap" where
  "scan_columns cols vs = foldl (\<lambda>m (c, v). AList.update c (normalizeDBValue v) m) [] (zip cols vs)"

definition scanRow :: "golib \<Rightarrow> string list \<Rightarrow> goval list \<Rightarrow> go_error + event" where
  "scanRow L cols vs =
     (let tgt = valueString L (normalizeDBValue (vs ! 0)) in
      if tgt = [] then Inl (ErrorString ''selected event has empty resolved target'')
      else let dest = valueString L (normalizeDBValue (vs ! 1)) in
      if dest = [] then Inl (ErrorString ''selected event has empty resolved destination'')
      else Inr \<lparr> columns = scan_columns (drop 2 cols) (drop 2 vs),
                 route = \<lparr> target = tgt, destination = dest \<rparr>, evt_options = empty_options \<rparr>)"

fun scan_loop :: "golib \<Rightarrow> string list \<Rightarrow> goval list list \<Rightarrow> event list \<Rightarrow> go_error + event list" where
  "scan_loop L cols [] events = Inr events"
| "scan_loop L cols (vs # rest) events =
     (case scanRow L cols vs of
        Inl err \<Rightarrow> Inl err
      | Inr evt \<Rightarrow> scan_loop L cols rest (events @ [evt]))"

text \<open>
  A result set is its column names, its rows and the error \<open>rows.Err()\<close> reports after the last
  row. The scan into \<open>any\<close> pointers itself cannot fail.
\<close>

definition scanEvents ::
  "golib \<Rightarrow> string list \<times> goval list list \<times> go_error option \<Rightarrow> go_error + event list" where
  "scanEvents L rs =
     (case rs of (cols, vss, rowsErr) \<Rightarrow>
        if length cols < 2 \<or> cols ! 0 \<noteq> ''resolved_target'' \<or> cols ! 1 \<noteq> ''resolved_destination''
        then Inl (ErrorString ''selected event query did not return resolved route columns'')
        else (case scan_loop L cols vss [] of
            Inl err \<Rightarrow> Inl err
          | Inr events \<Rightarrow> (case rowsErr of Some err \<Rightarrow> Inl err | None \<Rightarrow> Inr events)))"

definition result_set :: "string list \<Rightarrow> (eventRoute \<times> row) list \<Rightarrow> go_error option \<Rightarrow>
    string list \<times> goval list list \<times> go_error option" where
  "result_set cols sel rowsErr =
     (''resolved_target'' # ''resolved_destination'' # cols,
      map (\<lambda>(rt, row). GString (target rt) # GString (destination rt) # map snd row) sel, rowsErr)"

text \<open>\<open>selectEvents\<close>: the query may fail as a whole or while its rows are read.\<close>

definition selectEvents ::
  "golib \<Rightarrow> pg \<Rightarrow> appConfig \<Rightarrow> string list \<Rightarrow> row list \<Rightarrow> go_error option \<Rightarrow> go_error option \<Rightarrow> go_error + event list" where
  "selectEvents L P cfg cols rows queryErr rowsErr =
     (case queryErr of
        Some err \<Rightarrow> Inl err
      | None \<Rightarrow>
          if \<not> set (query_columns cfg) \<subseteq> set cols then Inl undefined_column
          else (case select_rows P cfg rows of
             Inl err \<Rightarrow> Inl err
           | Inr sel \<Rightarrow> scanEvents L (result_set cols sel rowsErr)))"

section \<open>Drained batches\<close>

definition batchDrained :: "event list \<Rightarrow> int \<Rightarrow> bool" where
  "batchDrained events batchTarget =
     (if events = [] then True
      else let perRoute = group_by route events; n = int (length perRoute);
               share = max 1 (wrap64 (wrap64 (batchTarget + n) - 1) sdiv n) in
           list_all (\<lambda>(_, evts). \<not> int (length evts) \<ge> share) perRoute)"

end
