(* ===== verification/Collection_Facts.thy ===== *)
theory Collection_Facts
  imports Collection
begin

text \<open>
  What one collection returns, stated with the abstract routing function: per route the oldest
  rows up to the share, in id order, each with its own route; a drained batch is everything;
  no route starves.
\<close>

section \<open>Lists\<close>

lemma distinct_concat_map:
  assumes "distinct ks" "\<And>k. k \<in> set ks \<Longrightarrow> distinct (f k)"
    "\<And>k k'. k \<in> set ks \<Longrightarrow> k' \<in> set ks \<Longrightarrow> k \<noteq> k' \<Longrightarrow> set (f k) \<inter> set (f k') = {}"
  shows "distinct (concat (map f ks))"
  using assms
proof (induction ks)
  case Nil
  then show ?case by simp
next
  case (Cons k ks)
  have "distinct (concat (map f ks))" using Cons by (intro Cons.IH) auto
  moreover have "distinct (f k)" using Cons.prems(2) by simp
  moreover have "set (f k) \<inter> set (concat (map f ks)) = {}"
  proof (rule ccontr)
    assume "set (f k) \<inter> set (concat (map f ks)) \<noteq> {}"
    then obtain x k' where "x \<in> set (f k)" "k' \<in> set ks" "x \<in> set (f k')" by auto
    then show False using Cons.prems(1) Cons.prems(3)[of k k'] by auto
  qed
  ultimately show ?case by simp
qed

lemma filter_key:
  "distinct (map fst xs) \<Longrightarrow>
     filter (\<lambda>(i, r). i = k) xs = (case map_of xs k of None \<Rightarrow> [] | Some r \<Rightarrow> [(k, r)])"
proof (induction xs)
  case Nil
  then show ?case by simp
next
  case (Cons x xs)
  obtain i r where x: "x = (i, r)" by fastforce
  show ?case
  proof (cases "i = k")
    case True
    then have "k \<notin> fst ` set xs" using Cons.prems x by simp
    then have "map_of xs k = None" by (simp add: map_of_eq_None_iff)
    with Cons x True show ?thesis by simp
  next
    case False
    with Cons x show ?thesis by simp
  qed
qed

lemma concat_singletons:
  "concat (map (\<lambda>x. case f x of None \<Rightarrow> [] | Some y \<Rightarrow> [g x y]) xs) =
     map (\<lambda>x. g x (the (f x))) (filter (\<lambda>x. f x \<noteq> None) xs)"
  by (induction xs) (auto split: option.splits)

lemma sorted_key_strict:
  "distinct (map k xs) \<Longrightarrow> sorted_wrt (\<lambda>a b. k a < (k b :: int)) (sort_key k xs)"
proof -
  assume d: "distinct (map k xs)"
  have "sorted (map k (sort_key k xs))" by (rule sorted_sort_key)
  moreover have "distinct (map k (sort_key k xs))"
    using d by (metis distinct_map distinct_sort set_sort)
  ultimately have "sorted_wrt (<) (map k (sort_key k xs))" by (simp add: strict_sorted_iff)
  then show ?thesis by (simp add: sorted_wrt_map)
qed

lemma strict_distinct: "sorted_wrt (\<lambda>a b. k a < (k b :: int)) xs \<Longrightarrow> distinct xs"
  by (induction xs) auto

text \<open>Which elements of a strictly sorted list are among its first \<open>n\<close>.\<close>

lemma in_take_sorted:
  assumes "sorted_wrt (\<lambda>a b. k a < (k b :: int)) xs" "x \<in> set xs"
  shows "x \<in> set (take n xs) \<longleftrightarrow> card {y \<in> set xs. k y < k x} < n"
proof -
  obtain us vs where xs: "xs = us @ x # vs" using assms(2) by (auto simp: in_set_conv_decomp)
  have us: "k u < k x" if "u \<in> set us" for u using assms(1) that by (auto simp: xs sorted_wrt_append)
  have vs: "k x < k v" if "v \<in> set vs" for v using assms(1) that by (auto simp: xs sorted_wrt_append)
  have "{y \<in> set xs. k y < k x} = set us" using us vs by (fastforce simp: xs)
  moreover have "distinct us" using assms(1) by (intro strict_distinct[of k]) (auto simp: xs sorted_wrt_append)
  ultimately have card: "card {y \<in> set xs. k y < k x} = length us" by (simp add: distinct_card)
  have notin: "x \<notin> set us" using us by auto
  show ?thesis
  proof (cases "n \<le> length us")
    case True
    then show ?thesis using notin card by (auto simp: xs dest: in_set_takeD)
  next
    case False
    then obtain m where "n - length us = Suc m" by (cases "n - length us") auto
    then show ?thesis using False card by (simp add: xs)
  qed
qed

section \<open>Eligibility and routes\<close>

definition resolved :: "pg \<Rightarrow> appConfig \<Rightarrow> row \<Rightarrow> eventRoute option" where
  "resolved P cfg row = resolve cfg (cells P row)"

lemma eligible_iff: "eligible P cfg t row \<longleftrightarrow> resolved P cfg row \<noteq> None"
  by (simp add: eligible_def resolved_def routable_resolves)

lemma resolved_route_eq: "resolved P cfg row = Some rt \<Longrightarrow> resolved_route P cfg row = rt"
  by (simp add: resolved_route_def resolved_def resolved_values text_or_empty_def)

lemma query_routes_set: "set (query_routes P cfg rows) = {rt. \<exists>row. row \<in> set rows \<and> resolved P cfg row = Some rt}"
  using resolved_route_eq[of P cfg] by (fastforce simp: query_routes_def eligible_iff image_iff)

lemma query_routes_distinct: "distinct (query_routes P cfg rows)"
  by (simp add: query_routes_def)

lemma picked_eq:
  "picked P cfg rows share rt =
     take (nat share) (sort_key (rank P cfg) (filter (\<lambda>row. resolved P cfg row = Some rt) rows))"
proof -
  have "(eligible P cfg ''candidate'' row \<and> holds (cells P row) (route_row rt) (match_pred cfg ''candidate'')) \<longleftrightarrow>
      resolved P cfg row = Some rt" for row
    using match_resolves[of cfg "cells P row" _ rt "''candidate''"]
    by (auto simp: eligible_iff resolved_def)
  then show ?thesis by (simp add: picked_def)
qed

lemma resolve_nonempty: "resolve cfg row = Some rt \<Longrightarrow> target rt \<noteq> [] \<and> destination rt \<noteq> []"
proof -
  assume r: "resolve cfg row = Some rt"
  then obtain p where p: "resolve_provider cfg row = Some p" "target rt = route_target p" "destination rt \<noteq> []"
    by (auto simp: resolve_def Let_def split: option.splits if_splits)
  have "p \<in> set (configuredProviderRoutes cfg)" by (rule resolve_provider_route[OF p(1)])
  then show ?thesis using p(2,3) by (auto simp: route_defs split: if_splits)
qed

section \<open>The selected rows\<close>

text \<open>The ids of the table are unique and totally ordered by the database.\<close>

definition ids_unique :: "pg \<Rightarrow> appConfig \<Rightarrow> row list \<Rightarrow> bool" where
  "ids_unique P cfg rows \<longleftrightarrow> distinct (map (rank P cfg) rows)"

definition chosen :: "pg \<Rightarrow> appConfig \<Rightarrow> row list \<Rightarrow> int \<Rightarrow> row \<Rightarrow> bool" where
  "chosen P cfg rows share row \<longleftrightarrow>
     (\<exists>rt. resolved P cfg row = Some rt \<and> row \<in> set (picked P cfg rows share rt))"

lemma row_id_inj:
  assumes "ids_unique P cfg rows" "r \<in> set rows" "r' \<in> set rows" "row_id cfg r = row_id cfg r'"
  shows "r = r'"
proof -
  have "inj_on (rank P cfg) (set rows)" using assms(1) by (simp add: ids_unique_def distinct_map)
  moreover have "rank P cfg r = rank P cfg r'" using assms(4) by (simp add: rank_def)
  ultimately show ?thesis using assms(2,3) by (auto dest: inj_onD)
qed

lemma picked_sub: "row \<in> set (picked P cfg rows share rt) \<Longrightarrow> row \<in> set rows \<and> resolved P cfg row = Some rt"
  by (auto simp: picked_eq dest!: in_set_takeD)

lemma ids_unique_distinct: "ids_unique P cfg rows \<Longrightarrow> distinct rows"
  by (simp add: ids_unique_def distinct_map)

lemma picked_distinct: "ids_unique P cfg rows \<Longrightarrow> distinct (picked P cfg rows share rt)"
  by (simp add: picked_eq ids_unique_distinct)

lemma map_of_NoneI: "(\<And>v. (k, v) \<notin> set xs) \<Longrightarrow> map_of xs k = None"
  by (cases "map_of xs k") (auto dest: map_of_SomeD)

lemma chosen_resolved:
  "((if chosen P cfg rows share row then resolved P cfg row else None) \<noteq> None) = chosen P cfg rows share row"
  by (auto simp: chosen_def)

lemma select_rows_eq:
  assumes u: "ids_unique P cfg rows" and r: "query_routes P cfg rows \<noteq> []"
    and s: "query_share (CollectBatchTarget cfg) (int (length (query_routes P cfg rows))) = Some share"
  shows "select_rows P cfg rows =
     Inr (map (\<lambda>row. (the (resolved P cfg row), row))
       (filter (chosen P cfg rows share) (sort_key (rank P cfg) rows)))"
proof -
  let ?routes = "query_routes P cfg rows"
  let ?sel = "concat (map (\<lambda>rt. map (\<lambda>row. (row_id cfg row, rt)) (picked P cfg rows share rt)) ?routes)"
  have inj: "inj_on (row_id cfg) (set (picked P cfg rows share rt))" for rt
    by (auto intro!: inj_onI row_id_inj[OF u] dest: picked_sub)
  have "distinct (concat (map (\<lambda>rt. map (row_id cfg) (picked P cfg rows share rt)) ?routes))"
  proof (rule distinct_concat_map[OF query_routes_distinct])
    fix k k' :: eventRoute
    assume "k \<noteq> k'"
    then show "set (map (row_id cfg) (picked P cfg rows share k)) \<inter> set (map (row_id cfg) (picked P cfg rows share k')) = {}"
      by (auto dest!: picked_sub dest: row_id_inj[OF u])
  next
    fix k
    show "distinct (map (row_id cfg) (picked P cfg rows share k))"
      using inj picked_distinct[OF u] by (simp add: distinct_map)
  qed
  then have d: "distinct (map fst ?sel)" by (simp add: map_concat comp_def)
  have look: "map_of ?sel (row_id cfg row) = (if chosen P cfg rows share row then resolved P cfg row else None)"
    if row: "row \<in> set rows" for row
  proof (cases "chosen P cfg rows share row")
    case True
    then obtain rt where rt: "resolved P cfg row = Some rt" "row \<in> set (picked P cfg rows share rt)"
      by (auto simp: chosen_def)
    then have "(row_id cfg row, rt) \<in> set ?sel" using row by (auto simp: query_routes_set)
    then show ?thesis using True rt(1) d by (simp add: map_of_eq_Some_iff)
  next
    case False
    have "(row_id cfg row, rt) \<notin> set ?sel" for rt
    proof
      assume "(row_id cfg row, rt) \<in> set ?sel"
      then obtain r' where r': "r' \<in> set (picked P cfg rows share rt)" "row_id cfg row = row_id cfg r'" by auto
      then have "r' = row" using row_id_inj[OF u] row picked_sub by metis
      then show False using False r'(1) picked_sub[OF r'(1)] by (auto simp: chosen_def)
    qed
    then have "map_of ?sel (row_id cfg row) = None" by (rule map_of_NoneI)
    then show ?thesis using False by simp
  qed
  have "map (\<lambda>(i, rt). (rt, row)) (filter (\<lambda>(i, rt). i = row_id cfg row) ?sel) =
      (case (if chosen P cfg rows share row then resolved P cfg row else None) of None \<Rightarrow> [] | Some rt \<Rightarrow> [(rt, row)])"
    if "row \<in> set (sort_key (rank P cfg) rows)" for row
    using that look[of row] by (simp add: filter_key[OF d] split: option.splits)
  then have "concat (map (\<lambda>row. map (\<lambda>(i, rt). (rt, row)) (filter (\<lambda>(i, rt). i = row_id cfg row) ?sel))
      (sort_key (rank P cfg) rows)) =
    concat (map (\<lambda>row. case (if chosen P cfg rows share row then resolved P cfg row else None) of
      None \<Rightarrow> [] | Some rt \<Rightarrow> [(rt, row)]) (sort_key (rank P cfg) rows))"
    by (intro arg_cong[where f = concat] map_cong refl)
  also have "\<dots> = map (\<lambda>row. (the (if chosen P cfg rows share row then resolved P cfg row else None), row))
      (filter (\<lambda>row. (if chosen P cfg rows share row then resolved P cfg row else None) \<noteq> None) (sort_key (rank P cfg) rows))"
    by (rule concat_singletons)
  also have "\<dots> = map (\<lambda>row. (the (if chosen P cfg rows share row then resolved P cfg row else None), row))
      (filter (chosen P cfg rows share) (sort_key (rank P cfg) rows))"
    unfolding chosen_resolved ..
  also have "\<dots> = map (\<lambda>row. (the (resolved P cfg row), row))
       (filter (chosen P cfg rows share) (sort_key (rank P cfg) rows))"
    by (rule map_cong) auto
  finally show ?thesis using r s by (simp add: select_rows_def Let_def)
qed

section \<open>Reading the result set\<close>

text \<open>
  The table has every column the query names, and every row of a table has the table's columns.
\<close>

definition table_ok :: "appConfig \<Rightarrow> string list \<Rightarrow> row list \<Rightarrow> bool" where
  "table_ok cfg cols rows \<longleftrightarrow> set (query_columns cfg) \<subseteq> set cols \<and> distinct cols \<and> list_all (\<lambda>row. map fst row = cols) rows"

definition event_of :: "eventRoute \<Rightarrow> row \<Rightarrow> event" where
  "event_of rt row = \<lparr> columns = row, route = rt, evt_options = empty_options \<rparr>"

lemma update_append: "k \<notin> fst ` set m \<Longrightarrow> AList.update k v m = m @ [(k, v)]"
  by (induction m) auto

lemma scan_columns_rows: "distinct (map fst row) \<Longrightarrow> scan_columns (map fst row) (map snd row) = row"
proof -
  assume d: "distinct (map fst row)"
  have "foldl (\<lambda>m (c, v). AList.update c (normalizeDBValue v) m) m row = m @ row"
    if "distinct (map fst (m @ row))" for m
    using that
  proof (induction row arbitrary: m)
    case Nil
    then show ?case by simp
  next
    case (Cons x row)
    obtain c v where x: "x = (c, v)" by fastforce
    have "AList.update c v m = m @ [(c, v)]" using Cons.prems x by (intro update_append) auto
    moreover have "distinct (map fst ((m @ [(c, v)]) @ row))" using Cons.prems x by simp
    ultimately show ?case using Cons.IH[of "m @ [(c, v)]"] x by (simp add: normalizeDBValue_def)
  qed
  from this[of "[]"] d show ?thesis by (simp add: scan_columns_def zip_map_fst_snd)
qed

lemma scan_loop_rows:
  assumes "\<And>rt row. (rt, row) \<in> set sel \<Longrightarrow> target rt \<noteq> [] \<and> destination rt \<noteq> [] \<and> map fst row = cols \<and> distinct cols"
  shows "scan_loop L (''resolved_target'' # ''resolved_destination'' # cols)
     (map (\<lambda>(rt, row). GString (target rt) # GString (destination rt) # map snd row) sel) acc =
     Inr (acc @ map (\<lambda>(rt, row). event_of rt row) sel)"
  using assms
proof (induction sel arbitrary: acc)
  case Nil
  then show ?case by simp
next
  case (Cons x sel)
  obtain rt row where x: "x = (rt, row)" by fastforce
  have r: "target rt \<noteq> []" "destination rt \<noteq> []" "map fst row = cols" "distinct cols"
    using Cons.prems[of rt row] x by auto
  then have "scan_columns cols (map snd row) = row" using scan_columns_rows[of row] by simp
  then have "scanRow L (''resolved_target'' # ''resolved_destination'' # cols)
      (GString (target rt) # GString (destination rt) # map snd row) = Inr (event_of rt row)"
    using r by (simp add: scanRow_def normalizeDBValue_def valueString_def event_of_def)
  moreover have "scan_loop L (''resolved_target'' # ''resolved_destination'' # cols)
     (map (\<lambda>(rt, row). GString (target rt) # GString (destination rt) # map snd row) sel) (acc @ [event_of rt row]) =
     Inr ((acc @ [event_of rt row]) @ map (\<lambda>(rt, row). event_of rt row) sel)"
    by (rule Cons.IH) (rule Cons.prems, simp)
  ultimately show ?case using x by simp
qed

definition collected :: "pg \<Rightarrow> appConfig \<Rightarrow> row list \<Rightarrow> int \<Rightarrow> event list" where
  "collected P cfg rows share =
     map (\<lambda>row. event_of (the (resolved P cfg row)) row) (filter (chosen P cfg rows share) (sort_key (rank P cfg) rows))"

text \<open>The share of each route, when the arithmetic of the query does not overflow.\<close>

definition share_of :: "pg \<Rightarrow> appConfig \<Rightarrow> row list \<Rightarrow> int option" where
  "share_of P cfg rows =
     (if query_routes P cfg rows = [] then Some 1
      else query_share (CollectBatchTarget cfg) (int (length (query_routes P cfg rows))))"

lemma chosen_empty: "query_routes P cfg rows = [] \<Longrightarrow> row \<in> set rows \<Longrightarrow> \<not> chosen P cfg rows share row"
proof -
  assume q: "query_routes P cfg rows = []" and row: "row \<in> set rows"
  have "set (query_routes P cfg rows) = {}" using q by simp
  then show ?thesis using row unfolding query_routes_set chosen_def by blast
qed

lemma selectEvents_eq:
  assumes u: "ids_unique P cfg rows" and t: "table_ok cfg cols rows" and s: "share_of P cfg rows = Some share"
  shows "selectEvents L P cfg cols rows None None = Inr (collected P cfg rows share)"
proof -
  let ?sel = "map (\<lambda>row. (the (resolved P cfg row), row)) (filter (chosen P cfg rows share) (sort_key (rank P cfg) rows))"
  have sel: "select_rows P cfg rows = Inr ?sel"
  proof (cases "query_routes P cfg rows = []")
    case True
    then have "filter (chosen P cfg rows share) (sort_key (rank P cfg) rows) = []"
      using chosen_empty[OF True] by (simp add: filter_empty_conv)
    then show ?thesis using True by (simp add: select_rows_def)
  next
    case False
    then show ?thesis using select_rows_eq[OF u False] s by (simp add: share_of_def)
  qed
  have "target rt \<noteq> [] \<and> destination rt \<noteq> [] \<and> map fst row = cols \<and> distinct cols" if "(rt, row) \<in> set ?sel" for rt row
  proof -
    from that have "row \<in> set rows" "resolved P cfg row = Some rt" by (auto simp: chosen_def)
    then show ?thesis using t resolve_nonempty[of cfg "cells P row" rt]
      by (auto simp: resolved_def table_ok_def list_all_iff)
  qed
  from scan_loop_rows[of ?sel cols L "[]", OF this] show ?thesis
    using t by (simp add: selectEvents_def table_ok_def sel result_set_def scanEvents_def collected_def comp_def)
qed

lemma query_share_pos: "query_share b n = Some share \<Longrightarrow> share \<ge> 1"
  by (auto simp: query_share_def split: if_splits)

lemma share_of_pos: "share_of P cfg rows = Some share \<Longrightarrow> share \<ge> 1"
  by (auto simp: share_of_def dest: query_share_pos split: if_splits)

lemma selected_collected:
  assumes "ids_unique P cfg rows" "table_ok cfg cols rows"
    and sel: "selectEvents L P cfg cols rows None None = Inr events"
  obtains share where "share_of P cfg rows = Some share" "share \<ge> 1" "events = collected P cfg rows share"
proof (cases "share_of P cfg rows")
  case None
  then have False using sel
    by (simp add: selectEvents_def select_rows_def share_of_def Let_def split: if_splits)
  then show ?thesis ..
next
  case (Some share)
  then show ?thesis using selectEvents_eq[OF assms(1,2) Some, of L] sel share_of_pos[OF Some] that by simp
qed

text \<open>The rows of a route that are older than a given row.\<close>

definition older :: "pg \<Rightarrow> appConfig \<Rightarrow> row list \<Rightarrow> eventRoute \<Rightarrow> row \<Rightarrow> row set" where
  "older P cfg rows rt row =
     {r. r \<in> set rows \<and> resolved P cfg r = Some rt \<and> rank P cfg r < rank P cfg row}"

lemma chosen_iff:
  assumes "ids_unique P cfg rows" "row \<in> set rows" "resolved P cfg row = Some rt"
  shows "chosen P cfg rows share row \<longleftrightarrow> int (card (older P cfg rows rt row)) < share"
proof -
  let ?xs = "sort_key (rank P cfg) (filter (\<lambda>row. resolved P cfg row = Some rt) rows)"
  have "sorted_wrt (\<lambda>a b. rank P cfg a < rank P cfg b) ?xs"
    using assms(1) by (intro sorted_key_strict) (simp add: ids_unique_def distinct_map_filter)
  moreover have "row \<in> set ?xs" using assms(2,3) by simp
  ultimately have "row \<in> set (take (nat share) ?xs) \<longleftrightarrow> card {y \<in> set ?xs. rank P cfg y < rank P cfg row} < nat share"
    by (rule in_take_sorted)
  moreover have "{y \<in> set ?xs. rank P cfg y < rank P cfg row} = older P cfg rows rt row" by (auto simp: older_def)
  ultimately show ?thesis using assms(3) by (auto simp: chosen_def picked_eq zless_nat_eq_int_zless)
qed

lemma in_collected:
  "evt \<in> set (collected P cfg rows share) \<longleftrightarrow>
     (\<exists>row rt. row \<in> set rows \<and> resolved P cfg row = Some rt \<and> chosen P cfg rows share row \<and> evt = event_of rt row)"
proof -
  have "chosen P cfg rows share row \<Longrightarrow> \<exists>rt. resolved P cfg row = Some rt" for row by (auto simp: chosen_def)
  then show ?thesis by (fastforce simp: collected_def image_iff)
qed

lemma collected_sorted:
  assumes "ids_unique P cfg rows"
  shows "sorted_wrt (\<lambda>a b. rank P cfg (columns a) < rank P cfg (columns b)) (collected P cfg rows share)"
proof -
  have "sorted_wrt (\<lambda>a b. rank P cfg a < rank P cfg b) (filter (chosen P cfg rows share) (sort_key (rank P cfg) rows))"
    using sorted_key_strict[of "rank P cfg" rows] assms by (simp add: sorted_wrt_filter ids_unique_def)
  then show ?thesis by (simp add: collected_def sorted_wrt_map event_of_def)
qed

section \<open>A sample table\<close>

text \<open>
  Two rows for SQS, one for Pub/Sub and one without a target, stored out of order; the small
  configuration has room for one event per route.
\<close>

definition sample_pg :: pg where
  "sample_pg = \<lparr> pg_sanitize = concat,
     pg_rank = (\<lambda>v. case v of GInt64 i \<Rightarrow> i | _ \<Rightarrow> 0),
     pg_text = (\<lambda>v. case v of GString s \<Rightarrow> Some s | _ \<Rightarrow> None) \<rparr>"

definition sample_cols :: "string list" where
  "sample_cols = [''id'', ''payload'', ''target'', ''destination'']"

definition sample_table_row :: "int \<Rightarrow> goval \<Rightarrow> row" where
  "sample_table_row i tgt = [(''id'', GInt64 i), (''payload'', GBytes ''hello''), (''target'', tgt), (''destination'', GNil)]"

definition sample_table :: "row list" where
  "sample_table = [sample_table_row 3 (GString ''sqs''), sample_table_row 1 (GString ''sqs''),
     sample_table_row 2 (GString ''pubsub''), sample_table_row 4 GNil]"

definition sample_sqs :: eventRoute where
  "sample_sqs = \<lparr> target = ''sqs'', destination = ''q'' \<rparr>"

definition sample_pubsub :: eventRoute where
  "sample_pubsub = \<lparr> target = ''pubsub'', destination = ''default'' \<rparr>"

definition small_config :: appConfig where
  "small_config = sample_config\<lparr>CollectBatchTarget := 1\<rparr>"

definition small_batch :: "event list" where
  "small_batch = [event_of sample_sqs (sample_table_row 1 (GString ''sqs'')),
     event_of sample_pubsub (sample_table_row 2 (GString ''pubsub''))]"

definition full_batch :: "event list" where
  "full_batch = small_batch @ [event_of sample_sqs (sample_table_row 3 (GString ''sqs''))]"

lemma older_list [code]:
  "older P cfg rows rt row =
     set (filter (\<lambda>r. resolved P cfg r = Some rt \<and> rank P cfg r < rank P cfg row) rows)"
  by (auto simp: older_def)

lemma sample_table_ok:
  "ids_unique sample_pg small_config sample_table" "ids_unique sample_pg sample_config sample_table"
  "table_ok small_config sample_cols sample_table" "table_ok sample_config sample_cols sample_table"
  by code_simp+

lemma sample_select:
  "selectEvents sample_lib sample_pg small_config sample_cols sample_table None None = Inr small_batch"
  "selectEvents sample_lib sample_pg sample_config sample_cols sample_table None None = Inr full_batch"
  by code_simp+

text \<open>
  (C6) One collection, for every table with unique ids and every configuration: the selected
  events are exactly, for each route that some row resolves to, the rows of that route with
  fewer older rows of the same route than the route's share of the batch target; each carries
  its own route, and they come in the order of the id column.
\<close>

theorem collection_correct:
  assumes "ids_unique P cfg rows" "table_ok cfg cols rows" "share_of P cfg rows = Some share"
  shows "\<exists>events. selectEvents L P cfg cols rows None None = Inr events \<and>
     sorted_wrt (\<lambda>a b. rank P cfg (columns a) < rank P cfg (columns b)) events \<and>
     set events = {event_of rt row | rt row. row \<in> set rows \<and> resolve cfg (cells P row) = Some rt \<and>
       int (card (older P cfg rows rt row)) < share}"
proof (intro exI conjI)
  show "selectEvents L P cfg cols rows None None = Inr (collected P cfg rows share)" by (rule selectEvents_eq[OF assms])
  show "sorted_wrt (\<lambda>a b. rank P cfg (columns a) < rank P cfg (columns b)) (collected P cfg rows share)"
    by (rule collected_sorted[OF assms(1)])
  show "set (collected P cfg rows share) = {event_of rt row | rt row. row \<in> set rows \<and>
      resolve cfg (cells P row) = Some rt \<and> int (card (older P cfg rows rt row)) < share}"
    unfolding resolved_def[symmetric] set_eq_iff in_collected mem_Collect_eq
    using chosen_iff[OF assms(1)] by metis
qed

theorem collection_correct_witness:
  "share_of sample_pg small_config sample_table = Some 1 \<and>
   set small_batch = {event_of rt row | rt row. row \<in> set sample_table \<and>
     resolve small_config (cells sample_pg row) = Some rt \<and>
     int (card (older sample_pg small_config sample_table rt row)) < 1}"
proof -
  have "share_of sample_pg small_config sample_table = Some 1" by code_simp
  then show ?thesis
    using collection_correct[OF sample_table_ok(1,3), of 1 sample_lib] by (simp add: sample_select(1))
qed

section \<open>Counting per route\<close>

lemma chosen_rows_route:
  "{row \<in> set rows. chosen P cfg rows share row \<and> the (resolved P cfg row) = rt} = set (picked P cfg rows share rt)"
  by (auto simp: chosen_def dest: picked_sub)

lemma collected_route_count:
  assumes "ids_unique P cfg rows"
  shows "length (filter (\<lambda>e. route e = rt) (collected P cfg rows share)) = length (picked P cfg rows share rt)"
proof -
  let ?f = "filter (\<lambda>row. chosen P cfg rows share row \<and> the (resolved P cfg row) = rt) (sort_key (rank P cfg) rows)"
  have "length (filter (\<lambda>e. route e = rt) (collected P cfg rows share)) = length ?f"
    by (simp add: collected_def filter_map comp_def event_of_def conj_commute)
  also have "\<dots> = card (set ?f)"
    using ids_unique_distinct[OF assms] by (intro distinct_card[symmetric]) simp
  also have "set ?f = set (picked P cfg rows share rt)" unfolding chosen_rows_route[symmetric] by auto
  also have "card \<dots> = length (picked P cfg rows share rt)" by (rule distinct_card[OF picked_distinct[OF assms]])
  finally show ?thesis .
qed

lemma picked_length:
  "length (picked P cfg rows share rt) = min (nat share) (length (filter (\<lambda>row. resolved P cfg row = Some rt) rows))"
  by (simp add: picked_eq)

lemma picked_not_empty:
  assumes "share \<ge> 1" "row \<in> set rows" "resolved P cfg row = Some rt"
  shows "picked P cfg rows share rt \<noteq> []"
proof -
  have "filter (\<lambda>row. resolved P cfg row = Some rt) rows \<noteq> []" using assms(2,3) by (auto simp: filter_empty_conv)
  then have "length (picked P cfg rows share rt) > 0" using assms(1) by (simp add: picked_length)
  then show ?thesis by auto
qed

lemma collected_routes:
  assumes "ids_unique P cfg rows" "share \<ge> 1"
  shows "route ` set (collected P cfg rows share) = set (query_routes P cfg rows)"
proof
  show "route ` set (collected P cfg rows share) \<subseteq> set (query_routes P cfg rows)"
    by (auto simp: in_collected query_routes_set event_of_def) blast
  show "set (query_routes P cfg rows) \<subseteq> route ` set (collected P cfg rows share)"
  proof
    fix rt
    assume "rt \<in> set (query_routes P cfg rows)"
    then obtain row where "row \<in> set rows" "resolved P cfg row = Some rt" by (auto simp: query_routes_set)
    then have "picked P cfg rows share rt \<noteq> []" by (rule picked_not_empty[OF assms(2)])
    then have "filter (\<lambda>e. route e = rt) (collected P cfg rows share) \<noteq> []"
      using collected_route_count[OF assms(1), of rt share] by (metis length_0_conv)
    then show "rt \<in> route ` set (collected P cfg rows share)" by (auto simp: filter_empty_conv)
  qed
qed

lemma perRoute_length:
  assumes "ids_unique P cfg rows" "share \<ge> 1"
  shows "length (group_by route (collected P cfg rows share)) = length (query_routes P cfg rows)"
proof -
  have "length (group_by route (collected P cfg rows share)) = card (set (map fst (group_by route (collected P cfg rows share))))"
    using distinct_card[OF group_by_keys_distinct, of route "collected P cfg rows share"] by simp
  also have "\<dots> = card (set (query_routes P cfg rows))"
    unfolding group_by_keys_set collected_routes[OF assms] ..
  also have "\<dots> = length (query_routes P cfg rows)" by (rule distinct_card[OF query_routes_distinct])
  finally show ?thesis .
qed

section \<open>Drained batches and fairness\<close>

lemma drained_all_chosen:
  assumes u: "ids_unique P cfg rows" and s: "share_of P cfg rows = Some share"
    and d: "batchDrained (collected P cfg rows share) (CollectBatchTarget cfg)"
    and r: "row \<in> set rows" "resolved P cfg row = Some rt"
  shows "chosen P cfg rows share row"
proof -
  let ?evts = "collected P cfg rows share" and ?n = "int (length (query_routes P cfg rows))"
  note pos = share_of_pos[OF s]
  have rt: "rt \<in> set (query_routes P cfg rows)" using r by (auto simp: query_routes_set)
  then have ne: "query_routes P cfg rows \<noteq> []" by auto
  have rte: "rt \<in> route ` set ?evts" using collected_routes[OF u pos] rt by simp
  then have evne: "?evts \<noteq> []" by auto
  have qs: "query_share (CollectBatchTarget cfg) ?n = Some share" using s ne by (simp add: share_of_def)
  have len: "int (length (group_by route ?evts)) = ?n" using perRoute_length[OF u pos] by simp
  have share: "max 1 (wrap64 (wrap64 (CollectBatchTarget cfg + ?n) - 1) sdiv ?n) = share"
    using qs by (auto simp: query_share_def split: if_splits)
  have "(rt, filter (\<lambda>e. route e = rt) ?evts) \<in> set (group_by route ?evts)"
    using rte by (intro map_of_SomeD) (simp add: group_by_lookup)
  then have "\<not> int (length (filter (\<lambda>e. route e = rt) ?evts)) \<ge> share"
    using d evne share len by (auto simp: batchDrained_def Let_def list_all_iff)
  then have "int (length (picked P cfg rows share rt)) < share"
    using collected_route_count[OF u, of rt share] by simp
  then have "picked P cfg rows share rt = sort_key (rank P cfg) (filter (\<lambda>row. resolved P cfg row = Some rt) rows)"
    using pos by (simp add: picked_eq min_def split: if_splits)
  then show ?thesis using r by (auto simp: chosen_def)
qed

text \<open>
  A drained batch is everything: when \<open>batchDrained\<close> says no route reached its share, every
  row of the table that resolves to a route was selected, so the events kept for retry are the
  relay's whole backlog.
\<close>

theorem drained_is_complete:
  assumes "ids_unique P cfg rows" "table_ok cfg cols rows"
    and sel: "selectEvents L P cfg cols rows None None = Inr events"
    and "batchDrained events (CollectBatchTarget cfg)"
    and "row \<in> set rows" "resolve cfg (cells P row) = Some rt"
  shows "event_of rt row \<in> set events"
proof -
  obtain share where s: "share_of P cfg rows = Some share" and ev: "events = collected P cfg rows share"
    using selected_collected[OF assms(1,2) sel] by blast
  have "chosen P cfg rows share row"
    using drained_all_chosen[OF assms(1) s _ assms(5)] assms(4,6) ev by (simp add: resolved_def)
  then show ?thesis using ev assms(5,6) by (auto simp: in_collected resolved_def)
qed

theorem drained_is_complete_witness:
  "event_of sample_sqs (sample_table_row 3 (GString ''sqs'')) \<in> set full_batch"
proof (rule drained_is_complete[OF sample_table_ok(2,4) sample_select(2)])
  show "batchDrained full_batch (CollectBatchTarget sample_config)" by code_simp
  show "sample_table_row 3 (GString ''sqs'') \<in> set sample_table" by code_simp
  show "resolve sample_config (cells sample_pg (sample_table_row 3 (GString ''sqs''))) = Some sample_sqs" by code_simp
qed

lemma oldest_selected:
  assumes "ids_unique P cfg rows" "table_ok cfg cols rows"
    and sel: "selectEvents L P cfg cols rows None None = Inr events"
    and r: "row \<in> set rows" "resolve cfg (cells P row) = Some rt"
    and oldest: "older P cfg rows rt row = {}"
  shows "event_of rt row \<in> set events"
proof -
  obtain share where s: "share_of P cfg rows = Some share" and ev: "events = collected P cfg rows share"
    using selected_collected[OF assms(1,2) sel] by blast
  have "chosen P cfg rows share row"
    using chosen_iff[OF assms(1) r(1), of rt share] share_of_pos[OF s] oldest r(2) by (simp add: resolved_def)
  then show ?thesis using ev r by (auto simp: in_collected resolved_def)
qed

text \<open>
  No route starves: whenever a row resolves to a route, the oldest row of that route is in
  the batch, however many rows other routes have and whatever the batch target is.
\<close>

theorem no_route_starves:
  assumes "ids_unique P cfg rows" "table_ok cfg cols rows"
    and "selectEvents L P cfg cols rows None None = Inr events"
    and "row \<in> set rows" "resolve cfg (cells P row) = Some rt" "older P cfg rows rt row = {}"
  shows "event_of rt row \<in> set events"
  by (rule oldest_selected[OF assms])

theorem no_route_starves_witness:
  "event_of sample_pubsub (sample_table_row 2 (GString ''pubsub'')) \<in> set small_batch"
proof (rule no_route_starves[OF sample_table_ok(1,3) sample_select(1)])
  show "sample_table_row 2 (GString ''pubsub'') \<in> set sample_table" by code_simp
  show "resolve small_config (cells sample_pg (sample_table_row 2 (GString ''pubsub''))) = Some sample_pubsub" by code_simp
  show "older sample_pg small_config sample_table sample_pubsub (sample_table_row 2 (GString ''pubsub'')) = {}" by code_simp
qed

lemma collected_length:
  assumes "ids_unique P cfg rows" "share \<ge> 1"
  shows "length (collected P cfg rows share) \<le> length (query_routes P cfg rows) * nat share"
proof -
  have "length (collected P cfg rows share) = length (filter (chosen P cfg rows share) (sort_key (rank P cfg) rows))"
    by (simp add: collected_def)
  also have "\<dots> = card (set (filter (chosen P cfg rows share) (sort_key (rank P cfg) rows)))"
    using ids_unique_distinct[OF assms(1)] by (intro distinct_card[symmetric]) simp
  also have "\<dots> \<le> card (\<Union>rt \<in> set (query_routes P cfg rows). set (picked P cfg rows share rt))"
  proof (rule card_mono)
    show "finite (\<Union>rt \<in> set (query_routes P cfg rows). set (picked P cfg rows share rt))" by blast
  qed (auto simp: chosen_def query_routes_set)
  also have "\<dots> \<le> (\<Sum>rt \<in> set (query_routes P cfg rows). card (set (picked P cfg rows share rt)))"
    by (rule card_UN_le) simp
  also have "\<dots> \<le> (\<Sum>rt \<in> set (query_routes P cfg rows). nat share)"
    by (rule sum_mono) (use picked_length[of P cfg rows share] card_length in \<open>metis le_trans min.cobounded1\<close>)
  also have "\<dots> = length (query_routes P cfg rows) * nat share"
    using distinct_card[OF query_routes_distinct[of P cfg rows]] by simp
  finally show ?thesis .
qed

lemma sdiv_pos: "0 \<le> a \<Longrightarrow> 0 < b \<Longrightarrow> a sdiv b = a div (b :: int)"
  by (cases "a = 0") (simp_all add: signed_divide_int_def)

lemma share_bound:
  assumes "1 \<le> n" "1 \<le> t"
  shows "n * max 1 ((t + n - 1) div n) \<le> t + n - (1 :: int)"
proof -
  have "0 < (t + n - 1) div n" using assms by (subst pos_imp_zdiv_pos_iff) auto
  then have "max 1 ((t + n - 1) div n) = (t + n - 1) div n" by simp
  moreover have "n * ((t + n - 1) div n) \<le> t + n - 1"
    using mult_div_mod_eq[of n "t + n - 1"] pos_mod_sign[of n "t + n - 1"] assms(1) by linarith
  ultimately show ?thesis by simp
qed

text \<open>
  The batch target bounds memory: a batch never exceeds the target by more than the number
  of routes less one, the price of rounding each route's share up.
\<close>

theorem batch_size_bound:
  assumes "ids_unique P cfg rows" "table_ok cfg cols rows"
    and sel: "selectEvents L P cfg cols rows None None = Inr events"
    and "CollectBatchTarget cfg \<ge> 1"
  shows "int (length events) \<le> CollectBatchTarget cfg + int (length (query_routes P cfg rows)) - 1"
proof -
  let ?n = "int (length (query_routes P cfg rows))" and ?t = "CollectBatchTarget cfg"
  obtain share where s: "share_of P cfg rows = Some share" and ev: "events = collected P cfg rows share"
    using selected_collected[OF assms(1,2) sel] by blast
  have le: "int (length events) \<le> ?n * share"
    using collected_length[OF assms(1) share_of_pos[OF s]] share_of_pos[OF s] ev
    by (metis le_nat_iff nat_int nat_mult_distrib of_nat_0_le_iff of_nat_mono of_nat_mult int_nat_eq zero_le_one order.trans)
  show ?thesis
  proof (cases "query_routes P cfg rows = []")
    case True
    with le assms(4) show ?thesis by simp
  next
    case False
    then have n: "?n \<ge> 1" by (cases "query_routes P cfg rows") auto
    have "query_share ?t ?n = Some share" using s False by (simp add: share_of_def)
    then have "share = max 1 ((?t + ?n - 1) sdiv ?n)" by (auto simp: query_share_def split: if_splits)
    also have "(?t + ?n - 1) sdiv ?n = (?t + ?n - 1) div ?n"
      using n assms(4) by (intro sdiv_pos) auto
    finally have "?n * share \<le> ?t + ?n - 1" using share_bound[OF n assms(4)] by simp
    with le show ?thesis by simp
  qed
qed

theorem batch_size_bound_witness:
  "int (length small_batch) \<le> 1 + int (length (query_routes sample_pg small_config sample_table)) - 1"
proof -
  have "CollectBatchTarget small_config = 1" by code_simp
  then show ?thesis using batch_size_bound[OF sample_table_ok(1,3) sample_select(1)] by simp
qed

end
