(* ===== verification/Schema_Checks.thy ===== *)
theory Schema_Checks
  imports Collection_Facts
begin

text \<open>
  The checks the relay makes of its tables before it starts, and \<open>init --apply\<close> before it commits:
  \<open>checkDBWorks\<close> and \<open>validateEventColumns\<close> of \<open>db.go\<close>, \<open>loadDLQTableMetadata\<close>,
  \<open>validateDLQTableMetadata\<close> and \<open>checkDLQWorks\<close> of \<open>dlq.go\<close>, \<open>validateProvisionedSchema\<close> of
  \<open>init.go\<close>; what the checks establish and what they let through.
\<close>

section \<open>The event table\<close>

definition required_columns :: "appConfig \<Rightarrow> string list" where
  "required_columns cfg =
     (let routes = configuredProviderRoutes cfg in
      [EventID cfg, EventPayload cfg] @
      (if MaxEventAge cfg > 0 then [EventTimestamp cfg] else []) @
      (if length routes > 1 then [EventTarget cfg] else []) @
      (if list_ex (\<lambda>route. defaultDestination route = []) routes then [EventDestination cfg] else []))"

definition validateEventColumns :: "appConfig \<Rightarrow> string list \<Rightarrow> go_error option" where
  "validateEventColumns cfg cols =
     (let missing = filter (\<lambda>name. name \<noteq> [] \<and> name \<notin> set cols) (required_columns cfg) in
      if length missing > 0
      then Some (ErrorString (''event table '' @ EventTable cfg @ '' is missing required columns: '' @
        Join missing '', ''))
      else None)"

text \<open>The query and the column list of its result may fail.\<close>

definition checkDBWorks :: "appConfig \<Rightarrow> go_error + string list \<Rightarrow> go_error option" where
  "checkDBWorks cfg answer =
     (case answer of Inl err \<Rightarrow> Some err | Inr cols \<Rightarrow> validateEventColumns cfg cols)"

section \<open>The dead-letter table\<close>

record dlqColumnMetadata =
  col_name :: string
  col_typeName :: string
  col_notNull :: bool
  col_defaultExpr :: "string option"
  col_identity :: string
  col_generated :: string
  col_canInsertColumn :: bool

record dlqTableMetadata =
  relkind :: string
  canInsertTable :: bool
  dlq_columns :: "dlqColumnMetadata list"

text \<open>One row of the catalogue query: the table's kind and privilege, and a column of it.\<close>

type_synonym dlq_row = "string \<times> bool \<times> dlqColumnMetadata"

fun dlq_scan :: "(go_error + dlq_row) list \<Rightarrow> dlqTableMetadata \<Rightarrow> go_error + dlqTableMetadata" where
  "dlq_scan [] metadata = Inr metadata"
| "dlq_scan (Inl err # rest) metadata = Inl err"
| "dlq_scan (Inr (kind, can, column) # rest) metadata =
     dlq_scan rest (metadata\<lparr>relkind := kind, canInsertTable := can, dlq_columns := dlq_columns metadata @ [column]\<rparr>)"

definition loadDLQTableMetadata ::
  "go_error + ((go_error + dlq_row) list \<times> go_error option) \<Rightarrow> go_error + dlqTableMetadata" where
  "loadDLQTableMetadata answer =
     (case answer of
        Inl err \<Rightarrow> Inl err
      | Inr (rows, rowsErr) \<Rightarrow>
          (case dlq_scan rows \<lparr> relkind = [], canInsertTable = False, dlq_columns = [] \<rparr> of
             Inl err \<Rightarrow> Inl err
           | Inr metadata \<Rightarrow> (case rowsErr of Some err \<Rightarrow> Inl err | None \<Rightarrow> Inr metadata)))"

definition canOmitColumnFromInsert :: "dlqColumnMetadata \<Rightarrow> bool" where
  "canOmitColumnFromInsert column \<longleftrightarrow>
     \<not> col_notNull column \<or> col_defaultExpr column \<noteq> None \<or> col_identity column \<noteq> [] \<or> col_generated column \<noteq> []"

text \<open>\<open>columns[column.name] = column\<close> for each column in turn: the last one of a name stays.\<close>

definition dlq_column :: "dlqTableMetadata \<Rightarrow> string \<Rightarrow> dlqColumnMetadata option" where
  "dlq_column metadata name = map_of (rev (map (\<lambda>c. (col_name c, c)) (dlq_columns metadata))) name"

definition blockingColumns :: "dlqTableMetadata \<Rightarrow> string list" where
  "blockingColumns metadata =
     map col_name (filter (\<lambda>c. col_name c \<noteq> ''id'' \<and> col_name c \<noteq> ''event'' \<and> \<not> canOmitColumnFromInsert c)
       (dlq_columns metadata))"

definition validateDLQTableMetadata :: "string \<Rightarrow> dlqTableMetadata \<Rightarrow> go_error option" where
  "validateDLQTableMetadata table metadata =
     (let bad = (\<lambda>m. Some (ErrorString (''DLQ table '' @ table @ m))) in
      if length (dlq_columns metadata) = 0 then bad '' does not exist or has no columns''
      else if relkind metadata \<noteq> ''r'' \<and> relkind metadata \<noteq> ''p''
      then bad '' must be an ordinary or partitioned table''
      else if \<not> canInsertTable metadata
      then Some (ErrorString (''missing INSERT privilege on DLQ table '' @ table))
      else (case dlq_column metadata ''id'' of
          None \<Rightarrow> bad '' is missing required column: id''
        | Some idc \<Rightarrow>
            if \<not> canOmitColumnFromInsert idc
            then bad '' column id must be nullable, generated, identity, or have a default''
            else (case dlq_column metadata ''event'' of
                None \<Rightarrow> bad '' is missing required column: event''
              | Some event \<Rightarrow>
                  if col_generated event \<noteq> [] then bad '' column event must accept inserted values''
                  else if col_typeName event \<noteq> ''json'' \<and> col_typeName event \<noteq> ''jsonb''
                  then bad ('' column event must be json or jsonb, got '' @ col_typeName event)
                  else if \<not> col_canInsertColumn event
                  then Some (ErrorString (''missing INSERT privilege on DLQ table '' @ table @ '' column event''))
                  else if length (blockingColumns metadata) > 0
                  then bad ('' has required columns without defaults that Outboxer does not insert: '' @
                    Join (blockingColumns metadata) '', '')
                  else None)))"

definition checkDLQWorks ::
  "appConfig \<Rightarrow> go_error + ((go_error + dlq_row) list \<times> go_error option) \<Rightarrow> go_error option" where
  "checkDLQWorks cfg answer =
     (if DLQTable cfg = [] then None
      else (case loadDLQTableMetadata answer of
          Inl err \<Rightarrow> Some err
        | Inr metadata \<Rightarrow> validateDLQTableMetadata (DLQTable cfg) metadata))"

definition validateProvisionedSchema ::
  "appConfig \<Rightarrow> go_error + string list \<Rightarrow> go_error + ((go_error + dlq_row) list \<times> go_error option) \<Rightarrow>
   go_error option" where
  "validateProvisionedSchema cfg columnsAnswer dlqAnswer =
     (case columnsAnswer of
        Inl err \<Rightarrow> Some err
      | Inr cols \<Rightarrow>
          (case validateEventColumns cfg cols of
             Some err \<Rightarrow> Some err
           | None \<Rightarrow>
               if DLQTable cfg \<noteq> []
               then (case loadDLQTableMetadata dlqAnswer of
                   Inl err \<Rightarrow> Some err
                 | Inr metadata \<Rightarrow> validateDLQTableMetadata (DLQTable cfg) metadata)
               else None))"

section \<open>What the event table check establishes\<close>

lemma validateEventColumns_None:
  "validateEventColumns cfg cols = None \<longleftrightarrow> set (filter (\<lambda>c. c \<noteq> []) (required_columns cfg)) \<subseteq> set cols"
  by (auto simp: validateEventColumns_def Let_def filter_empty_conv)

text \<open>The query names the id column and the configured routing columns, nothing else.\<close>

definition route_columns :: "appConfig \<Rightarrow> string list" where
  "route_columns cfg = filter (\<lambda>c. c \<noteq> []) [EventTarget cfg, EventDestination cfg]"

lemma conj_pred_columns: "set (pred_columns (conj_pred ps)) = (\<Union>p \<in> set ps. set (pred_columns p))"
  by (induction ps rule: conj_pred.induct) auto

lemma target_expr_columns: "set (expr_columns (target_expr cfg t)) \<subseteq> set (route_columns cfg)"
  by (auto simp: target_expr_def Let_def route_columns_def)

lemma default_destination_columns:
  "set (expr_columns e) \<subseteq> S \<Longrightarrow> set (expr_columns (default_destination_expr cfg e)) \<subseteq> S"
  by (auto simp: default_destination_expr_def)

lemma destination_expr_columns: "set (expr_columns (destination_expr cfg t)) \<subseteq> set (route_columns cfg)"
  using default_destination_columns[OF target_expr_columns[of cfg t], of cfg]
  by (auto simp: destination_expr_def Let_def route_columns_def)

lemma target_pred_columns: "set (pred_columns (target_pred cfg t)) \<subseteq> set (route_columns cfg)"
  using target_expr_columns[of cfg t] by (auto simp: target_pred_def Let_def)

lemma ownership_pred_columns: "set (pred_columns (ownership_pred cfg t)) \<subseteq> set (route_columns cfg)"
  using target_expr_columns[of cfg t] destination_expr_columns[of cfg t]
  by (auto simp: ownership_pred_def conj_pred_columns)

lemma routable_pred_columns: "set (pred_columns (routable_pred cfg t)) \<subseteq> set (route_columns cfg)"
  using destination_expr_columns[of cfg t] target_pred_columns[of cfg t] ownership_pred_columns[of cfg t]
  by (simp add: routable_pred_def)

lemma match_pred_columns: "set (pred_columns (match_pred cfg t)) \<subseteq> set (route_columns cfg)"
  using target_expr_columns[of cfg t] destination_expr_columns[of cfg t]
    default_destination_columns[OF target_expr_columns[of cfg t], of cfg]
  by (auto simp: match_pred_def nullif_match_def Let_def route_columns_def)

lemma query_columns_subset: "set (query_columns cfg) \<subseteq> insert (EventID cfg) (set (route_columns cfg))"
  unfolding query_columns_def set_simps set_append
  using target_expr_columns destination_expr_columns routable_pred_columns match_pred_columns
  by (intro insert_mono Un_least) assumption+

text \<open>
  The start-up check is enough when the configured routing columns exist: a table that
  passes \<open>validateEventColumns\<close> and has every routing column the configuration names answers the
  collection query, so no batch fails on a missing column.
\<close>

theorem event_check_sufficient:
  assumes "validateEventColumns cfg cols = None" "EventID cfg \<noteq> []"
    and "set (filter (\<lambda>c. c \<noteq> []) [EventTarget cfg, EventDestination cfg]) \<subseteq> set cols"
  shows "set (query_columns cfg) \<subseteq> set cols"
proof -
  have "EventID cfg \<in> set (required_columns cfg)" by (simp add: required_columns_def Let_def)
  then have "EventID cfg \<in> set cols" using assms(1,2) by (auto simp: validateEventColumns_None)
  then show ?thesis using query_columns_subset[of cfg] assms(3) by (auto simp: route_columns_def)
qed

theorem event_check_sufficient_witness: "set (query_columns sample_config) \<subseteq> set sample_cols"
proof (rule event_check_sufficient)
  show "validateEventColumns sample_config sample_cols = None" by code_simp
  show "EventID sample_config \<noteq> []" by code_simp
  show "set (filter (\<lambda>c. c \<noteq> []) [EventTarget sample_config, EventDestination sample_config]) \<subseteq> set sample_cols"
    by code_simp
qed

text \<open>A piece of text occurs in another.\<close>

definition occurs_in :: "string \<Rightarrow> string \<Rightarrow> bool" where
  "occurs_in x y \<longleftrightarrow> (\<exists>before after. y = before @ x @ after)"

lemma occurs_here: "occurs_in x (x @ b)" and occurs_later: "occurs_in x b \<Longrightarrow> occurs_in x (a @ b)"
  unfolding occurs_in_def by (metis append_Nil, metis append_assoc)

lemma occurs_trans: "occurs_in x y \<Longrightarrow> occurs_in y z \<Longrightarrow> occurs_in x z"
  unfolding occurs_in_def by (metis append_assoc)

lemma match_names_column:
  assumes "c \<in> {EventTarget cfg, EventDestination cfg}" "c \<noteq> []"
  shows "occurs_in (columnSQL f t c) (routeMatchSQL f cfg t te de)"
proof -
  consider "EventTarget cfg \<noteq> []" "c = EventTarget cfg" | "EventDestination cfg \<noteq> []" "c = EventDestination cfg" using assms by auto
  then show ?thesis
  proof cases
    case 1
    then show ?thesis
      by (cases "defaultTargetSQL cfg = empty_lit")
        (unfold routeMatchSQL_def Let_def append_assoc,
          (simp only: if_True if_False simp_thms append_assoc; (rule occurs_here | rule occurs_later)+)+)
  next
    case 2
    show ?thesis
      by (insert 2, simp only: routeMatchSQL_def Let_def if_True simp_thms append_assoc,
          (rule occurs_here | rule occurs_later)+)
  qed
qed

lemma query_names_match:
  "occurs_in (routeMatchSQL (pg_sanitize P) cfg ''candidate'' (fst (resolvedTargetSQL (pg_sanitize P) cfg ''candidate''))
      (resolvedDestinationSQL (pg_sanitize P) cfg ''candidate'' (fst (resolvedTargetSQL (pg_sanitize P) cfg ''candidate''))))
    (selectEventsQuerySQL P cfg)"
  unfolding selectEventsQuerySQL_def Let_def case_prod_beta append_assoc by (rule occurs_here | rule occurs_later)+

lemma match_pred_column:
  assumes "c \<in> {EventTarget cfg, EventDestination cfg}" "c \<noteq> []"
  shows "c \<in> set (query_columns cfg)"
  using assms by (auto simp: query_columns_def match_pred_def nullif_match_def Let_def)

text \<open>
  (C38) The start-up check alone is not enough. Whatever the configuration: when the target or the
  destination column is configured, the table lacks it, and it is not required because defaults
  cover it (one provider for the target, default destinations for the destination), then the
  check accepts the table, as its comment says it should; but the text of the collection query
  names the column, as one of the table, so PostgreSQL refuses the query, whatever the rows: every
  batch on that table fails with an undefined column.
\<close>

theorem event_check_gap:
  assumes c: "c \<in> {EventTarget cfg, EventDestination cfg}" "c \<noteq> []" "c \<notin> set cols"
    and present: "{EventID cfg, EventPayload cfg} \<subseteq> set cols" "MaxEventAge cfg > 0 \<longrightarrow> EventTimestamp cfg \<in> set cols"
    and target: "length (configuredProviderRoutes cfg) = 1 \<or> EventTarget cfg \<in> set cols"
    and destination: "list_all (\<lambda>r. defaultDestination r \<noteq> []) (configuredProviderRoutes cfg) \<or> EventDestination cfg \<in> set cols"
  shows "validateEventColumns cfg cols = None \<and>
    (\<exists>before after. selectEventsQuerySQL P cfg = before @ columnSQL (pg_sanitize P) ''candidate'' c @ after) \<and>
    selectEvents L P cfg cols rows None None = Inl undefined_column"
proof (intro conjI)
  show "validateEventColumns cfg cols = None"
    unfolding validateEventColumns_None using present target destination
    by (auto simp: required_columns_def Let_def list_ex_iff list_all_iff split: if_splits)
  show "\<exists>before after. selectEventsQuerySQL P cfg = before @ columnSQL (pg_sanitize P) ''candidate'' c @ after"
    using occurs_trans[OF match_names_column[OF c(1,2)] query_names_match] unfolding occurs_in_def .
  show "selectEvents L P cfg cols rows None None = Inl undefined_column"
    using match_pred_column[OF c(1,2)] c(3) by (auto simp: selectEvents_def)
qed

definition sqs_only_config :: appConfig where
  "sqs_only_config = defaultConfig\<lparr>SQSEnabled := True, DefaultSQSQueueURL := ''https://sqs.example/q''\<rparr>"

theorem event_check_gap_witness:
  "validate (id, \<lambda>_. []) configValidationRelay sqs_only_config = None \<and>
   validateEventColumns sqs_only_config [''id'', ''payload''] = None \<and>
   selectEvents sample_lib sample_pg sqs_only_config [''id'', ''payload''] [] None None = Inl undefined_column"
proof
  have "runnable sqs_only_config" by code_simp
  then show "validate (id, \<lambda>_. []) configValidationRelay sqs_only_config = None" by (simp add: validate_runnable)
  have "EventTarget sqs_only_config \<in> {EventTarget sqs_only_config, EventDestination sqs_only_config}" by simp
  moreover have "EventTarget sqs_only_config \<noteq> []" "EventTarget sqs_only_config \<notin> set [''id'', ''payload'']" by code_simp+
  moreover have "{EventID sqs_only_config, EventPayload sqs_only_config} \<subseteq> set [''id'', ''payload'']"
    "MaxEventAge sqs_only_config > 0 \<longrightarrow> EventTimestamp sqs_only_config \<in> set [''id'', ''payload'']"
    "length (configuredProviderRoutes sqs_only_config) = 1 \<or> EventTarget sqs_only_config \<in> set [''id'', ''payload'']"
    "list_all (\<lambda>r. defaultDestination r \<noteq> []) (configuredProviderRoutes sqs_only_config) \<or>
       EventDestination sqs_only_config \<in> set [''id'', ''payload'']" by code_simp+
  ultimately show "validateEventColumns sqs_only_config [''id'', ''payload''] = None \<and>
      selectEvents sample_lib sample_pg sqs_only_config [''id'', ''payload''] [] None None = Inl undefined_column"
    using event_check_gap[where P = sample_pg and L = sample_lib and rows = "[]"] by blast
qed

section \<open>What the dead-letter check establishes\<close>

text \<open>
  Whether PostgreSQL accepts an insert that gives only the \<open>event\<close> column a JSON value: the relation
  takes inserts and the role may insert, every other column can be filled without a value, and
  the event column is a JSON column that is not computed.
\<close>

definition event_column_ok :: "dlqColumnMetadata \<Rightarrow> bool" where
  "event_column_ok c \<longleftrightarrow>
     col_generated c = [] \<and> (col_typeName c = ''json'' \<or> col_typeName c = ''jsonb'') \<and> col_canInsertColumn c"

definition accepts_event :: "dlqTableMetadata \<Rightarrow> bool" where
  "accepts_event metadata \<longleftrightarrow>
     (relkind metadata = ''r'' \<or> relkind metadata = ''p'') \<and> canInsertTable metadata \<and>
     list_ex (\<lambda>c. col_name c = ''event'' \<and> event_column_ok c) (dlq_columns metadata) \<and>
     list_all (\<lambda>c. col_name c = ''event'' \<or> canOmitColumnFromInsert c) (dlq_columns metadata)"

lemma id_not_event: "''id'' \<noteq> ''event''"
  by simp

lemma dlq_column_Some:
  assumes "distinct (map col_name (dlq_columns metadata))"
  shows "dlq_column metadata name = Some c \<longleftrightarrow> c \<in> set (dlq_columns metadata) \<and> col_name c = name"
proof -
  have "distinct (map fst (rev (map (\<lambda>c. (col_name c, c)) (dlq_columns metadata))))"
    using assms by (simp add: comp_def flip: rev_map)
  then show ?thesis by (auto simp: dlq_column_def map_of_eq_Some_iff)
qed

lemma dlq_column_None:
  "dlq_column metadata name = None \<longleftrightarrow> name \<notin> col_name ` set (dlq_columns metadata)"
  by (auto simp: dlq_column_def map_of_eq_None_iff image_iff)

lemma validateDLQ_None:
  "validateDLQTableMetadata table metadata = None \<longleftrightarrow>
     dlq_columns metadata \<noteq> [] \<and> (relkind metadata = ''r'' \<or> relkind metadata = ''p'') \<and> canInsertTable metadata \<and>
     (\<exists>idc. dlq_column metadata ''id'' = Some idc \<and> canOmitColumnFromInsert idc) \<and>
     (\<exists>evt. dlq_column metadata ''event'' = Some evt \<and> event_column_ok evt) \<and> blockingColumns metadata = []"
  unfolding validateDLQTableMetadata_def Let_def event_column_ok_def
  by (cases "dlq_column metadata ''id''"; cases "dlq_column metadata ''event''")
    (simp_all only: option.case option.simps if_not_P simp_thms split: if_split, blast+)

text \<open>
  The dead-letter check is exact: for a table, whose column names are unique, it reports no
  error if and only if the table has an \<open>id\<close> column and accepts inserts that give only \<open>event\<close> a
  JSON value, which is what \<open>insertDeadLetters\<close> does.
\<close>

theorem dlq_check_iff:
  assumes "distinct (map col_name (dlq_columns metadata))"
  shows "validateDLQTableMetadata table metadata = None \<longleftrightarrow>
     ''id'' \<in> col_name ` set (dlq_columns metadata) \<and> accepts_event metadata"
proof -
  let ?cs = "dlq_columns metadata"
  have some: "(\<exists>c. dlq_column metadata name = Some c \<and> Q c) \<longleftrightarrow> (\<exists>c. c \<in> set ?cs \<and> col_name c = name \<and> Q c)" for name Q
    unfolding dlq_column_Some[OF assms] by blast
  have omit: "list_all (\<lambda>c. col_name c = ''event'' \<or> canOmitColumnFromInsert c) ?cs \<longleftrightarrow>
      (\<forall>c. c \<in> set ?cs \<and> col_name c = ''id'' \<longrightarrow> canOmitColumnFromInsert c) \<and> blockingColumns metadata = []"
    unfolding list_all_iff blockingColumns_def map_is_Nil_conv filter_empty_conv by (metis id_not_event)
  have uniq: "c = d" if "c \<in> set ?cs" "d \<in> set ?cs" "col_name c = col_name d" for c d
    using assms that by (auto simp: distinct_map dest: inj_onD)
  show ?thesis
    unfolding validateDLQ_None some accepts_event_def omit list_ex_iff image_iff
    using uniq by (metis empty_iff empty_set)
qed

definition sample_dlq :: dlqTableMetadata where
  "sample_dlq = \<lparr> relkind = ''r'', canInsertTable = True, dlq_columns =
     [\<lparr> col_name = ''id'', col_typeName = ''int8'', col_notNull = True, col_defaultExpr = None,
        col_identity = ''d'', col_generated = [], col_canInsertColumn = True \<rparr>,
      \<lparr> col_name = ''event'', col_typeName = ''jsonb'', col_notNull = True, col_defaultExpr = None,
        col_identity = [], col_generated = [], col_canInsertColumn = True \<rparr>] \<rparr>"

theorem dlq_check_iff_witness: "validateDLQTableMetadata ''dlq'' sample_dlq = None \<and> accepts_event sample_dlq"
proof -
  have d: "distinct (map col_name (dlq_columns sample_dlq))" by code_simp
  have "validateDLQTableMetadata ''dlq'' sample_dlq = None" by code_simp
  then show ?thesis using dlq_check_iff[OF d, of "''dlq''"] by simp
qed

end
