(* ===== verification/Dead_Letters.thy ===== *)
theory Dead_Letters
  imports Schema_Checks
begin

text \<open>
  The writes of a batch: the dead-letter records of \<open>dlq.go\<close> and the deletion of finished rows of
  \<open>db.go\<close>. Both are statements of the batch transaction; what they change becomes visible when
  the transaction commits.
\<close>

section \<open>Payloads\<close>

record poisonEvent =
  pe_evt :: event
  pe_error :: string

fun eventJSONValue :: "golib \<Rightarrow> goval \<Rightarrow> goval" where
  "eventJSONValue L (GBytes b) =
     (case json_Unmarshal L b of Inr decoded \<Rightarrow> decoded | Inl err \<Rightarrow> GString b)"
| "eventJSONValue L v = v"

definition originalEventJSON :: "golib \<Rightarrow> event \<Rightarrow> goval gomap" where
  "originalEventJSON L evt = map (\<lambda>(key, v). (key, eventJSONValue L v)) (columns evt)"

definition deadLetterPayload :: "golib \<Rightarrow> appConfig \<Rightarrow> int \<Rightarrow> poisonEvent \<Rightarrow> goval gomap" where
  "deadLetterPayload L cfg now poisoned =
     [(''source_schema'', GString (PGSchema cfg)),
      (''source_table'', GString (EventTable cfg)),
      (''dead_lettered_at'', GString (time_Format L now)),
      (''target'', GString (target (route (pe_evt poisoned)))),
      (''destination'', GString (destination (route (pe_evt poisoned)))),
      (''original_event'', GMap (originalEventJSON L (pe_evt poisoned)))] @
     (if pe_error poisoned \<noteq> [] then [(''error'', GString (pe_error poisoned))] else [])"

section \<open>Statements\<close>

definition insertDeadLettersSQL :: "pg \<Rightarrow> appConfig \<Rightarrow> string" where
  "insertDeadLettersSQL P cfg =
     ''INSERT INTO '' @ qualifiedIdent (pg_sanitize P) (PGSchema cfg) (DLQTable cfg) @ '' ('' @
     ident (pg_sanitize P) ''event'' @ '') SELECT unnest($1::text[])::jsonb''"

text \<open>The clock is read once per payload: \<open>clock i\<close> is the time at the \<open>i\<close>-th.\<close>

fun marshal_payloads ::
  "golib \<Rightarrow> appConfig \<Rightarrow> (nat \<Rightarrow> int) \<Rightarrow> nat \<Rightarrow> poisonEvent list \<Rightarrow> go_error + bytes list" where
  "marshal_payloads L cfg clock i [] = Inr []"
| "marshal_payloads L cfg clock i (poisoned # poison) =
     (case json_Marshal L (GMap (deadLetterPayload L cfg (clock i) poisoned)) of
        Inl err \<Rightarrow> Inl err
      | Inr payload \<Rightarrow>
          (case marshal_payloads L cfg clock (Suc i) poison of
             Inl err \<Rightarrow> Inl err
           | Inr payloads \<Rightarrow> Inr (payload # payloads)))"

text \<open>The result is the list of records the statement inserts; \<open>execErr\<close> is the statement's error.\<close>

definition insertDeadLetters ::
  "golib \<Rightarrow> appConfig \<Rightarrow> (nat \<Rightarrow> int) \<Rightarrow> go_error option \<Rightarrow> poisonEvent list \<Rightarrow> go_error + bytes list" where
  "insertDeadLetters L cfg clock execErr poison =
     (if DLQTable cfg = [] \<or> length poison = 0 then Inr []
      else (case marshal_payloads L cfg clock 0 poison of
          Inl err \<Rightarrow> Inl err
        | Inr payloads \<Rightarrow> (case execErr of Some err \<Rightarrow> Inl err | None \<Rightarrow> Inr payloads)))"

definition deleteEventsSQL :: "pg \<Rightarrow> appConfig \<Rightarrow> string" where
  "deleteEventsSQL P cfg =
     ''DELETE FROM '' @ qualifiedIdent (pg_sanitize P) (PGSchema cfg) (EventTable cfg) @ '' WHERE '' @
     ident (pg_sanitize P) (EventID cfg) @ '' = ANY($1)''"

text \<open>The IDs whose rows the statement deletes; \<open>id = ANY($1)\<close> is never true of a NULL id.\<close>

definition deleteEvents :: "go_error option \<Rightarrow> goval list \<Rightarrow> go_error + goval list" where
  "deleteEvents execErr ids =
     (if length ids = 0 then Inr []
      else (case execErr of Some err \<Rightarrow> Inl err | None \<Rightarrow> Inr ids))"

definition delete_rows :: "appConfig \<Rightarrow> goval list \<Rightarrow> row list \<Rightarrow> row list" where
  "delete_rows cfg ids rows = filter (\<lambda>row. row_id cfg row = GNil \<or> row_id cfg row \<notin> set ids) rows"

section \<open>Dead letters are complete\<close>

lemma marshal_payloads_length: "marshal_payloads L cfg clock i poison = Inr ps \<Longrightarrow> length ps = length poison"
  by (induction poison arbitrary: i ps) (auto split: sum.splits)

lemma marshal_payloads_nth:
  "marshal_payloads L cfg clock i poison = Inr ps \<Longrightarrow> k < length poison \<Longrightarrow>
     json_Marshal L (GMap (deadLetterPayload L cfg (clock (i + k)) (poison ! k))) = Inr (ps ! k)"
proof (induction poison arbitrary: i k ps)
  case (Cons p poison)
  obtain q qs where qs: "ps = q # qs" "marshal_payloads L cfg clock (Suc i) poison = Inr qs"
    "json_Marshal L (GMap (deadLetterPayload L cfg (clock i) p)) = Inr q"
    using Cons.prems(1) by (auto split: sum.splits)
  show ?case
  proof (cases k)
    case (Suc j)
    then show ?thesis using Cons.IH[OF qs(2), of j] Cons.prems(2) qs(1) by simp
  qed (use qs in simp)
qed simp

lemma originalEventJSON_column:
  "map_of (originalEventJSON L evt) c = map_option (eventJSONValue L) (map_of (columns evt) c)"
  by (simp add: originalEventJSON_def map_of_map)

lemma deadLetterPayload_fields:
  "map_of (deadLetterPayload L cfg now p) ''target'' = Some (GString (target (route (pe_evt p))))"
  "map_of (deadLetterPayload L cfg now p) ''destination'' = Some (GString (destination (route (pe_evt p))))"
  "map_of (deadLetterPayload L cfg now p) ''original_event'' = Some (GMap (originalEventJSON L (pe_evt p)))"
  "map_of (deadLetterPayload L cfg now p) ''error'' =
     (if pe_error p = [] then None else Some (GString (pe_error p)))"
  by (simp_all add: deadLetterPayload_def)

text \<open>
  (C25) Dead-lettering is all or nothing and loses nothing: when the dead letters of a batch are
  inserted, there is one record per poison event, in order, and each is the JSON encoding of an
  object that holds the event's resolved target and destination, the reason when there is one,
  and every column of the original row (bytes that are JSON as the decoded value, other bytes as
  text).
\<close>

theorem dead_letters_complete:
  assumes "insertDeadLetters L cfg clock execErr poison = Inr records" "DLQTable cfg \<noteq> []" "k < length poison"
  shows "length records = length poison \<and>
    (\<exists>obj. json_Marshal L (GMap obj) = Inr (records ! k) \<and>
       map_of obj ''target'' = Some (GString (target (route (pe_evt (poison ! k))))) \<and>
       map_of obj ''destination'' = Some (GString (destination (route (pe_evt (poison ! k))))) \<and>
       map_of obj ''error'' = (if pe_error (poison ! k) = [] then None else Some (GString (pe_error (poison ! k)))) \<and>
       (\<exists>orig. map_of obj ''original_event'' = Some (GMap orig) \<and>
          (\<forall>c. map_of orig c = map_option (eventJSONValue L) (map_of (columns (pe_evt (poison ! k))) c))))"
proof -
  have m: "marshal_payloads L cfg clock 0 poison = Inr records"
    using assms by (auto simp: insertDeadLetters_def split: if_splits sum.splits option.splits)
  let ?obj = "deadLetterPayload L cfg (clock k) (poison ! k)"
  have "json_Marshal L (GMap ?obj) = Inr (records ! k)" using marshal_payloads_nth[OF m assms(3)] by simp
  moreover have "length records = length poison" by (rule marshal_payloads_length[OF m])
  moreover have "\<forall>c. map_of (originalEventJSON L (pe_evt (poison ! k))) c =
      map_option (eventJSONValue L) (map_of (columns (pe_evt (poison ! k))) c)"
    by (simp add: originalEventJSON_column)
  ultimately show ?thesis using deadLetterPayload_fields by blast
qed

definition sample_poison :: poisonEvent where
  "sample_poison = \<lparr> pe_evt = event_of sample_sqs (sample_table_row 1 (GString ''sqs'')), pe_error = ''too large'' \<rparr>"

definition dlq_config :: appConfig where
  "dlq_config = sample_config\<lparr>DLQTable := ''dead''\<rparr>"

theorem dead_letters_complete_witness:
  "\<exists>obj. json_Marshal sample_lib (GMap obj) = Inr ''{}'' \<and> map_of obj ''target'' = Some (GString ''sqs'') \<and>
     map_of obj ''error'' = Some (GString ''too large'')"
proof -
  have "insertDeadLetters sample_lib dlq_config (\<lambda>_. 0) None [sample_poison] = Inr [''{}'']" by code_simp
  moreover have "DLQTable dlq_config \<noteq> []" by code_simp
  ultimately show ?thesis
    using dead_letters_complete[of sample_lib dlq_config "\<lambda>_. 0" None "[sample_poison]" "[''{}'']" 0]
    by (auto simp: sample_poison_def event_of_def sample_sqs_def)
qed

end
