(* ===== verification/Processor.thy ===== *)
theory Processor
  imports Dead_Letters Monitoring
begin

text \<open>
  The batch of \<open>processor.go\<close>: triage of the selected events, dispatch to the senders, the
  collector of their reports, the writes of the transaction and its commit or rollback; the
  backlog gauge of \<open>backlog.go\<close>; and the loop \<open>processEvents\<close>. What the outside decides in one
  iteration (clocks, statement errors, what each sender reports, the order in which the
  senders' results arrive, the outcome of the commit, rows inserted meanwhile) is a record.
  Calls of \<open>markProgress\<close> and log lines do not influence a batch and are left out here.
\<close>

section \<open>The collector\<close>

record senderOutput =
  so_confirmed :: "event list"
  so_poison :: "poisonEvent list"

record senderCollector =
  sc_eventsByID :: "(string \<times> event) list"
  sc_seen :: "string list"
  sc_output :: senderOutput

definition event_key :: "golib \<Rightarrow> appConfig \<Rightarrow> event \<Rightarrow> string" where
  "event_key L cfg evt = eventIDKey L (eventValue evt (EventID cfg))"

definition newSenderCollector :: "golib \<Rightarrow> appConfig \<Rightarrow> event list \<Rightarrow> senderCollector" where
  "newSenderCollector L cfg events =
     \<lparr> sc_eventsByID = foldl (\<lambda>m evt. AList.update (event_key L cfg evt) evt m) [] events,
       sc_seen = [], sc_output = \<lparr> so_confirmed = [], so_poison = [] \<rparr> \<rparr>"

text \<open>\<open>record\<close>: an unknown or repeated ID changes nothing.\<close>

definition collector_record :: "golib \<Rightarrow> senderCollector \<Rightarrow> goval \<Rightarrow> string \<Rightarrow> bool \<Rightarrow> senderCollector" where
  "collector_record L c i reason poisoned =
     (let key = eventIDKey L i in
      case map_of (sc_eventsByID c) key of
        None \<Rightarrow> c
      | Some evt \<Rightarrow>
          if key \<in> set (sc_seen c) then c
          else let out = sc_output c in
            c\<lparr>sc_seen := key # sc_seen c,
              sc_output := (if poisoned
                then out\<lparr>so_poison := so_poison out @ [\<lparr> pe_evt = evt, pe_error = reason \<rparr>]\<rparr>
                else out\<lparr>so_confirmed := so_confirmed out @ [evt]\<rparr>)\<rparr>)"

fun collect_report :: "golib \<Rightarrow> senderCollector \<Rightarrow> report \<Rightarrow> senderCollector" where
  "collect_report L c (AddConfirmedID i) = collector_record L c i [] False"
| "collect_report L c (AddPoisonID i reason) = collector_record L c i reason True"
| "collect_report L c _ = c"

text \<open>The sender's callbacks arrive one at a time (\<open>c.mu\<close>), in the order of its trace.\<close>

definition collectSenderOutput ::
  "golib \<Rightarrow> appConfig \<Rightarrow> event list \<Rightarrow> report list \<times> go_error option \<Rightarrow> senderOutput \<times> go_error option" where
  "collectSenderOutput L cfg events sent =
     (sc_output (foldl (collect_report L) (newSenderCollector L cfg events) (fst sent)), snd sent)"

type_synonym send_behaviour = "Event list \<Rightarrow> report list \<times> go_error option"

definition collectProviderOutput ::
  "golib \<Rightarrow> appConfig \<Rightarrow> send_behaviour \<Rightarrow> event list \<Rightarrow> senderOutput \<times> go_error option" where
  "collectProviderOutput L cfg send events =
     collectSenderOutput L cfg events (send (providerEvents L cfg events))"

section \<open>Triage\<close>

definition isExpiredEvent :: "golib \<Rightarrow> appConfig \<Rightarrow> event \<Rightarrow> int \<Rightarrow> bool" where
  "isExpiredEvent L cfg evt now =
     (if MaxEventAge cfg \<le> 0 then False
      else (case eventTimestamp L (eventValue evt (EventTimestamp cfg)) of
          None \<Rightarrow> False
        | Some timestamp \<Rightarrow> time_Sub now timestamp > MaxEventAge cfg))"

definition oldestEventAge :: "golib \<Rightarrow> appConfig \<Rightarrow> event list \<Rightarrow> int \<Rightarrow> int" where
  "oldestEventAge L cfg events now =
     (if length events = 0 \<or> EventTimestamp cfg = [] then 0
      else (case eventTimestamp L (eventValue (events ! 0) (EventTimestamp cfg)) of
          None \<Rightarrow> 0
        | Some timestamp \<Rightarrow> max 0 (time_Sub now timestamp)))"

record batchTriage =
  eventsByTarget :: "(string \<times> event list) list"
  tr_poison :: "poisonEvent list"

definition expired_reason :: string where
  "expired_reason = ''Event expired by MAX_EVENT_AGE_MS''"

fun triage_loop ::
  "fmt \<Rightarrow> golib \<Rightarrow> appConfig \<Rightarrow> string list \<Rightarrow> int \<Rightarrow> event list \<Rightarrow> batchTriage \<Rightarrow> batchTriage \<times> go_error option" where
  "triage_loop F L cfg senders now [] triage = (triage, None)"
| "triage_loop F L cfg senders now (evt # events) triage =
     (if isExpiredEvent L cfg evt now
      then triage_loop F L cfg senders now events
        (triage\<lparr>tr_poison := tr_poison triage @ [\<lparr> pe_evt = evt, pe_error = expired_reason \<rparr>]\<rparr>)
      else if target (route evt) = []
      then (triage, Some (ErrorString (''selected event '' @ fmt_Sprint L (eventValue evt (EventID cfg)) @
        '' has no resolved route'')))
      else if target (route evt) \<notin> set senders
      then (triage, Some (ErrorString (''selected event target '' @ fst F (target (route evt)) @
        '' has no configured sender'')))
      else (case withParsedOptions L cfg evt of
          Inl err \<Rightarrow> triage_loop F L cfg senders now events
            (triage\<lparr>tr_poison := tr_poison triage @ [\<lparr> pe_evt = evt, pe_error = error_text err \<rparr>]\<rparr>)
        | Inr parsed \<Rightarrow> triage_loop F L cfg senders now events
            (triage\<lparr>eventsByTarget := group_append (target (route evt)) parsed (eventsByTarget triage)\<rparr>)))"

definition triageEvents ::
  "fmt \<Rightarrow> golib \<Rightarrow> appConfig \<Rightarrow> string list \<Rightarrow> int \<Rightarrow> event list \<Rightarrow> batchTriage \<times> go_error option" where
  "triageEvents F L cfg senders now events =
     triage_loop F L cfg senders now events \<lparr> eventsByTarget = [], tr_poison = [] \<rparr>"

text \<open>\<open>buildProviderSenders\<close> gives every enabled provider a sender under its target.\<close>

definition sender_targets :: "appConfig \<Rightarrow> string list" where
  "sender_targets cfg = map route_target (configuredProviderRoutes cfg)"

section \<open>One batch\<close>

text \<open>A failed \<open>Commit\<close> may or may not have taken effect at the server.\<close>

datatype commit_outcome = CommitOK | CommitFailed go_error bool

record batch_env =
  be_cancelled :: bool
  be_begin :: "go_error option"
  be_query :: "go_error option"
  be_rows :: "go_error option"
  be_now :: int
  be_send :: "string \<Rightarrow> send_behaviour"
  be_arrival :: "string list \<Rightarrow> string list"
  be_clock :: "nat \<Rightarrow> int"
  be_dlq :: "go_error option"
  be_delete :: "go_error option"
  be_commit :: commit_outcome
  be_done :: int
  be_publishDuration :: int
  be_dbDuration :: int
  be_inserted :: "row list"
  be_probe :: "go_error option"
  be_probe_time :: int

record batchResult =
  br_selected :: int
  br_drained :: bool
  br_stats :: batchStats

definition zero_result :: batchResult where
  "zero_result = \<lparr> br_selected = 0, br_drained = False, br_stats = zero_batch \<rparr>"

text \<open>The writes of the transaction: dead-letter records and the IDs whose rows are deleted.\<close>

record tx =
  tx_dead :: "bytes list"
  tx_deleted :: "goval list"

record gathered =
  ga_deleteIDs :: "goval list"
  ga_poison :: "poisonEvent list"
  ga_sent :: int
  ga_err :: "go_error option"

text \<open>The loop over the results channel.\<close>

definition gather_result :: "appConfig \<Rightarrow> gathered \<Rightarrow> senderOutput \<times> go_error option \<Rightarrow> gathered" where
  "gather_result cfg g res =
     (case res of (out, err) \<Rightarrow>
        \<lparr> ga_deleteIDs = ga_deleteIDs g @ map (\<lambda>evt. eventValue evt (EventID cfg)) (so_confirmed out) @
            map (\<lambda>p. eventValue (pe_evt p) (EventID cfg)) (so_poison out),
          ga_poison = ga_poison g @ so_poison out,
          ga_sent = ga_sent g + int (length (so_confirmed out)),
          ga_err = (case err of None \<Rightarrow> ga_err g | Some e \<Rightarrow> errors_Join [ga_err g, Some e]) \<rparr>)"

definition sender_results ::
  "golib \<Rightarrow> appConfig \<Rightarrow> batch_env \<Rightarrow> (string \<times> event list) list \<Rightarrow> (senderOutput \<times> go_error option) list" where
  "sender_results L cfg env byTarget =
     map (\<lambda>t. collectProviderOutput L cfg (be_send env t) (group_get byTarget t))
       (be_arrival env (map fst byTarget))"

definition gather ::
  "golib \<Rightarrow> appConfig \<Rightarrow> batch_env \<Rightarrow> batchTriage \<Rightarrow> gathered" where
  "gather L cfg env triage =
     foldl (gather_result cfg)
       \<lparr> ga_deleteIDs = map (\<lambda>p. eventValue (pe_evt p) (EventID cfg)) (tr_poison triage),
         ga_poison = tr_poison triage, ga_sent = 0, ga_err = None \<rparr>
       (sender_results L cfg env (eventsByTarget triage))"

definition batch_stats ::
  "golib \<Rightarrow> appConfig \<Rightarrow> batch_env \<Rightarrow> event list \<Rightarrow> gathered \<Rightarrow> batchStats" where
  "batch_stats L cfg env events g =
     (let selected = int (length events); p = int (length (ga_poison g));
          poison = (if DLQTable cfg = [] then p else 0); dlq = (if DLQTable cfg = [] then 0 else p);
          kept = selected - ga_sent g - poison - dlq in
      \<lparr> bs_selected = selected, bs_sent = ga_sent g, bs_poison = poison, bs_dlq = dlq,
        bs_keptForRetry = (if kept < 0 then 0 else kept),
        bs_senderErrors = int (countJoinedErrors (ga_err g)),
        bs_fatalAfterCommitErrors = (if is_err (ga_err g) ErrFatalAfterCommit then 1 else 0),
        bs_oldestEventAge = oldestEventAge L cfg events (be_now env),
        bs_publishDuration = be_publishDuration env, bs_dbDuration = 0 \<rparr>)"

definition join_db :: "go_error option \<Rightarrow> go_error \<Rightarrow> go_error option" where
  "join_db senderErr err =
     (case senderErr of
        Some e \<Rightarrow> errors_Join [Some e, fmtDBError err]
      | None \<Rightarrow> fmtDBError err)"

definition empty_tx :: tx where
  "empty_tx = \<lparr> tx_dead = [], tx_deleted = [] \<rparr>"

definition processEventBatch ::
  "fmt \<Rightarrow> golib \<Rightarrow> pg \<Rightarrow> appConfig \<Rightarrow> string list \<Rightarrow> batch_env \<Rightarrow> row list \<Rightarrow>
   batchResult \<times> go_error option \<times> tx" where
  "processEventBatch F L P cfg cols env rows =
     (case selectEvents L P cfg cols rows (be_query env) (be_rows env) of
        Inl err \<Rightarrow> (zero_result, fmtDBError err, empty_tx)
      | Inr events \<Rightarrow>
          let result = \<lparr> br_selected = int (length events),
                br_drained = batchDrained events (CollectBatchTarget cfg),
                br_stats = zero_batch\<lparr>bs_selected := int (length events),
                  bs_oldestEventAge := oldestEventAge L cfg events (be_now env)\<rparr> \<rparr> in
          (case triageEvents F L cfg (sender_targets cfg) (be_now env) events of
             (triage, Some err) \<Rightarrow> (result, fmtDBError err, empty_tx)
           | (triage, None) \<Rightarrow>
               let g = gather L cfg env triage; stats = batch_stats L cfg env events g;
                   result = result\<lparr>br_stats := stats\<rparr> in
               (case insertDeadLetters L cfg (be_clock env) (be_dlq env) (ga_poison g) of
                  Inl err \<Rightarrow> (result, join_db (ga_err g) err, empty_tx)
                | Inr dead \<Rightarrow>
                    (case deleteEvents (be_delete env) (ga_deleteIDs g) of
                       Inl err \<Rightarrow> (result, join_db (ga_err g) err, \<lparr> tx_dead = dead, tx_deleted = [] \<rparr>)
                     | Inr ids \<Rightarrow>
                         (result\<lparr>br_stats := stats\<lparr>bs_dbDuration := be_dbDuration env\<rparr>\<rparr>, ga_err g,
                          \<lparr> tx_dead = dead, tx_deleted = ids \<rparr>)))))"

section \<open>The transaction\<close>

text \<open>The database and the relay's own state.\<close>

record app_state =
  as_outbox :: "row list"
  as_dlq :: "bytes list"
  as_stats :: appStats
  as_lastBacklogProbe :: int

definition apply_tx :: "appConfig \<Rightarrow> tx \<Rightarrow> app_state \<Rightarrow> app_state" where
  "apply_tx cfg w st =
     st\<lparr>as_outbox := delete_rows cfg (tx_deleted w) (as_outbox st), as_dlq := as_dlq st @ tx_dead w\<rparr>"

definition processOneBatch ::
  "fmt \<Rightarrow> golib \<Rightarrow> pg \<Rightarrow> appConfig \<Rightarrow> string list \<Rightarrow> batch_env \<Rightarrow> app_state \<Rightarrow>
   batchResult \<times> go_error option \<times> app_state" where
  "processOneBatch F L P cfg cols env st0 =
     (let st = st0\<lparr>as_outbox := as_outbox st0 @ be_inserted env\<rparr>;
          failed = st\<lparr>as_stats := addBatchError (as_stats st)\<rparr> in
      case be_begin env of
        Some err \<Rightarrow> (zero_result, fmtDBError err, failed)
      | None \<Rightarrow>
          (case processEventBatch F L P cfg cols env (as_outbox st0) of
             (result, batchErr, w) \<Rightarrow>
               if is_err batchErr errDatabaseBatch then (result, batchErr, failed)
               else (case be_commit env of
                   CommitFailed err applied \<Rightarrow>
                     (result,
                      if is_err batchErr ErrFatalAfterCommit
                      then errors_Join [batchErr, fmtDBError err] else fmtDBError err,
                      if applied then apply_tx cfg w failed else failed)
                 | CommitOK \<Rightarrow>
                     (result, batchErr,
                      apply_tx cfg w (st\<lparr>as_stats := addCommittedBatch (as_stats st) (br_stats result) (be_done env)\<rparr>)))))"

section \<open>Backlog\<close>

definition backlogProbeFallbackInterval :: int where
  "backlogProbeFallbackInterval = 10 * time_Second"

definition backlogProbeInterval :: "appConfig \<Rightarrow> int" where
  "backlogProbeInterval cfg = (if StatsInterval cfg > 0 then StatsInterval cfg else backlogProbeFallbackInterval)"

definition backlogCountSQL :: "pg \<Rightarrow> appConfig \<Rightarrow> string" where
  "backlogCountSQL P cfg =
     (let f = pg_sanitize P; alias = ''backlog'' in
      case resolvedTargetSQL f cfg alias of (targetExpr, targetPredicate) \<Rightarrow>
      let destinationExpr = resolvedDestinationSQL f cfg alias targetExpr;
          routablePredicate = routableSQL cfg targetExpr destinationExpr targetPredicate;
          cols = [columnSQL f alias (EventID cfg)] @
            (if EventTarget cfg \<noteq> [] then [columnSQL f alias (EventTarget cfg)] else []) @
            (if EventDestination cfg \<noteq> [] then [columnSQL f alias (EventDestination cfg)] else []) in
      ''SELECT count(*) FILTER (WHERE '' @ routablePredicate @ ''), count(*) FROM (SELECT '' @ Join cols '', '' @
      '' FROM '' @ qualifiedIdent f (PGSchema cfg) (EventTable cfg) @ '' AS '' @ ident f alias @ '' ORDER BY '' @
      columnSQL f alias (EventID cfg) @ '' LIMIT $1) AS '' @ ident f alias)"

text \<open>What the count query returns: the routable rows among the oldest, and how many were scanned.\<close>

definition backlog_rows :: "pg \<Rightarrow> appConfig \<Rightarrow> row list \<Rightarrow> int \<times> int" where
  "backlog_rows P cfg rows =
     (let scanned = take (nat (BacklogCountLimit cfg)) (sort_key (rank P cfg) rows) in
      (int (length (filter (eligible P cfg ''backlog'') scanned)), int (length scanned)))"

definition countBacklog :: "pg \<Rightarrow> appConfig \<Rightarrow> go_error option \<Rightarrow> row list \<Rightarrow> go_error + int \<times> bool" where
  "countBacklog P cfg err rows =
     (case err of
        Some e \<Rightarrow> Inl e
      | None \<Rightarrow> (case backlog_rows P cfg rows of
            (routable, scanned) \<Rightarrow> Inr (routable, scanned \<ge> BacklogCountLimit cfg)))"

definition updateBacklog :: "pg \<Rightarrow> appConfig \<Rightarrow> batch_env \<Rightarrow> batchResult \<Rightarrow> app_state \<Rightarrow> app_state" where
  "updateBacklog P cfg env result st =
     (let kept = bs_keptForRetry (br_stats result) in
      if br_drained result then st\<lparr>as_stats := setBacklog (as_stats st) kept False\<rparr>
      else if BacklogCountLimit cfg \<le> 0 then st\<lparr>as_stats := setBacklog (as_stats st) kept True\<rparr>
      else if time_Sub (be_probe_time env) (as_lastBacklogProbe st) < backlogProbeInterval cfg then st
      else let st' = st\<lparr>as_lastBacklogProbe := be_probe_time env\<rparr> in
           (case countBacklog P cfg (be_probe env) (as_outbox st') of
              Inl err \<Rightarrow> st'
            | Inr (n, capped) \<Rightarrow> st'\<lparr>as_stats := setBacklog (as_stats st') n capped\<rparr>))"

section \<open>The loop\<close>

text \<open>
  \<open>processEvents\<close> over the environments of its iterations: it returns when the context is
  cancelled or on a fatal sender error; with the environments used up it is still running.
  Sleeping after a database error and waiting for notifications only take time.
\<close>

datatype loop_outcome = Running | Returned "go_error option"

fun processEvents ::
  "fmt \<Rightarrow> golib \<Rightarrow> pg \<Rightarrow> appConfig \<Rightarrow> string list \<Rightarrow> app_state \<Rightarrow> batch_env list \<Rightarrow> loop_outcome \<times> app_state" where
  "processEvents F L P cfg cols st [] = (Running, st)"
| "processEvents F L P cfg cols st (env # envs) =
     (if be_cancelled env then (Returned None, st)
      else (case processOneBatch F L P cfg cols env st of
          (result, err, st') \<Rightarrow>
            if is_err err ErrFatalAfterCommit then (Returned err, st')
            else if is_err err errDatabaseBatch then processEvents F L P cfg cols st' envs
            else processEvents F L P cfg cols (updateBacklog P cfg env result st') envs))"

end
