(* ===== verification/Collector_Facts.thy ===== *)
theory Collector_Facts
  imports Processor
begin

text \<open>
  The collector and the triage, characterised: the first report about an event decides its fate,
  and triage splits a batch into what is dispatched, by target, and what is dead-lettered.
\<close>

section \<open>First reports\<close>

definition about :: "golib \<Rightarrow> string \<Rightarrow> report \<Rightarrow> bool" where
  "about L key r \<longleftrightarrow> (case reported_id r of None \<Rightarrow> False | Some i \<Rightarrow> eventIDKey L i = key)"

definition first_report :: "golib \<Rightarrow> report list \<Rightarrow> string \<Rightarrow> report option" where
  "first_report L rs key = List.find (about L key) rs"

lemma find_snoc:
  "List.find P (xs @ [x]) = (case List.find P xs of Some y \<Rightarrow> Some y | None \<Rightarrow> if P x then Some x else None)"
  by (induction xs) auto

lemma first_report_Nil [simp]: "first_report L [] key = None"
  by (simp add: first_report_def)

lemma first_report_snoc:
  "first_report L (rs @ [r]) key =
     (case first_report L rs key of Some x \<Rightarrow> Some x | None \<Rightarrow> if about L key r then Some r else None)"
  by (simp add: first_report_def find_snoc)

lemma first_report_Some:
  "first_report L rs key = Some r \<Longrightarrow> r \<in> set rs \<and> about L key r"
  by (auto simp: first_report_def List.find_Some_iff)

lemma first_report_None: "first_report L rs key = None \<longleftrightarrow> (\<forall>r. r \<in> set rs \<longrightarrow> \<not> about L key r)"
  by (auto simp: first_report_def List.find_None_iff)

text \<open>What the relay does with an event: publish and delete, dead-letter with a reason, keep.\<close>

datatype fate = Delivered | Dead string | Kept

fun report_fate :: "report option \<Rightarrow> fate" where
  "report_fate (Some (AddConfirmedID i)) = Delivered"
| "report_fate (Some (AddPoisonID i reason)) = Dead reason"
| "report_fate _ = Kept"

lemma report_fate_about:
  assumes "about L key r"
  shows "report_fate (Some r) \<noteq> Kept"
  using assms by (cases r) (auto simp: about_def)

lemma report_fate_Kept: "report_fate (first_report L rs key) = Kept \<longleftrightarrow> first_report L rs key = None"
proof (cases "first_report L rs key")
  case (Some r)
  then show ?thesis using report_fate_about[of L key r] first_report_Some[OF Some] by simp
qed simp

section \<open>The collector\<close>

definition keys_unique :: "golib \<Rightarrow> appConfig \<Rightarrow> event list \<Rightarrow> bool" where
  "keys_unique L cfg events \<longleftrightarrow> distinct (map (event_key L cfg) events)"

lemma collector_map:
  assumes "keys_unique L cfg events"
  shows "map_of (sc_eventsByID (newSenderCollector L cfg events)) k = Some evt \<longleftrightarrow>
     evt \<in> set events \<and> event_key L cfg evt = k"
  using assms
proof (induction events arbitrary: evt rule: rev_induct)
  case Nil
  then show ?case by (simp add: newSenderCollector_def)
next
  case (snoc e events)
  then have "e \<notin> set events" "\<And>x. x \<in> set events \<Longrightarrow> event_key L cfg x \<noteq> event_key L cfg e"
    by (auto simp: keys_unique_def dest: rev_image_eqI[OF _ sym])
  with snoc show ?case by (auto simp: newSenderCollector_def update_conv' keys_unique_def)
qed

text \<open>The state of the collector after a sequence of reports, in terms of the first reports.\<close>

definition collector_state :: "golib \<Rightarrow> appConfig \<Rightarrow> event list \<Rightarrow> report list \<Rightarrow> senderCollector" where
  "collector_state L cfg events rs = foldl (collect_report L) (newSenderCollector L cfg events) rs"

definition collector_inv :: "golib \<Rightarrow> appConfig \<Rightarrow> event list \<Rightarrow> report list \<Rightarrow> senderCollector \<Rightarrow> bool" where
  "collector_inv L cfg events rs c \<longleftrightarrow>
     sc_eventsByID c = sc_eventsByID (newSenderCollector L cfg events) \<and>
     set (sc_seen c) = {k. k \<in> event_key L cfg ` set events \<and> first_report L rs k \<noteq> None} \<and>
     distinct (so_confirmed (sc_output c)) \<and> distinct (map pe_evt (so_poison (sc_output c))) \<and>
     set (so_confirmed (sc_output c)) =
       {e. e \<in> set events \<and> report_fate (first_report L rs (event_key L cfg e)) = Delivered} \<and>
     set (so_poison (sc_output c)) =
       {p. pe_evt p \<in> set events \<and> report_fate (first_report L rs (event_key L cfg (pe_evt p))) = Dead (pe_error p)}"

lemma collector_inv_init: "collector_inv L cfg events [] (newSenderCollector L cfg events)"
  by (auto simp: collector_inv_def newSenderCollector_def)

lemma collector_record_skip:
  assumes inv: "collector_inv L cfg events rs c" and u: "keys_unique L cfg events"
    and i: "reported_id r = Some i"
    and skip: "(\<forall>e. e \<in> set events \<longrightarrow> event_key L cfg e \<noteq> eventIDKey L i) \<or> first_report L rs (eventIDKey L i) \<noteq> None"
  shows "collector_inv L cfg events (rs @ [r]) c"
proof -
  have "first_report L (rs @ [r]) (event_key L cfg e) = first_report L rs (event_key L cfg e)" if "e \<in> set events" for e
    using skip that i by (auto simp: first_report_snoc about_def split: option.splits)
  then have "\<And>k. k \<in> event_key L cfg ` set events \<Longrightarrow> first_report L (rs @ [r]) k = first_report L rs k" by auto
  then show ?thesis using inv unfolding collector_inv_def by (auto 0 4)
qed

lemma collector_inv_unseen:
  assumes inv: "collector_inv L cfg events rs c" and "e \<in> set events" "first_report L rs (event_key L cfg e) = None"
  shows "event_key L cfg e \<notin> set (sc_seen c) \<and> e \<notin> set (so_confirmed (sc_output c)) \<and>
    e \<notin> pe_evt ` set (so_poison (sc_output c))"
  using assms by (auto simp: collector_inv_def)

lemma collector_record_fresh:
  assumes inv: "collector_inv L cfg events rs c" and u: "keys_unique L cfg events"
    and r: "reported_id r = Some i" and e: "e \<in> set events" "event_key L cfg e = eventIDKey L i"
    and new: "first_report L rs (eventIDKey L i) = None"
    and fate: "report_fate (Some r) = (if poisoned then Dead reason else Delivered)"
  shows "collector_inv L cfg events (rs @ [r]) (collector_record L c i reason poisoned)"
proof -
  let ?key = "eventIDKey L i"
  have ab: "about L k r \<longleftrightarrow> k = ?key" for k using r by (auto simp: about_def)
  have fr: "first_report L (rs @ [r]) k = (if k = ?key then Some r else first_report L rs k)" for k
    using new by (auto simp: first_report_snoc ab split: option.splits)
  have uniq: "x = e" if "x \<in> set events" "event_key L cfg x = ?key" for x
    using u that e unfolding keys_unique_def distinct_map by (metis inj_onD)
  have look: "map_of (sc_eventsByID c) ?key = Some e"
    using inv collector_map[OF u, of ?key e] e by (simp add: collector_inv_def)
  have un: "?key \<notin> set (sc_seen c)" "e \<notin> set (so_confirmed (sc_output c))" "e \<notin> pe_evt ` set (so_poison (sc_output c))"
    using collector_inv_unseen[OF inv e(1)] new e(2) by auto
  have seen: "{k. k \<in> event_key L cfg ` set events \<and> first_report L (rs @ [r]) k \<noteq> None} =
      insert ?key {k. k \<in> event_key L cfg ` set events \<and> first_report L rs k \<noteq> None}"
    using imageI[OF e(1), of "event_key L cfg"] e(2) by (auto simp: fr)
  let ?new = "\<lambda>x. report_fate (first_report L (rs @ [r]) (event_key L cfg x))"
  let ?old = "\<lambda>x. report_fate (first_report L rs (event_key L cfg x))"
  have new_fate: "?new x = (if x = e then (if poisoned then Dead reason else Delivered) else ?old x)" if "x \<in> set events" for x
  proof (cases "event_key L cfg x = ?key")
    case True
    then show ?thesis unfolding fr using uniq[OF that] fate by simp
  next
    case False
    then show ?thesis unfolding fr using e(2) by auto
  qed
  have old_e: "?old e = Kept" using new e(2) by simp
  have deliv: "{x. x \<in> set events \<and> ?new x = Delivered} =
      (if poisoned then {} else {e}) \<union> {x. x \<in> set events \<and> ?old x = Delivered}"
    using e(1) old_e new_fate by (auto split: if_splits)
  have dead: "{p. pe_evt p \<in> set events \<and> ?new (pe_evt p) = Dead (pe_error p)} =
      (if poisoned then {\<lparr> pe_evt = e, pe_error = reason \<rparr>} else {}) \<union>
      {p. pe_evt p \<in> set events \<and> ?old (pe_evt p) = Dead (pe_error p)}"
    using e(1) old_e new_fate by (auto split: if_splits)
  have step: "collector_record L c i reason poisoned =
      c\<lparr>sc_seen := ?key # sc_seen c,
        sc_output := (if poisoned
          then sc_output c\<lparr>so_poison := so_poison (sc_output c) @ [\<lparr> pe_evt = e, pe_error = reason \<rparr>]\<rparr>
          else sc_output c\<lparr>so_confirmed := so_confirmed (sc_output c) @ [e]\<rparr>)\<rparr>"
    using un by (simp add: collector_record_def look Let_def)
  show ?thesis
    using inv un unfolding collector_inv_def step seen deliv dead by (cases poisoned) auto
qed

lemma collector_record_inv:
  assumes inv: "collector_inv L cfg events rs c" and u: "keys_unique L cfg events"
    and r: "reported_id r = Some i" and fate: "report_fate (Some r) = (if poisoned then Dead reason else Delivered)"
  shows "collector_inv L cfg events (rs @ [r]) (collector_record L c i reason poisoned)"
proof (cases "(\<forall>e. e \<in> set events \<longrightarrow> event_key L cfg e \<noteq> eventIDKey L i) \<or> first_report L rs (eventIDKey L i) \<noteq> None")
  case True
  have "collector_record L c i reason poisoned = c"
  proof (cases "map_of (sc_eventsByID c) (eventIDKey L i)")
    case None
    then show ?thesis by (simp add: collector_record_def Let_def)
  next
    case (Some e)
    then have "e \<in> set events" "event_key L cfg e = eventIDKey L i"
      using inv collector_map[OF u] by (auto simp: collector_inv_def)
    then have "eventIDKey L i \<in> set (sc_seen c)" using inv True by (auto simp: collector_inv_def rev_image_eqI)
    with Some show ?thesis by (simp add: collector_record_def Let_def)
  qed
  then show ?thesis using collector_record_skip[OF inv u r True] by simp
next
  case False
  then obtain e where "e \<in> set events" "event_key L cfg e = eventIDKey L i" "first_report L rs (eventIDKey L i) = None" by auto
  then show ?thesis by (rule collector_record_fresh[OF inv u r _ _ _ fate])
qed

lemma collector_inv_run: "keys_unique L cfg events \<Longrightarrow> collector_inv L cfg events rs (collector_state L cfg events rs)"
proof (induction rs rule: rev_induct)
  case Nil
  then show ?case by (simp add: collector_state_def collector_inv_init)
next
  case (snoc r rs)
  then have inv: "collector_inv L cfg events rs (collector_state L cfg events rs)" by simp
  have st: "collector_state L cfg events (rs @ [r]) = collect_report L (collector_state L cfg events rs) r"
    by (simp add: collector_state_def)
  show ?case
  proof (cases "reported_id r")
    case None
    then have "\<And>k. first_report L (rs @ [r]) k = first_report L rs k"
      by (simp add: first_report_snoc about_def split: option.splits)
    moreover have "collect_report L (collector_state L cfg events rs) r = collector_state L cfg events rs"
      using None by (cases r) auto
    ultimately show ?thesis using inv unfolding collector_inv_def st by simp
  next
    case (Some i)
    then show ?thesis using collector_record_inv[OF inv snoc.prems Some] unfolding st by (cases r) auto
  qed
qed

text \<open>
  (C7) The first report decides: of the reports of one sender, in whatever order and however
  often they come, the collector confirms exactly the dispatched events whose first report is
  a confirmation, dead-letters exactly those whose first report is a poison report, with that
  report's reason, counts each event at most once, and ignores reports about other IDs.
\<close>

theorem first_report_decides:
  assumes "keys_unique L cfg events"
  shows "case collectSenderOutput L cfg events (rs, err) of (out, err') \<Rightarrow>
     err' = err \<and> distinct (so_confirmed out) \<and> distinct (map pe_evt (so_poison out)) \<and>
     set (so_confirmed out) = {e. e \<in> set events \<and> report_fate (first_report L rs (event_key L cfg e)) = Delivered} \<and>
     set (so_poison out) =
       {p. pe_evt p \<in> set events \<and> report_fate (first_report L rs (event_key L cfg (pe_evt p))) = Dead (pe_error p)}"
  using collector_inv_run[OF assms, of rs]
  by (simp add: collectSenderOutput_def collector_inv_def collector_state_def)

theorem first_report_decides_witness:
  "(case collectSenderOutput sample_lib sample_config small_batch
      ([AddPoisonID (GInt64 2) ''bad'', AddConfirmedID (GInt64 2), AddConfirmedID (GInt64 1)], None) of
    (out, err') \<Rightarrow> err' = None \<and> distinct (so_confirmed out) \<and> distinct (map pe_evt (so_poison out)))"
proof -
  have "keys_unique sample_lib sample_config small_batch" by code_simp
  from first_report_decides[OF this, where rs = "[AddPoisonID (GInt64 2) ''bad'', AddConfirmedID (GInt64 2), AddConfirmedID (GInt64 1)]" and err = None]
  show ?thesis by (auto split: prod.splits)
qed

end
