(* ===== verification/Processor_Facts.thy ===== *)
theory Processor_Facts
  imports Collector_Facts
begin

text \<open>
  What one batch does, as a refinement of a specification that gives every selected event a fate:
  published and deleted, dead-lettered with a reason, or kept. The goroutines, the channel order,
  the collectors and the counters of \<open>processEventBatch\<close> implement exactly that.
\<close>

section \<open>Lists\<close>

lemma length_filter_map_filter:
  "length (filter P (List.map_filter f xs)) = length (filter (\<lambda>x. case f x of None \<Rightarrow> False | Some y \<Rightarrow> P y) xs)"
  by (induction xs) (auto simp: List.map_filter_simps split: option.splits)

lemma mset_filter_disjoint:
  "(\<And>x. x \<in> set xs \<Longrightarrow> \<not> (P x \<and> Q x)) \<Longrightarrow>
     mset (filter P xs) + mset (filter Q xs) = mset (filter (\<lambda>x. P x \<or> Q x) xs)"
  by (induction xs) auto

lemma mset_concat_groups:
  "distinct ts \<Longrightarrow> mset (concat (map (\<lambda>t. filter (\<lambda>e. f e = t) xs) ts)) = mset (filter (\<lambda>e. f e \<in> set ts) xs)"
proof (induction ts)
  case Nil
  then show ?case by simp
next
  case (Cons t ts)
  then have "mset (concat (map (\<lambda>t. filter (\<lambda>e. f e = t) xs) (t # ts))) =
      mset (filter (\<lambda>e. f e = t) xs) + mset (filter (\<lambda>e. f e \<in> set ts) xs)" by simp
  also have "\<dots> = mset (filter (\<lambda>e. f e = t \<or> f e \<in> set ts) xs)"
    using Cons.prems by (intro mset_filter_disjoint) auto
  finally show ?case by simp
qed

lemma mset_concat_perm: "mset ts = mset us \<Longrightarrow> mset (concat (map f ts)) = mset (concat (map f us))"
  by (metis mset_concat mset_map sum_mset_sum_list)

lemma mset_concat_cong:
  "(\<And>t. t \<in> set ts \<Longrightarrow> mset (f t) = mset (g t)) \<Longrightarrow> mset (concat (map f ts)) = mset (concat (map g ts))"
  by (induction ts) auto

section \<open>Triage\<close>

definition verdict :: "golib \<Rightarrow> appConfig \<Rightarrow> int \<Rightarrow> event \<Rightarrow> poisonEvent + event" where
  "verdict L cfg now evt =
     (if isExpiredEvent L cfg evt now then Inl \<lparr> pe_evt = evt, pe_error = expired_reason \<rparr>
      else (case withParsedOptions L cfg evt of
          Inl err \<Rightarrow> Inl \<lparr> pe_evt = evt, pe_error = error_text err \<rparr>
        | Inr parsed \<Rightarrow> Inr parsed))"

definition condemned :: "golib \<Rightarrow> appConfig \<Rightarrow> int \<Rightarrow> event list \<Rightarrow> poisonEvent list" where
  "condemned L cfg now events =
     List.map_filter (\<lambda>e. case verdict L cfg now e of Inl p \<Rightarrow> Some p | Inr _ \<Rightarrow> None) events"

definition dispatched :: "golib \<Rightarrow> appConfig \<Rightarrow> int \<Rightarrow> event list \<Rightarrow> event list" where
  "dispatched L cfg now events =
     List.map_filter (\<lambda>e. case verdict L cfg now e of Inl _ \<Rightarrow> None | Inr parsed \<Rightarrow> Some parsed) events"

definition routed :: "appConfig \<Rightarrow> event list \<Rightarrow> bool" where
  "routed cfg events \<longleftrightarrow>
     list_all (\<lambda>e. target (route e) \<noteq> [] \<and> target (route e) \<in> set (sender_targets cfg)) events"

lemma verdict_Inr: "verdict L cfg now e = Inr p \<Longrightarrow> columns p = columns e \<and> route p = route e"
  by (auto simp: verdict_def withParsedOptions_def split: if_splits sum.splits)

lemma verdict_Inl: "verdict L cfg now e = Inl p \<Longrightarrow> pe_evt p = e"
  by (auto simp: verdict_def split: if_splits sum.splits)

lemma event_key_columns: "columns p = columns e \<Longrightarrow> event_key L cfg p = event_key L cfg e"
  by (simp add: event_key_def eventValue_def)

lemma triage_loop_eq:
  assumes "routed cfg events"
  shows "triage_loop F L cfg (sender_targets cfg) now events triage =
    (\<lparr> eventsByTarget = foldl (\<lambda>m x. group_append (target (route x)) x m) (eventsByTarget triage) (dispatched L cfg now events),
       tr_poison = tr_poison triage @ condemned L cfg now events \<rparr>, None)"
  using assms
proof (induction events arbitrary: triage)
  case Nil
  then show ?case by (simp add: dispatched_def condemned_def)
next
  case (Cons e events)
  then have r: "target (route e) \<noteq> []" "target (route e) \<in> set (sender_targets cfg)" "routed cfg events"
    by (auto simp: routed_def)
  show ?case
  proof (cases "verdict L cfg now e")
    case (Inl p)
    then have "triage_loop F L cfg (sender_targets cfg) now (e # events) triage =
        triage_loop F L cfg (sender_targets cfg) now events (triage\<lparr>tr_poison := tr_poison triage @ [p]\<rparr>)"
      using r by (auto simp: verdict_def split: if_splits sum.splits)
    with Inl Cons.IH[OF r(3)] show ?thesis by (simp add: dispatched_def condemned_def List.map_filter_simps)
  next
    case (Inr p)
    then have "triage_loop F L cfg (sender_targets cfg) now (e # events) triage =
        triage_loop F L cfg (sender_targets cfg) now events
          (triage\<lparr>eventsByTarget := group_append (target (route e)) p (eventsByTarget triage)\<rparr>)"
      using r by (auto simp: verdict_def split: if_splits sum.splits)
    with Inr Cons.IH[OF r(3)] verdict_Inr[OF Inr] show ?thesis
      by (simp add: dispatched_def condemned_def List.map_filter_simps)
  qed
qed

lemma triageEvents_eq:
  "routed cfg events \<Longrightarrow> triageEvents F L cfg (sender_targets cfg) now events =
    (\<lparr> eventsByTarget = group_by (\<lambda>e. target (route e)) (dispatched L cfg now events),
       tr_poison = condemned L cfg now events \<rparr>, None)"
  by (simp add: triageEvents_def triage_loop_eq group_by_def)

lemma right_Some: "(case v of Inl _ \<Rightarrow> None | Inr q \<Rightarrow> Some q) = Some p \<longleftrightarrow> v = Inr p"
  by (cases v) auto

lemma left_Some: "(case v of Inl q \<Rightarrow> Some q | Inr _ \<Rightarrow> None) = Some p \<longleftrightarrow> v = Inl p"
  by (cases v) auto

lemma dispatched_in:
  "p \<in> set (dispatched L cfg now events) \<longleftrightarrow> (\<exists>e. e \<in> set events \<and> verdict L cfg now e = Inr p)"
  by (simp add: dispatched_def in_map_filter right_Some)

lemma condemned_in:
  "p \<in> set (condemned L cfg now events) \<longleftrightarrow> (\<exists>e. e \<in> set events \<and> verdict L cfg now e = Inl p)"
  by (simp add: condemned_def in_map_filter left_Some)

lemma keys_unique_dispatched: "keys_unique L cfg events \<Longrightarrow> keys_unique L cfg (dispatched L cfg now events)"
  unfolding keys_unique_def dispatched_def
  by (rule distinct_map_of_map_filter) (auto split: sum.splits dest: verdict_Inr intro: event_key_columns)

lemma keys_unique_filter: "keys_unique L cfg events \<Longrightarrow> keys_unique L cfg (filter P events)"
  by (simp add: keys_unique_def distinct_map_filter)

section \<open>The senders' results\<close>

text \<open>The results of the goroutines arrive in some order, each exactly once.\<close>

definition arrival_ok :: "batch_env \<Rightarrow> bool" where
  "arrival_ok env \<longleftrightarrow> (\<forall>ts. mset (be_arrival env ts) = mset ts)"

definition group_of :: "string \<Rightarrow> event list \<Rightarrow> event list" where
  "group_of t evts = filter (\<lambda>e. target (route e) = t) evts"

definition target_reports :: "golib \<Rightarrow> appConfig \<Rightarrow> batch_env \<Rightarrow> event list \<Rightarrow> string \<Rightarrow> report list" where
  "target_reports L cfg env evts t = fst (be_send env t (providerEvents L cfg (group_of t evts)))"

definition sender_fate :: "golib \<Rightarrow> appConfig \<Rightarrow> batch_env \<Rightarrow> event list \<Rightarrow> event \<Rightarrow> fate" where
  "sender_fate L cfg env evts e =
     report_fate (first_report L (target_reports L cfg env evts (target (route e))) (event_key L cfg e))"

fun dead_reason :: "fate \<Rightarrow> string" where
  "dead_reason (Dead m) = m"
| "dead_reason _ = []"

fun is_dead :: "fate \<Rightarrow> bool" where
  "is_dead (Dead m) = True"
| "is_dead _ = False"

lemma is_dead_iff: "is_dead f \<longleftrightarrow> (\<exists>m. f = Dead m)"
  by (cases f) auto

lemma target_output:
  fixes L cfg evts env t
  assumes "keys_unique L cfg evts"
  defines "out \<equiv> fst (collectProviderOutput L cfg (be_send env t) (group_of t evts))"
  shows "mset (so_confirmed out) = mset (filter (\<lambda>e. sender_fate L cfg env evts e = Delivered) (group_of t evts))"
    and "mset (so_poison out) = mset (map (\<lambda>e. \<lparr> pe_evt = e, pe_error = dead_reason (sender_fate L cfg env evts e) \<rparr>)
      (filter (\<lambda>e. is_dead (sender_fate L cfg env evts e)) (group_of t evts)))"
proof -
  let ?rs = "target_reports L cfg env evts t" and ?f = "sender_fate L cfg env evts"
  have u: "keys_unique L cfg (group_of t evts)" unfolding group_of_def by (rule keys_unique_filter[OF assms(1)])
  then have dg: "distinct (group_of t evts)" by (auto simp: keys_unique_def distinct_map)
  have fate: "report_fate (first_report L ?rs (event_key L cfg e)) = ?f e" if "e \<in> set (group_of t evts)" for e
    using that by (simp add: sender_fate_def group_of_def)
  have inv: "collector_inv L cfg (group_of t evts) ?rs (collector_state L cfg (group_of t evts) ?rs)"
    by (rule collector_inv_run[OF u])
  have out: "out = sc_output (collector_state L cfg (group_of t evts) ?rs)"
    by (simp add: out_def collectProviderOutput_def collectSenderOutput_def collector_state_def target_reports_def)
  have conf: "distinct (so_confirmed out)"
      "set (so_confirmed out) = {e. e \<in> set (group_of t evts) \<and> report_fate (first_report L ?rs (event_key L cfg e)) = Delivered}"
    using inv by (simp_all add: collector_inv_def out)
  then have "set (so_confirmed out) = set (filter (\<lambda>e. ?f e = Delivered) (group_of t evts))" using fate by auto
  then show "mset (so_confirmed out) = mset (filter (\<lambda>e. ?f e = Delivered) (group_of t evts))"
    using conf(1) dg by (subst set_eq_iff_mset_eq_distinct[symmetric]) auto
  have pois: "distinct (map pe_evt (so_poison out))"
      "set (so_poison out) = {p. pe_evt p \<in> set (group_of t evts) \<and>
        report_fate (first_report L ?rs (event_key L cfg (pe_evt p))) = Dead (pe_error p)}"
    using inv by (simp_all add: collector_inv_def out)
  let ?p = "\<lambda>e. \<lparr> pe_evt = e, pe_error = dead_reason (?f e) \<rparr>"
  have "p \<in> set (so_poison out) \<longleftrightarrow> p \<in> ?p ` {e. e \<in> set (group_of t evts) \<and> is_dead (?f e)}" for p
  proof
    assume "p \<in> set (so_poison out)"
    then have "pe_evt p \<in> set (group_of t evts)" "?f (pe_evt p) = Dead (pe_error p)" using fate pois(2) by auto
    then show "p \<in> ?p ` {e. e \<in> set (group_of t evts) \<and> is_dead (?f e)}"
      by (intro image_eqI[of _ _ "pe_evt p"]) auto
  next
    assume "p \<in> ?p ` {e. e \<in> set (group_of t evts) \<and> is_dead (?f e)}"
    then show "p \<in> set (so_poison out)" using fate by (auto simp: pois(2) is_dead_iff)
  qed
  then have "set (so_poison out) = set (map ?p (filter (\<lambda>e. is_dead (?f e)) (group_of t evts)))" by auto
  moreover have "distinct (so_poison out)" using pois(1) by (simp add: distinct_map)
  moreover have "distinct (map ?p (filter (\<lambda>e. is_dead (?f e)) (group_of t evts)))"
    using dg by (auto simp: distinct_map inj_on_def)
  ultimately show "mset (so_poison out) = mset (map ?p (filter (\<lambda>e. is_dead (?f e)) (group_of t evts)))"
    by (subst set_eq_iff_mset_eq_distinct[symmetric]) auto
qed

section \<open>Gathering the results\<close>

lemma foldl_gather:
  "ga_deleteIDs (foldl (gather_result cfg) g rs) = ga_deleteIDs g @ concat (map (\<lambda>r.
     map (\<lambda>evt. eventValue evt (EventID cfg)) (so_confirmed (fst r)) @
     map (\<lambda>p. eventValue (pe_evt p) (EventID cfg)) (so_poison (fst r))) rs)"
  "ga_poison (foldl (gather_result cfg) g rs) = ga_poison g @ concat (map (\<lambda>r. so_poison (fst r)) rs)"
  "ga_sent (foldl (gather_result cfg) g rs) =
     ga_sent g + int (length (concat (map (\<lambda>r. so_confirmed (fst r)) rs)))"
  "is_err (ga_err (foldl (gather_result cfg) g rs)) s \<longleftrightarrow>
     is_err (ga_err g) s \<or> list_ex (\<lambda>r. is_err (snd r) s) rs"
  "ga_err (foldl (gather_result cfg) g rs) = None \<longleftrightarrow> ga_err g = None \<and> list_all (\<lambda>r. snd r = None) rs"
  by (induction rs arbitrary: g)
    (auto simp: gather_result_def is_err_errors_Join split: prod.splits option.splits)

text \<open>All the events with a given fate, whatever the order in which the senders answered.\<close>

lemma results_mset:
  assumes u: "keys_unique L cfg evts" and a: "arrival_ok env"
  defines "rs \<equiv> sender_results L cfg env (group_by (\<lambda>e. target (route e)) evts)"
  shows "mset (concat (map (\<lambda>r. so_confirmed (fst r)) rs)) =
      mset (filter (\<lambda>e. sender_fate L cfg env evts e = Delivered) evts)"
    and "mset (concat (map (\<lambda>r. so_poison (fst r)) rs)) =
      mset (map (\<lambda>e. \<lparr> pe_evt = e, pe_error = dead_reason (sender_fate L cfg env evts e) \<rparr>)
        (filter (\<lambda>e. is_dead (sender_fate L cfg env evts e)) evts))"
proof -
  let ?keys = "map fst (group_by (\<lambda>e. target (route e)) evts)" and ?f = "sender_fate L cfg env evts"
  let ?out = "\<lambda>t. fst (collectProviderOutput L cfg (be_send env t) (group_of t evts))"
  have rs: "map (\<lambda>r. h (fst r)) rs = map (\<lambda>t. h (?out t)) (be_arrival env ?keys)" for h :: "senderOutput \<Rightarrow> 'h"
    by (simp add: rs_def sender_results_def group_get_group_by group_of_def comp_def)
  have perm: "mset (concat (map F (be_arrival env ?keys))) = mset (concat (map F ?keys))" for F :: "string \<Rightarrow> 'b list"
    using a by (intro mset_concat_perm) (simp add: arrival_ok_def)
  have all: "mset (concat (map (\<lambda>t. filter P (group_of t evts)) ?keys)) = mset (filter P evts)" for P
  proof -
    have "filter P (group_of t evts) = filter (\<lambda>e. target (route e) = t) (filter P evts)" for t
      by (simp add: group_of_def conj_commute)
    then have "mset (concat (map (\<lambda>t. filter P (group_of t evts)) ?keys)) =
        mset (filter (\<lambda>e. target (route e) \<in> set ?keys) (filter P evts))"
      using mset_concat_groups[OF group_by_keys_distinct, of "\<lambda>e. target (route e)" "filter P evts"] by simp
    also have "filter (\<lambda>e. target (route e) \<in> set ?keys) (filter P evts) = filter P evts"
      unfolding group_by_keys_set by (rule filter_True) auto
    finally show ?thesis .
  qed
  have "mset (concat (map (\<lambda>r. so_confirmed (fst r)) rs)) = mset (concat (map (\<lambda>t. so_confirmed (?out t)) ?keys))"
    unfolding rs by (rule perm)
  also have "\<dots> = mset (concat (map (\<lambda>t. filter (\<lambda>e. ?f e = Delivered) (group_of t evts)) ?keys))"
    by (intro mset_concat_cong target_output(1)[OF u])
  also note all
  finally show "mset (concat (map (\<lambda>r. so_confirmed (fst r)) rs)) = mset (filter (\<lambda>e. ?f e = Delivered) evts)" .
  let ?p = "\<lambda>e. \<lparr> pe_evt = e, pe_error = dead_reason (?f e) \<rparr>"
  have "mset (concat (map (\<lambda>r. so_poison (fst r)) rs)) = mset (concat (map (\<lambda>t. so_poison (?out t)) ?keys))"
    unfolding rs by (rule perm)
  also have "\<dots> = mset (concat (map (\<lambda>t. map ?p (filter (\<lambda>e. is_dead (?f e)) (group_of t evts))) ?keys))"
    by (intro mset_concat_cong target_output(2)[OF u])
  also have "\<dots> = image_mset ?p (mset (concat (map (\<lambda>t. filter (\<lambda>e. is_dead (?f e)) (group_of t evts)) ?keys)))"
    by (simp add: map_concat comp_def flip: mset_map)
  also have "\<dots> = mset (map ?p (filter (\<lambda>e. is_dead (?f e)) evts))" unfolding all by simp
  finally show "mset (concat (map (\<lambda>r. so_poison (fst r)) rs)) = mset (map ?p (filter (\<lambda>e. is_dead (?f e)) evts))" .
qed

section \<open>The fate of every selected event\<close>

text \<open>The specification of a batch.\<close>

definition batch_fate :: "golib \<Rightarrow> appConfig \<Rightarrow> batch_env \<Rightarrow> event list \<Rightarrow> event \<Rightarrow> fate" where
  "batch_fate L cfg env events e =
     (case verdict L cfg (be_now env) e of
        Inl p \<Rightarrow> Dead (pe_error p)
      | Inr parsed \<Rightarrow> sender_fate L cfg env (dispatched L cfg (be_now env) events) parsed)"

definition event_id :: "appConfig \<Rightarrow> event \<Rightarrow> goval" where
  "event_id cfg e = eventValue e (EventID cfg)"

definition batch_triage :: "golib \<Rightarrow> appConfig \<Rightarrow> batch_env \<Rightarrow> event list \<Rightarrow> batchTriage" where
  "batch_triage L cfg env events =
     \<lparr> eventsByTarget = group_by (\<lambda>e. target (route e)) (dispatched L cfg (be_now env) events),
       tr_poison = condemned L cfg (be_now env) events \<rparr>"

lemma count_dispatched:
  "length (filter P (dispatched L cfg now events)) =
     length (filter (\<lambda>e. case verdict L cfg now e of Inl _ \<Rightarrow> False | Inr p \<Rightarrow> P p) events)"
proof -
  have "(case (case v of Inl a \<Rightarrow> None | Inr p \<Rightarrow> Some p) of None \<Rightarrow> False | Some y \<Rightarrow> P y) =
      (case v of Inl a \<Rightarrow> False | Inr p \<Rightarrow> P p)" for v :: "poisonEvent + event" by (cases v) auto
  then show ?thesis by (simp add: dispatched_def length_filter_map_filter)
qed

lemma count_condemned:
  "length (condemned L cfg now events) = length (filter (\<lambda>e. case verdict L cfg now e of Inl _ \<Rightarrow> True | Inr _ \<Rightarrow> False) events)"
  by (induction events) (auto simp: condemned_def List.map_filter_simps split: sum.splits)

lemma length_filter_disjoint:
  "(\<And>x. x \<in> set xs \<Longrightarrow> \<not> (P x \<and> Q x)) \<Longrightarrow>
     length (filter P xs) + length (filter Q xs) = length (filter (\<lambda>x. P x \<or> Q x) xs)"
  by (induction xs) auto

lemma gather_counts:
  assumes u: "keys_unique L cfg events" and a: "arrival_ok env"
  defines "g \<equiv> gather L cfg env (batch_triage L cfg env events)" and "f \<equiv> batch_fate L cfg env events"
  shows "ga_sent g = int (length (filter (\<lambda>e. f e = Delivered) events))"
    and "length (ga_poison g) = length (filter (\<lambda>e. is_dead (f e)) events)"
proof -
  let ?evts = "dispatched L cfg (be_now env) events" and ?v = "verdict L cfg (be_now env)"
  have ud: "keys_unique L cfg ?evts" by (rule keys_unique_dispatched[OF u])
  note rm = results_mset[OF ud a, THEN arg_cong[where f = size], unfolded size_mset]
  have "ga_sent g = int (length (filter (\<lambda>e. sender_fate L cfg env ?evts e = Delivered) ?evts))"
    using rm(1) by (simp add: g_def gather_def batch_triage_def foldl_gather)
  also have "\<dots> = int (length (filter (\<lambda>e. f e = Delivered) events))"
    unfolding count_dispatched by (intro arg_cong[where f = int] arg_cong[where f = length] filter_cong refl)
      (auto simp: f_def batch_fate_def split: sum.splits)
  finally show "ga_sent g = int (length (filter (\<lambda>e. f e = Delivered) events))" .
  have "length (ga_poison g) = length (condemned L cfg (be_now env) events) +
      length (filter (\<lambda>e. is_dead (sender_fate L cfg env ?evts e)) ?evts)"
    using rm(2) by (simp add: g_def gather_def batch_triage_def foldl_gather)
  also have "\<dots> = length (filter (\<lambda>e. (case ?v e of Inl _ \<Rightarrow> True | Inr _ \<Rightarrow> False) \<or>
      (case ?v e of Inl _ \<Rightarrow> False | Inr p \<Rightarrow> is_dead (sender_fate L cfg env ?evts p))) events)"
    unfolding count_dispatched count_condemned by (rule length_filter_disjoint) (auto split: sum.splits)
  also have "\<dots> = length (filter (\<lambda>e. is_dead (f e)) events)"
    by (intro arg_cong[where f = length] filter_cong refl) (auto simp: f_def batch_fate_def split: sum.splits)
  finally show "length (ga_poison g) = length (filter (\<lambda>e. is_dead (f e)) events)" .
qed


lemma batch_fate_dispatched:
  "verdict L cfg (be_now env) e = Inr p \<Longrightarrow>
     batch_fate L cfg env events e = sender_fate L cfg env (dispatched L cfg (be_now env) events) p"
  by (simp add: batch_fate_def)

lemma gather_ids:
  assumes u: "keys_unique L cfg events" and a: "arrival_ok env"
  shows "set (ga_deleteIDs (gather L cfg env (batch_triage L cfg env events))) =
     event_id cfg ` {e. e \<in> set events \<and> batch_fate L cfg env events e \<noteq> Kept}"
proof -
  let ?evts = "dispatched L cfg (be_now env) events" and ?f = "sender_fate L cfg env (dispatched L cfg (be_now env) events)"
  let ?rs = "sender_results L cfg env (group_by (\<lambda>e. target (route e)) ?evts)"
  let ?cond = "condemned L cfg (be_now env) events"
  note rm = results_mset[OF keys_unique_dispatched[OF u, of "be_now env"] a, THEN arg_cong[where f = set_mset], unfolded set_mset_mset]
  have "set (ga_deleteIDs (gather L cfg env (batch_triage L cfg env events))) =
      event_id cfg ` (pe_evt ` set ?cond \<union> set (concat (map (\<lambda>r. so_confirmed (fst r)) ?rs)) \<union>
        pe_evt ` set (concat (map (\<lambda>r. so_poison (fst r)) ?rs)))"
    by (simp add: gather_def batch_triage_def foldl_gather event_id_def image_Un image_UN image_image UN_Un_distrib Un_assoc)
  also have "\<dots> = event_id cfg ` (pe_evt ` set ?cond \<union> {e. e \<in> set ?evts \<and> ?f e \<noteq> Kept})"
  proof -
    have "?f e \<noteq> Kept \<longleftrightarrow> ?f e = Delivered \<or> is_dead (?f e)" for e by (cases "?f e") auto
    then show ?thesis unfolding rm by (intro arg_cong[where f = "image (event_id cfg)"]) (auto simp: image_iff)
  qed
  also have "\<dots> = event_id cfg ` {e. e \<in> set events \<and> batch_fate L cfg env events e \<noteq> Kept}"
  proof (intro equalityI subsetI)
    fix i
    assume "i \<in> event_id cfg ` (pe_evt ` set ?cond \<union> {e. e \<in> set ?evts \<and> ?f e \<noteq> Kept})"
    then consider (c) p where "p \<in> set ?cond" "i = event_id cfg (pe_evt p)"
      | (d) p where "p \<in> set ?evts" "?f p \<noteq> Kept" "i = event_id cfg p" by auto
    then show "i \<in> event_id cfg ` {e. e \<in> set events \<and> batch_fate L cfg env events e \<noteq> Kept}"
    proof cases
      case c
      then obtain e where e: "e \<in> set events" "verdict L cfg (be_now env) e = Inl p" by (auto simp: condemned_in)
      then show ?thesis using c verdict_Inl[OF e(2)] by (intro image_eqI[of _ _ e]) (auto simp: batch_fate_def)
    next
      case d
      then obtain e where e: "e \<in> set events" "verdict L cfg (be_now env) e = Inr p" by (auto simp: dispatched_in)
      then show ?thesis using d verdict_Inr[OF e(2)] batch_fate_dispatched[OF e(2), of events]
        by (intro image_eqI[of _ _ e]) (auto simp: event_id_def eventValue_def)
    qed
  next
    fix i
    assume "i \<in> event_id cfg ` {e. e \<in> set events \<and> batch_fate L cfg env events e \<noteq> Kept}"
    then obtain e where e: "e \<in> set events" "batch_fate L cfg env events e \<noteq> Kept" "i = event_id cfg e" by auto
    show "i \<in> event_id cfg ` (pe_evt ` set ?cond \<union> {e. e \<in> set ?evts \<and> ?f e \<noteq> Kept})"
    proof (cases "verdict L cfg (be_now env) e")
      case (Inl p)
      then have "p \<in> set ?cond" "pe_evt p = e" using e(1) verdict_Inl[OF Inl] by (auto simp: condemned_in)
      then show ?thesis using e(3) by blast
    next
      case (Inr p)
      then have "p \<in> set ?evts" "?f p \<noteq> Kept" "event_id cfg p = i"
        using e batch_fate_dispatched[OF Inr, of events] verdict_Inr[OF Inr]
        by (auto simp: dispatched_in event_id_def eventValue_def)
      then show ?thesis by blast
    qed
  qed
  finally show ?thesis .
qed

text \<open>Every dead event has its poison record, with its columns, route and reason.\<close>

lemma gather_poison:
  assumes u: "keys_unique L cfg events" and a: "arrival_ok env"
    and e: "e \<in> set events" "batch_fate L cfg env events e = Dead m"
  shows "\<exists>p. p \<in> set (ga_poison (gather L cfg env (batch_triage L cfg env events))) \<and>
     columns (pe_evt p) = columns e \<and> route (pe_evt p) = route e \<and> pe_error p = m"
proof -
  let ?evts = "dispatched L cfg (be_now env) events"
  let ?rs = "sender_results L cfg env (group_by (\<lambda>e. target (route e)) ?evts)"
  note rm = results_mset(2)[OF keys_unique_dispatched[OF u, of "be_now env"] a, THEN arg_cong[where f = set_mset], unfolded set_mset_mset]
  have set: "set (ga_poison (gather L cfg env (batch_triage L cfg env events))) =
      set (condemned L cfg (be_now env) events) \<union> set (concat (map (\<lambda>r. so_poison (fst r)) ?rs))"
    by (simp add: gather_def batch_triage_def foldl_gather)
  show ?thesis
  proof (cases "verdict L cfg (be_now env) e")
    case (Inl p)
    then have "p \<in> set (condemned L cfg (be_now env) events)" "pe_evt p = e" "pe_error p = m"
      using e verdict_Inl[OF Inl] by (auto simp: condemned_in batch_fate_def)
    then show ?thesis unfolding set by auto
  next
    case (Inr p)
    let ?q = "\<lparr> pe_evt = p, pe_error = m \<rparr>"
    have f: "sender_fate L cfg env ?evts p = Dead m" using e(2) batch_fate_dispatched[OF Inr, of events] by simp
    have "p \<in> set ?evts" using e(1) Inr by (auto simp: dispatched_in)
    then have "?q \<in> set (concat (map (\<lambda>r. so_poison (fst r)) ?rs))" unfolding rm using f by (auto intro!: rev_image_eqI[of p])
    then show ?thesis unfolding set using verdict_Inr[OF Inr] by (intro exI[of _ ?q]) auto
  qed
qed

end
