(* ===== verification/Batch_Facts.thy ===== *)
theory Batch_Facts
  imports Processor_Facts
begin

text \<open>
  One batch and its transaction: either nothing changes, or every selected event has the fate
  the specification gives it and the database changes accordingly.
\<close>

section \<open>Selected events are dispatchable\<close>

text \<open>
  The tables the relay runs on: the columns the query names, unique non-NULL ids of a kind whose
  rendering is exact (integers, text, bytes).
\<close>

definition outbox_ok :: "pg \<Rightarrow> appConfig \<Rightarrow> string list \<Rightarrow> row list \<Rightarrow> bool" where
  "outbox_ok P cfg cols rows \<longleftrightarrow> ids_unique P cfg rows \<and> table_ok cfg cols rows \<and>
     list_all (\<lambda>row. plain_id (row_id cfg row) \<and> row_id cfg row \<noteq> GNil) rows"

lemma outbox_okD:
  assumes "outbox_ok P cfg cols rows"
  shows "ids_unique P cfg rows" "table_ok cfg cols rows"
    "\<And>row. row \<in> set rows \<Longrightarrow> plain_id (row_id cfg row) \<and> row_id cfg row \<noteq> GNil"
  using assms by (auto simp: outbox_ok_def list_all_iff)

lemma outbox_ok_subset:
  assumes "outbox_ok P cfg cols rows" "set rows' \<subseteq> set rows" "distinct rows'"
  shows "outbox_ok P cfg cols rows'"
proof -
  have "inj_on (rank P cfg) (set rows')"
    using assms(1,2) by (auto simp: outbox_ok_def ids_unique_def distinct_map intro: inj_on_subset)
  then show ?thesis
    using assms by (auto simp: outbox_ok_def ids_unique_def distinct_map table_ok_def list_all_iff)
qed

lemma event_id_event_of [simp]: "event_id cfg (event_of rt row) = row_id cfg row"
  by (simp add: event_id_def eventValue_def event_of_def row_id_def)

lemma event_key_id: "event_key L cfg e = eventIDKey L (event_id cfg e)"
  by (simp add: event_key_def event_id_def)

lemma selectEvents_no_error: "selectEvents L P cfg cols rows q r = Inr events \<Longrightarrow> q = None \<and> r = None"
  by (auto simp: selectEvents_def scanEvents_def result_set_def split: option.splits if_splits sum.splits)

lemma resolve_target: "resolve cfg row = Some rt \<Longrightarrow> target rt \<in> set (sender_targets cfg)"
proof -
  assume "resolve cfg row = Some rt"
  then obtain p where "resolve_provider cfg row = Some p" "target rt = route_target p"
    by (auto simp: resolve_def Let_def split: option.splits if_splits)
  then show ?thesis using resolve_provider_route[of cfg row p] by (auto simp: sender_targets_def)
qed

lemma selected_events:
  assumes ok: "outbox_ok P cfg cols rows" and sel: "selectEvents L P cfg cols rows q r = Inr events"
  shows "routed cfg events" and "keys_unique L cfg events"
    and "\<And>e. e \<in> set events \<Longrightarrow> columns e \<in> set rows \<and> event_id cfg e = row_id cfg (columns e) \<and>
      resolve cfg (cells P (columns e)) = Some (route e)"
proof -
  note d = outbox_okD[OF ok]
  have sel': "selectEvents L P cfg cols rows None None = Inr events" using sel selectEvents_no_error[OF sel] by simp
  obtain share where ev: "events = collected P cfg rows share" using selected_collected[OF d(1,2) sel'] by blast
  have mem: "\<exists>row rt. row \<in> set rows \<and> resolved P cfg row = Some rt \<and> e = event_of rt row" if "e \<in> set events" for e
    using that by (auto simp: ev in_collected)
  show rows: "\<And>e. e \<in> set events \<Longrightarrow> columns e \<in> set rows \<and> event_id cfg e = row_id cfg (columns e) \<and>
      resolve cfg (cells P (columns e)) = Some (route e)"
    using mem by (fastforce simp: event_of_def resolved_def event_id_def eventValue_def row_id_def)
  have "target (route e) \<in> set (sender_targets cfg)" if "e \<in> set events" for e
    using resolve_target rows[OF that] by blast
  moreover have "target (route e) \<noteq> []" if "e \<in> set events" for e
    using resolve_nonempty rows[OF that] by blast
  ultimately show "routed cfg events" by (simp add: routed_def list_all_iff)
  have "sorted_wrt (\<lambda>a b. rank P cfg (columns a) < rank P cfg (columns b)) events"
    unfolding ev by (rule collected_sorted[OF d(1)])
  then have dist: "distinct events" by (rule strict_distinct)
  have "a = b" if "a \<in> set events" "b \<in> set events" "event_key L cfg a = event_key L cfg b" for a b
  proof -
    note a = rows[OF that(1)] and b = rows[OF that(2)]
    have "row_id cfg (columns a) = row_id cfg (columns b)"
      using that(3) a b d(3) eventIDKey_plain_inj[of "event_id cfg a" "event_id cfg b" L] by (simp add: event_key_id)
    then have "columns a = columns b" using row_id_inj[OF d(1)] a b by blast
    then show "a = b" using mem[OF that(1)] mem[OF that(2)] by (auto simp: event_of_def)
  qed
  then show "keys_unique L cfg events" using dist by (auto simp: keys_unique_def distinct_map inj_on_def)
qed

section \<open>A batch that reaches its end\<close>

lemma fmtDBError_db [simp]: "is_err (fmtDBError e) errDatabaseBatch"
  by (simp add: fmtDBError_is)

lemma join_db_db [simp]: "is_err (join_db s e) errDatabaseBatch"
  by (cases s) (auto simp: join_db_def is_err_errors_Join)

lemma batch_success:
  assumes ok: "outbox_ok P cfg cols rows" and run: "processEventBatch F L P cfg cols env rows = (result, err, w)"
    and noerr: "\<not> is_err err errDatabaseBatch"
  obtains events dead where "selectEvents L P cfg cols rows None None = Inr events"
    and "insertDeadLetters L cfg (be_clock env) (be_dlq env) (ga_poison (gather L cfg env (batch_triage L cfg env events))) = Inr dead"
    and "err = ga_err (gather L cfg env (batch_triage L cfg env events))"
    and "tx_dead w = dead" and "set (tx_deleted w) = set (ga_deleteIDs (gather L cfg env (batch_triage L cfg env events)))"
    and "br_stats result = (batch_stats L cfg env events (gather L cfg env (batch_triage L cfg env events)))\<lparr>bs_dbDuration := be_dbDuration env\<rparr>"
    and "br_drained result = batchDrained events (CollectBatchTarget cfg)" and "br_selected result = int (length events)"
proof (cases "selectEvents L P cfg cols rows (be_query env) (be_rows env)")
  case (Inl e)
  then show ?thesis using run noerr by (auto simp: processEventBatch_def)
next
  case (Inr events)
  let ?g = "gather L cfg env (batch_triage L cfg env events)"
  have tr: "triageEvents F L cfg (sender_targets cfg) (be_now env) events = (batch_triage L cfg env events, None)"
    using triageEvents_eq[OF selected_events(1)[OF ok Inr]] by (simp add: batch_triage_def)
  show ?thesis
  proof (cases "insertDeadLetters L cfg (be_clock env) (be_dlq env) (ga_poison ?g)")
    case (Inl e)
    then show ?thesis using run noerr \<open>selectEvents _ _ _ _ _ _ _ = _\<close> tr by (auto simp: processEventBatch_def Let_def)
  next
    case (Inr dead)
    note sel = \<open>selectEvents _ _ _ _ _ _ _ = _\<close>
    show ?thesis
    proof (cases "deleteEvents (be_delete env) (ga_deleteIDs ?g)")
      case (Inl e)
      then show ?thesis using run noerr sel tr Inr by (auto simp: processEventBatch_def Let_def)
    next
      case (Inr ids)
      have sel': "selectEvents L P cfg cols rows None None = Inr events"
        using sel selectEvents_no_error[OF sel] by simp
      have "set ids = set (ga_deleteIDs ?g)" using Inr by (auto simp: deleteEvents_def split: if_splits option.splits)
      then show ?thesis
        using that[of events dead] run sel sel' tr Inr \<open>insertDeadLetters _ _ _ _ _ = _\<close>
        by (auto simp: processEventBatch_def Let_def)
    qed
  qed
qed

lemma batch_counts:
  assumes ok: "outbox_ok P cfg cols rows" and arr: "arrival_ok env"
    and run: "processEventBatch F L P cfg cols env rows = (result, err, w)" and noerr: "\<not> is_err err errDatabaseBatch"
    and sel: "selectEvents L P cfg cols rows None None = Inr events"
  shows "set (tx_deleted w) = event_id cfg ` {e. e \<in> set events \<and> batch_fate L cfg env events e \<noteq> Kept} \<and>
    bs_sent (br_stats result) = int (length (filter (\<lambda>e. batch_fate L cfg env events e = Delivered) events)) \<and>
    bs_poison (br_stats result) + bs_dlq (br_stats result) =
      int (length (filter (\<lambda>e. is_dead (batch_fate L cfg env events e)) events)) \<and>
    bs_keptForRetry (br_stats result) = int (length (filter (\<lambda>e. batch_fate L cfg env events e = Kept) events)) \<and>
    int (length (tx_dead w)) = bs_dlq (br_stats result)"
proof -
  obtain events' dead where b': "selectEvents L P cfg cols rows None None = Inr events'"
    "insertDeadLetters L cfg (be_clock env) (be_dlq env) (ga_poison (gather L cfg env (batch_triage L cfg env events'))) = Inr dead"
    "tx_dead w = dead" "set (tx_deleted w) = set (ga_deleteIDs (gather L cfg env (batch_triage L cfg env events')))"
    "br_stats result = (batch_stats L cfg env events' (gather L cfg env (batch_triage L cfg env events')))\<lparr>bs_dbDuration := be_dbDuration env\<rparr>"
    by (rule batch_success[OF ok run noerr]) blast
  have "events' = events" using b'(1) sel by simp
  note b = b'[unfolded this]
  let ?g = "gather L cfg env (batch_triage L cfg env events)" and ?f = "batch_fate L cfg env events"
  note u = selected_events(2)[OF ok b(1)]
  note counts = gather_counts[OF u arr]
  have split: "length events = length (filter (\<lambda>e. ?f e = Delivered) events) + length (filter (\<lambda>e. is_dead (?f e)) events) +
      length (filter (\<lambda>e. ?f e = Kept) events)"
  proof -
    have "(?f e = Delivered \<or> is_dead (?f e)) \<or> ?f e = Kept" for e by (cases "?f e") auto
    then have "filter (\<lambda>e. (?f e = Delivered \<or> is_dead (?f e)) \<or> ?f e = Kept) events = events" by (simp add: filter_True)
    moreover have "length (filter (\<lambda>e. ?f e = Delivered) events) + length (filter (\<lambda>e. is_dead (?f e)) events) =
        length (filter (\<lambda>e. ?f e = Delivered \<or> is_dead (?f e)) events)"
      by (rule length_filter_disjoint) (auto simp: is_dead_iff)
    moreover have "length (filter (\<lambda>e. ?f e = Delivered \<or> is_dead (?f e)) events) + length (filter (\<lambda>e. ?f e = Kept) events) =
        length (filter (\<lambda>e. (?f e = Delivered \<or> is_dead (?f e)) \<or> ?f e = Kept) events)"
      by (rule length_filter_disjoint) (auto simp: is_dead_iff)
    ultimately show ?thesis by simp
  qed
  have dl: "length dead = (if DLQTable cfg = [] then 0 else length (ga_poison ?g))"
    using b(2) by (auto simp: insertDeadLetters_def dest: marshal_payloads_length split: if_splits sum.splits option.splits)
  show ?thesis
    using b(1,3,4) gather_ids[OF u arr] counts split dl
    by (auto simp: b(5) batch_stats_def Let_def)
qed

text \<open>
  (C3) A batch implements its specification. Whenever the batch runs to its end, whatever the
  order in which the senders' results arrive and whatever they report: the IDs to delete are
  exactly those of the selected events whose fate is to be published or dead-lettered; the
  counters are the numbers of published, dead and kept events, which add up to the selected
  ones; and there is one dead letter per dead event when a dead-letter table is configured.
\<close>

theorem batch_refines_fates:
  assumes ok: "outbox_ok P cfg cols rows" and arr: "arrival_ok env"
    and run: "processEventBatch F L P cfg cols env rows = (result, err, w)" and noerr: "\<not> is_err err errDatabaseBatch"
  shows "\<exists>events. selectEvents L P cfg cols rows None None = Inr events \<and>
    set (tx_deleted w) = event_id cfg ` {e. e \<in> set events \<and> batch_fate L cfg env events e \<noteq> Kept} \<and>
    bs_sent (br_stats result) = int (length (filter (\<lambda>e. batch_fate L cfg env events e = Delivered) events)) \<and>
    bs_poison (br_stats result) + bs_dlq (br_stats result) =
      int (length (filter (\<lambda>e. is_dead (batch_fate L cfg env events e)) events)) \<and>
    bs_keptForRetry (br_stats result) = int (length (filter (\<lambda>e. batch_fate L cfg env events e = Kept) events)) \<and>
    int (length (tx_dead w)) = bs_dlq (br_stats result)"
proof -
  obtain events where sel: "selectEvents L P cfg cols rows None None = Inr events"
    by (rule batch_success[OF ok run noerr]) blast
  then show ?thesis using batch_counts[OF ok arr run noerr sel] by blast
qed

section \<open>A sample batch\<close>

text \<open>
  SQS confirms every event it gets, Pub/Sub refuses every one; the results arrive in the reverse
  order of dispatch.
\<close>

definition sample_send :: "string \<Rightarrow> send_behaviour" where
  "sample_send t evts =
     (map (\<lambda>e. if t = ''sqs'' then AddConfirmedID (ev_ID e) else AddPoisonID (ev_ID e) ''refused'') evts, None)"

definition sample_env :: batch_env where
  "sample_env = \<lparr> be_cancelled = False, be_begin = None, be_query = None, be_rows = None, be_now = 0,
     be_send = sample_send, be_arrival = rev, be_clock = (\<lambda>_. 0), be_dlq = None, be_delete = None,
     be_commit = CommitOK, be_done = 0, be_publishDuration = 0, be_dbDuration = 0,
     be_inserted = [], be_probe = None, be_probe_time = 0 \<rparr>"

definition sample_fmt :: fmt where
  "sample_fmt = (\<lambda>s. s, \<lambda>_. ''1s'')"

lemma sample_arrival: "arrival_ok sample_env"
  by (simp add: arrival_ok_def sample_env_def)

lemma sample_outbox: "outbox_ok sample_pg dlq_config sample_cols sample_table"
  by code_simp

lemma sample_env_fields:
  "be_begin sample_env = None" "be_inserted sample_env = []" "be_commit sample_env = CommitOK" "be_done sample_env = 0"
  "be_cancelled sample_env = False"
  by (simp_all add: sample_env_def)

text \<open>The batch evaluated once, for all examples on it: two events published, one dead-lettered.\<close>

definition sample_result :: batchResult where
  "sample_result = \<lparr> br_selected = 3, br_drained = True, br_stats =
     \<lparr> bs_selected = 3, bs_sent = 2, bs_poison = 0, bs_dlq = 1, bs_keptForRetry = 0, bs_senderErrors = 0,
       bs_fatalAfterCommitErrors = 0, bs_oldestEventAge = 0, bs_publishDuration = 0, bs_dbDuration = 0 \<rparr> \<rparr>"

definition sample_tx :: tx where
  "sample_tx = \<lparr> tx_dead = [''{}''], tx_deleted = [GInt64 2, GInt64 1, GInt64 3] \<rparr>"

lemma sample_batch:
  "processEventBatch sample_fmt sample_lib sample_pg dlq_config sample_cols sample_env sample_table = (sample_result, None, sample_tx)"
  by code_simp

theorem batch_refines_fates_witness:
  "\<exists>events. selectEvents sample_lib sample_pg dlq_config sample_cols sample_table None None = Inr events \<and>
    set (tx_deleted (snd (snd (processEventBatch sample_fmt sample_lib sample_pg dlq_config sample_cols sample_env sample_table)))) =
      event_id dlq_config ` {e. e \<in> set events \<and> batch_fate sample_lib dlq_config sample_env events e \<noteq> Kept}"
proof -
  let ?r = "processEventBatch sample_fmt sample_lib sample_pg dlq_config sample_cols sample_env sample_table"
  have "\<not> is_err (fst (snd ?r)) errDatabaseBatch" by (simp add: sample_batch)
  then show ?thesis
    using batch_refines_fates[OF sample_outbox sample_arrival, of sample_fmt sample_lib "fst ?r" "fst (snd ?r)" "snd (snd ?r)"]
    by auto
qed

section \<open>The transaction\<close>

text \<open>The rows a batch removes: those of the selected events with a final fate.\<close>

definition settled :: "golib \<Rightarrow> appConfig \<Rightarrow> batch_env \<Rightarrow> event list \<Rightarrow> row \<Rightarrow> bool" where
  "settled L cfg env events row \<longleftrightarrow>
     list_ex (\<lambda>e. columns e = row \<and> batch_fate L cfg env events e \<noteq> Kept) events"

text \<open>Whether the writes of the transaction took effect.\<close>

definition took_effect :: "batch_env \<Rightarrow> go_error option \<Rightarrow> bool" where
  "took_effect env batchErr \<longleftrightarrow> be_begin env = None \<and> \<not> is_err batchErr errDatabaseBatch \<and>
     (case be_commit env of CommitOK \<Rightarrow> True | CommitFailed _ applied \<Rightarrow> applied)"

lemma delete_rows_settled:
  assumes ok: "outbox_ok P cfg cols (rows @ new)" and sel: "selectEvents L P cfg cols rows None None = Inr events"
    and ids: "set ids = event_id cfg ` {e. e \<in> set events \<and> batch_fate L cfg env events e \<noteq> Kept}"
  shows "delete_rows cfg ids (rows @ new) = filter (\<lambda>row. \<not> settled L cfg env events row) rows @ new"
proof -
  note d = outbox_okD[OF ok]
  have dist: "distinct (rows @ new)" by (rule ids_unique_distinct[OF d(1)])
  have ok': "outbox_ok P cfg cols rows" using dist by (intro outbox_ok_subset[OF ok]) auto
  have iff: "row_id cfg row \<in> set ids \<longleftrightarrow> row \<in> set rows \<and> settled L cfg env events row"
    if row: "row \<in> set (rows @ new)" for row
  proof
    assume "row_id cfg row \<in> set ids"
    then obtain e where e: "e \<in> set events" "batch_fate L cfg env events e \<noteq> Kept" "row_id cfg row = event_id cfg e"
      by (auto simp: ids)
    note r = selected_events(3)[OF ok' sel e(1)]
    have "columns e \<in> set (rows @ new)" "row_id cfg row = row_id cfg (columns e)" using r e(3) by auto
    then have "row = columns e" using row_id_inj[OF d(1) row] by blast
    then show "row \<in> set rows \<and> settled L cfg env events row" using r e by (auto simp: settled_def list_ex_iff)
  next
    assume "row \<in> set rows \<and> settled L cfg env events row"
    then obtain e where e: "e \<in> set events" "columns e = row" "batch_fate L cfg env events e \<noteq> Kept"
      by (auto simp: settled_def list_ex_iff)
    then show "row_id cfg row \<in> set ids" using selected_events(3)[OF ok' sel e(1)] unfolding ids by (metis (mono_tags, lifting) imageI mem_Collect_eq)
  qed
  have "delete_rows cfg ids (rows @ new) = filter (\<lambda>row. \<not> (row \<in> set rows \<and> settled L cfg env events row)) (rows @ new)"
    unfolding delete_rows_def using d(3) iff by (intro filter_cong refl) blast
  also have "\<dots> = filter (\<lambda>row. \<not> settled L cfg env events row) rows @ new"
  proof -
    have "filter (\<lambda>row. \<not> (row \<in> set rows \<and> settled L cfg env events row)) new = new"
      using dist by (intro filter_True) auto
    moreover have "filter (\<lambda>row. \<not> (row \<in> set rows \<and> settled L cfg env events row)) rows =
        filter (\<lambda>row. \<not> settled L cfg env events row) rows" by (rule filter_cong) auto
    ultimately show ?thesis by simp
  qed
  finally show ?thesis .
qed

lemma one_batch_cases:
  assumes "processOneBatch F L P cfg cols env st = (result, err, st')"
  obtains (unchanged) "as_outbox st' = as_outbox st @ be_inserted env" "as_dlq st' = as_dlq st" "is_err err errDatabaseBatch"
    | (effect) batchErr w where "processEventBatch F L P cfg cols env (as_outbox st) = (result, batchErr, w)"
        "took_effect env batchErr" "as_outbox st' = delete_rows cfg (tx_deleted w) (as_outbox st @ be_inserted env)"
        "as_dlq st' = as_dlq st @ tx_dead w" "be_commit env = CommitOK \<longrightarrow> err = batchErr"
proof (cases "be_begin env")
  case (Some e)
  then have "as_outbox st' = as_outbox st @ be_inserted env \<and> as_dlq st' = as_dlq st \<and> is_err err errDatabaseBatch"
    using assms by (auto simp: processOneBatch_def Let_def)
  then show ?thesis using unchanged by blast
next
  case None
  obtain r batchErr w where run: "processEventBatch F L P cfg cols env (as_outbox st) = (r, batchErr, w)"
    by (metis prod_cases3)
  show ?thesis
  proof (cases "is_err batchErr errDatabaseBatch")
    case True
    then show ?thesis using assms None run by (intro unchanged) (auto simp: processOneBatch_def Let_def)
  next
    case False
    show ?thesis
    proof (cases "be_commit env")
      case CommitOK
      then show ?thesis using assms None run False
        by (intro effect[of batchErr w]) (auto simp: processOneBatch_def Let_def took_effect_def apply_tx_def)
    next
      case (CommitFailed e applied)
      have db: "is_err err errDatabaseBatch"
        using assms None run False CommitFailed by (auto simp: processOneBatch_def Let_def is_err_errors_Join split: if_splits)
      show ?thesis
      proof (cases applied)
        case True
        then show ?thesis using assms None run False CommitFailed
          by (intro effect[of batchErr w]) (auto simp: processOneBatch_def Let_def took_effect_def apply_tx_def)
      next
        case no: False
        then show ?thesis using assms None run False CommitFailed db
          by (intro unchanged) (auto simp: processOneBatch_def Let_def)
      qed
    qed
  qed
qed

section \<open>Dead letters of a batch\<close>

lemma dead_record:
  assumes ins: "insertDeadLetters L cfg clock execErr poison = Inr dead" and "DLQTable cfg \<noteq> []" and p: "p \<in> set poison"
  shows "\<exists>t b. b \<in> set dead \<and> json_Marshal L (GMap (deadLetterPayload L cfg t p)) = Inr b"
proof -
  have m: "marshal_payloads L cfg clock 0 poison = Inr dead"
    using assms by (auto simp: insertDeadLetters_def split: if_splits sum.splits option.splits)
  obtain k where k: "k < length poison" "poison ! k = p" using p by (auto simp: in_set_conv_nth)
  have "json_Marshal L (GMap (deadLetterPayload L cfg (clock k) p)) = Inr (dead ! k)"
    using marshal_payloads_nth[OF m k(1)] k(2) by simp
  moreover have "dead ! k \<in> set dead" using marshal_payloads_length[OF m] k(1) by simp
  ultimately show ?thesis by blast
qed

text \<open>A row's dead letter: the encoded payload of a poison event with the row's columns.\<close>

definition dead_letter_of :: "golib \<Rightarrow> appConfig \<Rightarrow> row \<Rightarrow> string \<Rightarrow> bytes \<Rightarrow> bool" where
  "dead_letter_of L cfg row reason b \<longleftrightarrow>
     (\<exists>t p. columns (pe_evt p) = row \<and> pe_error p = reason \<and>
        json_Marshal L (GMap (deadLetterPayload L cfg t p)) = Inr b)"

text \<open>The full effect of a batch whose writes took effect.\<close>

lemma batch_effect:
  assumes ok: "outbox_ok P cfg cols (as_outbox st @ be_inserted env)" and arr: "arrival_ok env"
    and run: "processOneBatch F L P cfg cols env st = (result, err, st')"
  obtains (unchanged) "as_outbox st' = as_outbox st @ be_inserted env" "as_dlq st' = as_dlq st" "is_err err errDatabaseBatch"
    | (effect) events dead where "selectEvents L P cfg cols (as_outbox st) None None = Inr events"
        "as_outbox st' = filter (\<lambda>row. \<not> settled L cfg env events row) (as_outbox st) @ be_inserted env"
        "as_dlq st' = as_dlq st @ dead"
        "\<And>e m. e \<in> set events \<Longrightarrow> batch_fate L cfg env events e = Dead m \<Longrightarrow> DLQTable cfg \<noteq> [] \<Longrightarrow>
           \<exists>b. b \<in> set dead \<and> dead_letter_of L cfg (columns e) m b"
        "length dead = (if DLQTable cfg = [] then 0
           else length (filter (\<lambda>e. is_dead (batch_fate L cfg env events e)) events))"
  using run
proof (cases rule: one_batch_cases)
  case unchanged
  then show ?thesis using that(1) by blast
next
  case (effect batchErr w)
  have dist: "distinct (as_outbox st @ be_inserted env)" by (rule ids_unique_distinct[OF outbox_okD(1)[OF ok]])
  then have ok': "outbox_ok P cfg cols (as_outbox st)" by (intro outbox_ok_subset[OF ok]) auto
  have nodb: "\<not> is_err batchErr errDatabaseBatch" using effect(2) by (simp add: took_effect_def)
  obtain events dead where b: "selectEvents L P cfg cols (as_outbox st) None None = Inr events"
    "insertDeadLetters L cfg (be_clock env) (be_dlq env) (ga_poison (gather L cfg env (batch_triage L cfg env events))) = Inr dead"
    "tx_dead w = dead" "set (tx_deleted w) = set (ga_deleteIDs (gather L cfg env (batch_triage L cfg env events)))"
    by (rule batch_success[OF ok' effect(1) nodb]) blast
  note u = selected_events(2)[OF ok' b(1)]
  have ids: "set (tx_deleted w) = event_id cfg ` {e. e \<in> set events \<and> batch_fate L cfg env events e \<noteq> Kept}"
    using b(4) gather_ids[OF u arr] by simp
  have dl: "\<exists>b. b \<in> set dead \<and> dead_letter_of L cfg (columns e) m b"
    if e: "e \<in> set events" "batch_fate L cfg env events e = Dead m" "DLQTable cfg \<noteq> []" for e m
    using gather_poison[OF u arr e(1,2)] dead_record[OF b(2) e(3)] by (force simp: dead_letter_of_def)
  have len: "length dead = (if DLQTable cfg = [] then 0 else length (filter (\<lambda>e. is_dead (batch_fate L cfg env events e)) events))"
    using b(2) gather_counts(2)[OF u arr]
    by (auto simp: insertDeadLetters_def dest: marshal_payloads_length split: if_splits sum.splits option.splits)
  have out: "as_outbox st' = filter (\<lambda>row. \<not> settled L cfg env events row) (as_outbox st) @ be_inserted env"
    using effect(3) delete_rows_settled[OF ok b(1) ids] by simp
  have dlq: "as_dlq st' = as_dlq st @ dead" using effect(4) b(3) by simp
  show ?thesis by (rule that(2)[OF b(1) out dlq _ len]) (rule dl)
qed

text \<open>
  (C4) A batch is atomic. After one batch, whatever fails in it, either the outbox holds all its
  rows and those inserted meanwhile and the dead-letter table is unchanged, and the batch
  reports a database error; or the outbox has lost exactly the rows of the selected events with
  a final fate, and the dead-letter table has gained the batch's records and nothing else.
\<close>

theorem batch_atomic:
  assumes ok: "outbox_ok P cfg cols (as_outbox st @ be_inserted env)" and arr: "arrival_ok env"
    and run: "processOneBatch F L P cfg cols env st = (result, err, st')"
  shows "(as_outbox st' = as_outbox st @ be_inserted env \<and> as_dlq st' = as_dlq st \<and> is_err err errDatabaseBatch) \<or>
    (\<exists>events dead. selectEvents L P cfg cols (as_outbox st) None None = Inr events \<and>
       as_outbox st' = filter (\<lambda>row. \<not> settled L cfg env events row) (as_outbox st) @ be_inserted env \<and>
       as_dlq st' = as_dlq st @ dead \<and>
       length dead = (if DLQTable cfg = [] then 0 else length (filter (\<lambda>e. is_dead (batch_fate L cfg env events e)) events)))"
  by (cases rule: batch_effect[OF ok arr run]) auto

definition sample_state :: app_state where
  "sample_state = \<lparr> as_outbox = sample_table, as_dlq = [], as_stats = newAppStats 0, as_lastBacklogProbe = 0 \<rparr>"

lemma sample_state_ok: "outbox_ok sample_pg dlq_config sample_cols (as_outbox sample_state @ be_inserted sample_env)"
  by code_simp

lemma sample_state_fields: "as_outbox sample_state = sample_table" "as_dlq sample_state = []"
  by (simp_all add: sample_state_def)

lemma sample_one_batch:
  "processOneBatch sample_fmt sample_lib sample_pg dlq_config sample_cols sample_env sample_state =
     (sample_result, None, apply_tx dlq_config sample_tx (sample_state\<lparr>as_stats := addCommittedBatch (newAppStats 0) (br_stats sample_result) 0\<rparr>))"
  by (simp add: processOneBatch_def sample_env_fields sample_state_def sample_batch)

lemma sample_rows_after: "delete_rows dlq_config (tx_deleted sample_tx) sample_table = [sample_table_row 4 GNil]"
  by code_simp

theorem batch_atomic_witness:
  "case processOneBatch sample_fmt sample_lib sample_pg dlq_config sample_cols sample_env sample_state of (result, err, st') \<Rightarrow>
     (\<exists>events dead. selectEvents sample_lib sample_pg dlq_config sample_cols sample_table None None = Inr events \<and>
       as_outbox st' = filter (\<lambda>row. \<not> settled sample_lib dlq_config sample_env events row) sample_table \<and>
       as_dlq st' = dead \<and> length dead = length (filter (\<lambda>e. is_dead (batch_fate sample_lib dlq_config sample_env events e)) events))"
proof -
  let ?r = "processOneBatch sample_fmt sample_lib sample_pg dlq_config sample_cols sample_env sample_state"
  have "\<not> is_err (fst (snd ?r)) errDatabaseBatch" by (simp add: sample_one_batch)
  moreover have "DLQTable dlq_config \<noteq> []" by code_simp
  moreover have "be_inserted sample_env = []" "as_outbox sample_state = sample_table" "as_dlq sample_state = []"
    by (simp_all add: sample_env_fields sample_state_fields)
  ultimately show ?thesis
    using batch_atomic[OF sample_state_ok sample_arrival, of sample_fmt sample_lib "fst ?r" "fst (snd ?r)" "snd (snd ?r)"]
    by (auto split: prod.splits)
qed

end
