(* ===== verification/Relay.thy ===== *)
theory Relay
  imports Batch_Facts
begin

text \<open>
  The relay over time: runs of \<open>processEvents\<close> over any sequence of environments (failures,
  ambiguous commits, producers inserting rows). No row is lost, a healthy relay drains the outbox,
  a fatal sender error stops it, the backlog gauge is sound.
\<close>

section \<open>Runs\<close>

definition state_after ::
  "fmt \<Rightarrow> golib \<Rightarrow> pg \<Rightarrow> appConfig \<Rightarrow> string list \<Rightarrow> app_state \<Rightarrow> batch_env list \<Rightarrow> app_state" where
  "state_after F L P cfg cols st envs = snd (processEvents F L P cfg cols st envs)"

definition next_state ::
  "fmt \<Rightarrow> golib \<Rightarrow> pg \<Rightarrow> appConfig \<Rightarrow> string list \<Rightarrow> batch_env \<Rightarrow> app_state \<Rightarrow> app_state" where
  "next_state F L P cfg cols env st =
     (case processOneBatch F L P cfg cols env st of (result, err, st') \<Rightarrow>
        if is_err err ErrFatalAfterCommit \<or> is_err err errDatabaseBatch then st'
        else updateBacklog P cfg env result st')"

lemma updateBacklog_db [simp]:
  "as_outbox (updateBacklog P cfg env result st) = as_outbox st"
  "as_dlq (updateBacklog P cfg env result st) = as_dlq st"
  by (auto simp: updateBacklog_def Let_def split: sum.splits prod.splits)

lemma next_state_db:
  assumes "processOneBatch F L P cfg cols env st = (result, err, st')"
  shows "as_outbox (next_state F L P cfg cols env st) = as_outbox st'"
    "as_dlq (next_state F L P cfg cols env st) = as_dlq st'"
  using assms by (auto simp: next_state_def)

text \<open>Each iteration either ends the loop or goes on from the next state.\<close>

lemma processEvents_Cons:
  obtains (cancelled) "be_cancelled env" "processEvents F L P cfg cols st (env # envs) = (Returned None, st)"
    | (fatal) e where "\<not> be_cancelled env" "errors_Is e ErrFatalAfterCommit"
        "processEvents F L P cfg cols st (env # envs) = (Returned (Some e), next_state F L P cfg cols env st)"
    | (continue) "\<not> be_cancelled env"
        "\<And>es. processEvents F L P cfg cols st (env # es) =
           processEvents F L P cfg cols (next_state F L P cfg cols env st) es"
proof -
  obtain result err st' where run: "processOneBatch F L P cfg cols env st = (result, err, st')" by (metis prod_cases3)
  show ?thesis
  proof (cases "be_cancelled env")
    case True
    then show ?thesis using that(1) by simp
  next
    case False
    show ?thesis
    proof (cases "is_err err ErrFatalAfterCommit")
      case True
      then obtain e where "err = Some e" "errors_Is e ErrFatalAfterCommit" by (cases err) auto
      then show ?thesis using that(2) False run by (simp add: next_state_def)
    next
      case nofatal: False
      then show ?thesis using that(3) False run by (simp add: next_state_def)
    qed
  qed
qed

lemma next_outbox_subset:
  assumes ok: "outbox_ok P cfg cols (as_outbox st @ be_inserted env)" and arr: "arrival_ok env"
  shows "set (as_outbox (next_state F L P cfg cols env st)) \<subseteq> set (as_outbox st @ be_inserted env) \<and>
    distinct (as_outbox (next_state F L P cfg cols env st)) \<and>
    (\<exists>dead. as_dlq (next_state F L P cfg cols env st) = as_dlq st @ dead)"
proof -
  obtain result err st' where run: "processOneBatch F L P cfg cols env st = (result, err, st')" by (metis prod_cases3)
  have "distinct (as_outbox st @ be_inserted env)" by (rule ids_unique_distinct[OF outbox_okD(1)[OF ok]])
  then show ?thesis unfolding next_state_db[OF run] by (cases rule: batch_effect[OF ok arr run]) auto
qed

lemma next_outbox_ok:
  assumes ok: "outbox_ok P cfg cols (as_outbox st @ be_inserted env @ new)" and arr: "arrival_ok env"
  shows "outbox_ok P cfg cols (as_outbox (next_state F L P cfg cols env st) @ new)"
proof -
  have dist: "distinct (as_outbox st @ be_inserted env @ new)" by (rule ids_unique_distinct[OF outbox_okD(1)[OF ok]])
  then have "outbox_ok P cfg cols (as_outbox st @ be_inserted env)" by (intro outbox_ok_subset[OF ok]) auto
  note sub = next_outbox_subset[OF this arr, of F L]
  have "set (as_outbox (next_state F L P cfg cols env st)) \<inter> set new = {}" using sub dist by auto
  then show ?thesis using sub dist by (intro outbox_ok_subset[OF ok]) auto
qed

lemma outbox_ok_append: "outbox_ok P cfg cols (rows @ new) \<Longrightarrow> outbox_ok P cfg cols rows"
  by (rule outbox_ok_subset[of P cfg cols "rows @ new"]) (auto simp: outbox_ok_def dest: ids_unique_distinct)

lemma run_outbox_ok:
  assumes "outbox_ok P cfg cols (as_outbox st @ concat (map be_inserted envs) @ new)" "list_all arrival_ok envs"
  shows "outbox_ok P cfg cols (as_outbox (state_after F L P cfg cols st envs) @ new)"
  using assms
proof (induction envs arbitrary: st)
  case Nil
  then show ?case by (simp add: state_after_def)
next
  case (Cons env envs)
  let ?n = "next_state F L P cfg cols env st" and ?later = "concat (map be_inserted envs) @ new"
  have ok: "outbox_ok P cfg cols (as_outbox ?n @ ?later)" using Cons.prems by (intro next_outbox_ok) simp_all
  have sub: "outbox_ok P cfg cols (rows @ new)" if "outbox_ok P cfg cols (rows @ rest @ new)" for rows rest
    using ids_unique_distinct[OF outbox_okD(1)[OF that]] by (intro outbox_ok_subset[OF that]) auto
  show ?case
  proof (cases rule: processEvents_Cons[of env F L P cfg cols st envs])
    case cancelled
    then show ?thesis
      using sub[of "as_outbox st" "be_inserted env @ concat (map be_inserted envs)"] Cons.prems(1) by (simp add: state_after_def)
  next
    case (fatal e)
    then show ?thesis using sub[OF ok] by (simp add: state_after_def)
  next
    case continue
    then show ?thesis using Cons.IH[OF ok] Cons.prems(2) by (simp add: state_after_def)
  qed
qed

section \<open>No row is lost\<close>

text \<open>
  The event of a row has a final fate in the batch of an environment: published, or dead with a
  dead letter in the table when one is configured.
\<close>

definition accounted ::
  "golib \<Rightarrow> pg \<Rightarrow> appConfig \<Rightarrow> string list \<Rightarrow> row list \<Rightarrow> batch_env \<Rightarrow> bytes list \<Rightarrow> row \<Rightarrow> bool" where
  "accounted L P cfg cols outbox env dlq row \<longleftrightarrow>
     (\<exists>events e. selectEvents L P cfg cols outbox None None = Inr events \<and> e \<in> set events \<and> columns e = row \<and>
        (batch_fate L cfg env events e = Delivered \<or>
         (\<exists>m. batch_fate L cfg env events e = Dead m \<and>
            (DLQTable cfg \<noteq> [] \<longrightarrow> (\<exists>b. b \<in> set dlq \<and> dead_letter_of L cfg row m b)))))"

lemma accounted_mono: "accounted L P cfg cols rows env dlq row \<Longrightarrow> set dlq \<subseteq> set dlq' \<Longrightarrow> accounted L P cfg cols rows env dlq' row"
  unfolding accounted_def by blast

lemma batch_accounts:
  assumes ok: "outbox_ok P cfg cols (as_outbox st @ be_inserted env)" and arr: "arrival_ok env"
    and row: "row \<in> set (as_outbox st)" "row \<notin> set (as_outbox (next_state F L P cfg cols env st))"
  shows "accounted L P cfg cols (as_outbox st) env (as_dlq (next_state F L P cfg cols env st)) row"
proof -
  obtain result err st' where run: "processOneBatch F L P cfg cols env st = (result, err, st')" by (metis prod_cases3)
  from ok arr run show ?thesis
  proof (cases rule: batch_effect)
    case unchanged
    then show ?thesis using row(2) row(1) unfolding next_state_db[OF run] by simp
  next
    case (effect events dead)
    have "settled L cfg env events row" using effect(2) row unfolding next_state_db[OF run] by auto
    then obtain e where e: "e \<in> set events" "columns e = row" "batch_fate L cfg env events e \<noteq> Kept"
      by (auto simp: settled_def list_ex_iff)
    show ?thesis
    proof (cases "batch_fate L cfg env events e")
      case (Dead m)
      have "DLQTable cfg \<noteq> [] \<longrightarrow> (\<exists>b. b \<in> set (as_dlq st') \<and> dead_letter_of L cfg row m b)"
        using effect(3) effect(4)[OF e(1) Dead] e(2) by auto
      then show ?thesis using effect(1) e Dead unfolding accounted_def next_state_db[OF run] by blast
    qed (use effect(1) e in \<open>auto simp: accounted_def\<close>)
  qed
qed

lemma run_dlq:
  assumes "outbox_ok P cfg cols (as_outbox st @ concat (map be_inserted envs))" "list_all arrival_ok envs"
  shows "set (as_dlq st) \<subseteq> set (as_dlq (state_after F L P cfg cols st envs))"
  using assms
proof (induction envs arbitrary: st)
  case Nil
  then show ?case by (simp add: state_after_def)
next
  case (Cons env envs)
  have arr: "arrival_ok env" "list_all arrival_ok envs" using Cons.prems(2) by auto
  have ok: "outbox_ok P cfg cols (as_outbox st @ be_inserted env @ concat (map be_inserted envs))" using Cons.prems(1) by simp
  then have "outbox_ok P cfg cols (as_outbox st @ be_inserted env)"
    using ids_unique_distinct[OF outbox_okD(1)[OF ok]] by (intro outbox_ok_subset[OF ok]) auto
  from next_outbox_subset[OF this arr(1), of F L]
  have sub: "set (as_dlq st) \<subseteq> set (as_dlq (next_state F L P cfg cols env st))" by auto
  note ih = Cons.IH[OF next_outbox_ok[OF ok arr(1)] arr(2), of F L]
  show ?case
    by (cases rule: processEvents_Cons[of env F L P cfg cols st envs]) (use sub ih in \<open>auto simp: state_after_def\<close>)
qed

lemma run_accounts:
  assumes "outbox_ok P cfg cols (as_outbox st @ concat (map be_inserted envs))" "list_all arrival_ok envs"
    and "row \<in> set (as_outbox st)" "row \<notin> set (as_outbox (state_after F L P cfg cols st envs))"
  shows "\<exists>pre env post. envs = pre @ env # post \<and>
    accounted L P cfg cols (as_outbox (state_after F L P cfg cols st pre)) env
      (as_dlq (state_after F L P cfg cols st envs)) row"
  using assms
proof (induction envs arbitrary: st)
  case Nil
  then show ?case by (simp add: state_after_def)
next
  case (Cons env envs)
  have arr: "arrival_ok env" "list_all arrival_ok envs" using Cons.prems(2) by auto
  have ok: "outbox_ok P cfg cols (as_outbox st @ be_inserted env @ concat (map be_inserted envs))" using Cons.prems(1) by simp
  then have ok1: "outbox_ok P cfg cols (as_outbox st @ be_inserted env)"
    using ids_unique_distinct[OF outbox_okD(1)[OF ok]] by (intro outbox_ok_subset[OF ok]) auto
  let ?n = "next_state F L P cfg cols env st"
  note ok2 = next_outbox_ok[OF ok arr(1), of F L]
  show ?case
  proof (cases rule: processEvents_Cons[of env F L P cfg cols st envs])
    case cancelled
    then show ?thesis using Cons.prems by (simp add: state_after_def)
  next
    case (fatal e)
    then have "accounted L P cfg cols (as_outbox st) env (as_dlq (state_after F L P cfg cols st (env # envs))) row"
      using batch_accounts[OF ok1 arr(1) Cons.prems(3)] Cons.prems(4) by (simp add: state_after_def)
    then show ?thesis by (intro exI[of _ "[]"] exI[of _ env] exI[of _ envs]) (simp add: state_after_def)
  next
    case continue
    then have st: "state_after F L P cfg cols st (env # es) = state_after F L P cfg cols ?n es" for es
      by (simp only: state_after_def)
    show ?thesis
    proof (cases "row \<in> set (as_outbox ?n)")
      case True
      then obtain pre e post where "envs = pre @ e # post" "accounted L P cfg cols (as_outbox (state_after F L P cfg cols ?n pre)) e
          (as_dlq (state_after F L P cfg cols ?n envs)) row"
        using Cons.IH[OF ok2 arr(2)] Cons.prems(4) st by auto
      then show ?thesis using st by (intro exI[of _ "env # pre"] exI[of _ e] exI[of _ post]) simp
    next
      case False
      have "accounted L P cfg cols (as_outbox st) env (as_dlq (state_after F L P cfg cols ?n envs)) row"
        using batch_accounts[OF ok1 arr(1) Cons.prems(3) False] run_dlq[OF ok2 arr(2)] accounted_mono by blast
      then show ?thesis using st by (intro exI[of _ "[]"] exI[of _ env] exI[of _ envs]) (simp add: state_after_def)
    qed
  qed
qed

text \<open>
  (C2) No row is lost. Over any run of the relay, with any database errors, ambiguous commits,
  sender errors, producers inserting rows meanwhile, and stopping at any point: a row that was in
  the outbox at some time and is no longer there later was selected by a batch in between, and
  in that batch its event was confirmed by its sender, or was condemned with a reason, in
  which case its dead letter is in the dead-letter table if one is configured.
\<close>

theorem no_row_lost:
  assumes "outbox_ok P cfg cols (as_outbox st @ concat (map be_inserted envs))" "list_all arrival_ok envs"
    and "row \<in> set (as_outbox st)" "row \<notin> set (as_outbox (snd (processEvents F L P cfg cols st envs)))"
  shows "\<exists>pre env post events e. envs = pre @ env # post \<and>
    selectEvents L P cfg cols (as_outbox (snd (processEvents F L P cfg cols st pre))) None None = Inr events \<and>
    e \<in> set events \<and> columns e = row \<and>
    (batch_fate L cfg env events e = Delivered \<or>
     (\<exists>m. batch_fate L cfg env events e = Dead m \<and>
        (DLQTable cfg \<noteq> [] \<longrightarrow>
           (\<exists>b. b \<in> set (as_dlq (snd (processEvents F L P cfg cols st envs))) \<and> dead_letter_of L cfg row m b))))"
  using run_accounts[OF assms(1-3), unfolded state_after_def, OF assms(4)] unfolding accounted_def by blast

lemma sample_run_outbox:
  "as_outbox (snd (processEvents sample_fmt sample_lib sample_pg dlq_config sample_cols sample_state [sample_env])) = [sample_table_row 4 GNil]"
  by (simp add: sample_one_batch sample_env_fields apply_tx_def sample_rows_after sample_state_fields)

theorem no_row_lost_witness:
  "\<exists>pre env post events e. [sample_env] = pre @ env # post \<and> e \<in> set events \<and>
     columns e = sample_table_row 2 (GString ''pubsub'') \<and>
     (batch_fate sample_lib dlq_config env events e = Delivered \<or>
      (\<exists>m. batch_fate sample_lib dlq_config env events e = Dead m \<and>
        (\<exists>b. b \<in> set (as_dlq (snd (processEvents sample_fmt sample_lib sample_pg dlq_config sample_cols sample_state [sample_env]))) \<and>
           dead_letter_of sample_lib dlq_config (sample_table_row 2 (GString ''pubsub'')) m b)))"
proof -
  let ?run = "processEvents sample_fmt sample_lib sample_pg dlq_config sample_cols sample_state [sample_env]"
  let ?row = "sample_table_row 2 (GString ''pubsub'')"
  have ok: "outbox_ok sample_pg dlq_config sample_cols (as_outbox sample_state @ concat (map be_inserted [sample_env]))"
    using sample_state_ok by simp
  have arr: "list_all arrival_ok [sample_env]" using sample_arrival by simp
  have row: "?row \<in> set (as_outbox sample_state)" "?row \<notin> set (as_outbox (snd ?run))"
    by (simp_all only: sample_run_outbox) (simp_all add: sample_state_fields sample_table_def sample_table_row_def)
  have "DLQTable dlq_config \<noteq> []" by code_simp
  then show ?thesis using no_row_lost[OF ok arr row] by blast
qed

end
