(* ===== verification/SQS_Sender.thy ===== *)
theory SQS_Sender
  imports SQS_Options
begin

text \<open>
  \<open>sqs/sender.go\<close>: grouping by queue, chunking of standard queues, ordered sending of FIFO
  groups, the batch request with its isolation fallback, and the reporting of outcomes. Each
  method is a program of \<open>Goroutines\<close>; the client call is
  \<open>SendBatch(queueURL, entries)\<close>, answered by an error or a \<open>BatchResponse\<close>.
\<close>

section \<open>Data\<close>

record BatchEntry =
  be_ID :: string
  be_MessageBody :: bytes
  be_Attributes :: "MessageAttribute gomap"
  be_MessageGroupID :: string
  be_DeduplicationID :: string
  be_DelaySeconds :: "(32 word) option"
  be_AWSXRayTraceHeader :: string

record BatchSuccess =
  bs_ID :: string
  bs_MessageID :: string

record BatchFailure =
  bf_ID :: string
  bf_Code :: string
  bf_Message :: string
  bf_SenderFault :: bool

record BatchResponse =
  Successful :: "BatchSuccess list"
  Failed :: "BatchFailure list"

record sqsCandidateEvent =
  sc_evt :: Event
  sc_orderingKey :: string

record sqsPreparedEvent =
  sp_log :: PublishLog
  sp_messageSize :: nat
  sp_entry :: BatchEntry

type_synonym sqs_request = "string \<times> BatchEntry list"
type_synonym sqs_answer = "go_error + BatchResponse"
type_synonym sqs_prog = "(report, sqs_request, sqs_answer) prog"
type_synonym sqs_act = "(report, sqs_request, sqs_answer) act"

section \<open>Preparing events\<close>

definition fifoGroupID :: "golib \<Rightarrow> sqsCandidateEvent \<Rightarrow> string" where
  "fifoGroupID L c =
     (if sc_orderingKey c \<noteq> [] then sc_orderingKey c
      else syntheticFIFOGroupID L (fmt_Sprint L (ev_ID (sc_evt c))))"

definition parseSQSCandidate :: "Callbacks \<Rightarrow> Event \<Rightarrow> report list \<times> sqsCandidateEvent option" where
  "parseSQSCandidate cb evt =
     (case Options_String (ev_Options evt) ''messageGroupId'' of
        Inl err \<Rightarrow> (RejectMalformedOptions cb sqs_Target evt ''messageGroupId'' err, None)
      | Inr orderingKey \<Rightarrow> ([], Some \<lparr> sc_evt = evt, sc_orderingKey = orderingKey \<rparr>))"

definition prepareSQSEvent ::
  "golib \<Rightarrow> (float64 \<Rightarrow> 32 word) \<Rightarrow> Callbacks \<Rightarrow> sqsCandidateEvent \<Rightarrow> string \<Rightarrow> bool \<Rightarrow>
     report list \<times> sqsPreparedEvent option" where
  "prepareSQSEvent L impl cb candidate queueURL isFIFO =
     (let evt = sc_evt candidate; opts = ev_Options evt in
      case sqsAttributes opts of
        Inl err \<Rightarrow> (RejectMalformedOptions cb sqs_Target evt ''attributes'' err, None)
      | Inr attributes \<Rightarrow>
      (case Options_String opts ''messageDeduplicationId'' of
        Inl err \<Rightarrow> (RejectMalformedOptions cb sqs_Target evt ''messageDeduplicationId'' err, None)
      | Inr deduplicationID \<Rightarrow>
      (case sqsDelaySeconds impl opts of
        Inl err \<Rightarrow> (RejectMalformedOptions cb sqs_Target evt ''delaySeconds'' err, None)
      | Inr delaySeconds \<Rightarrow>
      (case sqsAWSTraceHeader opts of
        Inl err \<Rightarrow> (RejectMalformedOptions cb sqs_Target evt ''messageSystemAttributes'' err, None)
      | Inr traceHeader \<Rightarrow>
          let eventID = fmt_Sprint L (ev_ID evt);
              entryID = providerSafeID L eventID sqsBatchEntryIDPattern;
              data = ev_Payload evt in
          if isSQSPoison data attributes (sc_orderingKey candidate) deduplicationID delaySeconds
          then (AddPoisonID (ev_ID evt) ''Event is invalid for SQS'' #
                ReportFailure cb ''Failed to send event''
                  (sqs_Target @ ''|'' @ queueURL @ ''|'' @ sc_orderingKey candidate @ ''|local-poison''), None)
          else
            let entry = \<lparr> be_ID = entryID, be_MessageBody = data, be_Attributes = attributes,
                  be_MessageGroupID =
                    (if isFIFO then fifoGroupID L candidate else sc_orderingKey candidate),
                  be_DeduplicationID =
                    (if isFIFO
                     then (if deduplicationID \<noteq> [] then deduplicationID
                           else providerSafeID L eventID sqsFIFOIDPattern)
                     else []),
                  be_DelaySeconds = (if isFIFO then None else delaySeconds),
                  be_AWSXRayTraceHeader = traceHeader \<rparr>;
                plog = (NewPublishLog evt sqs_Target)\<lparr>log_OrderingKey := sc_orderingKey candidate\<rparr> in
            ([], Some \<lparr> sp_log = plog, sp_messageSize = sqsMessageSize data attributes,
                        sp_entry = entry \<rparr>)))))"

section \<open>Chunking\<close>

fun chunk_loop ::
  "sqsPreparedEvent list list \<Rightarrow> sqsPreparedEvent list \<Rightarrow> nat \<Rightarrow> sqsPreparedEvent list \<Rightarrow>
     sqsPreparedEvent list list" where
  "chunk_loop chunks current currentSize [] =
     (if length current > 0 then chunks @ [current] else chunks)"
| "chunk_loop chunks current currentSize (evt # events) =
     (let size = sp_messageSize evt in
      if length current > 0 \<and>
         (length current \<ge> sqsEventBatchSize \<or> currentSize + size > sqsEventMaxSizeByte)
      then chunk_loop (chunks @ [current]) ([] @ [evt]) (0 + size) events
      else chunk_loop chunks (current @ [evt]) (currentSize + size) events)"

definition chunkSQSStandardEvents :: "sqsPreparedEvent list \<Rightarrow> sqsPreparedEvent list list" where
  "chunkSQSStandardEvents events = chunk_loop [] [] 0 events"

section \<open>The batch request\<close>

text \<open>
  \<open>logsByEntryID\<close>: a later entry with the same ID overwrites an earlier one, and an unknown ID
  reads as the zero log, whose event ID is nil.
\<close>

definition logsByEntryID :: "sqsPreparedEvent list \<Rightarrow> string \<Rightarrow> PublishLog" where
  "logsByEntryID events i =
     (case map_of (rev (map (\<lambda>evt. (be_ID (sp_entry evt), sp_log evt)) events)) i of
        Some plog \<Rightarrow> plog
      | None \<Rightarrow> zero_log)"

definition failure_reason :: "BatchFailure \<Rightarrow> string" where
  "failure_reason f = bf_Code f @ '': '' @ bf_Message f"

definition success_reports :: "sqsPreparedEvent list \<Rightarrow> BatchResponse \<Rightarrow> report list" where
  "success_reports events response =
     map (\<lambda>entry. AddConfirmedID (log_ID (logsByEntryID events (bs_ID entry)))) (Successful response)"

definition failed_reports ::
  "Callbacks \<Rightarrow> string \<Rightarrow> sqsPreparedEvent list \<Rightarrow> BatchFailure \<Rightarrow> report list" where
  "failed_reports cb queueURL events entry =
     (if bf_SenderFault entry
      then [AddPoisonID (log_ID (logsByEntryID events (bf_ID entry))) (failure_reason entry)] else []) @
     ReportFailure cb ''Failed to send event''
       (sqs_Target @ ''|'' @ queueURL @ ''|'' @ bf_Code entry @ ''|'' @ bf_Message entry)"

definition rejected_error ::
  "golib \<Rightarrow> sqsPreparedEvent list \<Rightarrow> BatchResponse \<Rightarrow> go_error option" where
  "rejected_error L events response =
     foldl (\<lambda>rejected entry.
        if bf_SenderFault entry then rejected
        else errors_Join [rejected, Some (ErrorString
          (''entry '' @ fmt_Sprint L (log_ID (logsByEntryID events (bf_ID entry))) @
           '' rejected: '' @ failure_reason entry))])
       None (Failed response)"

definition any_done :: "BatchResponse \<Rightarrow> bool" where
  "any_done response \<longleftrightarrow> Successful response \<noteq> [] \<or> list_ex bf_SenderFault (Failed response)"

text \<open>
  \<open>sendSQSBatch\<close> and \<open>sendSQSBatchIsolated\<close>. The deferred \<open>callbacks.Progress()\<close> runs when
  the function returns, after its other reports.
\<close>

function
  sendSQSBatch :: "golib \<Rightarrow> Callbacks \<Rightarrow> string \<Rightarrow> sqsPreparedEvent list \<Rightarrow> sqs_prog" and
  sendSQSBatchIsolated ::
    "golib \<Rightarrow> Callbacks \<Rightarrow> string \<Rightarrow> sqsPreparedEvent list \<Rightarrow> bool \<Rightarrow> go_error option \<Rightarrow> sqs_prog"
where
  "sendSQSBatch L cb queueURL events =
     (if events = [] then Ret False None
      else bind
        (Call (queueURL, map sp_entry events) (\<lambda>answer. case answer of
           Inl err \<Rightarrow>
             if isSQSPermanentRequestError err
             then if length events = 1
                  then emit (AddPoisonID (log_ID (sp_log (events ! 0))) (error_text err) #
                         ReportFailure cb ''Failed to send event''
                           (sqs_Target @ ''|'' @ queueURL @ ''|'' @ error_text err))
                       (Ret True None)
                  else sendSQSBatchIsolated L cb queueURL events False None
             else emit (ReportFailure cb ''Failed to send event batch''
                    (sqs_Target @ ''|'' @ queueURL @ ''|'' @ error_text err))
                  (Ret False (Some err))
         | Inr response \<Rightarrow>
             emit (success_reports events response @
                   concat (map (failed_reports cb queueURL events) (Failed response)))
               (Ret (any_done response) (rejected_error L events response))))
        (\<lambda>d e. emit (Progress cb) (Ret d e)))"
| "sendSQSBatchIsolated L cb queueURL [] anyDone joined = Ret anyDone joined"
| "sendSQSBatchIsolated L cb queueURL (evt # events) anyDone joined =
     bind (sendSQSBatch L cb queueURL [evt])
       (\<lambda>done err. sendSQSBatchIsolated L cb queueURL events (anyDone \<or> done)
          (if err \<noteq> None then errors_Join [joined, err] else joined))"
  by pat_completeness auto
termination
  by (relation "measure (\<lambda>x. case x of
        Inl (L, cb, q, events) \<Rightarrow> (if length events \<le> 1 then 1 else length events + 2)
      | Inr (L, cb, q, events, d, e) \<Rightarrow> length events + 1)")
    (auto simp: le_Suc_eq)

declare sendSQSBatch.simps [simp del]

definition sendSQSBatchWithSemaphore ::
  "golib \<Rightarrow> Callbacks \<Rightarrow> string \<Rightarrow> sqsPreparedEvent list \<Rightarrow> sqs_prog" where
  "sendSQSBatchWithSemaphore L cb queue events =
     Acquire (\<lambda>a. case a of
         Some err \<Rightarrow> Ret False (Some err)
       | None \<Rightarrow> bind (sendSQSBatch L cb queue events) (\<lambda>d e. Release (Ret d e)))"

section \<open>Standard and FIFO queues\<close>

definition sendSQSStandardEvents ::
  "golib \<Rightarrow> Callbacks \<Rightarrow> string \<Rightarrow> sqsPreparedEvent list \<Rightarrow> sqs_prog" where
  "sendSQSStandardEvents L cb queue queueEvents =
     RunConcurrent (chunkSQSStandardEvents queueEvents)
       (\<lambda>chunk. bind (sendSQSBatchWithSemaphore L cb queue chunk) (\<lambda>_ err. Ret False err))"

text \<open>The loop over the events of one FIFO group.\<close>

fun fifo_group_loop ::
  "golib \<Rightarrow> (float64 \<Rightarrow> 32 word) \<Rightarrow> Callbacks \<Rightarrow> string \<Rightarrow> sqsCandidateEvent list \<Rightarrow> sqs_prog" where
  "fifo_group_loop L impl cb queue [] = Ret False None"
| "fifo_group_loop L impl cb queue (candidate # rest) =
     (case prepareSQSEvent L impl cb candidate queue True of
        (reports, None) \<Rightarrow> emit reports (fifo_group_loop L impl cb queue rest)
      | (reports, Some prepared) \<Rightarrow>
          emit reports
            (bind (sendSQSBatchWithSemaphore L cb queue [prepared])
              (\<lambda>done err. if err \<noteq> None then Ret False err
                 else if \<not> done then Ret False None
                 else fifo_group_loop L impl cb queue rest)))"

text \<open>The groups are launched in the order of their first event.\<close>

definition sendSQSFIFOEvents ::
  "golib \<Rightarrow> (float64 \<Rightarrow> 32 word) \<Rightarrow> Callbacks \<Rightarrow> string \<Rightarrow> sqsCandidateEvent list \<Rightarrow> sqs_prog" where
  "sendSQSFIFOEvents L impl cb queue queueEvents =
     (let groups = group_by (fifoGroupID L) queueEvents; groupOrder = map fst groups in
      RunConcurrent groupOrder (\<lambda>groupID. fifo_group_loop L impl cb queue (group_get groups groupID)))"

section \<open>Sending the events of a queue\<close>

definition collect :: "('a \<Rightarrow> report list \<times> 'b option) \<Rightarrow> 'a list \<Rightarrow> report list \<times> 'b list" where
  "collect f xs = (concat (map (\<lambda>x. fst (f x)) xs), List.map_filter (\<lambda>x. snd (f x)) xs)"

definition sendSQSQueueEvents ::
  "golib \<Rightarrow> (float64 \<Rightarrow> 32 word) \<Rightarrow> Callbacks \<Rightarrow> string \<Rightarrow> Event list \<Rightarrow> sqs_prog" where
  "sendSQSQueueEvents L impl cb queue events =
     (if \<not> validSQSQueueURL L queue
      then emit (map (\<lambda>evt. AddPoisonID (ev_ID evt) ''SQS queue URL is syntactically invalid'') events @
                 ReportFailure cb ''Failed to send event batch''
                   (sqs_Target @ ''|'' @ queue @ ''|invalid-queue-url''))
             (Ret False None)
      else (case collect (parseSQSCandidate cb) events of (reports, candidates) \<Rightarrow>
        emit reports
          (if HasSuffix queue ''.fifo''
           then sendSQSFIFOEvents L impl cb queue candidates
           else (case collect (\<lambda>candidate. prepareSQSEvent L impl cb candidate queue False) candidates of
               (reports', prepared) \<Rightarrow> emit reports' (sendSQSStandardEvents L cb queue prepared)))))"

definition sqs_Send ::
  "golib \<Rightarrow> (float64 \<Rightarrow> 32 word) \<Rightarrow> Callbacks \<Rightarrow> Event list \<Rightarrow> sqs_prog" where
  "sqs_Send L impl cb events =
     RunConcurrent (group_by ev_Destination events)
       (\<lambda>(queue, queueEvents). sendSQSQueueEvents L impl cb queue queueEvents)"

end
