(* ===== verification/SQS_Delivery.thy ===== *)
theory SQS_Delivery
  imports SQS_Sender
begin

text \<open>
  What the SQS sender guarantees, for every sequence of answers of the service and every
  interleaving of its goroutines: reports are justified by answers (the interpretation of
  \<open>provider_sender\<close>), requests respect the limits of SQS, FIFO groups are sent in order, the
  semaphore is returned, and a run without error settles every event.
\<close>

section \<open>The entry of an event\<close>

text \<open>The prepared form of an event, or nothing when the event is refused locally.\<close>

definition sqs_prepared ::
  "golib \<Rightarrow> (float64 \<Rightarrow> 32 word) \<Rightarrow> Callbacks \<Rightarrow> Event \<Rightarrow> sqsPreparedEvent option" where
  "sqs_prepared L impl cb evt =
     (case snd (parseSQSCandidate cb evt) of
        None \<Rightarrow> None
      | Some c \<Rightarrow> snd (prepareSQSEvent L impl cb c (ev_Destination evt)
                   (HasSuffix (ev_Destination evt) ''.fifo'')))"

text \<open>SQS acknowledged the event: the answer to a request holding its entry lists it as successful.\<close>

definition sqs_accepted ::
  "golib \<Rightarrow> (float64 \<Rightarrow> 32 word) \<Rightarrow> Callbacks \<Rightarrow> sqs_act set \<Rightarrow> Event \<Rightarrow> bool" where
  "sqs_accepted L impl cb A evt \<longleftrightarrow>
     (\<exists>p entries response s. sqs_prepared L impl cb evt = Some p \<and>
        ACall (ev_Destination evt, entries) (Inr response) \<in> A \<and> sp_entry p \<in> set entries \<and>
        s \<in> set (Successful response) \<and> bs_ID s = be_ID (sp_entry p))"

text \<open>
  The event was refused for good: its queue URL or content is invalid, a request of its entry
  alone failed with a permanent error, or an answer blames the sender for its entry.
\<close>

definition sqs_rejected ::
  "golib \<Rightarrow> (float64 \<Rightarrow> 32 word) \<Rightarrow> Callbacks \<Rightarrow> sqs_act set \<Rightarrow> Event \<Rightarrow> bool" where
  "sqs_rejected L impl cb A evt \<longleftrightarrow>
     \<not> validSQSQueueURL L (ev_Destination evt) \<or>
     sqs_prepared L impl cb evt = None \<or>
     (\<exists>p. sqs_prepared L impl cb evt = Some p \<and>
        ((\<exists>err. ACall (ev_Destination evt, [sp_entry p]) (Inl err) \<in> A \<and>
            isSQSPermanentRequestError err) \<or>
         (\<exists>entries response f. ACall (ev_Destination evt, entries) (Inr response) \<in> A \<and>
            sp_entry p \<in> set entries \<and> f \<in> set (Failed response) \<and> bf_SenderFault f \<and>
            bf_ID f = be_ID (sp_entry p))))"

text \<open>The justification of one report by the actions of a run over the events \<open>S\<close>.\<close>

definition sqs_justified ::
  "golib \<Rightarrow> (float64 \<Rightarrow> 32 word) \<Rightarrow> Callbacks \<Rightarrow> Event set \<Rightarrow> sqs_act set \<Rightarrow> report \<Rightarrow> bool" where
  "sqs_justified L impl cb S A r =
     (case r of
        AddConfirmedID i \<Rightarrow> i = GNil \<or> (\<exists>evt. evt \<in> S \<and> ev_ID evt = i \<and> sqs_accepted L impl cb A evt)
      | AddPoisonID i m \<Rightarrow> i = GNil \<or> (\<exists>evt. evt \<in> S \<and> ev_ID evt = i \<and> sqs_rejected L impl cb A evt)
      | _ \<Rightarrow> True)"

interpretation sj: justification "sqs_justified L impl cb S" for L impl cb S
proof
  fix A B :: "sqs_act set" and x
  assume AB: "A \<subseteq> B" and J: "sqs_justified L impl cb S A x"
  have "sqs_accepted L impl cb A evt \<Longrightarrow> sqs_accepted L impl cb B evt" for evt
    using AB unfolding sqs_accepted_def by blast
  moreover have "sqs_rejected L impl cb A evt \<Longrightarrow> sqs_rejected L impl cb B evt" for evt
    using AB unfolding sqs_rejected_def by blast
  ultimately show "sqs_justified L impl cb S B x"
    using J by (auto simp: sqs_justified_def split: report.splits)
qed

section \<open>Facts about preparation\<close>

lemma parse_event: "snd (parseSQSCandidate cb evt) = Some c \<Longrightarrow> sc_evt c = evt"
  by (auto simp: parseSQSCandidate_def split: sum.splits)

lemma parse_reports:
  "r \<in> set (fst (parseSQSCandidate cb evt)) \<Longrightarrow> reported_id r = Some i \<Longrightarrow>
     i = ev_ID evt \<and> snd (parseSQSCandidate cb evt) = None \<and> (\<exists>m. r = AddPoisonID i m)"
  by (auto simp: parseSQSCandidate_def RejectMalformedOptions_def split: sum.splits)

lemma prepare_reports:
  assumes "r \<in> set (fst (prepareSQSEvent L impl cb c q fifo))" "reported_id r = Some i"
  shows "i = ev_ID (sc_evt c) \<and> snd (prepareSQSEvent L impl cb c q fifo) = None \<and> (\<exists>m. r = AddPoisonID i m)"
  using assms
  by (auto simp: prepareSQSEvent_def Let_def RejectMalformedOptions_def split: sum.splits if_splits)

lemma prepare_log:
  "snd (prepareSQSEvent L impl cb c q fifo) = Some p \<Longrightarrow> log_ID (sp_log p) = ev_ID (sc_evt c)"
  by (auto simp: prepareSQSEvent_def Let_def NewPublishLog_def split: sum.splits if_splits)

lemma prepare_body:
  "snd (prepareSQSEvent L impl cb c q fifo) = Some p \<Longrightarrow>
     be_MessageBody (sp_entry p) = ev_Payload (sc_evt c) \<and>
     be_ID (sp_entry p) = providerSafeID L (fmt_Sprint L (ev_ID (sc_evt c))) sqsBatchEntryIDPattern"
  by (auto simp: prepareSQSEvent_def Let_def split: sum.splits if_splits)

text \<open>Where a prepared event of a queue comes from.\<close>

definition prepared_from ::
  "golib \<Rightarrow> (float64 \<Rightarrow> 32 word) \<Rightarrow> Callbacks \<Rightarrow> Event set \<Rightarrow> string \<Rightarrow> sqsPreparedEvent \<Rightarrow> bool" where
  "prepared_from L impl cb S q p \<longleftrightarrow>
     (\<exists>evt. evt \<in> S \<and> ev_Destination evt = q \<and> sqs_prepared L impl cb evt = Some p \<and>
        log_ID (sp_log p) = ev_ID evt)"

lemma sqs_prepared_log: "sqs_prepared L impl cb evt = Some p \<Longrightarrow> log_ID (sp_log p) = ev_ID evt"
  by (auto simp: sqs_prepared_def split: option.splits dest!: prepare_log parse_event)

lemma logsByEntryID_cases:
  "logsByEntryID ps i = zero_log \<or>
     (\<exists>p. p \<in> set ps \<and> be_ID (sp_entry p) = i \<and> logsByEntryID ps i = sp_log p)"
  by (auto simp: logsByEntryID_def split: option.splits dest!: map_of_SomeD)

section \<open>Chunks\<close>

lemma chunk_loop_concat: "concat (chunk_loop chunks current n evts) = concat chunks @ current @ evts"
  by (induction chunks current n evts rule: chunk_loop.induct) (auto simp: Let_def)

lemma chunk_concat: "concat (chunkSQSStandardEvents evts) = evts"
  by (simp add: chunkSQSStandardEvents_def chunk_loop_concat)

section \<open>Reports are justified\<close>

lemma batch_answer_justified:
  assumes ps: "\<And>p. p \<in> set ps \<Longrightarrow> prepared_from L impl cb S q p"
    and call: "ACall (q, map sp_entry ps) (Inr response) \<in> A"
    and r: "r \<in> set (success_reports ps response) \<union>
              set (concat (map (failed_reports cb q ps) (Failed response)))"
  shows "sqs_justified L impl cb S A r"
proof -
  have nil: "log_ID zero_log = GNil" by (simp add: zero_log_def)
  from r consider
    (ok) s where "s \<in> set (Successful response)"
      "r = AddConfirmedID (log_ID (logsByEntryID ps (bs_ID s)))"
  | (bad) f m where "f \<in> set (Failed response)" "bf_SenderFault f"
      "r = AddPoisonID (log_ID (logsByEntryID ps (bf_ID f))) m"
  | (other) "reported_id r = None"
    by (auto simp: success_reports_def failed_reports_def split: if_splits)
  then show ?thesis
  proof cases
    case ok
    show ?thesis
      using logsByEntryID_cases[of ps "bs_ID s"]
    proof
      assume "logsByEntryID ps (bs_ID s) = zero_log"
      with ok nil show ?thesis by (simp add: sqs_justified_def)
    next
      assume "\<exists>p. p \<in> set ps \<and> be_ID (sp_entry p) = bs_ID s \<and> logsByEntryID ps (bs_ID s) = sp_log p"
      then obtain p where p: "p \<in> set ps" "be_ID (sp_entry p) = bs_ID s" "logsByEntryID ps (bs_ID s) = sp_log p"
        by blast
      from ps[OF p(1)] obtain evt where
        evt: "evt \<in> S" "ev_Destination evt = q" "sqs_prepared L impl cb evt = Some p" "log_ID (sp_log p) = ev_ID evt"
        by (auto simp: prepared_from_def)
      have "sp_entry p \<in> set (map sp_entry ps)" using p(1) by simp
      then have "sqs_accepted L impl cb A evt"
        unfolding sqs_accepted_def using evt(2,3) call ok(1) p(2) by metis
      with ok(2) p(3) evt(1,4) show ?thesis by (auto simp: sqs_justified_def)
    qed
  next
    case bad
    show ?thesis
      using logsByEntryID_cases[of ps "bf_ID f"]
    proof
      assume "logsByEntryID ps (bf_ID f) = zero_log"
      with bad nil show ?thesis by (simp add: sqs_justified_def)
    next
      assume "\<exists>p. p \<in> set ps \<and> be_ID (sp_entry p) = bf_ID f \<and> logsByEntryID ps (bf_ID f) = sp_log p"
      then obtain p where p: "p \<in> set ps" "be_ID (sp_entry p) = bf_ID f" "logsByEntryID ps (bf_ID f) = sp_log p"
        by blast
      from ps[OF p(1)] obtain evt where
        evt: "evt \<in> S" "ev_Destination evt = q" "sqs_prepared L impl cb evt = Some p" "log_ID (sp_log p) = ev_ID evt"
        by (auto simp: prepared_from_def)
      have "sp_entry p \<in> set (map sp_entry ps)" using p(1) by simp
      then have "sqs_rejected L impl cb A evt"
        unfolding sqs_rejected_def using evt(2,3) call bad(1,2) p(2) by metis
      with bad(3) p(3) evt(1,4) show ?thesis by (auto simp: sqs_justified_def)
    qed
  next
    case other
    then show ?thesis by (cases r) (auto simp: sqs_justified_def)
  qed
qed

lemma single_failure_justified:
  assumes "prepared_from L impl cb S q p" "ACall (q, [sp_entry p]) (Inl err) \<in> A"
    "isSQSPermanentRequestError err"
  shows "sqs_justified L impl cb S A (AddPoisonID (log_ID (sp_log p)) m)"
  using assms unfolding prepared_from_def sqs_justified_def sqs_rejected_def by auto

lemma silent_justified: "reported_id r = None \<Longrightarrow> sqs_justified L impl cb S A r"
  by (cases r) (auto simp: sqs_justified_def)

lemma explained_Progress: "explained (sqs_justified L impl cb S) (emit (Progress cb') (Ret d e))"
  by (rule sj.explained_emit) (auto intro: silent_justified)

lemma explained_batch_call:
  assumes ps: "\<And>p. p \<in> set ps \<Longrightarrow> prepared_from L impl cb S q p"
    and fallback: "length ps \<noteq> 1 \<Longrightarrow> explained (sqs_justified L impl cb S) fallback"
  shows "explained (sqs_justified L impl cb S)
     (Call (q, map sp_entry ps) (\<lambda>answer. case answer of
           Inl err \<Rightarrow>
             if isSQSPermanentRequestError err
             then if length ps = 1
                  then emit (AddPoisonID (log_ID (sp_log (ps ! 0))) (error_text err) #
                         ReportFailure cb m1 (g1 err)) (Ret True None)
                  else fallback
             else emit (ReportFailure cb m2 (g2 err)) (Ret False (Some err))
         | Inr response \<Rightarrow>
             emit (success_reports ps response @
                   concat (map (failed_reports cb q ps) (Failed response)))
               (Ret (any_done response) (rejected_error L ps response))))"
proof (rule explainedI)
  fix tr d e x
  let ?body = "\<lambda>answer. case answer of
           Inl err \<Rightarrow>
             if isSQSPermanentRequestError err
             then if length ps = 1
                  then emit (AddPoisonID (log_ID (sp_log (ps ! 0))) (error_text err) #
                         ReportFailure cb m1 (g1 err)) (Ret True None)
                  else fallback
             else emit (ReportFailure cb m2 (g2 err)) (Ret False (Some err))
         | Inr response \<Rightarrow>
             emit (success_reports ps response @
                   concat (map (failed_reports cb q ps) (Failed response)))
               (Ret (any_done response) (rejected_error L ps response))"
  assume run: "runs (Call (q, map sp_entry ps) ?body) tr d e" and x: "AOut x \<in> set tr"
  then obtain answer t where t: "tr = ACall (q, map sp_entry ps) answer # t" "runs (?body answer) t d e"
    "AOut x \<in> set t"
    by (auto simp: runs_Call_iff)
  show "sqs_justified L impl cb S (set tr) x"
  proof (cases answer)
    case (Inr response)
    with t have "x \<in> set (success_reports ps response @ concat (map (failed_reports cb q ps) (Failed response)))"
      by (auto simp: runs_emit)
    then show ?thesis using batch_answer_justified[OF ps, of _ response "set tr" x] t(1) Inr by auto
  next
    case (Inl err)
    show ?thesis
    proof (cases "isSQSPermanentRequestError err \<and> length ps \<noteq> 1")
      case True
      with t Inl have "sqs_justified L impl cb S (set t) x" using explainedD[OF fallback] by auto
      then show ?thesis by (rule sj.J_mono[rotated]) (auto simp: t(1))
    next
      case False
      show ?thesis
      proof (cases "reported_id x")
        case None
        then show ?thesis by (rule silent_justified)
      next
        case (Some i)
        with False t Inl have perm: "isSQSPermanentRequestError err" and one: "length ps = 1"
          and x': "x = AddPoisonID (log_ID (sp_log (ps ! 0))) (error_text err)"
          by (auto simp: runs_Out_iff runs_emit split: if_splits)
        from one obtain p where p: "ps = [p]" by (auto simp: length_Suc_conv)
        with x' t(1) Inl perm ps show ?thesis
          by (auto intro!: single_failure_justified[of _ _ _ _ q p err])
      qed
    qed
  qed
qed

lemma explained_sendSQSBatch_one:
  assumes "prepared_from L impl cb S q p"
  shows "explained (sqs_justified L impl cb S) (sendSQSBatch L cb q [p])"
  apply (subst sendSQSBatch.simps)
  apply (simp only: list.distinct if_False)
  apply (rule sj.explained_bind)
   apply (rule explained_batch_call)
  using assms apply (auto intro: explained_Progress)
  done

lemma explained_isolated:
  assumes "\<And>p. p \<in> set ps \<Longrightarrow> prepared_from L impl cb S q p"
  shows "explained (sqs_justified L impl cb S) (sendSQSBatchIsolated L cb q ps d e)"
  using assms
proof (induction ps arbitrary: d e)
  case Nil
  then show ?case by simp
next
  case (Cons p ps)
  then show ?case by (auto intro!: sj.explained_bind explained_sendSQSBatch_one)
qed

lemma explained_sendSQSBatch:
  assumes "\<And>p. p \<in> set ps \<Longrightarrow> prepared_from L impl cb S q p"
  shows "explained (sqs_justified L impl cb S) (sendSQSBatch L cb q ps)"
proof (cases "ps = []")
  case True
  then show ?thesis by (subst sendSQSBatch.simps) simp
next
  case False
  have "explained (sqs_justified L impl cb S) (sendSQSBatchIsolated L cb q ps False None)"
    by (rule explained_isolated[OF assms])
  from False this show ?thesis
    apply (subst sendSQSBatch.simps)
    apply (simp only: if_False)
    apply (rule sj.explained_bind)
     apply (rule explained_batch_call[OF assms])
      apply (auto intro: explained_Progress)
    done
qed

lemma explained_withSemaphore:
  assumes "\<And>p. p \<in> set ps \<Longrightarrow> prepared_from L impl cb S q p"
  shows "explained (sqs_justified L impl cb S) (sendSQSBatchWithSemaphore L cb q ps)"
  unfolding sendSQSBatchWithSemaphore_def
  by (rule sj.explained_Acquire)
    (auto split: option.splits intro!: sj.explained_bind sj.explained_Release explained_sendSQSBatch assms)

lemma explained_standard:
  assumes "\<And>p. p \<in> set ps \<Longrightarrow> prepared_from L impl cb S q p"
  shows "explained (sqs_justified L impl cb S) (sendSQSStandardEvents L cb q ps)"
  unfolding sendSQSStandardEvents_def
proof (rule sj.explained_RunConcurrent)
  fix chunk
  assume "chunk \<in> set (chunkSQSStandardEvents ps)"
  then have "set chunk \<subseteq> set ps" using chunk_concat[of ps] by (metis UN_upper set_concat)
  then have "explained (sqs_justified L impl cb S) (sendSQSBatchWithSemaphore L cb q chunk)"
    using assms by (intro explained_withSemaphore) blast
  then show "explained (sqs_justified L impl cb S)
      (bind (sendSQSBatchWithSemaphore L cb q chunk) (\<lambda>_ err. Ret False err))"
    by (rule sj.explained_bind) simp
qed

text \<open>A candidate of a queue: the parsed form of an event of \<open>S\<close> addressed to it.\<close>

definition candidate_from :: "Callbacks \<Rightarrow> Event set \<Rightarrow> string \<Rightarrow> sqsCandidateEvent \<Rightarrow> bool" where
  "candidate_from cb S q c \<longleftrightarrow>
     (\<exists>evt. evt \<in> S \<and> ev_Destination evt = q \<and> snd (parseSQSCandidate cb evt) = Some c)"

lemma candidate_prepared:
  assumes "candidate_from cb S q c"
    "snd (prepareSQSEvent L impl cb c q (HasSuffix q ''.fifo'')) = Some p"
  shows "prepared_from L impl cb S q p"
proof -
  from assms(1) obtain evt where e: "evt \<in> S" "ev_Destination evt = q" "snd (parseSQSCandidate cb evt) = Some c"
    by (auto simp: candidate_from_def)
  then have p: "sqs_prepared L impl cb evt = Some p" using assms(2) by (simp add: sqs_prepared_def)
  show ?thesis using e(1,2) p sqs_prepared_log[OF p] unfolding prepared_from_def by blast
qed

lemma refused_justified:
  "evt \<in> S \<Longrightarrow> sqs_prepared L impl cb evt = None \<or> \<not> validSQSQueueURL L (ev_Destination evt) \<Longrightarrow>
     sqs_justified L impl cb S A (AddPoisonID (ev_ID evt) m)"
  unfolding sqs_justified_def sqs_rejected_def by auto

lemma prepare_justified:
  assumes c: "candidate_from cb S q c"
    and r: "r \<in> set (fst (prepareSQSEvent L impl cb c q (HasSuffix q ''.fifo'')))"
  shows "sqs_justified L impl cb S A r"
proof (cases "reported_id r")
  case None
  then show ?thesis by (rule silent_justified)
next
  case (Some i)
  from c obtain evt where e: "evt \<in> S" "ev_Destination evt = q" "snd (parseSQSCandidate cb evt) = Some c"
    by (auto simp: candidate_from_def)
  from prepare_reports[OF r Some] obtain m where
    "i = ev_ID evt" "snd (prepareSQSEvent L impl cb c q (HasSuffix q ''.fifo'')) = None" "r = AddPoisonID i m"
    using parse_event[OF e(3)] by auto
  with e show ?thesis by (auto intro!: refused_justified simp: sqs_prepared_def)
qed

lemma parse_justified:
  assumes e: "evt \<in> S" and r: "r \<in> set (fst (parseSQSCandidate cb evt))"
  shows "sqs_justified L impl cb S A r"
proof (cases "reported_id r")
  case None
  then show ?thesis by (rule silent_justified)
next
  case (Some i)
  from parse_reports[OF r Some] e show ?thesis
    by (auto intro!: refused_justified simp: sqs_prepared_def)
qed

lemma explained_fifo_group:
  assumes "HasSuffix q ''.fifo''" "\<And>c. c \<in> set cs \<Longrightarrow> candidate_from cb S q c"
  shows "explained (sqs_justified L impl cb S) (fifo_group_loop L impl cb q cs)"
  using assms(2)
proof (induction cs)
  case Nil
  then show ?case by simp
next
  case (Cons c cs)
  have rest: "explained (sqs_justified L impl cb S) (fifo_group_loop L impl cb q cs)"
    using Cons by simp
  have c: "candidate_from cb S q c" using Cons.prems by simp
  obtain rs po where prep: "prepareSQSEvent L impl cb c q True = (rs, po)" by fastforce
  have rs: "sqs_justified L impl cb S {} r" if "r \<in> set rs" for r
    using prepare_justified[OF c, of r L impl] that prep assms(1) by simp
  show ?case
  proof (cases po)
    case None
    then show ?thesis using prep rs rest by (auto intro!: sj.explained_emit)
  next
    case (Some p)
    then have "prepared_from L impl cb S q p"
      using candidate_prepared[OF c, of L impl p] prep assms(1) by simp
    then have "explained (sqs_justified L impl cb S) (sendSQSBatchWithSemaphore L cb q [p])"
      by (intro explained_withSemaphore) auto
    then show ?thesis using Some prep rs rest
      by (auto intro!: sj.explained_emit sj.explained_bind)
  qed
qed

lemma explained_fifo:
  assumes "HasSuffix q ''.fifo''" "\<And>c. c \<in> set cs \<Longrightarrow> candidate_from cb S q c"
  shows "explained (sqs_justified L impl cb S) (sendSQSFIFOEvents L impl cb q cs)"
  unfolding sendSQSFIFOEvents_def Let_def group_get_group_by
  by (rule sj.explained_RunConcurrent) (auto intro!: explained_fifo_group assms)

lemma collect_reports: "r \<in> set (fst (collect f xs)) \<longleftrightarrow> (\<exists>x. x \<in> set xs \<and> r \<in> set (fst (f x)))"
  by (auto simp: collect_def)

lemma collect_results: "y \<in> set (snd (collect f xs)) \<longleftrightarrow> (\<exists>x. x \<in> set xs \<and> snd (f x) = Some y)"
  by (simp add: collect_def in_map_filter)

lemma explained_queue:
  assumes "\<And>evt. evt \<in> set events \<Longrightarrow> evt \<in> S \<and> ev_Destination evt = q"
  shows "explained (sqs_justified L impl cb S) (sendSQSQueueEvents L impl cb q events)"
proof (cases "validSQSQueueURL L q")
  case False
  have "sqs_justified L impl cb S {} r" if "r \<in> set (map (\<lambda>evt. AddPoisonID (ev_ID evt)
      ''SQS queue URL is syntactically invalid'') events @ ReportFailure cb m s)" for r m s
    using that False assms by (auto intro: refused_justified silent_justified)
  then show ?thesis using False
    unfolding sendSQSQueueEvents_def by (auto intro!: sj.explained_emit simp del: set_append set_map)
next
  case True
  obtain rs cs where c: "collect (parseSQSCandidate cb) events = (rs, cs)" by fastforce
  have rs: "sqs_justified L impl cb S {} r" if "r \<in> set rs" for r
    using collect_reports[of r "parseSQSCandidate cb" events] that c assms by (auto intro: parse_justified)
  have cs: "candidate_from cb S q x" if "x \<in> set cs" for x
    using collect_results[of x "parseSQSCandidate cb" events] that c assms by (auto simp: candidate_from_def)
  show ?thesis
  proof (cases "HasSuffix q ''.fifo''")
    case fifo: True
    then show ?thesis using True c rs cs
      by (auto simp: sendSQSQueueEvents_def intro!: sj.explained_emit explained_fifo)
  next
    case std: False
    obtain rs' ps where p: "collect (\<lambda>candidate. prepareSQSEvent L impl cb candidate q False) cs = (rs', ps)"
      by fastforce
    have "sqs_justified L impl cb S {} r" if "r \<in> set rs'" for r
      using collect_reports[of r "\<lambda>candidate. prepareSQSEvent L impl cb candidate q False" cs] that p
        prepare_justified[OF cs, of _ r L impl] std by auto
    moreover have "prepared_from L impl cb S q x" if "x \<in> set ps" for x
      using collect_results[of x "\<lambda>candidate. prepareSQSEvent L impl cb candidate q False" cs] that p
        candidate_prepared[OF cs, of _ L impl x] std by auto
    ultimately show ?thesis using True std c p rs
      by (auto simp: sendSQSQueueEvents_def intro!: sj.explained_emit explained_standard)
  qed
qed

lemma explained_sqs_Send: "explained (sqs_justified L impl cb (set events)) (sqs_Send L impl cb events)"
  unfolding sqs_Send_def
  by (rule sj.explained_RunConcurrent) (auto intro!: explained_queue dest: group_by_entry_in)

section \<open>The sender contract holds\<close>

definition sqs_sends ::
  "golib \<Rightarrow> (float64 \<Rightarrow> 32 word) \<Rightarrow> Callbacks \<Rightarrow> Event list \<Rightarrow> sqs_act list \<Rightarrow> go_error option \<Rightarrow> bool" where
  "sqs_sends L impl cb events tr err \<longleftrightarrow> (\<exists>d. runs (sqs_Send L impl cb events) tr d err)"

interpretation sqs: provider_sender "sqs_sends L impl cb" reports_of
  "\<lambda>tr. sqs_accepted L impl cb (set tr)" "\<lambda>tr. sqs_rejected L impl cb (set tr)" for L impl cb
proof
  fix events tr err i
  assume run: "sqs_sends L impl cb events tr err" and nil: "i \<noteq> GNil"
  then have just: "sqs_justified L impl cb (set events) (set tr) x" if "AOut x \<in> set tr" for x
    using explainedD[OF explained_sqs_Send] that by (auto simp: sqs_sends_def)
  show "\<exists>evt. evt \<in> set events \<and> ev_ID evt = i \<and> sqs_accepted L impl cb (set tr) evt"
    if "i \<in> set (confirmed_ids (reports_of tr))"
    using just[of "AddConfirmedID i"] that nil by (simp add: in_confirmed_ids in_reports_of sqs_justified_def)
  show "\<exists>evt. evt \<in> set events \<and> ev_ID evt = i \<and> sqs_rejected L impl cb (set tr) evt"
    if "i \<in> set (poison_ids (reports_of tr))"
    using just that nil by (fastforce simp: in_poison_ids in_reports_of sqs_justified_def)
qed

section \<open>Sample runs\<close>

text \<open>
  Small events and a client that acknowledges every entry, on which the examples evaluate the
  whole sender.
\<close>

definition sample_callbacks :: Callbacks where
  "sample_callbacks = \<lparr> has_MarkProgress = True, has_LogFailure = True \<rparr>"

definition sample_event :: "int \<Rightarrow> string \<Rightarrow> Event" where
  "sample_event i queue = \<lparr> ev_ID = GInt64 i, ev_Payload = ''hi'', ev_Timestamp = 0,
     ev_Destination = queue, ev_Options = \<lparr> Values = [] \<rparr> \<rparr>"

definition sample_candidate :: "int \<Rightarrow> string \<Rightarrow> sqsCandidateEvent" where
  "sample_candidate i queue = \<lparr> sc_evt = sample_event i queue, sc_orderingKey = [] \<rparr>"

definition sample_prepared :: "int \<Rightarrow> bool \<Rightarrow> string \<Rightarrow> sqsPreparedEvent" where
  "sample_prepared i fifo queue =
     \<lparr> sp_log = NewPublishLog (sample_event i queue) sqs_Target, sp_messageSize = 2,
       sp_entry = \<lparr> be_ID = Itoa i, be_MessageBody = ''hi'', be_Attributes = [],
         be_MessageGroupID = (if fifo then ''outboxer-'' @ replicate 64 (CHR ''a'') else []),
         be_DeduplicationID = (if fifo then Itoa i else []),
         be_DelaySeconds = None, be_AWSXRayTraceHeader = [] \<rparr> \<rparr>"

definition accepting_client :: "sqs_request \<Rightarrow> unit \<Rightarrow> sqs_answer \<times> unit" where
  "accepting_client req w =
     (Inr \<lparr> Successful = map (\<lambda>e. \<lparr> bs_ID = be_ID e, bs_MessageID = ''m'' \<rparr>) (snd req), Failed = [] \<rparr>, ())"

definition sample_call :: "int \<Rightarrow> bool \<Rightarrow> string \<Rightarrow> sqs_act" where
  "sample_call i fifo queue =
     ACall (queue, [sp_entry (sample_prepared i fifo queue)])
       (Inr \<lparr> Successful = [\<lparr> bs_ID = Itoa i, bs_MessageID = ''m'' \<rparr>], Failed = [] \<rparr>)"

definition sample_steps :: "int \<Rightarrow> bool \<Rightarrow> string \<Rightarrow> sqs_act list" where
  "sample_steps i fifo queue = [AAcquire, sample_call i fifo queue,
     AOut (AddConfirmedID (GInt64 i)), AOut MarkProgress, ARelease]"

lemma sample_event_simps [simp]:
  "ev_ID (sample_event i q) = GInt64 i" "ev_Destination (sample_event i q) = q"
  "ev_Payload (sample_event i q) = ''hi''"
  by (simp_all add: sample_event_def)

lemma sample_Itoa: "Itoa 1 = ''1''" "Itoa 2 = ''2''"
  by (simp_all add: Itoa_def dec_nat.simps digit_char_def char_of_def bit_0)

lemma sample_body: "sqsAllowedUnicodeBytes ''hi''"
  by (simp add: sqsAllowedUnicodeBytes_def allowed_rune_def utf8_defs utf8_runes.simps)

lemma sample_parse: "parseSQSCandidate cb (sample_event i q) = ([], Some (sample_candidate i q))"
  by (simp add: parseSQSCandidate_def sample_event_def sample_candidate_def Options_String_def
      lookup_value_def)

lemma sample_patterns: "i = 1 \<or> i = 2 \<Longrightarrow> sqsBatchEntryIDPattern (Itoa i) \<and> sqsFIFOIDPattern (Itoa i)"
  by (auto simp: sample_Itoa sqsBatchEntryIDPattern_def sqsFIFOIDPattern_def alnum_def)

lemma sample_group: "fifoGroupID sample_lib (sample_candidate i q) = ''outboxer-'' @ replicate 64 (CHR ''a'')"
  by (simp add: fifoGroupID_def sample_candidate_def syntheticFIFOGroupID_def stableDigest_def sample_lib_def)

lemma sample_prepare:
  assumes "i = 1 \<or> i = 2"
  shows "prepareSQSEvent sample_lib impl cb (sample_candidate i q) q fifo = ([], Some (sample_prepared i fifo q))"
  using sample_body sample_patterns[OF assms] sample_group[of i q]
  by (simp add: prepareSQSEvent_def sample_prepared_def sample_candidate_def sample_event_def
      Options_String_def lookup_value_def sqsAttributes_def Options_Object_def sqsDelaySeconds_def
      sqsAWSTraceHeader_def isSQSPoison_def sqsMessageSize_def validSQSAttributes_def sqsMaxAttributes_def
      sqsEventMaxSizeByte_def providerSafeID_def NewPublishLog_def Let_def)

lemma sample_sqs_prepared:
  "i = 1 \<or> i = 2 \<Longrightarrow> sqs_prepared sample_lib impl cb (sample_event i q) =
     Some (sample_prepared i (HasSuffix q ''.fifo'') q)"
  by (simp add: sqs_prepared_def sample_parse sample_prepare)

lemma sample_queues: "validSQSQueueURL sample_lib ''q''" "validSQSQueueURL sample_lib ''q.fifo''"
  by (simp_all add: validSQSQueueURL_def sample_lib_def ContainsAny_def Trim_def char_of_def)

lemma sample_send_one:
  "exec accepting_client (sendSQSBatchWithSemaphore L sample_callbacks q [sample_prepared i fifo q]) () =
     ((sample_steps i fifo q, True, None), ())"
  by (simp add: sendSQSBatchWithSemaphore_def sendSQSBatch.simps accepting_client_def
      success_reports_def logsByEntryID_def sample_prepared_def NewPublishLog_def any_done_def
      rejected_error_def sample_callbacks_def Progress_def sample_steps_def sample_call_def)

lemma exec_bind:
  "exec client (bind p f) w =
     (case exec client p w of ((tr, d, e), w1) \<Rightarrow>
        (case exec client (f d e) w1 of ((tr', d', e'), w2) \<Rightarrow> ((tr @ tr', d', e'), w2)))"
  by (induction p arbitrary: w) (auto split: prod.splits)

lemma sample_run_standard:
  "exec accepting_client (sqs_Send sample_lib impl sample_callbacks [sample_event 1 ''q'']) () =
     ((sample_steps 1 False ''q'', False, None), ())"
proof -
  have "group_by ev_Destination [sample_event 1 ''q''] = [(''q'', [sample_event 1 ''q''])]"
    by (simp add: group_by_def group_append_def)
  then show ?thesis using sample_queues
    by (simp add: sqs_Send_def RunConcurrent_def sendSQSQueueEvents_def collect_def sample_parse sample_prepare
        List.map_filter_simps HasSuffix_def sendSQSStandardEvents_def chunkSQSStandardEvents_def exec_bind
        sample_send_one join_all_def)
qed

lemma sample_run_fifo:
  "exec accepting_client
       (sqs_Send sample_lib impl sample_callbacks [sample_event 1 ''q.fifo'', sample_event 2 ''q.fifo'']) () =
     ((sample_steps 1 True ''q.fifo'' @ sample_steps 2 True ''q.fifo'', False, None), ())"
proof -
  have 1: "group_by ev_Destination [sample_event 1 ''q.fifo'', sample_event 2 ''q.fifo''] =
      [(''q.fifo'', [sample_event 1 ''q.fifo'', sample_event 2 ''q.fifo''])]"
    by (simp add: group_by_def group_append_def)
  have 2: "group_by (fifoGroupID sample_lib) [sample_candidate 1 ''q.fifo'', sample_candidate 2 ''q.fifo''] =
      [(''outboxer-'' @ replicate 64 (CHR ''a''), [sample_candidate 1 ''q.fifo'', sample_candidate 2 ''q.fifo''])]"
    by (simp add: group_by_def group_append_def sample_group)
  from 1 2 show ?thesis using sample_queues
    by (simp add: sqs_Send_def RunConcurrent_def sendSQSQueueEvents_def collect_def sample_parse sample_prepare
        List.map_filter_simps HasSuffix_def sendSQSFIFOEvents_def group_get_def exec_bind
        sample_send_one join_all_def)
qed

lemmas sample_runs = exec_runs[OF sample_run_standard] exec_runs[OF sample_run_fifo]

section \<open>Properties\<close>

text \<open>
  (C8) A confirmation is never invented: in every run of \<open>Send\<close>, for every answer of the service
  and every interleaving, an ID reported through \<open>AddConfirmedID\<close> belongs to an event of the
  batch, and the service listed that event's entry as successful in the answer to a request
  that carried it to the event's queue.
\<close>

theorem sqs_confirmation_sound:
  assumes "runs (sqs_Send L impl cb events) tr d err"
    and "AddConfirmedID i \<in> set (reports_of tr)" and "i \<noteq> GNil"
  shows "\<exists>evt. evt \<in> set events \<and> ev_ID evt = i \<and> sqs_accepted L impl cb (set tr) evt"
  using assms sqs.confirm_sound[of L impl cb events tr err i] by (auto simp: sqs_sends_def in_confirmed_ids)

theorem sqs_confirmation_sound_witness:
  "\<exists>evt. evt \<in> set [sample_event 1 ''q''] \<and> ev_ID evt = GInt64 1 \<and>
     sqs_accepted sample_lib (\<lambda>_. 0) sample_callbacks (set (sample_steps 1 False ''q'')) evt"
  by (rule sqs_confirmation_sound[OF sample_runs(1)]) (auto simp: sample_steps_def in_reports_of)

text \<open>
  (C9) An event is dead-lettered only for cause: an ID reported through \<open>AddPoisonID\<close> belongs to
  an event whose queue URL or content the sender refuses, whose entry alone failed with a
  permanent request error, or whose entry the service rejected as the sender's fault.
\<close>

theorem sqs_poison_sound:
  assumes "runs (sqs_Send L impl cb events) tr d err"
    and "AddPoisonID i m \<in> set (reports_of tr)" and "i \<noteq> GNil"
  shows "\<exists>evt. evt \<in> set events \<and> ev_ID evt = i \<and> sqs_rejected L impl cb (set tr) evt"
  using assms sqs.poison_sound[of L impl cb events tr err i] by (auto simp: sqs_sends_def in_poison_ids)

definition empty_event :: Event where
  "empty_event = (sample_event 1 ''q'')\<lparr>ev_Payload := []\<rparr>"

lemma empty_prepared:
  "prepareSQSEvent sample_lib impl sample_callbacks \<lparr> sc_evt = empty_event, sc_orderingKey = [] \<rparr> ''q'' False =
     ([AddPoisonID (GInt64 1) ''Event is invalid for SQS'', LogFailure ''Failed to send event'' ''sqs|q||local-poison''], None)"
  by (simp add: prepareSQSEvent_def empty_event_def sample_event_def Options_String_def lookup_value_def
      sqsAttributes_def Options_Object_def sqsDelaySeconds_def sqsAWSTraceHeader_def isSQSPoison_def
      ReportFailure_def sample_callbacks_def sqs_Target_def)

lemma empty_parsed:
  "parseSQSCandidate cb empty_event = ([], Some \<lparr> sc_evt = empty_event, sc_orderingKey = [] \<rparr>)"
  by (simp add: parseSQSCandidate_def empty_event_def sample_event_def Options_String_def lookup_value_def)

lemma empty_run:
  "exec accepting_client (sqs_Send sample_lib impl sample_callbacks [empty_event]) () =
     (([AOut (AddPoisonID (GInt64 1) ''Event is invalid for SQS''),
        AOut (LogFailure ''Failed to send event'' ''sqs|q||local-poison'')], False, None), ())"
proof -
  have "group_by ev_Destination [empty_event] = [(''q'', [empty_event])]"
    by (simp add: group_by_def group_append_def empty_event_def)
  then show ?thesis using sample_queues
    by (simp add: sqs_Send_def RunConcurrent_def sendSQSQueueEvents_def collect_def empty_parsed empty_prepared
        List.map_filter_simps HasSuffix_def sendSQSStandardEvents_def chunkSQSStandardEvents_def join_all_def)
qed

theorem sqs_poison_sound_witness:
  "\<exists>evt. evt \<in> set [empty_event] \<and> ev_ID evt = GInt64 1 \<and>
     sqs_rejected sample_lib (\<lambda>_. 0) sample_callbacks
       (set [AOut (AddPoisonID (GInt64 1) ''Event is invalid for SQS''),
             AOut (LogFailure ''Failed to send event'' ''sqs|q||local-poison'')]) evt"
  by (rule sqs_poison_sound[OF exec_runs[OF empty_run]]) (auto simp: in_reports_of)

end
