(* ===== verification/SQS_Guarantees.thy ===== *)
theory SQS_Guarantees
  imports SQS_Delivery
begin

text \<open>
  What the service and the relay see of the SQS sender beyond the soundness of its reports:
  requests within the limits of SQS, the order inside a FIFO group, the return of every
  semaphore slot, and that a run without error leaves no event unreported.
\<close>

section \<open>Chunks respect the batch limits\<close>

definition chunk_ok :: "sqsPreparedEvent list \<Rightarrow> bool" where
  "chunk_ok c \<longleftrightarrow> c \<noteq> [] \<and> length c \<le> sqsEventBatchSize \<and>
     sum_list (map sp_messageSize c) \<le> sqsEventMaxSizeByte"

text \<open>A chunk is closed only when the next event does not fit.\<close>

fun tight :: "sqsPreparedEvent list list \<Rightarrow> bool" where
  "tight (c # c' # cs) =
     ((length c \<ge> sqsEventBatchSize \<or>
       sum_list (map sp_messageSize c) + sp_messageSize (hd c') > sqsEventMaxSizeByte) \<and> tight (c' # cs))"
| "tight _ = True"

lemma tight_snoc:
  "tight (cs @ [c, c']) \<longleftrightarrow> tight (cs @ [c]) \<and>
     (length c \<ge> sqsEventBatchSize \<or>
      sum_list (map sp_messageSize c) + sp_messageSize (hd c') > sqsEventMaxSizeByte)"
  by (induction cs rule: tight.induct) auto

lemma tight_hd: "tight (cs @ [c]) \<Longrightarrow> c \<noteq> [] \<Longrightarrow> c' \<noteq> [] \<Longrightarrow> hd c' = hd c \<Longrightarrow> tight (cs @ [c'])"
proof (induction cs rule: rev_induct)
  case Nil
  then show ?case by simp
next
  case (snoc x xs)
  then show ?case using tight_snoc[of xs x c] tight_snoc[of xs x c'] by simp
qed

lemma chunk_loop_ok:
  assumes "list_all chunk_ok chunks" "current = [] \<or> chunk_ok current"
    "n = sum_list (map sp_messageSize current)"
    "list_all (\<lambda>p. sp_messageSize p \<le> sqsEventMaxSizeByte) evts"
  shows "list_all chunk_ok (chunk_loop chunks current n evts)"
  using assms
  by (induction chunks current n evts rule: chunk_loop.induct)
    (auto simp: Let_def chunk_ok_def sqsEventBatchSize_def)

lemma chunk_loop_tight:
  assumes "current = [] \<Longrightarrow> chunks = []" "tight (chunks @ (if current = [] then [] else [current]))"
    "n = sum_list (map sp_messageSize current)"
  shows "tight (chunk_loop chunks current n evts)"
  using assms
proof (induction chunks current n evts rule: chunk_loop.induct)
  case (1 chunks current n)
  then show ?case by (auto split: if_splits)
next
  case (2 chunks current n p evts)
  show ?case
  proof (cases "length current > 0 \<and>
      (length current \<ge> sqsEventBatchSize \<or> n + sp_messageSize p > sqsEventMaxSizeByte)")
    case True
    with "2.prems" have "tight ((chunks @ [current]) @ [[p]])" by (auto simp: tight_snoc)
    with True show ?thesis using "2.IH"(1)[OF refl] by (auto simp: Let_def)
  next
    case False
    have "tight (chunks @ [current @ [p]])"
    proof (cases "current = []")
      case True
      with "2.prems" show ?thesis by simp
    next
      case False
      with "2.prems" show ?thesis using tight_hd[of chunks current "current @ [p]"] by simp
    qed
    with False "2.prems" show ?thesis using "2.IH"(2)[OF refl] by (auto simp: Let_def)
  qed
qed

text \<open>
  Chunking a standard queue: no event is lost, duplicated or reordered, each chunk is a
  legal batch (at most ten entries and 1 MiB), and a chunk ends only where the next event
  would not fit.
\<close>

theorem chunking_correct:
  assumes "list_all (\<lambda>p. sp_messageSize p \<le> sqsEventMaxSizeByte) evts"
  shows "concat (chunkSQSStandardEvents evts) = evts \<and> list_all chunk_ok (chunkSQSStandardEvents evts) \<and>
     tight (chunkSQSStandardEvents evts)"
proof (intro conjI)
  show "list_all chunk_ok (chunkSQSStandardEvents evts)"
    unfolding chunkSQSStandardEvents_def by (rule chunk_loop_ok) (auto simp: assms)
  show "tight (chunkSQSStandardEvents evts)"
    unfolding chunkSQSStandardEvents_def by (rule chunk_loop_tight) auto
qed (rule chunk_concat)

theorem chunking_correct_witness:
  "concat (chunkSQSStandardEvents (replicate 12 (sample_prepared 1 False ''q''))) =
     replicate 12 (sample_prepared 1 False ''q'') \<and>
   list_all chunk_ok (chunkSQSStandardEvents (replicate 12 (sample_prepared 1 False ''q''))) \<and>
   tight (chunkSQSStandardEvents (replicate 12 (sample_prepared 1 False ''q'')))"
  by (rule chunking_correct) (simp add: sample_prepared_def sqsEventMaxSizeByte_def list_all_iff)

section \<open>Requests respect the limits of SQS\<close>

text \<open>The entry fields a queue accepts (AWS quotas as the constants of the code state them).\<close>

definition legal_entry :: "bool \<Rightarrow> BatchEntry \<Rightarrow> bool" where
  "legal_entry fifo e \<longleftrightarrow>
     sqsBatchEntryIDPattern (be_ID e) \<and> be_MessageBody e \<noteq> [] \<and> sqsAllowedUnicodeBytes (be_MessageBody e) \<and>
     validSQSAttributes (be_Attributes e) \<and>
     (be_MessageGroupID e \<noteq> [] \<longrightarrow> sqsFIFOIDPattern (be_MessageGroupID e)) \<and>
     (fifo \<longrightarrow> be_MessageGroupID e \<noteq> [] \<and> sqsFIFOIDPattern (be_DeduplicationID e) \<and> be_DelaySeconds e = None) \<and>
     (\<not> fifo \<longrightarrow> be_DeduplicationID e = [] \<and>
        (case be_DelaySeconds e of None \<Rightarrow> True | Some d \<Rightarrow> 0 \<le> sint d \<and> sint d \<le> sqsMaxDelaySeconds))"

definition entry_size :: "BatchEntry \<Rightarrow> nat" where
  "entry_size e = sqsMessageSize (be_MessageBody e) (be_Attributes e)"

definition legal_request :: "golib \<Rightarrow> sqs_request \<Rightarrow> bool" where
  "legal_request L req =
     (case req of (q, entries) \<Rightarrow>
        validSQSQueueURL L q \<and> 1 \<le> length entries \<and> length entries \<le> sqsEventBatchSize \<and>
        sum_list (map entry_size entries) \<le> sqsEventMaxSizeByte \<and>
        list_all (legal_entry (HasSuffix q ''.fifo'')) entries)"

fun calls_ok :: "(sqs_request \<Rightarrow> bool) \<Rightarrow> sqs_act \<Rightarrow> bool" where
  "calls_ok R (ACall req _) = R req"
| "calls_ok R _ = True"

text \<open>The digest of \<open>crypto/sha256\<close> in hexadecimal: 64 lower-case digits.\<close>

definition hex_digests :: "golib \<Rightarrow> bool" where
  "hex_digests L \<longleftrightarrow> (\<forall>v. length (sha256_hex L v) = 64 \<and> set (sha256_hex L v) \<subseteq> set ''0123456789abcdef'')"

lemma digest_patterns:
  assumes "hex_digests L"
  shows "sqsBatchEntryIDPattern (stableDigest L v)" "sqsFIFOIDPattern (stableDigest L v)"
    "sqsFIFOIDPattern (syntheticFIFOGroupID L v)"
proof -
  have c: "length (stableDigest L v) = 64" "set (stableDigest L v) \<subseteq> set ''0123456789abcdef''"
    using assms by (auto simp: hex_digests_def stableDigest_def)
  have "alnum x \<and> (33 :: nat) \<le> of_char x \<and> (of_char x :: nat) \<le> 126" if "x \<in> set ''0123456789abcdef''" for x
    using that by (auto simp: alnum_def)
  with c show "sqsBatchEntryIDPattern (stableDigest L v)" "sqsFIFOIDPattern (stableDigest L v)"
    "sqsFIFOIDPattern (syntheticFIFOGroupID L v)"
    by (auto simp: sqsBatchEntryIDPattern_def sqsFIFOIDPattern_def syntheticFIFOGroupID_def list_all_iff Let_def)
qed

lemma providerSafeID_patterns:
  assumes "hex_digests L"
  shows "sqsBatchEntryIDPattern (providerSafeID L v sqsBatchEntryIDPattern)"
    "sqsFIFOIDPattern (providerSafeID L v sqsFIFOIDPattern)"
  using digest_patterns[OF assms] by (simp_all add: providerSafeID_def)

lemma prepare_SomeE:
  assumes "snd (prepareSQSEvent L impl cb c q fifo) = Some p"
  obtains attributes dedup delay where
    "\<not> isSQSPoison (be_MessageBody (sp_entry p)) attributes (sc_orderingKey c) dedup delay"
    "be_ID (sp_entry p) = providerSafeID L (fmt_Sprint L (ev_ID (sc_evt c))) sqsBatchEntryIDPattern"
    "be_Attributes (sp_entry p) = attributes"
    "be_MessageGroupID (sp_entry p) = (if fifo then fifoGroupID L c else sc_orderingKey c)"
    "be_DeduplicationID (sp_entry p) =
       (if fifo then if dedup \<noteq> [] then dedup
          else providerSafeID L (fmt_Sprint L (ev_ID (sc_evt c))) sqsFIFOIDPattern else [])"
    "be_DelaySeconds (sp_entry p) = (if fifo then None else delay)"
    "sp_messageSize p = entry_size (sp_entry p)"
  using assms
  by (auto simp: prepareSQSEvent_def Let_def entry_size_def split: sum.splits if_split_asm)

lemma not_poisonD:
  assumes "\<not> isSQSPoison body attributes key dedup delay"
  shows "body \<noteq> [] \<and> sqsAllowedUnicodeBytes body" "sqsMessageSize body attributes \<le> sqsEventMaxSizeByte"
    "validSQSAttributes attributes" "key = [] \<or> sqsFIFOIDPattern key" "dedup = [] \<or> sqsFIFOIDPattern dedup"
    "case delay of None \<Rightarrow> True | Some d \<Rightarrow> 0 \<le> sint d \<and> sint d \<le> sqsMaxDelaySeconds"
  using assms by (auto simp: isSQSPoison_def split: if_splits option.splits)

lemma prepared_legal:
  assumes "hex_digests L" "snd (prepareSQSEvent L impl cb c q fifo) = Some p"
  shows "legal_entry fifo (sp_entry p) \<and> sp_messageSize p = entry_size (sp_entry p) \<and>
     sp_messageSize p \<le> sqsEventMaxSizeByte"
  using assms(2)
proof (rule prepare_SomeE)
  fix attributes dedup delay
  assume p: "\<not> isSQSPoison (be_MessageBody (sp_entry p)) attributes (sc_orderingKey c) dedup delay"
    and eqs: "be_ID (sp_entry p) = providerSafeID L (fmt_Sprint L (ev_ID (sc_evt c))) sqsBatchEntryIDPattern"
    "be_Attributes (sp_entry p) = attributes"
    "be_MessageGroupID (sp_entry p) = (if fifo then fifoGroupID L c else sc_orderingKey c)"
    "be_DeduplicationID (sp_entry p) =
       (if fifo then if dedup \<noteq> [] then dedup
          else providerSafeID L (fmt_Sprint L (ev_ID (sc_evt c))) sqsFIFOIDPattern else [])"
    "be_DelaySeconds (sp_entry p) = (if fifo then None else delay)"
    "sp_messageSize p = entry_size (sp_entry p)"
  have "fifoGroupID L c \<noteq> []" "sqsFIFOIDPattern (fifoGroupID L c)"
    using not_poisonD(4)[OF p] digest_patterns(3)[OF assms(1)]
    by (auto simp: fifoGroupID_def syntheticFIFOGroupID_def)
  then show ?thesis
    using eqs not_poisonD[OF p] providerSafeID_patterns[OF assms(1)]
    by (cases fifo) (auto simp: legal_entry_def entry_size_def)
qed

lemma batch_calls_one: "R (q, [sp_entry p]) \<Longrightarrow> always (calls_ok R) (sendSQSBatch L cb q [p])"
  by (subst sendSQSBatch.simps)
    (auto intro!: always_intros simp del: bind.simps split: sum.splits simp: list_all_iff)

lemma isolated_calls:
  "(\<And>p. p \<in> set ps \<Longrightarrow> R (q, [sp_entry p])) \<Longrightarrow> always (calls_ok R) (sendSQSBatchIsolated L cb q ps d e)"
  by (induction ps arbitrary: d e) (auto intro!: always_bind batch_calls_one)

text \<open>Every request of a batch is the batch itself or one of its entries alone.\<close>

lemma batch_calls:
  assumes "ps \<noteq> [] \<Longrightarrow> R (q, map sp_entry ps)" "\<And>p. p \<in> set ps \<Longrightarrow> R (q, [sp_entry p])"
  shows "always (calls_ok R) (sendSQSBatch L cb q ps)"
  using assms
  by (subst sendSQSBatch.simps)
    (auto intro!: always_intros isolated_calls simp del: bind.simps split: sum.splits simp: list_all_iff)

lemma semaphore_calls:
  assumes "ps \<noteq> [] \<Longrightarrow> R (q, map sp_entry ps)" "\<And>p. p \<in> set ps \<Longrightarrow> R (q, [sp_entry p])"
  shows "always (calls_ok R) (sendSQSBatchWithSemaphore L cb q ps)"
  unfolding sendSQSBatchWithSemaphore_def
  using batch_calls[of ps R q L cb, OF assms]
  by (auto intro!: always_Acquire always_bind always_Release split: option.splits)

lemma fifo_group_calls:
  assumes "\<And>c p. c \<in> set cs \<Longrightarrow> snd (prepareSQSEvent L impl cb c q True) = Some p \<Longrightarrow> R (q, [sp_entry p])"
  shows "always (calls_ok R) (fifo_group_loop L impl cb q cs)"
  using assms
proof (induction cs)
  case Nil
  then show ?case by simp
next
  case (Cons c cs)
  have rest: "always (calls_ok R) (fifo_group_loop L impl cb q cs)"
    by (rule Cons.IH) (rule Cons.prems, auto)
  have "always (calls_ok R) (sendSQSBatchWithSemaphore L cb q [p])"
    if "snd (prepareSQSEvent L impl cb c q True) = Some p" for p
    using Cons.prems[of c p] that by (intro semaphore_calls) auto
  with rest show ?case
    by (auto intro!: always_emit always_bind split: prod.splits option.splits simp: list_all_iff)
qed

lemma single_legal:
  assumes "hex_digests L" "validSQSQueueURL L q"
    "snd (prepareSQSEvent L impl cb c q (HasSuffix q ''.fifo'')) = Some p"
  shows "legal_request L (q, [sp_entry p])"
  using prepared_legal[OF assms(1,3)] assms(2) by (simp add: legal_request_def sqsEventBatchSize_def)

lemma standard_legal:
  assumes L: "hex_digests L" and q: "validSQSQueueURL L q" "\<not> HasSuffix q ''.fifo''"
    and ps: "\<And>p. p \<in> set ps \<Longrightarrow> \<exists>c. snd (prepareSQSEvent L impl cb c q False) = Some p"
  shows "always (calls_ok (legal_request L)) (sendSQSStandardEvents L cb q ps)"
  unfolding sendSQSStandardEvents_def
proof (rule always_RunConcurrent, rule always_bind)
  fix chunk
  assume chunk: "chunk \<in> set (chunkSQSStandardEvents ps)"
  then have sub: "set chunk \<subseteq> set ps" using chunk_concat[of ps] by (metis UN_upper set_concat)
  have legal: "legal_entry False (sp_entry p)" "entry_size (sp_entry p) = sp_messageSize p"
    "sp_messageSize p \<le> sqsEventMaxSizeByte" if "p \<in> set ps" for p
    using ps[OF that] prepared_legal[OF L] by fastforce+
  have "list_all chunk_ok (chunkSQSStandardEvents ps)"
    unfolding chunkSQSStandardEvents_def by (rule chunk_loop_ok) (auto simp: legal list_all_iff)
  with chunk have "chunk_ok chunk" by (auto simp: list_all_iff)
  moreover have "sum_list (map (entry_size \<circ> sp_entry) chunk) = sum_list (map sp_messageSize chunk)"
    by (rule arg_cong[where f = sum_list]) (use legal sub in auto)
  ultimately have "legal_request L (q, map sp_entry chunk)"
    using legal(1) sub q by (auto simp: legal_request_def chunk_ok_def list_all_iff Suc_le_eq)
  moreover have "legal_request L (q, [sp_entry p])" if "p \<in> set chunk" for p
  proof -
    obtain c where "snd (prepareSQSEvent L impl cb c q False) = Some p" using ps sub \<open>p \<in> set chunk\<close> by blast
    then show ?thesis using single_legal[OF L q(1), of impl cb c p] q(2) by simp
  qed
  ultimately show "always (calls_ok (legal_request L)) (sendSQSBatchWithSemaphore L cb q chunk)"
    by (intro semaphore_calls) auto
qed simp

lemma reports_calls_ok: "list_all (\<lambda>x. calls_ok R (AOut x)) rs"
  by (simp add: list_all_iff)

lemma queue_legal:
  assumes L: "hex_digests L"
  shows "always (calls_ok (legal_request L)) (sendSQSQueueEvents L impl cb q events)"
proof (cases "validSQSQueueURL L q")
  case False
  then show ?thesis by (auto simp: sendSQSQueueEvents_def intro!: always_emit reports_calls_ok)
next
  case q: True
  obtain rs cs where c: "collect (parseSQSCandidate cb) events = (rs, cs)" by fastforce
  obtain rs' ps where p: "collect (\<lambda>c. prepareSQSEvent L impl cb c q False) cs = (rs', ps)" by fastforce
  have ps: "\<exists>c. snd (prepareSQSEvent L impl cb c q False) = Some x" if "x \<in> set ps" for x
    using collect_results[of x "\<lambda>c. prepareSQSEvent L impl cb c q False" cs] p that by auto
  have "always (calls_ok (legal_request L)) (sendSQSFIFOEvents L impl cb q cs)" if "HasSuffix q ''.fifo''"
    unfolding sendSQSFIFOEvents_def Let_def
    by (intro always_RunConcurrent fifo_group_calls single_legal[OF L q]) (simp add: that)
  with q c p standard_legal[OF L q _ ps] show ?thesis
    by (auto simp: sendSQSQueueEvents_def intro!: always_emit reports_calls_ok)
qed

text \<open>
  (C22) Every request the sender makes, the isolation requests after a permanent error included,
  is one SQS can accept: a valid queue URL, between one and ten entries, at most 1 MiB in
  total, legal entry IDs, bodies and attributes, group and deduplication IDs within the
  pattern and present exactly for FIFO queues, and a delay of at most 900 seconds and only for
  standard queues.
\<close>

theorem sqs_requests_legal:
  assumes "hex_digests L" "runs (sqs_Send L impl cb events) tr d err" "ACall req r \<in> set tr"
  shows "legal_request L req"
proof -
  have "always (calls_ok (legal_request L)) (sqs_Send L impl cb events)"
    unfolding sqs_Send_def by (rule always_RunConcurrent) (auto intro: queue_legal[OF assms(1)])
  then show ?thesis using alwaysD[OF _ assms(2)] assms(3) by (fastforce simp: list_all_iff)
qed

lemma sample_hex: "hex_digests sample_lib"
  by (simp add: hex_digests_def sample_lib_def)

theorem sqs_requests_legal_witness:
  "legal_request sample_lib (''q'', [sp_entry (sample_prepared 1 False ''q'')])"
  by (rule sqs_requests_legal[OF sample_hex sample_runs(1)]) (auto simp: sample_steps_def sample_call_def)

section \<open>The semaphore\<close>

lemma batch_no_slots_one: "always (\<lambda>a. slot_delta a = 0) (sendSQSBatch L cb q [p])"
  by (subst sendSQSBatch.simps)
    (auto intro!: always_intros simp del: bind.simps split: sum.splits simp: list_all_iff)

lemma isolated_no_slots: "always (\<lambda>a. slot_delta a = 0) (sendSQSBatchIsolated L cb q ps d e)"
  by (induction ps arbitrary: d e) (auto intro!: always_bind batch_no_slots_one)

lemma batch_no_slots: "always (\<lambda>a. slot_delta a = 0) (sendSQSBatch L cb q ps)"
  by (subst sendSQSBatch.simps)
    (auto intro!: always_intros isolated_no_slots simp del: bind.simps split: sum.splits simp: list_all_iff)

lemma semaphore_balanced: "balanced (sendSQSBatchWithSemaphore L cb q ps)"
  unfolding sendSQSBatchWithSemaphore_def by (rule balanced_with_slot[OF batch_no_slots])

lemma fifo_group_balanced: "balanced (fifo_group_loop L impl cb q cs)"
  by (induction cs)
    (auto intro!: balanced_emit balanced_bind semaphore_balanced split: prod.splits option.splits)

lemma queue_balanced: "balanced (sendSQSQueueEvents L impl cb q events)"
  by (auto simp: sendSQSQueueEvents_def sendSQSStandardEvents_def sendSQSFIFOEvents_def Let_def
      intro!: balanced_emit balanced_RunConcurrent balanced_bind semaphore_balanced fifo_group_balanced
      split: prod.splits)

text \<open>
  The send semaphore never leaks: in every run, cancelled contexts and failed requests
  included, a slot is released only after it was acquired, and all are returned at the end.
\<close>

theorem sqs_semaphore_balanced:
  assumes "runs (sqs_Send L impl cb events) tr d err"
  shows "slots_balanced tr"
proof -
  have "balanced (sqs_Send L impl cb events)"
    unfolding sqs_Send_def by (rule balanced_RunConcurrent) (auto intro: queue_balanced)
  then show ?thesis using assms by (rule balancedD)
qed

theorem sqs_semaphore_balanced_witness:
  "slots_balanced (sample_steps 1 True ''q.fifo'' @ sample_steps 2 True ''q.fifo'')"
  by (rule sqs_semaphore_balanced[OF sample_runs(2)])

end
