(* ===== verification/SQS_Ordering.thy ===== *)
theory SQS_Ordering
  imports SQS_Guarantees
begin

text \<open>
  The two guarantees of the SQS sender that span several requests: the events of one FIFO group
  are sent strictly one after the other, and a run that returns no error has reported every
  event.
\<close>

section \<open>Well-behaved answers\<close>

text \<open>An answer lists only entries of its request, and a complete one lists all of them.\<close>

definition response_ids :: "BatchResponse \<Rightarrow> string set" where
  "response_ids r = bs_ID ` set (Successful r) \<union> bf_ID ` set (Failed r)"

fun answers_match :: "sqs_act \<Rightarrow> bool" where
  "answers_match (ACall (q, entries) (Inr r)) = (response_ids r \<subseteq> be_ID ` set entries)"
| "answers_match _ = True"

fun answers_complete :: "sqs_act \<Rightarrow> bool" where
  "answers_complete (ACall (q, entries) (Inr r)) = (response_ids r = be_ID ` set entries)"
| "answers_complete _ = True"

fun reports_about :: "goval \<Rightarrow> sqs_act \<Rightarrow> bool" where
  "reports_about i (AOut r) = (reported_id r = Some i)"
| "reports_about i _ = False"

lemma reports_about_report: "reports_about i a \<Longrightarrow> \<exists>r. a = AOut r \<and> reported_id r = Some i"
  by (cases a) auto

fun requests_entry :: "string \<Rightarrow> sqs_act \<Rightarrow> bool" where
  "requests_entry k (ACall (q, entries) _) = (k \<in> be_ID ` set entries)"
| "requests_entry k _ = False"

definition entry_id :: "golib \<Rightarrow> Event \<Rightarrow> string" where
  "entry_id L evt = providerSafeID L (fmt_Sprint L (ev_ID evt)) sqsBatchEntryIDPattern"

lemma logsByEntryID_distinct:
  assumes "distinct (map (be_ID \<circ> sp_entry) ps)" "p \<in> set ps"
  shows "logsByEntryID ps (be_ID (sp_entry p)) = sp_log p"
proof -
  let ?m = "rev (map (\<lambda>evt. (be_ID (sp_entry evt), sp_log evt)) ps)"
  have "distinct (map fst ?m)" using assms(1) by (simp add: comp_def flip: rev_map)
  then have "map_of ?m (be_ID (sp_entry p)) = Some (sp_log p)"
    by (rule map_of_is_SomeI) (use assms(2) in auto)
  then show ?thesis by (simp add: logsByEntryID_def)
qed

section \<open>One request\<close>

lemma prepare_None_reported:
  assumes "snd (prepareSQSEvent L impl cb c q fifo) = None"
  shows "\<exists>r. r \<in> set (fst (prepareSQSEvent L impl cb c q fifo)) \<and> reported_id r = Some (ev_ID (sc_evt c))"
  using assms
  by (auto simp: prepareSQSEvent_def Let_def RejectMalformedOptions_def split: sum.splits if_split_asm)

lemma parse_None_reported:
  assumes "snd (parseSQSCandidate cb evt) = None"
  shows "\<exists>r. r \<in> set (fst (parseSQSCandidate cb evt)) \<and> reported_id r = Some (ev_ID evt)"
  using assms by (auto simp: parseSQSCandidate_def RejectMalformedOptions_def split: sum.splits)

text \<open>A request for one entry that is \<open>done\<close> has reported that entry's event.\<close>

lemma answer_done_reported:
  assumes "any_done response" "response_ids response \<subseteq> {be_ID (sp_entry p)}"
  shows "\<exists>r. r \<in> set (success_reports [p] response @ concat (map (failed_reports cb q [p]) (Failed response))) \<and>
     reported_id r = Some (log_ID (sp_log p))"
proof -
  have l: "logsByEntryID [p] (be_ID (sp_entry p)) = sp_log p" by (simp add: logsByEntryID_def)
  from assms(1) consider s where "s \<in> set (Successful response)" | f where "f \<in> set (Failed response)" "bf_SenderFault f"
    by (cases "Successful response") (auto simp: any_done_def list_ex_iff)
  then show ?thesis
  proof cases
    case 1
    then have "bs_ID s = be_ID (sp_entry p)" using assms(2) by (auto simp: response_ids_def)
    with 1 l show ?thesis by (auto simp: success_reports_def intro!: bexI[of _ s])
  next
    case 2
    then have "bf_ID f = be_ID (sp_entry p)" using assms(2) by (auto simp: response_ids_def)
    with 2 l have "AddPoisonID (log_ID (sp_log p)) (failure_reason f) \<in> set (failed_reports cb q [p] f)"
      by (simp add: failed_reports_def)
    with 2(1) show ?thesis by fastforce
  qed
qed

text \<open>What happens after the answer to a request, and the shape of every run of a request.\<close>

fun batch_outcome ::
  "golib \<Rightarrow> Callbacks \<Rightarrow> string \<Rightarrow> sqsPreparedEvent list \<Rightarrow> sqs_answer \<Rightarrow> sqs_act list \<Rightarrow> bool \<Rightarrow>
     go_error option \<Rightarrow> bool" where
  "batch_outcome L cb q ps (Inl err) t d e =
     (if isSQSPermanentRequestError err
      then if length ps = 1
           then t = map AOut (AddPoisonID (log_ID (sp_log (ps ! 0))) (error_text err) #
                  ReportFailure cb ''Failed to send event''
                    (sqs_Target @ ''|'' @ q @ ''|'' @ error_text err)) \<and> d \<and> e = None
           else runs (sendSQSBatchIsolated L cb q ps False None) t d e
      else t = map AOut (ReportFailure cb ''Failed to send event batch''
             (sqs_Target @ ''|'' @ q @ ''|'' @ error_text err)) \<and> \<not> d \<and> e = Some err)"
| "batch_outcome L cb q ps (Inr response) t d e =
     (t = map AOut (success_reports ps response @ concat (map (failed_reports cb q ps) (Failed response))) \<and>
      d = any_done response \<and> e = rejected_error L ps response)"

lemma sendSQSBatch_run:
  assumes "runs (sendSQSBatch L cb q ps) tr d e" "ps \<noteq> []"
  shows "\<exists>answer t. tr = ACall (q, map sp_entry ps) answer # t @ map AOut (Progress cb) \<and>
     batch_outcome L cb q ps answer t d e"
proof -
  let ?body = "\<lambda>answer. case answer of
           Inl err \<Rightarrow>
             if isSQSPermanentRequestError err
             then if length ps = 1
                  then emit (AddPoisonID (log_ID (sp_log (ps ! 0))) (error_text err) #
                         ReportFailure cb ''Failed to send event''
                           (sqs_Target @ ''|'' @ q @ ''|'' @ error_text err))
                       (Ret True None)
                  else sendSQSBatchIsolated L cb q ps False None
             else emit (ReportFailure cb ''Failed to send event batch''
                    (sqs_Target @ ''|'' @ q @ ''|'' @ error_text err))
                  (Ret False (Some err))
         | Inr response \<Rightarrow>
             emit (success_reports ps response @
                   concat (map (failed_reports cb q ps) (Failed response)))
               (Ret (any_done response) (rejected_error L ps response))"
  obtain t where t: "tr = t @ map AOut (Progress cb)" "runs (Call (q, map sp_entry ps) ?body) t d e"
    using assms by (subst (asm) sendSQSBatch.simps) (auto simp del: bind.simps simp: runs_bind runs_emit)
  from t(2) obtain answer u where
    u: "t = ACall (q, map sp_entry ps) answer # u" and r: "runs (?body answer) u d e"
    by (subst (asm) runs_Call_iff) blast
  have "batch_outcome L cb q ps answer u d e"
    using r by (cases answer) (auto simp: runs_Out_iff runs_emit split: if_splits)
  with t(1) u show ?thesis by auto
qed

lemma send_one_done:
  assumes "runs (sendSQSBatch L cb q [p]) tr d e" "list_all answers_match tr" "d"
  shows "\<exists>a. a \<in> set tr \<and> reports_about (log_ID (sp_log p)) a"
proof -
  from sendSQSBatch_run[OF assms(1)] obtain answer t where
    t: "tr = ACall (q, map sp_entry [p]) answer # t @ map AOut (Progress cb)" "batch_outcome L cb q [p] answer t d e"
    by auto
  show ?thesis
  proof (cases answer)
    case (Inl err)
    with t assms(3) have "AOut (AddPoisonID (log_ID (sp_log p)) (error_text err)) \<in> set tr"
      by (auto split: if_splits)
    then show ?thesis by force
  next
    case (Inr response)
    with t(2) assms(3) have dn: "any_done response"
      and out: "t = map AOut (success_reports [p] response @ concat (map (failed_reports cb q [p]) (Failed response)))"
      by auto
    have "response_ids response \<subseteq> {be_ID (sp_entry p)}" using assms(2) t(1) Inr by auto
    from answer_done_reported[OF dn this, of cb q] obtain r where
      r: "r \<in> set (success_reports [p] response @ concat (map (failed_reports cb q [p]) (Failed response)))"
        "reported_id r = Some (log_ID (sp_log p))" by blast
    have "AOut r \<in> set tr" using r(1) unfolding t(1) out by auto
    then show ?thesis using r(2) by force
  qed
qed

lemma send_one_semaphore_done:
  assumes "runs (sendSQSBatchWithSemaphore L cb q [p]) tr d e" "list_all answers_match tr" "d"
  shows "\<exists>a. a \<in> set tr \<and> reports_about (log_ID (sp_log p)) a"
proof -
  from assms obtain t where "runs (sendSQSBatch L cb q [p]) t d e" "set t \<subseteq> set tr"
    by (fastforce simp: sendSQSBatchWithSemaphore_def runs_Acquire_iff runs_bind runs_Release_iff)
  then show ?thesis using send_one_done[of L cb q p t d e] assms(2,3) by (auto simp: list_all_iff)
qed

section \<open>Which entries a program requests\<close>

definition only_entries :: "string set \<Rightarrow> sqs_request \<Rightarrow> bool" where
  "only_entries I req \<longleftrightarrow> be_ID ` set (snd req) \<subseteq> I"

lemma never_requests:
  assumes "always (calls_ok (only_entries I)) p" "k \<notin> I"
  shows "always (\<lambda>a. \<not> requests_entry k a) p"
proof -
  have "calls_ok (only_entries I) a \<Longrightarrow> \<not> requests_entry k a" for a
    using assms(2) by (cases a) (auto simp: only_entries_def, blast)
  then show ?thesis using assms(1) by (auto simp: always_def list_all_iff)
qed

lemma prepared_entry_id:
  "snd (prepareSQSEvent L impl cb c q fifo) = Some p \<Longrightarrow> be_ID (sp_entry p) = entry_id L (sc_evt c)"
  by (simp add: entry_id_def prepare_body)

lemma group_only:
  assumes "entry_id L ` sc_evt ` set cs \<subseteq> I"
  shows "always (calls_ok (only_entries I)) (fifo_group_loop L impl cb q cs)"
  using assms by (intro fifo_group_calls) (auto simp: only_entries_def prepared_entry_id)

lemma standard_only:
  assumes "be_ID ` sp_entry ` set ps \<subseteq> I"
  shows "always (calls_ok (only_entries I)) (sendSQSStandardEvents L cb q ps)"
  unfolding sendSQSStandardEvents_def
proof (rule always_RunConcurrent, rule always_bind)
  fix chunk
  assume "chunk \<in> set (chunkSQSStandardEvents ps)"
  then have "set chunk \<subseteq> set ps" using chunk_concat[of ps] by (metis UN_upper set_concat)
  then show "always (calls_ok (only_entries I)) (sendSQSBatchWithSemaphore L cb q chunk)"
    using assms by (intro semaphore_calls) (auto simp: only_entries_def)
qed simp

lemma queue_only: "always (calls_ok (only_entries (entry_id L ` set events))) (sendSQSQueueEvents L impl cb q events)"
proof -
  obtain rs cs where c: "collect (parseSQSCandidate cb) events = (rs, cs)" by fastforce
  obtain rs' ps where p: "collect (\<lambda>c. prepareSQSEvent L impl cb c q False) cs = (rs', ps)" by fastforce
  have cs: "entry_id L ` sc_evt ` set cs \<subseteq> entry_id L ` set events"
    using collect_results[of _ "parseSQSCandidate cb" events] c by (auto dest!: parse_event)
  have "be_ID ` sp_entry ` set ps \<subseteq> entry_id L ` sc_evt ` set cs"
    using collect_results[of _ "\<lambda>c. prepareSQSEvent L impl cb c q False" cs] p
    by (auto dest!: prepared_entry_id)
  with cs have ps: "be_ID ` sp_entry ` set ps \<subseteq> entry_id L ` set events" by (rule subset_trans[rotated])
  have "always (calls_ok (only_entries (entry_id L ` set events))) (sendSQSFIFOEvents L impl cb q cs)"
    unfolding sendSQSFIFOEvents_def Let_def group_get_group_by
    by (rule always_RunConcurrent, rule group_only) (use cs in auto)
  with c p standard_only[OF ps] show ?thesis
    by (auto simp: sendSQSQueueEvents_def intro!: always_emit reports_calls_ok)
qed

section \<open>FIFO order\<close>

lemma fifo_group_ordered:
  assumes "before c1 c2 cs" "distinct (map (entry_id L \<circ> sc_evt) cs)"
  shows "ordered answers_match (reports_about (ev_ID (sc_evt c1)))
     (requests_entry (entry_id L (sc_evt c2))) (fifo_group_loop L impl cb q cs)"
  using assms
proof (induction cs)
  case Nil
  then show ?case by (simp add: before_def)
next
  case (Cons c cs)
  let ?A = "reports_about (ev_ID (sc_evt c1))" and ?B = "requests_entry (entry_id L (sc_evt c2))"
  have c2: "c2 \<in> set cs" using before_Cons[OF Cons.prems(1)] before_set by fast
  then have ne: "entry_id L (sc_evt c) \<noteq> entry_id L (sc_evt c2)" using Cons.prems(2) by auto
  obtain rs po where prep: "prepareSQSEvent L impl cb c q True = (rs, po)" by fastforce
  have rest: "c = c1 \<or> ordered answers_match ?A ?B (fifo_group_loop L impl cb q cs)"
    using before_Cons[OF Cons.prems(1)] Cons.IH Cons.prems(2) by auto
  show ?case
  proof (cases po)
    case None
    then have "c = c1 \<Longrightarrow> \<exists>x. x \<in> set rs \<and> ?A (AOut x)"
      using prepare_None_reported[of L impl cb c q True] prep by simp
    then show ?thesis using None prep rest by (auto intro!: ordered_emit)
  next
    case (Some p)
    have id: "be_ID (sp_entry p) = entry_id L (sc_evt c)" "log_ID (sp_log p) = ev_ID (sc_evt c)"
      using prepared_entry_id[of L impl cb c q True p] prepare_log[of L impl cb c q True p] prep Some by auto
    have never: "always (\<lambda>a. \<not> ?B a) (sendSQSBatchWithSemaphore L cb q [p])"
      by (rule never_requests[where I = "{be_ID (sp_entry p)}"], rule semaphore_calls)
        (use id ne in \<open>auto simp: only_entries_def\<close>)
    have "ordered answers_match ?A ?B (bind (sendSQSBatchWithSemaphore L cb q [p])
        (\<lambda>done err. if err \<noteq> None then Ret False err else if \<not> done then Ret False None
           else fifo_group_loop L impl cb q cs))"
    proof (rule ordered_bind[OF never])
      fix tr d e
      assume "runs (sendSQSBatchWithSemaphore L cb q [p]) tr d e" "list_all answers_match tr"
      then have "c = c1 \<Longrightarrow> d \<Longrightarrow> \<exists>a. a \<in> set tr \<and> ?A a"
        using send_one_semaphore_done[of L cb q p tr d e] id by simp
      with rest show "(\<exists>a. a \<in> set tr \<and> ?A a) \<or> ordered answers_match ?A ?B
          (if e \<noteq> None then Ret False e else if \<not> d then Ret False None else fifo_group_loop L impl cb q cs)"
        by (auto intro: ordered_never)
    qed
    then show ?thesis using Some prep by (auto intro!: ordered_emit)
  qed
qed

lemma fifo_queue_ordered:
  assumes e: "before e1 e2 events" and d: "distinct (map (entry_id L) events)"
    and q: "HasSuffix q ''.fifo''"
    and c: "snd (parseSQSCandidate cb e1) = Some c1" "snd (parseSQSCandidate cb e2) = Some c2"
      "fifoGroupID L c1 = fifoGroupID L c2"
  shows "ordered answers_match (reports_about (ev_ID e1)) (requests_entry (entry_id L e2))
     (sendSQSQueueEvents L impl cb q events)"
proof -
  let ?A = "reports_about (ev_ID e1)" and ?B = "requests_entry (entry_id L e2)"
  obtain rs cs where cs: "collect (parseSQSCandidate cb) events = (rs, cs)" by fastforce
  then have cs': "cs = List.map_filter (\<lambda>x. snd (parseSQSCandidate cb x)) events" by (auto simp: collect_def)
  have ev: "sc_evt c1 = e1" "sc_evt c2 = e2" using c by (auto dest: parse_event)
  have dist: "distinct (map (entry_id L \<circ> sc_evt) cs)"
    unfolding cs' by (rule distinct_map_of_map_filter[OF d]) (auto dest: parse_event)
  have bef: "before c1 c2 cs" unfolding cs' by (rule before_map_filter[OF e]) (use c in auto)
  have "ordered answers_match ?A ?B (sendSQSFIFOEvents L impl cb q cs)"
    unfolding sendSQSFIFOEvents_def Let_def group_get_group_by
  proof (rule ordered_RunConcurrent)
    fix g
    let ?cs = "filter (\<lambda>x. fifoGroupID L x = g) cs"
    show "ordered answers_match ?A ?B (fifo_group_loop L impl cb q ?cs)"
    proof (cases "g = fifoGroupID L c2")
      case True
      have "before c1 c2 ?cs" by (rule before_filter[OF bef]) (use True c in auto)
      moreover have "distinct (map (entry_id L \<circ> sc_evt) ?cs)" using dist by (rule distinct_map_filter)
      ultimately show ?thesis using fifo_group_ordered[of c1 c2 ?cs L impl cb q] ev by simp
    next
      case False
      have "entry_id L e2 \<notin> entry_id L ` sc_evt ` set ?cs"
      proof
        assume "entry_id L e2 \<in> entry_id L ` sc_evt ` set ?cs"
        then obtain x where x: "x \<in> set cs" "fifoGroupID L x = g" "entry_id L (sc_evt x) = entry_id L (sc_evt c2)"
          using ev by auto
        then have "x = c2" using dist before_set[OF bef] by (auto simp: distinct_map inj_on_def)
        with x(2) False show False by simp
      qed
      then show ?thesis by (intro ordered_never never_requests[OF group_only[OF order_refl]])
    qed
  qed
  moreover have "ordered answers_match ?A ?B (Ret False None)" by (simp add: ordered_never)
  ultimately show ?thesis using q cs by (auto simp: sendSQSQueueEvents_def intro!: ordered_emit)
qed

text \<open>
  (C15) FIFO order: let two events of the batch go to the same FIFO queue and group, the earlier
  one first. Whatever the interleaving, no request carries the later event before the earlier
  one has been reported, confirmed or poisoned, provided answers name only entries of their
  request. A failed or unanswered earlier event therefore holds back the rest of its group.
\<close>

theorem sqs_fifo_order:
  assumes run: "runs (sqs_Send L impl cb events) tr d err"
    and ids: "distinct (map (entry_id L) events)"
    and answers: "list_all answers_match tr"
    and events: "before e1 e2 events"
    and queue: "ev_Destination e1 = ev_Destination e2" "HasSuffix (ev_Destination e2) ''.fifo''"
    and grp: "snd (parseSQSCandidate cb e1) = Some c1" "snd (parseSQSCandidate cb e2) = Some c2"
      "fifoGroupID L c1 = fifoGroupID L c2"
  shows "precedes (reports_about (ev_ID e1)) (requests_entry (entry_id L e2)) tr"
proof -
  let ?A = "reports_about (ev_ID e1)" and ?B = "requests_entry (entry_id L e2)"
  have "ordered answers_match ?A ?B (sqs_Send L impl cb events)"
    unfolding sqs_Send_def
  proof (rule ordered_RunConcurrent)
    fix g
    assume "g \<in> set (group_by ev_Destination events)"
    then obtain q evs where g: "g = (q, evs)" "evs = filter (\<lambda>x. ev_Destination x = q) events"
      by (metis group_by_entry surj_pair)
    have "ordered answers_match ?A ?B (sendSQSQueueEvents L impl cb q evs)"
    proof (cases "q = ev_Destination e2")
      case True
      have "before e1 e2 evs" unfolding g(2) by (rule before_filter[OF events]) (use True queue in auto)
      moreover have "distinct (map (entry_id L) evs)" unfolding g(2) using ids by (rule distinct_map_filter)
      ultimately show ?thesis using fifo_queue_ordered[OF _ _ _ grp] True queue by blast
    next
      case False
      have "entry_id L e2 \<notin> entry_id L ` set evs"
        using ids before_set[OF events] False by (auto simp: g(2) distinct_map inj_on_def)
      then show ?thesis by (intro ordered_never never_requests[OF queue_only])
    qed
    then show "ordered answers_match ?A ?B (case g of (queue, queueEvents) \<Rightarrow> sendSQSQueueEvents L impl cb queue queueEvents)"
      using g(1) by simp
  qed
  then show ?thesis using run answers by (rule orderedD)
qed

lemma sample_entry_ids: "distinct (map (entry_id sample_lib) [sample_event 1 q, sample_event 2 q])"
  using sample_patterns[of 1] sample_patterns[of 2] by (simp add: entry_id_def providerSafeID_def sample_Itoa)

lemma sample_before: "before x y [x, y]"
  unfolding before_def by (rule exI[of _ "[]"], rule exI[of _ "[]"], rule exI[of _ "[]"]) simp

theorem sqs_fifo_order_witness:
  "precedes (reports_about (GInt64 1)) (requests_entry (entry_id sample_lib (sample_event 2 ''q.fifo'')))
     (sample_steps 1 True ''q.fifo'' @ sample_steps 2 True ''q.fifo'')"
  using sqs_fifo_order[OF sample_runs(2) sample_entry_ids, of "sample_event 1 ''q.fifo''" "sample_event 2 ''q.fifo''"
      "sample_candidate 1 ''q.fifo''" "sample_candidate 2 ''q.fifo''"]
  by (simp add: sample_steps_def sample_call_def sample_prepared_def response_ids_def sample_before HasSuffix_def
      sample_parse sample_group)

section \<open>A run without error settles the batch\<close>

lemma rejected_error_None: "rejected_error L ps response = None \<Longrightarrow> list_all bf_SenderFault (Failed response)"
proof -
  let ?f = "\<lambda>rejected entry. if bf_SenderFault entry then rejected
        else errors_Join [rejected, Some (ErrorString
          (''entry '' @ fmt_Sprint L (log_ID (logsByEntryID ps (bf_ID entry))) @
           '' rejected: '' @ failure_reason entry))]"
  have "foldl ?f None fs = None \<Longrightarrow> list_all bf_SenderFault fs" for fs
    by (induction fs rule: rev_induct) (auto split: if_splits)
  then show "rejected_error L ps response = None \<Longrightarrow> list_all bf_SenderFault (Failed response)"
    by (simp add: rejected_error_def)
qed

lemma answer_settles:
  assumes "distinct (map (be_ID \<circ> sp_entry) ps)" "p \<in> set ps"
    and "response_ids response = be_ID ` set (map sp_entry ps)" "rejected_error L ps response = None"
  shows "\<exists>r. r \<in> set (success_reports ps response @ concat (map (failed_reports cb q ps) (Failed response))) \<and>
     reported_id r = Some (log_ID (sp_log p))"
proof -
  have l: "logsByEntryID ps (be_ID (sp_entry p)) = sp_log p" by (rule logsByEntryID_distinct[OF assms(1,2)])
  have "be_ID (sp_entry p) \<in> response_ids response" using assms(2,3) by auto
  then consider s where "s \<in> set (Successful response)" "bs_ID s = be_ID (sp_entry p)"
    | f where "f \<in> set (Failed response)" "bf_ID f = be_ID (sp_entry p)"
    by (fastforce simp: response_ids_def)
  then show ?thesis
  proof cases
    case 1
    with l show ?thesis by (auto simp: success_reports_def intro!: bexI[of _ s])
  next
    case 2
    with rejected_error_None[OF assms(4)] l
    have "AddPoisonID (log_ID (sp_log p)) (failure_reason f) \<in> set (failed_reports cb q ps f)"
      by (auto simp: failed_reports_def list_all_iff)
    with 2(1) show ?thesis by fastforce
  qed
qed

lemma batch_settles_direct:
  assumes "distinct (map (be_ID \<circ> sp_entry) ps)" "p \<in> set ps"
    and "length ps \<noteq> 1 \<Longrightarrow>
      achieves answers_complete (reports_about (log_ID (sp_log p))) (sendSQSBatchIsolated L cb q ps False None)"
  shows "achieves answers_complete (reports_about (log_ID (sp_log p))) (sendSQSBatch L cb q ps)"
proof (rule achievesI)
  fix tr d
  assume "runs (sendSQSBatch L cb q ps) tr d None" and H: "list_all answers_complete tr"
  then obtain answer t where
    t: "tr = ACall (q, map sp_entry ps) answer # t @ map AOut (Progress cb)" "batch_outcome L cb q ps answer t d None"
    using sendSQSBatch_run[of L cb q ps tr d None] assms(2) by fastforce
  have "\<exists>a. a \<in> set t \<and> reports_about (log_ID (sp_log p)) a"
  proof (cases answer)
    case (Inr response)
    from answer_settles[OF assms(1,2), of response L cb q] Inr H t show ?thesis by fastforce
  next
    case (Inl err)
    with t(2) have perm: "isSQSPermanentRequestError err" by (auto split: if_splits)
    show ?thesis
    proof (cases "length ps = 1")
      case True
      then have "ps ! 0 = p" using assms(2) by (auto simp: length_Suc_conv)
      with True t(2) Inl perm show ?thesis by auto
    next
      case False
      have "runs (sendSQSBatchIsolated L cb q ps False None) t d None" using False t(2) Inl perm by simp
      moreover have "list_all answers_complete t" using H t(1) by simp
      ultimately show ?thesis using achievesD[OF assms(3)[OF False]] by blast
    qed
  qed
  with t(1) show "\<exists>a. a \<in> set tr \<and> reports_about (log_ID (sp_log p)) a" by auto
qed

text \<open>An error met on the way stays in the joined error.\<close>

lemma isolated_keeps_error: "runs (sendSQSBatchIsolated L cb q ps d0 (Some j)) tr d e \<Longrightarrow> e \<noteq> None"
proof (induction ps arbitrary: d0 j tr)
  case Nil
  then show ?case by simp
next
  case (Cons p ps)
  then obtain t u d' e' where
    "runs (sendSQSBatchIsolated L cb q ps (d0 \<or> d') (if e' \<noteq> None then errors_Join [Some j, e'] else Some j)) u d e"
    by (auto simp: runs_bind)
  moreover obtain k where "(if e' \<noteq> None then errors_Join [Some j, e'] else Some j) = Some k"
    by (cases e') auto
  ultimately show ?case using Cons.IH[of "d0 \<or> d'" k u] by simp
qed

lemma isolated_settles:
  assumes "p \<in> set ps"
  shows "achieves answers_complete (reports_about (log_ID (sp_log p))) (sendSQSBatchIsolated L cb q ps d e)"
  using assms
proof (induction ps arbitrary: d e)
  case Nil
  then show ?case by simp
next
  case (Cons x ps)
  let ?G = "reports_about (log_ID (sp_log p))"
  show ?case
    unfolding sendSQSBatchIsolated.simps
  proof (rule achieves_bind)
    fix tr d' e'
    assume r: "runs (sendSQSBatch L cb q [x]) tr d' e'" "list_all answers_complete tr"
    show "(\<exists>a. a \<in> set tr \<and> ?G a) \<or> achieves answers_complete ?G
        (sendSQSBatchIsolated L cb q ps (d \<or> d') (if e' \<noteq> None then errors_Join [e, e'] else e))"
    proof (cases "e' = None")
      case True
      have "achieves answers_complete (reports_about (log_ID (sp_log x))) (sendSQSBatch L cb q [x])"
        by (rule batch_settles_direct) auto
      with r True Cons show ?thesis by (auto dest: achievesD)
    next
      case False
      then obtain j where "errors_Join [e, e'] = Some j" by (cases "errors_Join [e, e']") auto
      with False show ?thesis by (auto simp: achieves_def dest: isolated_keeps_error)
    qed
  qed
qed

lemma batch_settles:
  assumes "distinct (map (be_ID \<circ> sp_entry) ps)" "p \<in> set ps"
  shows "achieves answers_complete (reports_about (log_ID (sp_log p))) (sendSQSBatch L cb q ps)"
  by (rule batch_settles_direct[OF assms]) (rule isolated_settles[OF assms(2)])

lemma semaphore_settles:
  assumes "distinct (map (be_ID \<circ> sp_entry) ps)" "p \<in> set ps"
  shows "achieves answers_complete (reports_about (log_ID (sp_log p))) (sendSQSBatchWithSemaphore L cb q ps)"
proof (rule achievesI)
  fix tr d
  assume "runs (sendSQSBatchWithSemaphore L cb q ps) tr d None" and H: "list_all answers_complete tr"
  then obtain t where "tr = AAcquire # t @ [ARelease]" "runs (sendSQSBatch L cb q ps) t d None"
    by (auto simp: sendSQSBatchWithSemaphore_def runs_Acquire_iff runs_bind runs_Release_iff)
  then show "\<exists>a. a \<in> set tr \<and> reports_about (log_ID (sp_log p)) a"
    using achievesD[OF batch_settles[OF assms]] H by fastforce
qed

lemma complete_match: "answers_complete a \<Longrightarrow> answers_match a"
  by (cases a rule: answers_complete.cases) auto

lemma rejected_error_done:
  "response_ids response = {k} \<Longrightarrow> rejected_error L ps response = None \<Longrightarrow> any_done response"
  using rejected_error_None[of L ps response]
  by (cases "Failed response") (auto simp: any_done_def response_ids_def)

text \<open>A request for one entry that returns no error is \<open>done\<close>, so the group loop goes on.\<close>

lemma send_one_no_error_done:
  assumes "runs (sendSQSBatchWithSemaphore L cb q [p]) tr d None" "list_all answers_complete tr"
  shows d
proof -
  from assms obtain t where tr: "tr = AAcquire # t @ [ARelease]" and r: "runs (sendSQSBatch L cb q [p]) t d None"
    by (auto simp: sendSQSBatchWithSemaphore_def runs_Acquire_iff runs_bind runs_Release_iff)
  from sendSQSBatch_run[OF r] obtain answer u where
    u: "t = ACall (q, map sp_entry [p]) answer # u @ map AOut (Progress cb)" "batch_outcome L cb q [p] answer u d None"
    by auto
  then show d
    using assms(2) tr by (cases answer) (auto split: if_splits dest: rejected_error_done[OF _ sym])
qed

lemma fifo_group_settles:
  assumes "c \<in> set cs"
  shows "achieves answers_complete (reports_about (ev_ID (sc_evt c))) (fifo_group_loop L impl cb q cs)"
  using assms
proof (induction cs)
  case Nil
  then show ?case by simp
next
  case (Cons x cs)
  let ?G = "reports_about (ev_ID (sc_evt c))"
  obtain rs po where prep: "prepareSQSEvent L impl cb x q True = (rs, po)" by fastforce
  have rest: "x = c \<or> achieves answers_complete ?G (fifo_group_loop L impl cb q cs)" using Cons by auto
  show ?case
  proof (cases po)
    case None
    have "x = c \<Longrightarrow> \<exists>r. r \<in> set rs \<and> ?G (AOut r)"
      using prepare_None_reported[of L impl cb x q True] prep None by simp
    then show ?thesis using None prep rest by (auto intro!: achieves_emit)
  next
    case (Some p)
    have log: "log_ID (sp_log p) = ev_ID (sc_evt x)"
      using prepare_log[of L impl cb x q True p] prep Some by simp
    have "achieves answers_complete ?G (bind (sendSQSBatchWithSemaphore L cb q [p])
        (\<lambda>done err. if err \<noteq> None then Ret False err else if \<not> done then Ret False None
           else fifo_group_loop L impl cb q cs))"
    proof (rule achieves_bind)
      fix tr d e
      assume r: "runs (sendSQSBatchWithSemaphore L cb q [p]) tr d e" "list_all answers_complete tr"
      show "(\<exists>a. a \<in> set tr \<and> ?G a) \<or> achieves answers_complete ?G
          (if e \<noteq> None then Ret False e else if \<not> d then Ret False None else fifo_group_loop L impl cb q cs)"
      proof (cases e)
        case None
        with r have d using send_one_no_error_done by blast
        moreover have "\<exists>a. a \<in> set tr \<and> reports_about (ev_ID (sc_evt x)) a"
          using achievesD[OF semaphore_settles[of "[p]" p], of L cb q tr d] r None log by simp
        ultimately show ?thesis using rest None by auto
      next
        case (Some err)
        then show ?thesis by (simp add: achieves_error)
      qed
    qed
    then show ?thesis using Some prep by (auto intro!: achieves_emit)
  qed
qed

lemma standard_settles:
  assumes "distinct (map (be_ID \<circ> sp_entry) ps)" "p \<in> set ps"
  shows "achieves answers_complete (reports_about (log_ID (sp_log p))) (sendSQSStandardEvents L cb q ps)"
proof -
  from assms(2) obtain chunk where chunk: "chunk \<in> set (chunkSQSStandardEvents ps)" "p \<in> set chunk"
    using chunk_concat[of ps] by (metis UN_iff set_concat)
  then obtain us vs where "chunkSQSStandardEvents ps = us @ chunk # vs" by (auto simp: in_set_conv_decomp)
  then have "ps = concat us @ chunk @ concat vs" using chunk_concat[of ps] by simp
  then have d: "distinct (map (be_ID \<circ> sp_entry) chunk)"
    using assms(1) by (metis distinct_append map_append)
  have "achieves answers_complete (reports_about (log_ID (sp_log p)))
      (bind (sendSQSBatchWithSemaphore L cb q chunk) (\<lambda>_ err. Ret False err))"
    using semaphore_settles[OF d chunk(2), of L cb q]
    by (intro achieves_bind) (metis achievesD achieves_error not_None_eq)
  then show ?thesis
    unfolding sendSQSStandardEvents_def by (rule achieves_RunConcurrent[OF chunk(1)])
qed

lemma queue_settles:
  assumes "evt \<in> set events" "distinct (map (entry_id L) events)"
  shows "achieves answers_complete (reports_about (ev_ID evt)) (sendSQSQueueEvents L impl cb q events)"
proof (cases "validSQSQueueURL L q")
  case False
  have "\<exists>x. x \<in> set (map (\<lambda>evt. AddPoisonID (ev_ID evt) ''SQS queue URL is syntactically invalid'') events) \<and>
      reports_about (ev_ID evt) (AOut x)"
    using assms(1) by (auto intro!: bexI[of _ evt])
  then have "achieves answers_complete (reports_about (ev_ID evt))
      (emit (map (\<lambda>evt. AddPoisonID (ev_ID evt) ''SQS queue URL is syntactically invalid'') events @
             ReportFailure cb m s) (Ret False None))" for m s
    by (intro achieves_emit disjI1) (metis UnI1 set_append)
  then show ?thesis using False unfolding sendSQSQueueEvents_def by simp
next
  case q: True
  let ?G = "reports_about (ev_ID evt)"
  obtain rs cs where c: "collect (parseSQSCandidate cb) events = (rs, cs)" by fastforce
  obtain rs' ps where p: "collect (\<lambda>c. prepareSQSEvent L impl cb c q False) cs = (rs', ps)" by fastforce
  show ?thesis
  proof (cases "snd (parseSQSCandidate cb evt)")
    case None
    have "\<exists>x. x \<in> set rs \<and> ?G (AOut x)"
      using parse_None_reported[OF None] collect_reports[of _ "parseSQSCandidate cb" events] c assms(1) by auto
    then show ?thesis using q c p unfolding sendSQSQueueEvents_def
      by (cases "HasSuffix q ''.fifo''") (auto intro!: achieves_emit)
  next
    case (Some cand)
    have cand: "cand \<in> set cs" "sc_evt cand = evt"
      using Some collect_results[of cand "parseSQSCandidate cb" events] c assms(1) parse_event[OF Some] by auto
    have dc: "distinct (map (entry_id L \<circ> sc_evt) cs)"
      using c unfolding collect_def
      by (auto intro!: distinct_map_of_map_filter[OF assms(2)] dest: parse_event)
    have "achieves answers_complete ?G (sendSQSFIFOEvents L impl cb q cs)"
      unfolding sendSQSFIFOEvents_def Let_def group_get_group_by
    proof (rule achieves_RunConcurrent)
      show "fifoGroupID L cand \<in> set (map fst (group_by (fifoGroupID L) cs))"
        using cand(1) by (simp only: group_by_keys_set) blast
      show "achieves answers_complete ?G
          (fifo_group_loop L impl cb q (filter (\<lambda>x. fifoGroupID L x = fifoGroupID L cand) cs))"
        using fifo_group_settles[of cand] cand by simp
    qed
    moreover have "achieves answers_complete ?G (emit rs' (sendSQSStandardEvents L cb q ps))"
    proof (rule achieves_emit, cases "snd (prepareSQSEvent L impl cb cand q False)")
      case None
      show "(\<exists>x. x \<in> set rs' \<and> ?G (AOut x)) \<or> achieves answers_complete ?G (sendSQSStandardEvents L cb q ps)"
        using prepare_None_reported[OF None] cand p
          collect_reports[of _ "\<lambda>c. prepareSQSEvent L impl cb c q False" cs] by auto
    next
      case (Some x)
      have x: "x \<in> set ps" "log_ID (sp_log x) = ev_ID evt"
        using Some cand p collect_results[of x "\<lambda>c. prepareSQSEvent L impl cb c q False" cs] prepare_log[OF Some]
        by auto
      have "distinct (map (be_ID \<circ> sp_entry) ps)"
        using p unfolding collect_def
        by (auto intro!: distinct_map_of_map_filter[OF dc] dest: prepared_entry_id)
      from standard_settles[OF this x(1), of L cb q] x(2)
      show "(\<exists>x. x \<in> set rs' \<and> ?G (AOut x)) \<or> achieves answers_complete ?G (sendSQSStandardEvents L cb q ps)"
        by simp
    qed
    ultimately show ?thesis using q c p unfolding sendSQSQueueEvents_def
      by (auto intro!: achieves_emit simp del: bind.simps)
  qed
qed

text \<open>
  (C17) Nothing is silently skipped: when \<open>Send\<close> returns no error and every answer of the service
  covers exactly the entries of its request, each event of the batch was reported, confirmed or
  poisoned. An event that stays pending therefore always comes with an error.
\<close>

theorem sqs_no_error_settles:
  assumes "runs (sqs_Send L impl cb events) tr d None"
    and "distinct (map (entry_id L) events)" and "list_all answers_complete tr"
    and "evt \<in> set events"
  shows "\<exists>r. r \<in> set (reports_of tr) \<and> reported_id r = Some (ev_ID evt)"
proof -
  let ?q = "ev_Destination evt"
  let ?evs = "filter (\<lambda>x. ev_Destination x = ?q) events"
  have g: "(?q, ?evs) \<in> set (group_by ev_Destination events)"
    using assms(4) by (intro map_of_SomeD) (simp add: group_by_lookup)
  have "achieves answers_complete (reports_about (ev_ID evt)) (sqs_Send L impl cb events)"
    unfolding sqs_Send_def
    by (rule achieves_RunConcurrent[OF g])
      (use assms(2,4) in \<open>auto intro!: queue_settles distinct_map_filter\<close>)
  from achievesD[OF this assms(1,3)] obtain a where "a \<in> set tr" "reports_about (ev_ID evt) a" by blast
  then show ?thesis by (auto simp: in_reports_of dest: reports_about_report)
qed

theorem sqs_no_error_settles_witness:
  "\<exists>r. r \<in> set (reports_of (sample_steps 1 True ''q.fifo'' @ sample_steps 2 True ''q.fifo'')) \<and>
     reported_id r = Some (ev_ID (sample_event 2 ''q.fifo''))"
  by (rule sqs_no_error_settles[OF sample_runs(2) sample_entry_ids])
    (auto simp: sample_steps_def sample_call_def sample_prepared_def response_ids_def)

end
