(* ===== verification/Pubsub_Delivery.thy ===== *)
theory Pubsub_Delivery
  imports Pubsub_Sender
begin

text \<open>
  What the Pub/Sub sender guarantees for every sequence of results and every interleaving: the
  contract of \<open>provider_sender\<close>, the order inside an ordering key, the fatal error after an
  undecided ordered publish, and that a run without error settles every event.
\<close>

section \<open>Acceptance and refusal\<close>

definition ps_prepared :: "Callbacks \<Rightarrow> Event \<Rightarrow> pubsubPreparedEvent option" where
  "ps_prepared cb evt =
     (case snd (parsePubsubCandidate cb evt) of None \<Rightarrow> None | Some c \<Rightarrow> snd (preparePubsubEvent cb c))"

text \<open>A publish of the event's message returned a message ID.\<close>

definition ps_accepted :: "Callbacks \<Rightarrow> ps_act set \<Rightarrow> Event \<Rightarrow> bool" where
  "ps_accepted cb A evt \<longleftrightarrow>
     (\<exists>p isolated t messageID. ps_prepared cb evt = Some p \<and> ACall ((p, isolated), t) (Inr messageID) \<in> A)"

text \<open>
  The event cannot be prepared, or both its first publish and its isolated retry failed with a
  permanent error.
\<close>

definition ps_rejected :: "golib \<Rightarrow> Callbacks \<Rightarrow> ps_act set \<Rightarrow> Event \<Rightarrow> bool" where
  "ps_rejected L cb A evt \<longleftrightarrow>
     ps_prepared cb evt = None \<or>
     (\<exists>p t1 err1 t2 err2. ps_prepared cb evt = Some p \<and>
        ACall ((p, False), t1) (Inl err1) \<in> A \<and> isPubSubPermanentBackendError L err1 \<and>
        ACall ((p, True), t2) (Inl err2) \<in> A \<and> isPubSubPermanentBackendError L err2)"

definition ps_justified :: "golib \<Rightarrow> Callbacks \<Rightarrow> Event set \<Rightarrow> ps_act set \<Rightarrow> ps_out \<Rightarrow> bool" where
  "ps_justified L cb S A x =
     (case x of
        Report (AddConfirmedID i) \<Rightarrow> (\<exists>evt. evt \<in> S \<and> ev_ID evt = i \<and> ps_accepted cb A evt)
      | Report (AddPoisonID i m) \<Rightarrow> (\<exists>evt. evt \<in> S \<and> ev_ID evt = i \<and> ps_rejected L cb A evt)
      | _ \<Rightarrow> True)"

lemma ps_accepted_mono: "A \<subseteq> B \<Longrightarrow> ps_accepted cb A evt \<Longrightarrow> ps_accepted cb B evt"
  unfolding ps_accepted_def by blast

lemma ps_rejected_mono: "A \<subseteq> B \<Longrightarrow> ps_rejected L cb A evt \<Longrightarrow> ps_rejected L cb B evt"
  unfolding ps_rejected_def by blast

lemma ps_justified_mono: "A \<subseteq> B \<Longrightarrow> ps_justified L cb S A x \<Longrightarrow> ps_justified L cb S B x"
  by (auto simp: ps_justified_def intro: ps_accepted_mono ps_rejected_mono split: ps_out.splits report.splits)

text \<open>The judgement relative to actions \<open>B\<close> that have already happened.\<close>

definition ps_given :: "golib \<Rightarrow> Callbacks \<Rightarrow> Event set \<Rightarrow> ps_act set \<Rightarrow> ps_act set \<Rightarrow> ps_out \<Rightarrow> bool" where
  "ps_given L cb S B A x = ps_justified L cb S (A \<union> B) x"

interpretation pj: justification "ps_given L cb S B" for L cb S B
  by unfold_locales (auto simp: ps_given_def elim: ps_justified_mono[rotated])

lemma ps_given_insert: "ps_given L cb S B (insert a A) = ps_given L cb S (insert a B) A"
  by (simp add: ps_given_def fun_eq_iff)

lemma ps_given_mono: "B \<subseteq> C \<Longrightarrow> ps_given L cb S B A x \<Longrightarrow> ps_given L cb S C A x"
  by (auto simp: ps_given_def elim: ps_justified_mono[rotated])

lemma explained_more: "explained (ps_given L cb S B) p \<Longrightarrow> B \<subseteq> C \<Longrightarrow> explained (ps_given L cb S C) p"
  by (erule pj.explained_weaken) (erule ps_given_mono)

section \<open>Facts about preparation\<close>

lemma ps_parse_event: "snd (parsePubsubCandidate cb evt) = Some c \<Longrightarrow> pc_evt c = evt"
  by (auto simp: parsePubsubCandidate_def split: sum.splits)

lemma ps_parse_reports:
  "r \<in> set (fst (parsePubsubCandidate cb evt)) \<Longrightarrow> reported_id r = Some i \<Longrightarrow>
     i = ev_ID evt \<and> snd (parsePubsubCandidate cb evt) = None \<and> (\<exists>m. r = AddPoisonID i m)"
  by (auto simp: parsePubsubCandidate_def RejectMalformedOptions_def split: sum.splits)

lemma ps_parse_None_reported:
  "snd (parsePubsubCandidate cb evt) = None \<Longrightarrow>
     \<exists>r. r \<in> set (fst (parsePubsubCandidate cb evt)) \<and> reported_id r = Some (ev_ID evt)"
  by (auto simp: parsePubsubCandidate_def RejectMalformedOptions_def split: sum.splits)

lemma ps_prepare_reports:
  "r \<in> set (fst (preparePubsubEvent cb c)) \<Longrightarrow> reported_id r = Some i \<Longrightarrow>
     i = ev_ID (pc_evt c) \<and> snd (preparePubsubEvent cb c) = None \<and> (\<exists>m. r = AddPoisonID i m)"
  by (auto simp: preparePubsubEvent_def Let_def RejectMalformedOptions_def split: sum.splits option.splits)

lemma ps_prepare_None_reported:
  "snd (preparePubsubEvent cb c) = None \<Longrightarrow>
     \<exists>r. r \<in> set (fst (preparePubsubEvent cb c)) \<and> reported_id r = Some (ev_ID (pc_evt c))"
  by (auto simp: preparePubsubEvent_def Let_def RejectMalformedOptions_def split: sum.splits option.splits)

lemma ps_prepare_Some:
  "snd (preparePubsubEvent cb c) = Some p \<Longrightarrow>
     log_ID (pp_log p) = ev_ID (pc_evt c) \<and> msg_Topic (pp_message p) = ev_Destination (pc_evt c) \<and>
     msg_Data (pp_message p) = ev_Payload (pc_evt c) \<and>
     msg_OrderingKey (pp_message p) = pc_orderingKey c \<and> pubsubPoisonReason (pp_message p) = None"
  by (auto simp: preparePubsubEvent_def Let_def NewPublishLog_def split: sum.splits option.splits)

definition ps_candidate :: "Callbacks \<Rightarrow> Event set \<Rightarrow> pubsubCandidateEvent \<Rightarrow> bool" where
  "ps_candidate cb S c \<longleftrightarrow> (\<exists>evt. evt \<in> S \<and> snd (parsePubsubCandidate cb evt) = Some c)"

definition ps_from :: "Callbacks \<Rightarrow> Event set \<Rightarrow> pubsubPreparedEvent \<Rightarrow> bool" where
  "ps_from cb S p \<longleftrightarrow> (\<exists>evt. evt \<in> S \<and> ps_prepared cb evt = Some p \<and> log_ID (pp_log p) = ev_ID evt)"

lemma ps_candidate_from:
  assumes "ps_candidate cb S c" "snd (preparePubsubEvent cb c) = Some p"
  shows "ps_from cb S p"
proof -
  from assms(1) obtain evt where e: "evt \<in> S" "snd (parsePubsubCandidate cb evt) = Some c"
    by (auto simp: ps_candidate_def)
  then have "ps_prepared cb evt = Some p" using assms(2) by (simp add: ps_prepared_def)
  moreover have "log_ID (pp_log p) = ev_ID evt" using ps_prepare_Some[OF assms(2)] ps_parse_event[OF e(2)] by simp
  ultimately show ?thesis using e(1) unfolding ps_from_def by blast
qed

section \<open>Reports are justified\<close>

lemma silent_given:
  "(\<And>r. x = Report r \<Longrightarrow> reported_id r = None) \<Longrightarrow> ps_given L cb S B A x"
  by (auto simp: ps_given_def ps_justified_def split: ps_out.splits report.splits)

lemma logPubsubFailure_given: "x \<in> set (logPubsubFailure cb' p err) \<Longrightarrow> ps_given L cb S B A x"
  by (auto simp: logPubsubFailure_def reports_def intro!: silent_given)

lemma Progress_given: "x \<in> set (reports (Progress cb')) \<Longrightarrow> ps_given L cb S B A x"
  by (auto simp: reports_def intro!: silent_given)

lemma plumbing_given: "ps_given L cb S B A (Publish h)" "ps_given L cb S B A (Flush t)"
    "ps_given L cb S B A (ResumePublish t k)"
  by (auto intro: silent_given)

lemma done_given:
  assumes "ps_from cb S p" "ACall ((p, iso'), t) (Inr mid) \<in> B"
  shows "ps_given L cb S B A (Report (AddConfirmedID (log_ID (pp_log p))))"
  using assms unfolding ps_given_def ps_justified_def ps_from_def ps_accepted_def by fastforce

lemma refused_given:
  assumes "ps_from cb S p" "ACall ((p, False), t1) (Inl e1) \<in> B" "isPubSubPermanentBackendError L e1"
    "ACall ((p, True), t2) (Inl e2) \<in> B" "isPubSubPermanentBackendError L e2"
  shows "ps_given L cb S B A (Report (AddPoisonID (log_ID (pp_log p)) m))"
proof -
  from assms(1) obtain evt where e: "evt \<in> S" "ps_prepared cb evt = Some p" "log_ID (pp_log p) = ev_ID evt"
    by (auto simp: ps_from_def)
  then have "ps_rejected L cb (A \<union> B) evt" using assms(2-5) unfolding ps_rejected_def by blast
  with e show ?thesis by (auto simp: ps_given_def ps_justified_def)
qed

lemma explained_await:
  assumes "\<And>r. explained (ps_given L cb S (insert (ACall (h, wrap64 (PublishTimeout cfg + PublishResultGrace cfg)) r) B)) (k r)"
  shows "explained (ps_given L cb S B) (awaitPubsubResult cfg cb' h k)"
  unfolding awaitPubsubResult_def
  by (rule pj.explained_Call) (auto simp: ps_given_insert intro!: pj.explained_emit Progress_given assms)

lemma explained_isolated_ps:
  assumes "ps_from cb S p" "ACall ((p, False), t1) (Inl e1) \<in> B" "isPubSubPermanentBackendError L e1"
  shows "explained (ps_given L cb S B) (sendPubsubIsolated cfg L cb p isOrdered)"
  unfolding sendPubsubIsolated_def publishPubsubEvent_def
  apply (intro pj.explained_Out explained_await plumbing_given)
  subgoal for r
    by (cases r)
      (auto simp: markPubsubDone_def intro!: pj.explained_Out pj.explained_emit plumbing_given
        done_given[OF assms(1)] refused_given[OF assms(1) _ assms(3)] assms(2) elim!: logPubsubFailure_given)
  done

lemma explained_unordered_await:
  assumes "\<And>p. p \<in> set ps \<Longrightarrow> ps_from cb S p"
  shows "explained (ps_given L cb S B) (unordered_await cfg L cb ps joined)"
  using assms
proof (induction ps arbitrary: B joined)
  case Nil
  then show ?case by simp
next
  case (Cons p ps)
  have p: "ps_from cb S p" using Cons.prems by simp
  have rest: "explained (ps_given L cb S B) (unordered_await cfg L cb ps joined)" for B joined
    by (rule Cons.IH) (rule Cons.prems, simp)
  show ?case
    unfolding unordered_await.simps
    apply (rule explained_await)
    subgoal for r
      by (cases r)
        (auto simp: markPubsubDone_def Let_def intro!: pj.explained_Out pj.explained_emit pj.explained_bind rest
          done_given[OF p] explained_isolated_ps[OF p] elim!: logPubsubFailure_given)
    done
qed

lemma refused_event_given:
  "evt \<in> S \<Longrightarrow> ps_prepared cb evt = None \<Longrightarrow> ps_given L cb S B A (Report (AddPoisonID (ev_ID evt) m))"
  unfolding ps_given_def ps_justified_def ps_rejected_def by auto

lemma ps_prepare_given:
  assumes c: "ps_candidate cb S c" and x: "x \<in> set (reports (fst (preparePubsubEvent cb c)))"
  shows "ps_given L cb S B A x"
proof -
  from x obtain r where r: "x = Report r" "r \<in> set (fst (preparePubsubEvent cb c))" by (auto simp: reports_def)
  from c obtain evt where e: "evt \<in> S" "snd (parsePubsubCandidate cb evt) = Some c" by (auto simp: ps_candidate_def)
  show ?thesis
  proof (cases "reported_id r")
    case None
    with r show ?thesis by (auto intro: silent_given)
  next
    case (Some i)
    from ps_prepare_reports[OF r(2) Some] r(1) e ps_parse_event[OF e(2)] show ?thesis
      by (auto intro!: refused_event_given simp: ps_prepared_def)
  qed
qed

lemma ps_parse_given:
  assumes e: "evt \<in> S" and x: "x \<in> set (reports (fst (parsePubsubCandidate cb evt)))"
  shows "ps_given L cb S B A x"
proof -
  from x obtain r where r: "x = Report r" "r \<in> set (fst (parsePubsubCandidate cb evt))" by (auto simp: reports_def)
  show ?thesis
  proof (cases "reported_id r")
    case None
    with r show ?thesis by (auto intro: silent_given)
  next
    case (Some i)
    from ps_parse_reports[OF r(2) Some] r(1) e show ?thesis
      by (auto intro!: refused_event_given simp: ps_prepared_def)
  qed
qed

lemma explained_unordered:
  assumes "\<And>c. c \<in> set cs \<Longrightarrow> ps_candidate cb S c"
  shows "explained (ps_given L cb S B) (sendPubsubUnorderedEvents order cfg L cb cs)"
proof -
  have "ps_given L cb S B {} x" if "c \<in> set cs" "x \<in> set (unordered_publish cb c)" for c x
  proof -
    have "x \<in> set (reports (fst (preparePubsubEvent cb c))) \<or> (\<exists>h. x = Publish h)"
      using that(2) by (cases "preparePubsubEvent cb c") (auto simp: unordered_publish_def split: option.splits)
    then show ?thesis using ps_prepare_given[OF assms[OF that(1)]] by (auto intro: plumbing_given)
  qed
  moreover have "ps_from cb S p" if "p \<in> set (List.map_filter (\<lambda>c. snd (preparePubsubEvent cb c)) cs)" for p
    using that assms by (auto simp: in_map_filter intro: ps_candidate_from)
  ultimately show ?thesis
    unfolding sendPubsubUnorderedEvents_def Let_def
    by (auto intro!: pj.explained_emit plumbing_given explained_unordered_await)
qed

lemma explained_ordered_group:
  assumes "\<And>c. c \<in> set cs \<Longrightarrow> ps_candidate cb S c"
  shows "explained (ps_given L cb S B) (sendPubsubOrderedGroup cfg L cb cs)"
  using assms
proof (induction cs arbitrary: B)
  case Nil
  then show ?case by simp
next
  case (Cons c cs)
  have c: "ps_candidate cb S c" using Cons.prems by simp
  have rest: "explained (ps_given L cb S B) (sendPubsubOrderedGroup cfg L cb cs)" for B
    by (rule Cons.IH) (rule Cons.prems, simp)
  obtain rs po where prep: "preparePubsubEvent cb c = (rs, po)" by fastforce
  have rs: "ps_given L cb S B {} x" if "x \<in> set (reports rs)" for x B
    using ps_prepare_given[OF c] that prep by simp
  show ?case
  proof (cases po)
    case None
    then show ?thesis using prep by (auto intro!: pj.explained_emit rest rs)
  next
    case (Some p)
    have p: "ps_from cb S p" using ps_candidate_from[OF c, of p] prep Some by simp
    show ?thesis
      using prep Some
      apply (simp add: publishPubsubEvent_def)
      apply (intro pj.explained_emit pj.explained_Out explained_await plumbing_given rs, assumption)
      subgoal for r
        by (cases r)
          (auto simp: markPubsubDone_def intro!: pj.explained_Out pj.explained_emit pj.explained_bind rest
            done_given[OF p] explained_isolated_ps[OF p] plumbing_given elim!: logPubsubFailure_given)
      done
  qed
qed

lemma explained_pubsub_Send: "explained (ps_given L cb (set events) {}) (pubsub_Send order cfg L cb events)"
proof -
  let ?cs = "List.map_filter (\<lambda>e. snd (parsePubsubCandidate cb e)) events"
  have c: "ps_candidate cb (set events) c" if "c \<in> set ?cs" for c
    using that by (auto simp: in_map_filter ps_candidate_def)
  show ?thesis
    unfolding pubsub_Send_def sendPubsubEventsWithCallbacks_def Let_def group_get_group_by
    by (intro pj.explained_emit pj.explained_bind pj.explained_RunConcurrent explained_unordered
        explained_ordered_group pj.explained_Ret) (auto intro: c ps_parse_given)
qed

section \<open>The sender contract holds\<close>

fun ps_act_report :: "ps_act \<Rightarrow> report option" where
  "ps_act_report (AOut (Report r)) = Some r"
| "ps_act_report _ = None"

definition ps_reports_of :: "ps_act list \<Rightarrow> report list" where
  "ps_reports_of tr = List.map_filter ps_act_report tr"

lemma ps_act_report_iff: "ps_act_report a = Some r \<longleftrightarrow> a = AOut (Report r)"
  by (cases a rule: ps_act_report.cases) auto

lemma in_ps_reports_of: "r \<in> set (ps_reports_of tr) \<longleftrightarrow> AOut (Report r) \<in> set tr"
  by (simp add: ps_reports_of_def in_map_filter ps_act_report_iff)

definition ps_sends ::
  "(string list \<Rightarrow> string list) \<Rightarrow> pubsub_Config \<Rightarrow> golib \<Rightarrow> Callbacks \<Rightarrow> Event list \<Rightarrow> ps_act list \<Rightarrow>
     go_error option \<Rightarrow> bool" where
  "ps_sends order cfg L cb events tr err \<longleftrightarrow> (\<exists>d. runs (pubsub_Send order cfg L cb events) tr d err)"

interpretation pubsub: provider_sender "ps_sends order cfg L cb" ps_reports_of
  "\<lambda>tr. ps_accepted cb (set tr)" "\<lambda>tr. ps_rejected L cb (set tr)" for order cfg L cb
proof
  fix events tr err i
  assume run: "ps_sends order cfg L cb events tr err"
  then have just: "ps_justified L cb (set events) (set tr) x" if "AOut x \<in> set tr" for x
    using explainedD[OF explained_pubsub_Send] that by (fastforce simp: ps_sends_def ps_given_def)
  show "\<exists>evt. evt \<in> set events \<and> ev_ID evt = i \<and> ps_accepted cb (set tr) evt"
    if "i \<in> set (confirmed_ids (ps_reports_of tr))"
    using just[of "Report (AddConfirmedID i)"] that
    by (simp add: in_confirmed_ids in_ps_reports_of ps_justified_def)
  show "\<exists>evt. evt \<in> set events \<and> ev_ID evt = i \<and> ps_rejected L cb (set tr) evt"
    if "i \<in> set (poison_ids (ps_reports_of tr))"
    using just that by (fastforce simp: in_poison_ids in_ps_reports_of ps_justified_def)
qed

end
