(* ===== verification/Pubsub_Guarantees.thy ===== *)
theory Pubsub_Guarantees
  imports Pubsub_Delivery
begin

text \<open>
  The guarantees of the Pub/Sub sender on whole runs, each with an example evaluated on a small
  batch.
\<close>

section \<open>Sample runs\<close>

definition ps_callbacks :: Callbacks where
  "ps_callbacks = \<lparr> has_MarkProgress = True, has_LogFailure = True \<rparr>"

definition ps_event :: "int \<Rightarrow> goval gomap \<Rightarrow> Event" where
  "ps_event i opts = \<lparr> ev_ID = GInt64 i, ev_Payload = ''hi'', ev_Timestamp = 0,
     ev_Destination = ''topic'', ev_Options = \<lparr> Values = opts \<rparr> \<rparr>"

definition keyed :: "int \<Rightarrow> Event" where
  "keyed i = ps_event i [(''orderingKey'', GString ''k'')]"

definition ps_sample_prepared :: "int \<Rightarrow> string \<Rightarrow> pubsubPreparedEvent" where
  "ps_sample_prepared i key =
     \<lparr> pp_log = (NewPublishLog (ps_event i []) pubsub_Target)\<lparr>log_OrderingKey := key\<rparr>,
       pp_message = \<lparr> msg_Topic = ''topic'', msg_Data = ''hi'', msg_OrderingKey = key, msg_Attributes = [] \<rparr> \<rparr>"

definition ps_config :: pubsub_Config where
  "ps_config = \<lparr> ps_ProjectID = ''p'', ps_APIEndpoint = [], PublishTimeout = 60, PublishResultGrace = 10 \<rparr>"

definition publishing_client :: "ps_request \<Rightarrow> unit \<Rightarrow> ps_answer \<times> unit" where
  "publishing_client req w = (Inr ''m'', ())"

definition ps_steps :: "int \<Rightarrow> string \<Rightarrow> ps_act list" where
  "ps_steps i key = [AOut (Publish (ps_sample_prepared i key, False)), AOut (Flush ''topic''),
     ACall ((ps_sample_prepared i key, False), 70) (Inr ''m''),
     AOut (Report MarkProgress), AOut (Report (AddConfirmedID (GInt64 i)))]"

lemma ps_event_simps [simp]: "ev_ID (ps_event i opts) = GInt64 i" "ev_Destination (ps_event i opts) = ''topic''"
  "ev_ID (keyed i) = GInt64 i" "ev_Destination (keyed i) = ''topic''"
  by (simp_all add: ps_event_def keyed_def)

lemma topic_valid: "validPubSubTopic ''topic''"
  by (simp add: validPubSubTopic_def Contains.simps HasPrefix_def validPubSubTopicID_def ToLower_def lower_char_def
      char_of_def ascii_letter_def ascii_digit_def)

lemma ps_sample_parse:
  "parsePubsubCandidate cb (ps_event i []) = ([], Some \<lparr> pc_evt = ps_event i [], pc_orderingKey = [] \<rparr>)"
  "parsePubsubCandidate cb (keyed i) = ([], Some \<lparr> pc_evt = keyed i, pc_orderingKey = ''k'' \<rparr>)"
  by (simp_all add: parsePubsubCandidate_def keyed_def ps_event_def Options_String_def lookup_value_def)

lemma ps_sample_prepare:
  "preparePubsubEvent cb \<lparr> pc_evt = ps_event i [], pc_orderingKey = [] \<rparr> = ([], Some (ps_sample_prepared i []))"
  "preparePubsubEvent cb \<lparr> pc_evt = keyed i, pc_orderingKey = ''k'' \<rparr> = ([], Some (ps_sample_prepared i ''k''))"
  using topic_valid
  by (simp_all add: preparePubsubEvent_def keyed_def ps_event_def Options_Object_def lookup_value_def
      sanitizeStringAttributes_def ps_sample_prepared_def pubsubPoisonReason_def pubsubMaxMessageDataBytes_def
      validPubSubAttributes_def pubsubMaxAttributes_def NewPublishLog_def)

lemma ps_sample_run_unordered:
  "exec publishing_client (pubsub_Send (\<lambda>ts. ts) ps_config L ps_callbacks [ps_event 1 []]) () =
     ((ps_steps 1 [], False, None), ())"
  by (simp add: pubsub_Send_def sendPubsubEventsWithCallbacks_def Let_def ps_sample_parse List.map_filter_simps
      reports_def sendPubsubUnorderedEvents_def ps_sample_prepare unordered_publish_def awaitPubsubResult_def
      publishing_client_def ps_config_def ps_callbacks_def Progress_def markPubsubDone_def RunConcurrent_def
      join_all_def ps_steps_def ps_sample_prepared_def NewPublishLog_def wrap64_def)

lemma ps_sample_run_ordered:
  "exec publishing_client (pubsub_Send (\<lambda>ts. ts) ps_config L ps_callbacks [keyed 1, keyed 2]) () =
     ((ps_steps 1 ''k'' @ ps_steps 2 ''k'', False, None), ())"
proof -
  let ?c = "\<lambda>i. \<lparr> pc_evt = keyed i, pc_orderingKey = ''k'' \<rparr>"
  have "group_by orderedGroupID [?c 1, ?c 2] = [(''topic'' @ [char_of (0 :: nat)] @ ''k'', [?c 1, ?c 2])]"
    by (simp add: group_by_def group_append_def orderedGroupID_def)
  then show ?thesis
    by (simp add: pubsub_Send_def sendPubsubEventsWithCallbacks_def Let_def ps_sample_parse List.map_filter_simps
      reports_def sendPubsubUnorderedEvents_def ps_sample_prepare publishPubsubEvent_def awaitPubsubResult_def
      publishing_client_def ps_config_def ps_callbacks_def Progress_def markPubsubDone_def RunConcurrent_def
      group_get_def join_all_def ps_steps_def ps_sample_prepared_def NewPublishLog_def wrap64_def)
qed

lemmas ps_sample_runs = exec_runs[OF ps_sample_run_unordered] exec_runs[OF ps_sample_run_ordered]

section \<open>Soundness of the reports\<close>

text \<open>
  (C10) A confirmation of the Pub/Sub sender stands for a message ID: an ID reported through
  \<open>AddConfirmedID\<close> belongs to an event of the batch, and \<open>Get\<close> on a publish of that event's
  message returned a message ID.
\<close>

theorem pubsub_confirmation_sound:
  assumes "runs (pubsub_Send order cfg L cb events) tr d err"
    and "AddConfirmedID i \<in> set (ps_reports_of tr)" and "i \<noteq> GNil"
  shows "\<exists>evt. evt \<in> set events \<and> ev_ID evt = i \<and> ps_accepted cb (set tr) evt"
  using assms pubsub.confirm_sound[of order cfg L cb events tr err i] by (auto simp: ps_sends_def in_confirmed_ids)

theorem pubsub_confirmation_sound_witness:
  "\<exists>evt. evt \<in> set [ps_event 1 []] \<and> ev_ID evt = GInt64 1 \<and> ps_accepted ps_callbacks (set (ps_steps 1 [])) evt"
  by (rule pubsub_confirmation_sound[OF ps_sample_runs(1)]) (auto simp: ps_steps_def in_ps_reports_of)

text \<open>
  (C11) Pub/Sub events are poisoned only for cause: the event could not be prepared (malformed
  options or a message outside the limits), or its publish and then its isolated retry both
  failed with a permanent backend error.
\<close>

theorem pubsub_poison_sound:
  assumes "runs (pubsub_Send order cfg L cb events) tr d err"
    and "AddPoisonID i m \<in> set (ps_reports_of tr)" and "i \<noteq> GNil"
  shows "\<exists>evt. evt \<in> set events \<and> ev_ID evt = i \<and> ps_rejected L cb (set tr) evt"
  using assms pubsub.poison_sound[of order cfg L cb events tr err i] by (auto simp: ps_sends_def in_poison_ids)

definition badkey :: Event where
  "badkey = ps_event 1 [(''orderingKey'', GBool True)]"

lemma badkey_run:
  "exec publishing_client (pubsub_Send (\<lambda>ts. ts) ps_config L ps_callbacks [badkey]) () =
     ((map (AOut \<circ> Report) (RejectMalformedOptions ps_callbacks pubsub_Target badkey ''orderingKey''
         (malformed ''orderingKey must be a string'')), False, None), ())"
  by (simp add: pubsub_Send_def sendPubsubEventsWithCallbacks_def Let_def badkey_def ps_event_def
      parsePubsubCandidate_def Options_String_def lookup_value_def reports_def sendPubsubUnorderedEvents_def
      RunConcurrent_def join_all_def List.map_filter_simps RejectMalformedOptions_def ReportFailure_def
      ps_callbacks_def comp_def)

theorem pubsub_poison_sound_witness:
  "\<exists>evt. evt \<in> set [badkey] \<and> ev_ID evt = GInt64 1 \<and>
     ps_rejected sample_lib ps_callbacks
       (set (map (AOut \<circ> Report) (RejectMalformedOptions ps_callbacks pubsub_Target badkey ''orderingKey''
         (malformed ''orderingKey must be a string'')))) evt"
  by (rule pubsub_poison_sound[OF exec_runs[OF badkey_run],
        where m = "error_text (malformed ''orderingKey must be a string'')"])
    (auto simp: in_ps_reports_of RejectMalformedOptions_def badkey_def)

end
