(* ===== verification/Pubsub_Ordering.thy ===== *)
theory Pubsub_Ordering
  imports Pubsub_Guarantees
begin

text \<open>
  The Pub/Sub guarantees that span several publishes: the order inside an ordering key, the
  fatal error after an undecided ordered publish, and that a run without error settles every
  event.
\<close>

fun ps_about :: "goval \<Rightarrow> ps_act \<Rightarrow> bool" where
  "ps_about i (AOut (Report r)) = (reported_id r = Some i)"
| "ps_about i _ = False"

fun publishes :: "goval \<Rightarrow> ps_act \<Rightarrow> bool" where
  "publishes i (AOut (Publish h)) = (log_ID (pp_log (fst h)) = i)"
| "publishes i _ = False"

fun legal_publish :: "ps_act \<Rightarrow> bool" where
  "legal_publish (AOut (Publish h)) = (pubsubPoisonReason (pp_message (fst h)) = None)"
| "legal_publish _ = True"

lemma ps_about_report: "ps_about i a \<Longrightarrow> \<exists>r. a = AOut (Report r) \<and> reported_id r = Some i"
  by (cases "(i, a)" rule: ps_about.cases) auto

section \<open>Publishes\<close>

text \<open>
  A judgement on published handles: it holds for every publish of a program when it holds for
  the handles of the events the program handles.
\<close>

fun publish_ok :: "(pubsubPreparedEvent \<Rightarrow> bool) \<Rightarrow> ps_act \<Rightarrow> bool" where
  "publish_ok P (AOut (Publish h)) = P (fst h)"
| "publish_ok P _ = True"

lemma publish_ok_reports [simp]: "x \<in> set (reports rs) \<Longrightarrow> publish_ok P (AOut x)"
  by (auto simp: reports_def)

lemma publish_ok_failure [simp]: "x \<in> set (logPubsubFailure cb p err) \<Longrightarrow> publish_ok P (AOut x)"
  by (auto simp: logPubsubFailure_def)

lemma always_await:
  assumes "\<And>r. always (publish_ok P) (k r)"
  shows "always (publish_ok P) (awaitPubsubResult cfg cb h k)"
  unfolding awaitPubsubResult_def
  by (auto intro!: always_Call always_emit assms simp: list_all_iff)

lemma isolated_publishes: "P p \<Longrightarrow> always (publish_ok P) (sendPubsubIsolated cfg L cb p isOrdered)"
  unfolding sendPubsubIsolated_def publishPubsubEvent_def
  by (auto intro!: always_Out always_await always_emit split: sum.splits simp: list_all_iff markPubsubDone_def)

lemma unordered_await_publishes:
  "(\<And>p. p \<in> set ps \<Longrightarrow> P p) \<Longrightarrow> always (publish_ok P) (unordered_await cfg L cb ps joined)"
proof (induction ps arbitrary: joined)
  case Nil
  then show ?case by simp
next
  case (Cons p ps)
  have rest: "always (publish_ok P) (unordered_await cfg L cb ps joined)" for joined
    by (rule Cons.IH) (rule Cons.prems, simp)
  have p: "P p" by (rule Cons.prems) simp
  show ?case
    unfolding unordered_await.simps
    by (rule always_await)
      (auto intro!: always_Out always_emit always_bind rest isolated_publishes[of P, OF p] split: sum.splits
        simp: list_all_iff markPubsubDone_def Let_def)
qed

lemma unordered_publishes:
  assumes "\<And>c p. c \<in> set cs \<Longrightarrow> snd (preparePubsubEvent cb c) = Some p \<Longrightarrow> P p"
  shows "always (publish_ok P) (sendPubsubUnorderedEvents order cfg L cb cs)"
proof -
  have "publish_ok P (AOut x)" if "c \<in> set cs" "x \<in> set (unordered_publish cb c)" for c x
    using that assms[OF that(1)]
    by (cases "preparePubsubEvent cb c") (auto simp: unordered_publish_def split: option.splits)
  moreover have "P p" if "p \<in> set (List.map_filter (\<lambda>c. snd (preparePubsubEvent cb c)) cs)" for p
    using that assms by (auto simp: in_map_filter)
  ultimately show ?thesis
    unfolding sendPubsubUnorderedEvents_def Let_def
    by (intro always_emit unordered_await_publishes) (auto simp: list_all_iff)
qed

lemma ordered_group_publishes:
  assumes "\<And>c p. c \<in> set cs \<Longrightarrow> snd (preparePubsubEvent cb c) = Some p \<Longrightarrow> P p"
  shows "always (publish_ok P) (sendPubsubOrderedGroup cfg L cb cs)"
  using assms
proof (induction cs)
  case Nil
  then show ?case by simp
next
  case (Cons c cs)
  have rest: "always (publish_ok P) (sendPubsubOrderedGroup cfg L cb cs)"
    by (rule Cons.IH) (rule Cons.prems, auto)
  obtain rs po where prep: "preparePubsubEvent cb c = (rs, po)" by fastforce
  show ?case
  proof (cases po)
    case None
    then show ?thesis using prep rest by (auto intro!: always_emit simp: list_all_iff)
  next
    case (Some p)
    have p: "P p" using Cons.prems[of c p] prep Some by simp
    show ?thesis
      using prep Some
      by (auto intro!: always_Out always_emit always_await always_bind rest isolated_publishes[of P, OF p] p
          split: sum.splits simp: list_all_iff markPubsubDone_def publishPubsubEvent_def)
  qed
qed

lemma pubsub_publishes:
  assumes "\<And>c p. snd (preparePubsubEvent cb c) = Some p \<Longrightarrow> P p"
  shows "always (publish_ok P) (pubsub_Send order cfg L cb events)"
  unfolding pubsub_Send_def sendPubsubEventsWithCallbacks_def Let_def
  by (intro always_emit always_bind always_RunConcurrent unordered_publishes ordered_group_publishes always_Ret)
    (auto simp: list_all_iff assms)

text \<open>
  Every message handed to the Pub/Sub client passed the local checks: at most 10 MB of data,
  at least data, an attribute or an ordering key, attributes within their limits and a valid
  topic name.
\<close>

theorem pubsub_publishes_legal:
  assumes "runs (pubsub_Send order cfg L cb events) tr d err" "AOut (Publish h) \<in> set tr"
  shows "pubsubPoisonReason (pp_message (fst h)) = None"
proof -
  have "always (publish_ok (\<lambda>p. pubsubPoisonReason (pp_message p) = None)) (pubsub_Send order cfg L cb events)"
    by (rule pubsub_publishes) (simp add: ps_prepare_Some)
  then have "publish_ok (\<lambda>p. pubsubPoisonReason (pp_message p) = None) (AOut (Publish h))"
    using alwaysD[OF _ assms(1)] assms(2) by (fastforce simp: list_all_iff)
  then show ?thesis by simp
qed

theorem pubsub_publishes_legal_witness: "pubsubPoisonReason (pp_message (fst (ps_sample_prepared 1 [], False))) = None"
  by (rule pubsub_publishes_legal[OF ps_sample_runs(1)]) (simp add: ps_steps_def)

section \<open>Order inside an ordering key\<close>

lemma never_publishes:
  assumes "always (publish_ok (\<lambda>p. log_ID (pp_log p) \<in> I)) p" "i \<notin> I"
  shows "always (\<lambda>a. \<not> publishes i a) p"
proof -
  have "publish_ok (\<lambda>p. log_ID (pp_log p) \<in> I) a \<Longrightarrow> \<not> publishes i a" for a
    using assms(2) by (cases "(i, a)" rule: publishes.cases) auto
  then show ?thesis using assms(1) by (auto simp: always_def list_all_iff)
qed

text \<open>The shape of an isolated publish.\<close>

fun isolated_outcome ::
  "golib \<Rightarrow> Callbacks \<Rightarrow> pubsubPreparedEvent \<Rightarrow> bool \<Rightarrow> ps_answer \<Rightarrow> ps_act list \<Rightarrow> bool \<Rightarrow> go_error option \<Rightarrow> bool"
where
  "isolated_outcome L cb p isOrdered (Inr m) t d e =
     (AOut (Report (AddConfirmedID (log_ID (pp_log p)))) \<in> set t \<and> d \<and> e = None)"
| "isolated_outcome L cb p isOrdered (Inl err) t d e =
     (if errors_Is err context_DeadlineExceeded \<and> isOrdered
      then \<not> d \<and> e = errors_Join [Some (Sentinel ErrFatalAfterCommit), Some err]
      else if isPubSubPermanentBackendError L err
      then AOut (Report (AddPoisonID (log_ID (pp_log p)) (error_text err))) \<in> set t \<and> d \<and> e = None
      else \<not> d \<and> e = Some err)"

lemma isolated_run:
  assumes "runs (sendPubsubIsolated cfg L cb p isOrdered) tr d e"
  shows "\<exists>answer t. tr = AOut (Publish (p, True)) # AOut (Flush (msg_Topic (pp_message p))) #
       ACall ((p, True), wrap64 (PublishTimeout cfg + PublishResultGrace cfg)) answer # map AOut t \<and>
     isolated_outcome L cb p isOrdered answer (map AOut t) d e"
proof -
  from assms obtain answer t where t: "tr = AOut (Publish (p, True)) # AOut (Flush (msg_Topic (pp_message p))) #
      ACall ((p, True), wrap64 (PublishTimeout cfg + PublishResultGrace cfg)) answer # map AOut (reports (Progress cb)) @ t"
    and r: "runs (case answer of
            Inr messageID \<Rightarrow> emit (markPubsubDone p) (Ret True None)
          | Inl err \<Rightarrow>
              emit (if isOrdered \<and> \<not> errors_Is err context_DeadlineExceeded
                    then [ResumePublish (msg_Topic (pp_message p)) (msg_OrderingKey (pp_message p))]
                    else [])
                (if errors_Is err context_DeadlineExceeded \<and> isOrdered
                 then emit (logPubsubFailure cb p err)
                   (Ret False (errors_Join [Some (Sentinel ErrFatalAfterCommit), Some err]))
                 else if isPubSubPermanentBackendError L err
                 then emit (Report (AddPoisonID (log_ID (pp_log p)) (error_text err)) #
                            logPubsubFailure cb p err)
                   (Ret True None)
                 else emit (logPubsubFailure cb p err) (Ret False (Some err)))) t d e"
    unfolding sendPubsubIsolated_def publishPubsubEvent_def awaitPubsubResult_def runs_Out_iff runs_Call_iff runs_emit
    by blast
  obtain u where "t = map AOut u" "isolated_outcome L cb p isOrdered answer (map AOut u) d e"
  proof (cases answer)
    case (Inr m)
    with r that[of "markPubsubDone p"] show ?thesis by (auto simp: runs_emit runs_Out_iff markPubsubDone_def)
  next
    case (Inl err)
    let ?pre = "if isOrdered \<and> \<not> errors_Is err context_DeadlineExceeded
                    then [ResumePublish (msg_Topic (pp_message p)) (msg_OrderingKey (pp_message p))] else []"
    from Inl r obtain v where v: "t = map AOut ?pre @ v"
      "runs (if errors_Is err context_DeadlineExceeded \<and> isOrdered
                 then emit (logPubsubFailure cb p err)
                   (Ret False (errors_Join [Some (Sentinel ErrFatalAfterCommit), Some err]))
                 else if isPubSubPermanentBackendError L err
                 then emit (Report (AddPoisonID (log_ID (pp_log p)) (error_text err)) #
                            logPubsubFailure cb p err)
                   (Ret True None)
                 else emit (logPubsubFailure cb p err) (Ret False (Some err))) v d e"
      unfolding Inl sum.case runs_emit by blast
    consider (deadline) "errors_Is err context_DeadlineExceeded \<and> isOrdered"
      | (perm) "\<not> (errors_Is err context_DeadlineExceeded \<and> isOrdered)" "isPubSubPermanentBackendError L err"
      | (other) "\<not> (errors_Is err context_DeadlineExceeded \<and> isOrdered)" "\<not> isPubSubPermanentBackendError L err"
      by blast
    then obtain w where w: "v = map AOut w" "isolated_outcome L cb p isOrdered answer (map AOut w) d e"
    proof cases
      case deadline
      with v(2) that[of "logPubsubFailure cb p err"] Inl show ?thesis by (simp add: runs_emit)
    next
      case perm
      with v(2) that[of "Report (AddPoisonID (log_ID (pp_log p)) (error_text err)) # logPubsubFailure cb p err"] Inl
      show ?thesis by (simp only: runs_emit if_False if_True) simp
    next
      case other
      with v(2) that[of "logPubsubFailure cb p err"] Inl show ?thesis by (simp add: runs_emit)
    qed
    show ?thesis
      by (rule that[of "?pre @ w"]) (use v(1) w Inl in \<open>auto split: if_splits\<close>)
  qed
  with t have "tr = AOut (Publish (p, True)) # AOut (Flush (msg_Topic (pp_message p))) #
      ACall ((p, True), wrap64 (PublishTimeout cfg + PublishResultGrace cfg)) answer # map AOut (reports (Progress cb) @ u)"
    "isolated_outcome L cb p isOrdered answer (map AOut (reports (Progress cb) @ u)) d e"
    by (cases answer; auto split: if_splits)+
  then show ?thesis by blast
qed

text \<open>An isolated publish that is \<open>done\<close> has reported its event; without error it is done.\<close>

lemma isolated_done:
  assumes "runs (sendPubsubIsolated cfg L cb p isOrdered) tr d e" d
  shows "\<exists>a. a \<in> set tr \<and> ps_about (log_ID (pp_log p)) a"
proof -
  from isolated_run[OF assms(1)] obtain answer t where
    t: "tr = AOut (Publish (p, True)) # AOut (Flush (msg_Topic (pp_message p))) #
       ACall ((p, True), wrap64 (PublishTimeout cfg + PublishResultGrace cfg)) answer # map AOut t"
    "isolated_outcome L cb p isOrdered answer (map AOut t) d e" by blast
  then obtain r where "AOut (Report r) \<in> set tr" "reported_id r = Some (log_ID (pp_log p))"
    using assms(2) by (cases answer) (fastforce split: if_splits)+
  then show ?thesis by (metis ps_about.simps(1))
qed

lemma isolated_no_error_done:
  assumes "runs (sendPubsubIsolated cfg L cb p isOrdered) tr d None"
  shows d
  using isolated_run[OF assms] by (metis isolated_outcome.simps errors_Join_Some_both option.distinct(1) sum.exhaust)

lemma reports_not_publish [simp]: "x \<in> set (reports rs) \<Longrightarrow> \<not> publishes i (AOut x)"
  by (auto simp: reports_def)

lemma failure_not_publish [simp]: "x \<in> set (logPubsubFailure cb p err) \<Longrightarrow> \<not> publishes i (AOut x)"
  by (auto simp: logPubsubFailure_def)

lemma ordered_Ret [simp]: "ordered H A B (Ret d e)"
  by (simp add: ordered_never)

lemma ordered_await:
  assumes "\<And>r. ordered H (ps_about i) (publishes j) (k r)"
  shows "ordered H (ps_about i) (publishes j) (awaitPubsubResult cfg cb h k)"
  unfolding awaitPubsubResult_def by (auto intro!: ordered_Call ordered_emit assms)

lemma ordered_group_ordered:
  assumes "before c1 c2 cs" "distinct (map (ev_ID \<circ> pc_evt) cs)"
  shows "ordered (\<lambda>_. True) (ps_about (ev_ID (pc_evt c1))) (publishes (ev_ID (pc_evt c2)))
     (sendPubsubOrderedGroup cfg L cb cs)"
  using assms
proof (induction cs)
  case Nil
  then show ?case by (simp add: before_def)
next
  case (Cons c cs)
  let ?A = "ps_about (ev_ID (pc_evt c1))" and ?B = "publishes (ev_ID (pc_evt c2))"
  have "c2 \<in> set cs" using before_Cons[OF Cons.prems(1)] before_set by fast
  then have ne: "ev_ID (pc_evt c) \<noteq> ev_ID (pc_evt c2)" using Cons.prems(2) by auto
  obtain rs po where prep: "preparePubsubEvent cb c = (rs, po)" by fastforce
  have rest: "c = c1 \<or> ordered (\<lambda>_. True) ?A ?B (sendPubsubOrderedGroup cfg L cb cs)"
    using before_Cons[OF Cons.prems(1)] Cons.IH Cons.prems(2) by auto
  show ?case
  proof (cases po)
    case None
    then have "c = c1 \<Longrightarrow> \<exists>x. x \<in> set (reports rs) \<and> ?A (AOut x)"
      using ps_prepare_None_reported[of cb c] prep by (fastforce simp: reports_def)
    then show ?thesis using None prep rest by (auto intro!: ordered_emit)
  next
    case (Some p)
    have id: "log_ID (pp_log p) = ev_ID (pc_evt c)" using ps_prepare_Some[of cb c p] prep Some by simp
    have never: "always (\<lambda>a. \<not> ?B a) (sendPubsubIsolated cfg L cb p True)"
      by (rule never_publishes[where I = "{ev_ID (pc_evt c)}"], rule isolated_publishes) (use id ne in auto)
    have iso: "ordered (\<lambda>_. True) ?A ?B (bind (sendPubsubIsolated cfg L cb p True)
        (\<lambda>done isolateErr. if isolateErr \<noteq> None then Ret False isolateErr
           else if \<not> done then Ret False (Some err) else sendPubsubOrderedGroup cfg L cb cs))" for err
    proof (rule ordered_bind[OF never])
      fix tr d e
      assume "runs (sendPubsubIsolated cfg L cb p True) tr d e"
      then have "d \<Longrightarrow> \<exists>a. a \<in> set tr \<and> ps_about (ev_ID (pc_evt c)) a" using isolated_done id by fastforce
      then show "(\<exists>a. a \<in> set tr \<and> ?A a) \<or> ordered (\<lambda>_. True) ?A ?B
          (if e \<noteq> None then Ret False e else if \<not> d then Ret False (Some err) else sendPubsubOrderedGroup cfg L cb cs)"
        using rest by auto
    qed
    have k: "ordered (\<lambda>_. True) ?A ?B (case answer of
                   Inr messageID \<Rightarrow> emit (markPubsubDone p) (sendPubsubOrderedGroup cfg L cb cs)
                 | Inl err \<Rightarrow>
                     if errors_Is err context_DeadlineExceeded
                     then emit (logPubsubFailure cb p err)
                       (Ret False (errors_Join [Some (Sentinel ErrFatalAfterCommit), Some err]))
                     else if isPubSubPermanentBackendError L err
                     then Out (ResumePublish (msg_Topic (pp_message p)) (msg_OrderingKey (pp_message p)))
                       (bind (sendPubsubIsolated cfg L cb p True)
                         (\<lambda>done isolateErr.
                            if isolateErr \<noteq> None then Ret False isolateErr
                            else if \<not> done then Ret False (Some err)
                            else sendPubsubOrderedGroup cfg L cb cs))
                     else Out (ResumePublish (msg_Topic (pp_message p)) (msg_OrderingKey (pp_message p)))
                       (emit (logPubsubFailure cb p err) (Ret False (Some err))))" for answer
      using rest id iso
      by (cases answer) (auto intro!: ordered_emit ordered_Out simp: markPubsubDone_def)
    show ?thesis
      using prep Some id ne
      by (auto simp: publishPubsubEvent_def intro!: ordered_emit ordered_Out ordered_await k)
  qed
qed

lemma candidate_inj:
  assumes "distinct (map (ev_ID \<circ> pc_evt) cs)" "c \<in> set cs" "c' \<in> set cs" "ev_ID (pc_evt c) = ev_ID (pc_evt c')"
  shows "c = c'"
  using assms by (auto simp: distinct_map inj_on_def)

lemma keyed_group_ordered:
  assumes bef: "before c1 c2 cs" and dist: "distinct (map (ev_ID \<circ> pc_evt) cs)"
    and grp: "orderedGroupID c1 = orderedGroupID c2" "pc_orderingKey c1 \<noteq> []" "pc_orderingKey c2 \<noteq> []"
  shows "ordered (\<lambda>_. True) (ps_about (ev_ID (pc_evt c1))) (publishes (ev_ID (pc_evt c2)))
    (sendPubsubOrderedGroup cfg L cb (filter (\<lambda>c. orderedGroupID c = g) (filter (\<lambda>c. pc_orderingKey c \<noteq> []) cs)))"
proof (cases "g = orderedGroupID c2")
  case True
  have "before c1 c2 (filter (\<lambda>c. orderedGroupID c = g) (filter (\<lambda>c. pc_orderingKey c \<noteq> []) cs))"
    by (intro before_filter bef) (use True grp in auto)
  then show ?thesis by (rule ordered_group_ordered) (intro distinct_map_filter dist)
next
  case False
  show ?thesis
  proof (rule ordered_never, rule never_publishes, rule ordered_group_publishes)
    fix c p
    assume "c \<in> set (filter (\<lambda>c. orderedGroupID c = g) (filter (\<lambda>c. pc_orderingKey c \<noteq> []) cs))" "snd (preparePubsubEvent cb c) = Some p"
    then show "log_ID (pp_log p) \<in> - {ev_ID (pc_evt c2)}"
      using candidate_inj[OF dist, of c c2] before_set[OF bef] False by (auto dest!: ps_prepare_Some)
  qed simp
qed

text \<open>
  (C16) Order inside an ordering key: of two events with the same topic and ordering key, the
  later one is handed to the Pub/Sub client only after the earlier one was reported, confirmed
  or poisoned, in every interleaving of the groups and whatever the results are.
\<close>

theorem pubsub_ordered_key:
  assumes run: "runs (pubsub_Send order cfg L cb events) tr d err"
    and ids: "distinct (map ev_ID events)"
    and events: "before e1 e2 events"
    and grp: "snd (parsePubsubCandidate cb e1) = Some c1" "snd (parsePubsubCandidate cb e2) = Some c2"
      "pc_orderingKey c2 \<noteq> []" "pc_orderingKey c1 = pc_orderingKey c2"
      "ev_Destination e1 = ev_Destination e2"
  shows "precedes (ps_about (ev_ID e1)) (publishes (ev_ID e2)) tr"
proof -
  let ?A = "ps_about (ev_ID e1)" and ?B = "publishes (ev_ID e2)"
  let ?cs = "List.map_filter (\<lambda>e. snd (parsePubsubCandidate cb e)) events"
  let ?key = "filter (\<lambda>c. pc_orderingKey c \<noteq> []) ?cs"
  have ev: "pc_evt c1 = e1" "pc_evt c2 = e2" using grp by (auto dest: ps_parse_event)
  have dist: "distinct (map (ev_ID \<circ> pc_evt) ?cs)"
    by (rule distinct_map_of_map_filter[OF ids]) (auto dest: ps_parse_event)
  have bef: "before c1 c2 ?cs" by (rule before_map_filter[OF events]) (use grp in auto)
  have inj: "c = c2" if "c \<in> set ?cs" "ev_ID (pc_evt c) = ev_ID e2" for c
    using candidate_inj[OF dist that(1), of c2] that(2) before_set[OF bef] ev by simp
  have un: "always (\<lambda>a. \<not> ?B a) (sendPubsubUnorderedEvents order cfg L cb (filter (\<lambda>c. pc_orderingKey c = []) ?cs))"
  proof (rule never_publishes, rule unordered_publishes)
    fix c p
    assume "c \<in> set (filter (\<lambda>c. pc_orderingKey c = []) ?cs)" "snd (preparePubsubEvent cb c) = Some p"
    then show "log_ID (pp_log p) \<in> - {ev_ID e2}" using inj[of c] grp(3) by (auto dest!: ps_prepare_Some)
  qed simp
  have grps: "ordered (\<lambda>_. True) ?A ?B (sendPubsubOrderedGroup cfg L cb (filter (\<lambda>c. orderedGroupID c = g) ?key))" for g
    using keyed_group_ordered[OF bef dist, where g = g] grp ev by (simp add: orderedGroupID_def)
  have "ordered (\<lambda>_. True) ?A ?B (pubsub_Send order cfg L cb events)"
    unfolding pubsub_Send_def sendPubsubEventsWithCallbacks_def Let_def group_get_group_by
  proof (rule ordered_emit, use reports_not_publish in force, rule disjI2, rule ordered_bind[OF un], rule disjI2)
    fix u :: "go_error option"
    let ?run = "RunConcurrent (map fst (group_by orderedGroupID ?key))
        (\<lambda>g. sendPubsubOrderedGroup cfg L cb (filter (\<lambda>c. orderedGroupID c = g) ?key))"
    have par: "ordered (\<lambda>_. True) ?A ?B ?run" by (rule ordered_RunConcurrent) (rule grps)
    show "ordered (\<lambda>_. True) ?A ?B (bind ?run (\<lambda>_ orderedErr. Ret False (errors_Join [u, orderedErr])))"
      by (rule orderedI) (auto simp: runs_bind intro: orderedD[OF par])
  qed
  then show ?thesis using run by (rule orderedD) (simp add: list_all_iff)
qed

theorem pubsub_ordered_key_witness:
  "precedes (ps_about (GInt64 1)) (publishes (GInt64 2)) (ps_steps 1 ''k'' @ ps_steps 2 ''k'')"
proof -
  have b: "before (keyed 1) (keyed 2) [keyed 1, keyed 2]"
    unfolding before_def by (rule exI[of _ "[]"], rule exI[of _ "[]"], rule exI[of _ "[]"]) simp
  show ?thesis
    using pubsub_ordered_key[OF ps_sample_runs(2) _ b, of "\<lparr> pc_evt = keyed 1, pc_orderingKey = ''k'' \<rparr>"
        "\<lparr> pc_evt = keyed 2, pc_orderingKey = ''k'' \<rparr>"]
    by (simp add: ps_sample_parse)
qed

section \<open>A run without error settles the batch\<close>

lemma achieves_await:
  "(\<And>r. achieves H G (k r)) \<Longrightarrow> achieves H G (awaitPubsubResult cfg cb h k)"
  unfolding awaitPubsubResult_def by (auto intro!: achieves_Call achieves_emit)

text \<open>A joined error is never dropped.\<close>

lemma join_keeps: "\<exists>k. errors_Join [Some j, x] = Some k"
  by (cases x) auto

lemma join_pair_None: "None = errors_Join [x, y] \<longleftrightarrow> x = None \<and> y = None"
  by (cases x; cases y) auto

lemma unordered_error_achieves: "achieves H G (unordered_await cfg L cb ps (Some j))"
proof (induction ps arbitrary: j)
  case Nil
  then show ?case by (simp add: achieves_error)
next
  case (Cons p ps)
  have k: "achieves H G (unordered_await cfg L cb ps (errors_Join [Some j, x]))" for j x
    using join_keeps[of j x] Cons.IH by auto
  have iso: "achieves H G (unordered_await cfg L cb ps
      (errors_Join [if \<not> dn then errors_Join [Some j, Some err] else Some j, isolateErr]))" for dn err isolateErr
    using k by auto
  show ?case
    unfolding unordered_await.simps
    apply (rule achieves_await)
    subgoal for r
      by (cases r) (auto intro!: achieves_emit achieves_bind k iso Cons.IH simp: Let_def simp del: errors_Join_Some_both)
    done
qed

lemma unordered_await_settles:
  assumes "p \<in> set ps"
  shows "achieves (\<lambda>_. True) (ps_about (log_ID (pp_log p))) (unordered_await cfg L cb ps joined)"
  using assms
proof (induction ps arbitrary: joined)
  case Nil
  then show ?case by simp
next
  case (Cons x ps)
  let ?G = "ps_about (log_ID (pp_log p))"
  have rest: "x = p \<or> (\<forall>joined. achieves (\<lambda>_. True) ?G (unordered_await cfg L cb ps joined))" using Cons by auto
  have iso: "achieves (\<lambda>_. True) ?G (bind (sendPubsubIsolated cfg L cb x False)
      (\<lambda>done isolateErr.
         let joined' = (if \<not> done then errors_Join [joined, Some err] else joined) in
         unordered_await cfg L cb ps (errors_Join [joined', isolateErr])))" for err
  proof (rule achieves_bind)
    fix tr d e
    assume r: "runs (sendPubsubIsolated cfg L cb x False) tr d e"
    show "(\<exists>a. a \<in> set tr \<and> ?G a) \<or> achieves (\<lambda>_. True) ?G
        (let joined' = (if \<not> d then errors_Join [joined, Some err] else joined) in
         unordered_await cfg L cb ps (errors_Join [joined', e]))"
    proof (cases e)
      case None
      then have d using isolated_no_error_done r by blast
      then show ?thesis using isolated_done[OF r] rest by (auto simp: Let_def)
    next
      case (Some x)
      obtain k where "errors_Join [if \<not> d then errors_Join [joined, Some err] else joined, e] = Some k"
        using Some by (cases "errors_Join [if \<not> d then errors_Join [joined, Some err] else joined, e]") auto
      then show ?thesis by (simp add: Let_def unordered_error_achieves)
    qed
  qed
  have err: "achieves (\<lambda>_. True) ?G (unordered_await cfg L cb ps (errors_Join [joined, Some e]))" for e
    using unordered_error_achieves by (cases joined) auto
  show ?case
    unfolding unordered_await.simps
    apply (rule achieves_await)
    subgoal for r
      using rest iso[unfolded Let_def] err
      by (cases r) (auto intro!: achieves_emit achieves_Out simp: markPubsubDone_def Let_def)
    done
qed

lemma unordered_settles:
  assumes "c \<in> set cs"
  shows "achieves (\<lambda>_. True) (ps_about (ev_ID (pc_evt c))) (sendPubsubUnorderedEvents order cfg L cb cs)"
proof (cases "snd (preparePubsubEvent cb c)")
  case None
  from ps_prepare_None_reported[OF None] obtain r where
    r: "r \<in> set (fst (preparePubsubEvent cb c))" "reported_id r = Some (ev_ID (pc_evt c))" by blast
  then have "Report r \<in> set (unordered_publish cb c)"
    using None by (cases "preparePubsubEvent cb c") (auto simp: unordered_publish_def reports_def)
  with assms r(2) have "\<exists>x. x \<in> set (concat (map (unordered_publish cb) cs)) \<and> ps_about (ev_ID (pc_evt c)) (AOut x)"
    by (metis (no_types) ps_about.simps(1) UN_I set_concat set_map image_eqI)
  then show ?thesis unfolding sendPubsubUnorderedEvents_def Let_def by (intro achieves_emit disjI1)
next
  case (Some p)
  then have "p \<in> set (List.map_filter (\<lambda>c. snd (preparePubsubEvent cb c)) cs)"
    using assms by (auto simp: in_map_filter)
  from unordered_await_settles[OF this] ps_prepare_Some[OF Some] show ?thesis
    unfolding sendPubsubUnorderedEvents_def Let_def by (auto intro!: achieves_emit)
qed

lemma ordered_group_settles:
  assumes "c \<in> set cs"
  shows "achieves (\<lambda>_. True) (ps_about (ev_ID (pc_evt c))) (sendPubsubOrderedGroup cfg L cb cs)"
  using assms
proof (induction cs)
  case Nil
  then show ?case by simp
next
  case (Cons x cs)
  let ?G = "ps_about (ev_ID (pc_evt c))"
  obtain rs po where prep: "preparePubsubEvent cb x = (rs, po)" by fastforce
  have rest: "x = c \<or> achieves (\<lambda>_. True) ?G (sendPubsubOrderedGroup cfg L cb cs)" using Cons by auto
  show ?case
  proof (cases po)
    case None
    have "x = c \<Longrightarrow> \<exists>y. y \<in> set (reports rs) \<and> ?G (AOut y)"
      using ps_prepare_None_reported[of cb x] prep None by (fastforce simp: reports_def)
    then show ?thesis using None prep rest by (auto intro!: achieves_emit)
  next
    case (Some p)
    have id: "log_ID (pp_log p) = ev_ID (pc_evt x)" using ps_prepare_Some[of cb x p] prep Some by simp
    have iso: "achieves (\<lambda>_. True) ?G (bind (sendPubsubIsolated cfg L cb p True)
        (\<lambda>done isolateErr. if isolateErr \<noteq> None then Ret False isolateErr
           else if \<not> done then Ret False (Some err) else sendPubsubOrderedGroup cfg L cb cs))" for err
    proof (rule achieves_bind)
      fix tr d e
      assume r: "runs (sendPubsubIsolated cfg L cb p True) tr d e"
      then have "d \<Longrightarrow> \<exists>a. a \<in> set tr \<and> ps_about (ev_ID (pc_evt x)) a" using isolated_done id by fastforce
      with rest show "(\<exists>a. a \<in> set tr \<and> ?G a) \<or> achieves (\<lambda>_. True) ?G
          (if e \<noteq> None then Ret False e else if \<not> d then Ret False (Some err) else sendPubsubOrderedGroup cfg L cb cs)"
        by (auto simp: achieves_error)
    qed
    have "achieves (\<lambda>_. True) ?G (emit xs (Ret d (Some e)))" for xs d e
      by (intro achieves_emit disjI2 achieves_error)
    then show ?thesis
      using prep Some iso rest id
      by (auto simp: publishPubsubEvent_def markPubsubDone_def split: sum.splits simp: achieves_error simp del: not_None_eq
          intro!: achieves_emit achieves_Out achieves_await)
  qed
qed

text \<open>
  (C18) When the Pub/Sub \<open>Send\<close> returns no error, every event of the batch was reported,
  confirmed or poisoned. No assumption on the service is needed.
\<close>

theorem pubsub_no_error_settles:
  assumes "runs (pubsub_Send order cfg L cb events) tr d None" "evt \<in> set events"
  shows "\<exists>r. r \<in> set (ps_reports_of tr) \<and> reported_id r = Some (ev_ID evt)"
proof -
  let ?G = "ps_about (ev_ID evt)"
  let ?cs = "List.map_filter (\<lambda>e. snd (parsePubsubCandidate cb e)) events"
  let ?key = "filter (\<lambda>c. pc_orderingKey c \<noteq> []) ?cs"
  let ?un = "sendPubsubUnorderedEvents order cfg L cb (filter (\<lambda>c. pc_orderingKey c = []) ?cs)"
  let ?par = "RunConcurrent (map fst (group_by orderedGroupID ?key))
      (\<lambda>g. sendPubsubOrderedGroup cfg L cb (filter (\<lambda>c. orderedGroupID c = g) ?key))"
  let ?rest = "bind ?un (\<lambda>_ u. bind ?par (\<lambda>_ v. Ret False (errors_Join [u, v])))"
  have "achieves (\<lambda>_. True) ?G (pubsub_Send order cfg L cb events)"
  proof (cases "snd (parsePubsubCandidate cb evt)")
    case None
    then have "\<exists>x. x \<in> set (concat (map (\<lambda>e. reports (fst (parsePubsubCandidate cb e))) events)) \<and> ?G (AOut x)"
      using ps_parse_None_reported[OF None] assms(2) by (fastforce simp: reports_def)
    then show ?thesis
      unfolding pubsub_Send_def sendPubsubEventsWithCallbacks_def Let_def by (intro achieves_emit disjI1)
  next
    case (Some c)
    have c: "c \<in> set ?cs" "pc_evt c = evt" using Some assms(2) ps_parse_event[OF Some] by (auto simp: in_map_filter)
    have "achieves (\<lambda>_. True) ?G ?rest"
    proof (rule achievesI)
      fix tr d
      assume "runs ?rest tr d None"
      then obtain t u d1 d2 where tr: "tr = t @ u" "runs ?un t d1 None" "runs ?par u d2 None"
        by (auto simp: runs_bind join_pair_None simp del: errors_Join_None_iff)
      show "\<exists>a. a \<in> set tr \<and> ?G a"
      proof (cases "pc_orderingKey c = []")
        case True
        then show ?thesis using unordered_settles[of c "filter (\<lambda>c. pc_orderingKey c = []) ?cs" order cfg L cb] c tr
          by (auto dest!: achievesD simp: list_all_iff)
      next
        case False
        then have key: "c \<in> set ?key" using c by simp
        have "achieves (\<lambda>_. True) ?G ?par"
        proof (rule achieves_RunConcurrent)
          show "orderedGroupID c \<in> set (map fst (group_by orderedGroupID ?key))"
            using key by (simp only: group_by_keys_set) blast
          show "achieves (\<lambda>_. True) ?G
              (sendPubsubOrderedGroup cfg L cb (filter (\<lambda>x. orderedGroupID x = orderedGroupID c) ?key))"
            using ordered_group_settles[of c "filter (\<lambda>x. orderedGroupID x = orderedGroupID c) ?key"] key c by simp
        qed
        from achievesD[OF this tr(3)] tr(1) show ?thesis by (auto simp: list_all_iff)
      qed
    qed
    then show ?thesis
      unfolding pubsub_Send_def sendPubsubEventsWithCallbacks_def Let_def group_get_group_by
      by (intro achieves_emit disjI2)
  qed
  from achievesD[OF this assms(1)] obtain a where "a \<in> set tr" "?G a" by (auto simp: list_all_iff)
  then show ?thesis by (auto simp: in_ps_reports_of dest: ps_about_report)
qed

theorem pubsub_no_error_settles_witness:
  "\<exists>r. r \<in> set (ps_reports_of (ps_steps 1 ''k'' @ ps_steps 2 ''k'')) \<and> reported_id r = Some (ev_ID (keyed 2))"
  by (rule pubsub_no_error_settles[OF ps_sample_runs(2)]) simp

section \<open>Undecided ordered publishes are fatal\<close>

text \<open>
  A deadline that expires while waiting for an ordered publish leaves its outcome unknown, and
  a retry could reorder the key. \<open>undecided a\<close> is such a result.
\<close>

fun undecided :: "ps_act \<Rightarrow> bool" where
  "undecided (ACall (h, t) (Inl err)) =
     (msg_OrderingKey (pp_message (fst h)) \<noteq> [] \<and> errors_Is err context_DeadlineExceeded)"
| "undecided _ = False"

definition fatal_when_undecided :: "ps_prog \<Rightarrow> bool" where
  "fatal_when_undecided p \<longleftrightarrow>
     (\<forall>tr d e. runs p tr d e \<longrightarrow> (\<exists>a. a \<in> set tr \<and> undecided a) \<longrightarrow> is_err e ErrFatalAfterCommit)"

lemma fatal_never: "always (\<lambda>a. \<not> undecided a) p \<Longrightarrow> fatal_when_undecided p"
  unfolding fatal_when_undecided_def by (auto dest!: alwaysD simp: list_all_iff)

lemma isolated_fatal: "fatal_when_undecided (sendPubsubIsolated cfg L cb p True)"
  unfolding fatal_when_undecided_def
proof (intro allI impI)
  fix tr d e
  assume r: "runs (sendPubsubIsolated cfg L cb p True) tr d e" and u: "\<exists>a. a \<in> set tr \<and> undecided a"
  from isolated_run[OF r] obtain answer t where
    t: "tr = AOut (Publish (p, True)) # AOut (Flush (msg_Topic (pp_message p))) #
       ACall ((p, True), wrap64 (PublishTimeout cfg + PublishResultGrace cfg)) answer # map AOut t"
    "isolated_outcome L cb p True answer (map AOut t) d e" by blast
  with u obtain err where "answer = Inl err" "errors_Is err context_DeadlineExceeded"
    by (cases answer) auto
  with t(2) show "is_err e ErrFatalAfterCommit" by simp
qed

lemma emit_undecided:
  "runs (emit xs p) tr d e \<Longrightarrow> a \<in> set tr \<Longrightarrow> undecided a \<Longrightarrow> \<exists>t. runs p t d e \<and> a \<in> set t"
  by (auto simp: runs_emit)

lemma ordered_group_fatal: "fatal_when_undecided (sendPubsubOrderedGroup cfg L cb cs)"
  unfolding fatal_when_undecided_def
proof (intro allI impI, induction cs)
  case Nil
  then show ?case by simp
next
  case (Cons c cs)
  obtain rs po where prep: "preparePubsubEvent cb c = (rs, po)" by fastforce
  from Cons.prems(2) obtain a where a: "a \<in> set tr" "undecided a" by blast
  show ?case
  proof (cases po)
    case None
    with prep Cons.prems(1) a obtain t where "runs (sendPubsubOrderedGroup cfg L cb cs) t d e" "a \<in> set t"
      by (auto dest!: emit_undecided)
    with a(2) show ?thesis by (blast intro: Cons.IH)
  next
    case (Some p)
    let ?resume = "ResumePublish (msg_Topic (pp_message p)) (msg_OrderingKey (pp_message p))"
    let ?retry = "\<lambda>err. bind (sendPubsubIsolated cfg L cb p True)
        (\<lambda>done isolateErr. if isolateErr \<noteq> None then Ret False isolateErr
           else if \<not> done then Ret False (Some err) else sendPubsubOrderedGroup cfg L cb cs)"
    let ?k = "\<lambda>answer. case answer of
                   Inr messageID \<Rightarrow> emit (markPubsubDone p) (sendPubsubOrderedGroup cfg L cb cs)
                 | Inl err \<Rightarrow>
                     if errors_Is err context_DeadlineExceeded
                     then emit (logPubsubFailure cb p err)
                       (Ret False (errors_Join [Some (Sentinel ErrFatalAfterCommit), Some err]))
                     else if isPubSubPermanentBackendError L err
                     then Out ?resume (?retry err)
                     else Out ?resume (emit (logPubsubFailure cb p err) (Ret False (Some err)))"
    from Cons.prems(1) obtain answer t where
      tr: "tr = map AOut (reports rs) @ AOut (Publish (p, False)) # AOut (Flush (msg_Topic (pp_message p))) #
        ACall ((p, False), wrap64 (PublishTimeout cfg + PublishResultGrace cfg)) answer # map AOut (reports (Progress cb)) @ t"
      and r: "runs (?k answer) t d e"
      unfolding sendPubsubOrderedGroup.simps prep Some prod.case option.case publishPubsubEvent_def
        awaitPubsubResult_def runs_emit runs_Out_iff runs_Call_iff by blast
    show ?thesis
    proof (cases "undecided (ACall ((p, False), wrap64 (PublishTimeout cfg + PublishResultGrace cfg)) answer)")
      case True
      with r show ?thesis by (cases answer) (auto simp: runs_emit)
    next
      case False
      with tr a have at: "a \<in> set t" by auto
      have retry: "is_err e ErrFatalAfterCommit" if "runs (?retry err) t' d e" "a \<in> set t'" for err t'
      proof -
        from that(1) obtain u v d' e' where u: "t' = u @ v" "runs (sendPubsubIsolated cfg L cb p True) u d' e'"
          "runs (if e' \<noteq> None then Ret False e' else if \<not> d' then Ret False (Some err)
             else sendPubsubOrderedGroup cfg L cb cs) v d e" by (auto simp: runs_bind)
        show ?thesis
        proof (cases "a \<in> set u")
          case True
          then have "is_err e' ErrFatalAfterCommit" using isolated_fatal u(2) a(2)
            unfolding fatal_when_undecided_def by blast
          with u(3) show ?thesis by (cases e') auto
        next
          case False
          then have "a \<in> set v" using that(2) u(1) by simp
          with u(3) have "runs (sendPubsubOrderedGroup cfg L cb cs) v d e" by (auto split: if_splits)
          with a(2) \<open>a \<in> set v\<close> show ?thesis by (blast intro: Cons.IH)
        qed
      qed
      have rest: "is_err e ErrFatalAfterCommit"
        if "runs (sendPubsubOrderedGroup cfg L cb cs) t' d e" "a \<in> set t'" for t'
        using that a(2) by (blast intro: Cons.IH)
      from r at a(2) show ?thesis
        by (cases answer)
          (auto simp: markPubsubDone_def runs_Out_iff runs_emit simp del: not_None_eq split: if_splits
            intro: rest retry)
    qed
  qed
qed

lemma unordered_decided:
  assumes "\<And>c. c \<in> set cs \<Longrightarrow> pc_orderingKey c = []"
  shows "always (\<lambda>a. \<not> undecided a) (sendPubsubUnorderedEvents order cfg L cb cs)"
proof -
  have iso: "always (\<lambda>a. \<not> undecided a) (sendPubsubIsolated cfg L cb p isOrdered)"
    if "msg_OrderingKey (pp_message p) = []" for p isOrdered
  proof -
    have u: "\<not> undecided (ACall ((p, x), t) r)" for x t r using that by (cases r) auto
    show ?thesis
      unfolding sendPubsubIsolated_def publishPubsubEvent_def awaitPubsubResult_def
      by (auto intro!: always_Out always_Call always_emit split: sum.splits simp: list_all_iff u)
  qed
  have await: "always (\<lambda>a. \<not> undecided a) (unordered_await cfg L cb ps joined)"
    if "\<forall>p. p \<in> set ps \<longrightarrow> msg_OrderingKey (pp_message p) = []" for ps joined
    using that
  proof (induction ps arbitrary: joined)
    case Nil
    then show ?case by simp
  next
    case (Cons p ps)
    have u: "\<not> undecided (ACall ((p, x), t) r)" for x t r using Cons.prems by (cases r) auto
    show ?case
      unfolding unordered_await.simps awaitPubsubResult_def
      using Cons iso by (auto intro!: always_Out always_Call always_emit always_bind split: sum.splits
          simp: list_all_iff u Let_def)
  qed
  show ?thesis
    unfolding sendPubsubUnorderedEvents_def Let_def
    by (intro always_emit await) (auto simp: list_all_iff in_map_filter assms dest!: ps_prepare_Some)
qed

text \<open>
  If a deadline expires while the sender waits for the result of an ordered publish, its
  outcome is unknown; \<open>Send\<close> then returns an error that is \<open>ErrFatalAfterCommit\<close>, so the relay
  stops after committing what was settled instead of retrying the key out of order.
\<close>

theorem pubsub_undecided_is_fatal:
  assumes run: "runs (pubsub_Send order cfg L cb events) tr d err" and a: "a \<in> set tr" "undecided a"
  shows "is_err err ErrFatalAfterCommit"
proof -
  let ?cs = "List.map_filter (\<lambda>e. snd (parsePubsubCandidate cb e)) events"
  let ?key = "filter (\<lambda>c. pc_orderingKey c \<noteq> []) ?cs"
  let ?un = "sendPubsubUnorderedEvents order cfg L cb (filter (\<lambda>c. pc_orderingKey c = []) ?cs)"
  let ?group = "\<lambda>g. sendPubsubOrderedGroup cfg L cb (filter (\<lambda>c. orderedGroupID c = g) ?key)"
  let ?par = "RunConcurrent (map fst (group_by orderedGroupID ?key)) ?group"
  from run obtain w where w: "tr = map AOut (concat (map (\<lambda>e. reports (fst (parsePubsubCandidate cb e))) events)) @ w"
    "runs (bind ?un (\<lambda>_ x. bind ?par (\<lambda>_ y. Ret False (errors_Join [x, y])))) w d err"
    unfolding pubsub_Send_def sendPubsubEventsWithCallbacks_def Let_def group_get_group_by runs_emit by blast
  then obtain t v x d1 where t: "w = t @ v" "runs ?un t d1 x" "runs (bind ?par (\<lambda>_ y. Ret False (errors_Join [x, y]))) v d err"
    unfolding runs_bind by blast
  then obtain es where r: "runs_par (map ?group (map fst (group_by orderedGroupID ?key))) v es"
    and err: "err = errors_Join [x, join_all es]"
    by (auto simp: runs_bind runs_RunConcurrent simp del: map_map filter_filter)
  have "list_all (\<lambda>a. \<not> undecided a) t"
    using t(2) alwaysD[OF unordered_decided[of "filter (\<lambda>c. pc_orderingKey c = []) ?cs" order cfg L cb]] by auto
  with w(1) t(1) a have "a \<in> set v" by (auto simp: list_all_iff)
  from runs_par_origin[OF r this] obtain g u d' e' where
    u: "runs (?group g) u d' e'" "a \<in> set u" "\<forall>y. e' = Some y \<longrightarrow> y \<in> set es" by auto
  have "is_err e' ErrFatalAfterCommit"
    using ordered_group_fatal u(1,2) a(2) unfolding fatal_when_undecided_def by blast
  then have "is_err (join_all es) ErrFatalAfterCommit"
    using u(3) by (cases e') (auto simp: is_err_join_all)
  then show ?thesis using err by (simp add: is_err_errors_Join)
qed

definition deadline_client :: "ps_request \<Rightarrow> unit \<Rightarrow> ps_answer \<times> unit" where
  "deadline_client req w = (Inl (Sentinel context_DeadlineExceeded), ())"

lemma deadline_run:
  "fst (fst (exec deadline_client (pubsub_Send (\<lambda>ts. ts) ps_config L ps_callbacks [keyed 1]) ())) =
     [AOut (Publish (ps_sample_prepared 1 ''k'', False)), AOut (Flush ''topic''),
      ACall ((ps_sample_prepared 1 ''k'', False), 70) (Inl (Sentinel context_DeadlineExceeded)),
      AOut (Report MarkProgress),
      AOut (Report (LogFailure ''Failed to send event'' ''pubsub|topic|k|context deadline exceeded''))]"
proof -
  let ?c = "\<lambda>i. \<lparr> pc_evt = keyed i, pc_orderingKey = ''k'' \<rparr>"
  have "group_by orderedGroupID [?c 1] = [(''topic'' @ [char_of (0 :: nat)] @ ''k'', [?c 1])]"
    by (simp add: group_by_def group_append_def orderedGroupID_def)
  then show ?thesis
    by (simp add: pubsub_Send_def sendPubsubEventsWithCallbacks_def Let_def ps_sample_parse List.map_filter_simps
      reports_def sendPubsubUnorderedEvents_def ps_sample_prepare publishPubsubEvent_def awaitPubsubResult_def
      deadline_client_def ps_config_def ps_callbacks_def Progress_def RunConcurrent_def logPubsubFailure_def
      ReportFailure_def pubsub_Target_def group_get_def join_all_def ps_sample_prepared_def NewPublishLog_def wrap64_def)
qed

theorem pubsub_undecided_is_fatal_witness:
  "is_err (snd (snd (fst (exec deadline_client
     (pubsub_Send (\<lambda>ts. ts) ps_config sample_lib ps_callbacks [keyed 1]) ())))) ErrFatalAfterCommit"
proof -
  let ?x = "exec deadline_client (pubsub_Send (\<lambda>ts. ts) ps_config sample_lib ps_callbacks [keyed 1]) ()"
  have "runs (pubsub_Send (\<lambda>ts. ts) ps_config sample_lib ps_callbacks [keyed 1]) (fst (fst ?x)) (fst (snd (fst ?x)))
      (snd (snd (fst ?x)))" by (rule exec_runs[where client = deadline_client and w' = "snd ?x" and w = "()"]) (simp add: prod_eq_iff)
  from pubsub_undecided_is_fatal[OF this, of "ACall ((ps_sample_prepared 1 ''k'', False), 70)
      (Inl (Sentinel context_DeadlineExceeded))"] show ?thesis
    by (simp add: deadline_run ps_sample_prepared_def)
qed

end
