(* ===== verification/Relay_Delivery.thy ===== *)
theory Relay_Delivery
  imports Relay SQS_Ordering Pubsub_Ordering
begin

text \<open>
  The relay over the contract of its senders. The locale takes a sender per target that keeps
  the contract of \<open>provider.Sender\<close>; the fates of a batch are then facts about the cloud service.
  It is interpreted on the SQS and Pub/Sub senders of this development.
\<close>

section \<open>What a sender is given\<close>

definition batch_for :: "golib \<Rightarrow> appConfig \<Rightarrow> batch_env \<Rightarrow> event list \<Rightarrow> string \<Rightarrow> Event list" where
  "batch_for L cfg env events t = providerEvents L cfg (group_of t (dispatched L cfg (be_now env) events))"

text \<open>
  The runs the sender of a target can have made in the batch: the reports the collector received
  are the reports of the run, and the error it returned is the error of the run.
\<close>

definition ran ::
  "(string \<Rightarrow> Event list \<Rightarrow> 't \<Rightarrow> go_error option \<Rightarrow> bool) \<Rightarrow> ('t \<Rightarrow> report list) \<Rightarrow>
   golib \<Rightarrow> appConfig \<Rightarrow> batch_env \<Rightarrow> event list \<Rightarrow> string \<Rightarrow> 't \<Rightarrow> bool" where
  "ran sends told L cfg env events t tr \<longleftrightarrow>
     (let b = batch_for L cfg env events t in
      sends t b tr (snd (be_send env t b)) \<and> told tr = fst (be_send env t b))"

text \<open>
  What an environment says of a sender is what some run of that sender on its events does:
  for every target that gets events in the batch.
\<close>

definition honest ::
  "(string \<Rightarrow> Event list \<Rightarrow> 't \<Rightarrow> go_error option \<Rightarrow> bool) \<Rightarrow> ('t \<Rightarrow> report list) \<Rightarrow>
   golib \<Rightarrow> appConfig \<Rightarrow> batch_env \<Rightarrow> event list \<Rightarrow> bool" where
  "honest sends told L cfg env events \<longleftrightarrow>
     (\<forall>p. p \<in> set (dispatched L cfg (be_now env) events) \<longrightarrow>
       (\<exists>tr. ran sends told L cfg env events (target (route p)) tr))"

text \<open>Why an event is condemned before it is sent.\<close>

definition condemned_locally :: "golib \<Rightarrow> appConfig \<Rightarrow> int \<Rightarrow> event \<Rightarrow> string \<Rightarrow> bool" where
  "condemned_locally L cfg now e m \<longleftrightarrow>
     (isExpiredEvent L cfg e now \<and> m = expired_reason) \<or>
     (\<exists>err. eventOptions L (eventValue e (EventOptions cfg)) (target (route e)) = Inl err \<and> m = error_text err)"

lemma verdict_Inl_cause: "verdict L cfg now e = Inl p \<Longrightarrow> condemned_locally L cfg now e (pe_error p)"
  by (auto simp: verdict_def condemned_locally_def withParsedOptions_def split: if_splits sum.splits)

lemma report_fate_Delivered: "report_fate r = Delivered \<longleftrightarrow> (\<exists>i. r = Some (AddConfirmedID i))"
  by (cases r rule: report_fate.cases) auto

lemma report_fate_Dead: "report_fate r = Dead m \<longleftrightarrow> (\<exists>i. r = Some (AddPoisonID i m))"
  by (cases r rule: report_fate.cases) auto

section \<open>Over the contract\<close>

locale relay_senders =
  fixes sends :: "string \<Rightarrow> Event list \<Rightarrow> 't \<Rightarrow> go_error option \<Rightarrow> bool"
    and told :: "'t \<Rightarrow> report list"
    and accepted :: "string \<Rightarrow> 't \<Rightarrow> Event \<Rightarrow> bool"
    and rejected :: "string \<Rightarrow> 't \<Rightarrow> Event \<Rightarrow> bool"
  assumes contract: "provider_sender (sends t) told (accepted t) (rejected t)"
begin

text \<open>The event that the first report about a dispatched event names is that event.\<close>

lemma report_names:
  assumes ok: "outbox_ok P cfg cols rows" and sel: "selectEvents L P cfg cols rows None None = Inr events"
    and e: "e \<in> set events" "verdict L cfg (be_now env) e = Inr p"
    and key: "eventIDKey L i = event_key L cfg p"
  shows "i = GNil \<Longrightarrow> False"
    and "evt \<in> set (batch_for L cfg env events t) \<Longrightarrow> ev_ID evt = i \<Longrightarrow> evt = providerEvent L cfg p"
proof -
  note r = selected_events(3)[OF ok sel e(1)] and v = verdict_Inr[OF e(2)]
  have pid: "event_id cfg p = row_id cfg (columns e)" using v r by (simp add: event_id_def eventValue_def row_id_def)
  have plain: "plain_id (event_id cfg p)" "event_id cfg p \<noteq> GNil" using outbox_okD(3)[OF ok] r pid by auto
  show False if "i = GNil"
    using key that plain eventIDKey_plain_inj[of GNil "event_id cfg p" L] by (simp add: event_key_id)
  assume evt: "evt \<in> set (batch_for L cfg env events t)" "ev_ID evt = i"
  then obtain q where q: "q \<in> set (dispatched L cfg (be_now env) events)" "evt = providerEvent L cfg q"
    by (auto simp: batch_for_def providerEvents_def group_of_def)
  then have "event_key L cfg q = event_key L cfg p"
    using evt(2) key by (simp add: event_key_id event_id_def providerEvent_def)
  moreover have "p \<in> set (dispatched L cfg (be_now env) events)" using e by (auto simp: dispatched_in)
  moreover have "keys_unique L cfg (dispatched L cfg (be_now env) events)"
    by (rule keys_unique_dispatched[OF selected_events(2)[OF ok sel]])
  ultimately have "q = p" using q(1) by (auto simp: keys_unique_def distinct_map dest: inj_onD)
  then show "evt = providerEvent L cfg p" using q(2) by simp
qed

text \<open>
  The first report about a dispatched event, and so its fate, has its cause in every run the
  sender can have made: the reports alone tell that the service acknowledged or refused it.
\<close>

lemma fate_of_dispatched:
  assumes ok: "outbox_ok P cfg cols rows" and sel: "selectEvents L P cfg cols rows None None = Inr events"
    and e: "e \<in> set events" "verdict L cfg (be_now env) e = Inr p"
    and tr: "ran sends told L cfg env events (target (route e)) tr"
  shows "batch_fate L cfg env events e = report_fate (first_report L (told tr) (event_key L cfg p))"
    and "first_report L (told tr) (event_key L cfg p) = Some (AddConfirmedID i) \<Longrightarrow> accepted (target (route e)) tr (providerEvent L cfg p)"
    and "first_report L (told tr) (event_key L cfg p) = Some (AddPoisonID i m) \<Longrightarrow> rejected (target (route e)) tr (providerEvent L cfg p)"
proof -
  let ?t = "target (route e)" and ?b = "batch_for L cfg env events (target (route e))"
  have rt: "route p = route e" using verdict_Inr[OF e(2)] by simp
  have run: "sends ?t ?b tr (snd (be_send env ?t ?b))" "told tr = fst (be_send env ?t ?b)" using tr by (simp_all add: ran_def Let_def)
  show "batch_fate L cfg env events e = report_fate (first_report L (told tr) (event_key L cfg p))"
    using e(2) rt run(2) by (simp add: batch_fate_def sender_fate_def target_reports_def batch_for_def)
  show "accepted ?t tr (providerEvent L cfg p)" if r: "first_report L (told tr) (event_key L cfg p) = Some (AddConfirmedID i)"
  proof -
    have key: "eventIDKey L i = event_key L cfg p" and told: "AddConfirmedID i \<in> set (told tr)"
      using first_report_Some[OF r] by (auto simp: about_def)
    note names = report_names[OF ok sel e key]
    have "i \<in> set (confirmed_ids (told tr))" using told by (auto simp: in_confirmed_ids)
    moreover have "i \<noteq> GNil" using names(1) by blast
    ultimately obtain evt where "evt \<in> set ?b" "ev_ID evt = i" "accepted ?t tr evt"
      using provider_sender.confirm_sound[OF contract run(1)] by blast
    then show ?thesis using names(2) by auto
  qed
  show "rejected ?t tr (providerEvent L cfg p)" if r: "first_report L (told tr) (event_key L cfg p) = Some (AddPoisonID i m)"
  proof -
    have key: "eventIDKey L i = event_key L cfg p" and told: "AddPoisonID i m \<in> set (told tr)"
      using first_report_Some[OF r] by (auto simp: about_def)
    note names = report_names[OF ok sel e key]
    have "i \<in> set (poison_ids (told tr))" using told by (auto simp: in_poison_ids)
    moreover have "i \<noteq> GNil" using names(1) by blast
    ultimately obtain evt where "evt \<in> set ?b" "ev_ID evt = i" "rejected ?t tr evt"
      using provider_sender.poison_sound[OF contract run(1)] by blast
    then show ?thesis using names(2) by auto
  qed
qed

lemma settled_by_report:
  assumes "outbox_ok P cfg cols rows" "selectEvents L P cfg cols rows None None = Inr events"
    "honest sends told L cfg env events" "e \<in> set events" "verdict L cfg (be_now env) e = Inr p"
    "batch_fate L cfg env events e \<noteq> Kept"
  obtains tr r where "ran sends told L cfg env events (target (route e)) tr"
    "first_report L (told tr) (event_key L cfg p) = Some r"
proof -
  have "p \<in> set (dispatched L cfg (be_now env) events)" "route p = route e"
    using assms(4,5) verdict_Inr[OF assms(5)] by (auto simp: dispatched_in)
  then obtain tr where tr: "ran sends told L cfg env events (target (route e)) tr"
    using assms(3) unfolding honest_def by metis
  then have "first_report L (told tr) (event_key L cfg p) \<noteq> None"
    using fate_of_dispatched(1)[OF assms(1,2,4,5) tr] assms(6) report_fate_Kept by metis
  with tr show ?thesis using that by blast
qed

lemma delivered_accepted:
  assumes "outbox_ok P cfg cols rows" "selectEvents L P cfg cols rows None None = Inr events"
    "honest sends told L cfg env events" "e \<in> set events" "batch_fate L cfg env events e = Delivered"
  shows "\<exists>p. verdict L cfg (be_now env) e = Inr p \<and>
    (\<exists>tr. ran sends told L cfg env events (target (route e)) tr) \<and>
    (\<forall>tr. ran sends told L cfg env events (target (route e)) tr \<longrightarrow>
       (\<exists>i. first_report L (told tr) (event_key L cfg p) = Some (AddConfirmedID i)) \<and>
       accepted (target (route e)) tr (providerEvent L cfg p))"
proof -
  obtain p where p: "verdict L cfg (be_now env) e = Inr p"
    using assms(5) by (cases "verdict L cfg (be_now env) e") (auto simp: batch_fate_def)
  note fate = fate_of_dispatched[OF assms(1,2,4) p]
  have "\<exists>i. first_report L (told tr) (event_key L cfg p) = Some (AddConfirmedID i)"
    if "ran sends told L cfg env events (target (route e)) tr" for tr
    using fate(1)[OF that] assms(5) report_fate_Delivered by metis
  then have every: "\<forall>tr. ran sends told L cfg env events (target (route e)) tr \<longrightarrow>
      (\<exists>i. first_report L (told tr) (event_key L cfg p) = Some (AddConfirmedID i)) \<and>
      accepted (target (route e)) tr (providerEvent L cfg p)"
    using fate(2) by blast
  have "batch_fate L cfg env events e \<noteq> Kept" using assms(5) by simp
  then obtain tr r where "ran sends told L cfg env events (target (route e)) tr"
    using settled_by_report[OF assms(1-4) p] by blast
  then show ?thesis using every p by blast
qed

lemma dead_caused:
  assumes "outbox_ok P cfg cols rows" "selectEvents L P cfg cols rows None None = Inr events"
    "honest sends told L cfg env events" "e \<in> set events" "batch_fate L cfg env events e = Dead m"
  shows "condemned_locally L cfg (be_now env) e m \<or>
    (\<exists>p. verdict L cfg (be_now env) e = Inr p \<and>
      (\<exists>tr. ran sends told L cfg env events (target (route e)) tr) \<and>
      (\<forall>tr. ran sends told L cfg env events (target (route e)) tr \<longrightarrow>
         (\<exists>i. first_report L (told tr) (event_key L cfg p) = Some (AddPoisonID i m)) \<and>
         rejected (target (route e)) tr (providerEvent L cfg p)))"
proof (cases "verdict L cfg (be_now env) e")
  case (Inl p)
  then show ?thesis using verdict_Inl_cause[OF Inl] assms(5) by (simp add: batch_fate_def)
next
  case (Inr p)
  note fate = fate_of_dispatched[OF assms(1,2,4) Inr]
  have "\<exists>i. first_report L (told tr) (event_key L cfg p) = Some (AddPoisonID i m)"
    if "ran sends told L cfg env events (target (route e)) tr" for tr
    using fate(1)[OF that] assms(5) report_fate_Dead by metis
  then have every: "\<forall>tr. ran sends told L cfg env events (target (route e)) tr \<longrightarrow>
      (\<exists>i. first_report L (told tr) (event_key L cfg p) = Some (AddPoisonID i m)) \<and>
      rejected (target (route e)) tr (providerEvent L cfg p)"
    using fate(3) by blast
  have "batch_fate L cfg env events e \<noteq> Kept" using assms(5) by simp
  then obtain tr r where "ran sends told L cfg env events (target (route e)) tr"
    using settled_by_report[OF assms(1-4) Inr] by blast
  then show ?thesis using every Inr by blast
qed

end

section \<open>The senders of the relay\<close>

type_synonym relay_trace = "sqs_act list + ps_act list"

text \<open>The callbacks \<open>collectSenderOutput\<close> passes to a sender.\<close>

definition relay_callbacks :: Callbacks where
  "relay_callbacks = \<lparr> has_MarkProgress = True, has_LogFailure = True \<rparr>"

definition relay_sends ::
  "(string list \<Rightarrow> string list) \<Rightarrow> (float64 \<Rightarrow> 32 word) \<Rightarrow> golib \<Rightarrow> appConfig \<Rightarrow>
   string \<Rightarrow> Event list \<Rightarrow> relay_trace \<Rightarrow> go_error option \<Rightarrow> bool" where
  "relay_sends order impl L cfg t evts tr err =
     (case tr of
        Inl s \<Rightarrow> t = sqs_Target \<and> sqs_sends L impl relay_callbacks evts s err
      | Inr s \<Rightarrow> t = pubsub_Target \<and> ps_sends order (pubsubConfig cfg) L relay_callbacks evts s err)"

definition relay_reports :: "relay_trace \<Rightarrow> report list" where
  "relay_reports tr = (case tr of Inl s \<Rightarrow> reports_of s | Inr s \<Rightarrow> ps_reports_of s)"

text \<open>The service acknowledged the event; the service or the sender refused it for good.\<close>

definition relay_accepted :: "(float64 \<Rightarrow> 32 word) \<Rightarrow> golib \<Rightarrow> string \<Rightarrow> relay_trace \<Rightarrow> Event \<Rightarrow> bool" where
  "relay_accepted impl L t tr evt =
     (case tr of
        Inl s \<Rightarrow> t = sqs_Target \<and> sqs_accepted L impl relay_callbacks (set s) evt
      | Inr s \<Rightarrow> t = pubsub_Target \<and> ps_accepted relay_callbacks (set s) evt)"

definition relay_rejected :: "(float64 \<Rightarrow> 32 word) \<Rightarrow> golib \<Rightarrow> string \<Rightarrow> relay_trace \<Rightarrow> Event \<Rightarrow> bool" where
  "relay_rejected impl L t tr evt =
     (case tr of
        Inl s \<Rightarrow> t = sqs_Target \<and> sqs_rejected L impl relay_callbacks (set s) evt
      | Inr s \<Rightarrow> t = pubsub_Target \<and> ps_rejected L relay_callbacks (set s) evt)"

interpretation rs: relay_senders "relay_sends order impl L cfg" relay_reports "relay_accepted impl L" "relay_rejected impl L"
  for order impl L cfg
proof (unfold_locales, goal_cases)
  case (1 t events tr err i)
  then show ?case
    using sqs.confirm_sound[of L impl relay_callbacks events _ err i]
      pubsub.confirm_sound[of order "pubsubConfig cfg" L relay_callbacks events _ err i]
    by (cases tr) (auto simp: relay_sends_def relay_reports_def relay_accepted_def)
next
  case (2 t events tr err i)
  then show ?case
    using sqs.poison_sound[of L impl relay_callbacks events _ err i]
      pubsub.poison_sound[of order "pubsubConfig cfg" L relay_callbacks events _ err i]
    by (cases tr) (auto simp: relay_sends_def relay_reports_def relay_rejected_def)
qed

text \<open>Every batch of a run got from its senders what runs of the senders say.\<close>

definition honest_run ::
  "(string list \<Rightarrow> string list) \<Rightarrow> (float64 \<Rightarrow> 32 word) \<Rightarrow> fmt \<Rightarrow> golib \<Rightarrow> pg \<Rightarrow> appConfig \<Rightarrow> string list \<Rightarrow>
   app_state \<Rightarrow> batch_env list \<Rightarrow> bool" where
  "honest_run order impl F L P cfg cols st envs \<longleftrightarrow>
     (\<forall>pre env post events. envs = pre @ env # post \<longrightarrow>
        selectEvents L P cfg cols (as_outbox (snd (processEvents F L P cfg cols st pre))) None None = Inr events \<longrightarrow>
        honest (relay_sends order impl L cfg) relay_reports L cfg env events)"

text \<open>
  The sender the event was handed to reported it as confirmed, before any other report about it,
  and the service of the event's route acknowledged it in that run: in every run of the sender
  that gave these reports and this error.
\<close>

definition acknowledged ::
  "(string list \<Rightarrow> string list) \<Rightarrow> (float64 \<Rightarrow> 32 word) \<Rightarrow> golib \<Rightarrow> appConfig \<Rightarrow> batch_env \<Rightarrow> event list \<Rightarrow> event \<Rightarrow> bool" where
  "acknowledged order impl L cfg env events e \<longleftrightarrow>
     (\<exists>p. verdict L cfg (be_now env) e = Inr p \<and>
        (\<exists>tr. ran (relay_sends order impl L cfg) relay_reports L cfg env events (target (route e)) tr) \<and>
        (\<forall>tr. ran (relay_sends order impl L cfg) relay_reports L cfg env events (target (route e)) tr \<longrightarrow>
           (\<exists>i. first_report L (relay_reports tr) (event_key L cfg p) = Some (AddConfirmedID i)) \<and>
           relay_accepted impl L (target (route e)) tr (providerEvent L cfg p)))"

text \<open>
  The event was condemned before sending, or its sender reported it as poison with this reason,
  before any other report about it, and it was refused for good in that run.
\<close>

definition refused ::
  "(string list \<Rightarrow> string list) \<Rightarrow> (float64 \<Rightarrow> 32 word) \<Rightarrow> golib \<Rightarrow> appConfig \<Rightarrow> batch_env \<Rightarrow> event list \<Rightarrow>
   event \<Rightarrow> string \<Rightarrow> bool" where
  "refused order impl L cfg env events e m \<longleftrightarrow>
     condemned_locally L cfg (be_now env) e m \<or>
     (\<exists>p. verdict L cfg (be_now env) e = Inr p \<and>
        (\<exists>tr. ran (relay_sends order impl L cfg) relay_reports L cfg env events (target (route e)) tr) \<and>
        (\<forall>tr. ran (relay_sends order impl L cfg) relay_reports L cfg env events (target (route e)) tr \<longrightarrow>
           (\<exists>i. first_report L (relay_reports tr) (event_key L cfg p) = Some (AddPoisonID i m)) \<and>
           relay_rejected impl L (target (route e)) tr (providerEvent L cfg p)))"

lemma fates_explained:
  assumes "outbox_ok P cfg cols rows" "selectEvents L P cfg cols rows None None = Inr events"
    "honest (relay_sends order impl L cfg) relay_reports L cfg env events" "e \<in> set events"
  shows "batch_fate L cfg env events e = Delivered \<Longrightarrow> acknowledged order impl L cfg env events e"
    and "batch_fate L cfg env events e = Dead m \<Longrightarrow> refused order impl L cfg env events e m"
  unfolding acknowledged_def refused_def
  by (erule rs.delivered_accepted[OF assms] rs.dead_caused[OF assms])+

end
