(* ===== verification/Relay_Liveness.thy ===== *)
theory Relay_Liveness
  imports Relay_Delivery
begin

text \<open>
  Progress of the relay: with healthy senders and database it drains the outbox; a fatal sender
  error stops it; a row whose dead letter cannot be encoded stops all progress.
\<close>

section \<open>Fatal sender errors\<close>

lemma sender_error_gathered:
  assumes arr: "arrival_ok env" and p: "p \<in> set (dispatched L cfg (be_now env) events)"
    and err: "is_err (snd (be_send env (target (route p)) (batch_for L cfg env events (target (route p))))) s"
  shows "is_err (ga_err (gather L cfg env (batch_triage L cfg env events))) s"
proof -
  let ?evts = "dispatched L cfg (be_now env) events" and ?t = "target (route p)"
  let ?keys = "map fst (group_by (\<lambda>e. target (route e)) ?evts)"
  have "?t \<in> set ?keys" unfolding group_by_keys_set using p by auto
  moreover have "mset (be_arrival env ?keys) = mset ?keys" using arr by (simp add: arrival_ok_def)
  ultimately have "?t \<in> set (be_arrival env ?keys)" by (metis set_mset_mset)
  moreover have "snd (collectProviderOutput L cfg (be_send env ?t) (group_of ?t ?evts)) =
      snd (be_send env ?t (batch_for L cfg env events ?t))"
    by (simp add: collectProviderOutput_def collectSenderOutput_def batch_for_def)
  ultimately have "list_ex (\<lambda>r. is_err (snd r) s) (sender_results L cfg env (group_by (\<lambda>e. target (route e)) ?evts))"
    using err by (auto simp: list_ex_iff sender_results_def group_get_group_by group_of_def intro!: bexI[of _ ?t])
  then show ?thesis by (simp add: gather_def batch_triage_def foldl_gather)
qed

lemma batch_error_kept:
  assumes ok: "outbox_ok P cfg cols rows" and sel: "selectEvents L P cfg cols rows (be_query env) (be_rows env) = Inr events"
    and run: "processEventBatch F L P cfg cols env rows = (result, err, w)"
    and e: "is_err (ga_err (gather L cfg env (batch_triage L cfg env events))) s"
  shows "is_err err s"
proof -
  let ?g = "gather L cfg env (batch_triage L cfg env events)"
  have tr: "triageEvents F L cfg (sender_targets cfg) (be_now env) events = (batch_triage L cfg env events, None)"
    using triageEvents_eq[OF selected_events(1)[OF ok sel]] by (simp add: batch_triage_def)
  obtain x where x: "ga_err ?g = Some x" "errors_Is x s" using e by (cases "ga_err ?g") auto
  then have "is_err (join_db (ga_err ?g) d) s" for d by (simp add: join_db_def is_err_errors_Join)
  then show ?thesis
    using run sel tr e by (auto simp: processEventBatch_def Let_def split: sum.splits)
qed

text \<open>
  (C19) A fatal sender error stops the relay: if the sender of a target to which the batch
  dispatched an event returns \<open>ErrFatalAfterCommit\<close>, \<open>processEvents\<close> returns an error of that kind after
  this batch, whether its writes, its commit or its rollback succeed, and touches no later
  batch. Together with the Pub/Sub ordering theorems: after an undecided ordered publish
  nothing overtakes.
\<close>

theorem fatal_sender_stops:
  assumes ok: "outbox_ok P cfg cols (as_outbox st)" and arr: "arrival_ok env"
    and go: "\<not> be_cancelled env" "be_begin env = None"
    and sel: "selectEvents L P cfg cols (as_outbox st) (be_query env) (be_rows env) = Inr events"
    and p: "p \<in> set (dispatched L cfg (be_now env) events)"
    and fatal: "is_err (snd (be_send env (target (route p)) (batch_for L cfg env events (target (route p))))) ErrFatalAfterCommit"
  shows "\<exists>e. errors_Is e ErrFatalAfterCommit \<and>
    processEvents F L P cfg cols st (env # envs) = (Returned (Some e), snd (snd (processOneBatch F L P cfg cols env st)))"
proof -
  obtain r batchErr w where run: "processEventBatch F L P cfg cols env (as_outbox st) = (r, batchErr, w)" by (metis prod_cases3)
  have be: "is_err batchErr ErrFatalAfterCommit"
    by (rule batch_error_kept[OF ok sel run sender_error_gathered[OF arr p fatal]])
  obtain result err st' where one: "processOneBatch F L P cfg cols env st = (result, err, st')" by (metis prod_cases3)
  have "is_err err ErrFatalAfterCommit"
    using one go(2) run be
    by (auto simp: processOneBatch_def Let_def is_err_errors_Join split: if_splits commit_outcome.splits)
  then show ?thesis using one go(1) by (cases err) auto
qed

definition fatal_env :: batch_env where
  "fatal_env = sample_env\<lparr>be_send := (\<lambda>t evts. ([], Some (Sentinel ErrFatalAfterCommit)))\<rparr>"

theorem fatal_sender_stops_witness:
  "\<exists>e. errors_Is e ErrFatalAfterCommit \<and>
    processEvents sample_fmt sample_lib sample_pg dlq_config sample_cols sample_state [fatal_env, sample_env] =
      (Returned (Some e), snd (snd (processOneBatch sample_fmt sample_lib sample_pg dlq_config sample_cols fatal_env sample_state)))"
proof (rule fatal_sender_stops)
  let ?p = "event_of sample_sqs (sample_table_row 1 (GString ''sqs''))"
  show "outbox_ok sample_pg dlq_config sample_cols (as_outbox sample_state)" using sample_outbox by (simp add: sample_state_def)
  show "arrival_ok fatal_env" by (simp add: arrival_ok_def fatal_env_def sample_env_def)
  show "\<not> be_cancelled fatal_env" "be_begin fatal_env = None" by code_simp+
  show "selectEvents sample_lib sample_pg dlq_config sample_cols (as_outbox sample_state) (be_query fatal_env) (be_rows fatal_env) =
      Inr full_batch" by code_simp
  show "?p \<in> set (dispatched sample_lib dlq_config (be_now fatal_env) full_batch)" by code_simp
  show "is_err (snd (be_send fatal_env (target (route ?p)) (batch_for sample_lib dlq_config fatal_env full_batch (target (route ?p)))))
      ErrFatalAfterCommit" by code_simp
qed

section \<open>Draining the outbox\<close>

text \<open>The rows the relay would collect.\<close>

definition pending_rows :: "pg \<Rightarrow> appConfig \<Rightarrow> row list \<Rightarrow> row list" where
  "pending_rows P cfg rows = filter (\<lambda>r. resolve cfg (cells P r) \<noteq> None) rows"

text \<open>An iteration in which nothing fails and every sender settles every event it gets.\<close>

definition healthy :: "batch_env \<Rightarrow> bool" where
  "healthy env \<longleftrightarrow> \<not> be_cancelled env \<and> be_begin env = None \<and> be_query env = None \<and> be_rows env = None \<and>
     be_dlq env = None \<and> be_delete env = None \<and> be_commit env = CommitOK \<and> be_inserted env = [] \<and> arrival_ok env \<and>
     (\<forall>t evts. snd (be_send env t evts) = None \<and>
        (\<forall>evt. evt \<in> set evts \<longrightarrow> (\<exists>r. r \<in> set (fst (be_send env t evts)) \<and> reported_id r = Some (ev_ID evt))))"

text \<open>
  The values \<open>encoding/json\<close> encodes: it documents errors for NaN and infinite floats, and
  \<open>time.Time\<close> for years outside 0 to 9999 (here the years 1 to 9998, whatever the time zone).
  Documented too: what \<open>json.Unmarshal\<close> decodes into an interface value is such a value (a number
  out of the range of a float is a decoding error).
\<close>

fun encodable :: "goval \<Rightarrow> bool" where
  "encodable (GFloat64 f) = (case f of Finite q \<Rightarrow> True | _ \<Rightarrow> False)"
| "encodable (GTime t) = (-62135596800 * 10 ^ 9 \<le> t \<and> t < 253370764800 * 10 ^ 9)"
| "encodable (GSlice vs) = list_all encodable vs"
| "encodable (GMap m) = list_all (\<lambda>(k, v). encodable v) m"
| "encodable v = True"

definition json_documented :: "golib \<Rightarrow> bool" where
  "json_documented L \<longleftrightarrow>
     (\<forall>v. encodable v \<longrightarrow> (\<exists>b. json_Marshal L v = Inr b)) \<and>
     (\<forall>b v. json_Unmarshal L b = Inr v \<longrightarrow> encodable v)"

definition encodable_row :: "row \<Rightarrow> bool" where
  "encodable_row row \<longleftrightarrow> list_all (\<lambda>(c, v). encodable v) row"

lemma eventJSONValue_encodable: "json_documented L \<Longrightarrow> encodable v \<Longrightarrow> encodable (eventJSONValue L v)"
  by (cases v) (auto simp: json_documented_def split: sum.splits)

lemma payload_encodable:
  assumes lib: "json_documented L" and row: "encodable_row (columns (pe_evt p))"
  shows "\<exists>b. json_Marshal L (GMap (deadLetterPayload L cfg now p)) = Inr b"
proof -
  have "list_all (\<lambda>(c, v). encodable v) (originalEventJSON L (pe_evt p))"
    using row eventJSONValue_encodable[OF lib] by (fastforce simp: encodable_row_def originalEventJSON_def list_all_iff)
  then have "encodable (GMap (deadLetterPayload L cfg now p))" by (simp add: deadLetterPayload_def)
  then show ?thesis using lib by (simp add: json_documented_def)
qed

lemma marshal_payloads_total:
  assumes lib: "json_documented L"
  shows "list_all (\<lambda>p. encodable_row (columns (pe_evt p))) poison \<Longrightarrow> \<exists>bs. marshal_payloads L cfg clock i poison = Inr bs"
proof (induction poison arbitrary: i)
  case (Cons p poison)
  then obtain bs where "marshal_payloads L cfg clock (Suc i) poison = Inr bs" by auto
  moreover obtain b where "json_Marshal L (GMap (deadLetterPayload L cfg (clock i) p)) = Inr b"
    using payload_encodable[OF lib, of p cfg "clock i"] Cons.prems by auto
  ultimately show ?case by simp
qed simp

text \<open>The poison of a batch is selected events.\<close>

lemma gathered_poison_selected:
  assumes u: "keys_unique L cfg events" and a: "arrival_ok env"
    and p: "p \<in> set (ga_poison (gather L cfg env (batch_triage L cfg env events)))"
  shows "columns (pe_evt p) \<in> columns ` set events"
proof -
  let ?evts = "dispatched L cfg (be_now env) events"
  let ?rs = "sender_results L cfg env (group_by (\<lambda>e. target (route e)) ?evts)"
  note rm = results_mset(2)[OF keys_unique_dispatched[OF u, of "be_now env"] a, THEN arg_cong[where f = set_mset], unfolded set_mset_mset]
  have "p \<in> set (condemned L cfg (be_now env) events) \<union> set (concat (map (\<lambda>r. so_poison (fst r)) ?rs))"
    using p by (simp add: gather_def batch_triage_def foldl_gather)
  then consider "p \<in> set (condemned L cfg (be_now env) events)" | "pe_evt p \<in> set ?evts" unfolding rm by auto
  then show ?thesis
    by cases (auto simp: condemned_in dispatched_in dest!: verdict_Inl verdict_Inr intro: rev_image_eqI)
qed

lemma healthy_settles:
  assumes h: "healthy env" and e: "e \<in> set events"
  shows "batch_fate L cfg env events e \<noteq> Kept"
proof (cases "verdict L cfg (be_now env) e")
  case (Inl p)
  then show ?thesis by (simp add: batch_fate_def)
next
  case (Inr p)
  let ?evts = "dispatched L cfg (be_now env) events"
  have p: "p \<in> set (group_of (target (route p)) ?evts)" using e Inr by (auto simp: dispatched_in group_of_def)
  then have "providerEvent L cfg p \<in> set (providerEvents L cfg (group_of (target (route p)) ?evts))" by (simp add: providerEvents_def)
  then obtain r where r: "r \<in> set (target_reports L cfg env ?evts (target (route p)))" "reported_id r = Some (event_id cfg p)"
    using h by (fastforce simp: healthy_def target_reports_def providerEvent_def event_id_def)
  then have "about L (event_key L cfg p) r" by (simp add: about_def event_key_id)
  then have "first_report L (target_reports L cfg env ?evts (target (route p))) (event_key L cfg p) \<noteq> None"
    using r(1) by (auto simp: first_report_None simp del: not_None_eq)
  then show ?thesis using batch_fate_dispatched[OF Inr] report_fate_Kept by (metis sender_fate_def)
qed

lemma healthy_batch:
  assumes ok: "outbox_ok P cfg cols (as_outbox st)" and h: "healthy env" and lib: "json_documented L"
    and enc: "DLQTable cfg \<noteq> [] \<longrightarrow> list_all encodable_row (pending_rows P cfg (as_outbox st))"
    and sel: "selectEvents L P cfg cols (as_outbox st) None None = Inr events"
  shows "is_err (fst (snd (processOneBatch F L P cfg cols env st))) s = False"
    and "as_outbox (next_state F L P cfg cols env st) = filter (\<lambda>r. r \<notin> columns ` set events) (as_outbox st)"
proof -
  have arr: "arrival_ok env" and env: "be_begin env = None" "be_query env = None" "be_rows env = None" "be_dlq env = None"
    "be_delete env = None" "be_commit env = CommitOK" "be_inserted env = []" using h by (auto simp: healthy_def)
  have tr: "triageEvents F L cfg (sender_targets cfg) (be_now env) events = (batch_triage L cfg env events, None)"
    using triageEvents_eq[OF selected_events(1)[OF ok sel]] by (simp add: batch_triage_def)
  let ?g = "gather L cfg env (batch_triage L cfg env events)"
  have noerr: "ga_err ?g = None"
    using h by (auto simp: gather_def foldl_gather list_all_iff sender_results_def healthy_def
        collectProviderOutput_def collectSenderOutput_def)
  have "\<exists>dead. insertDeadLetters L cfg (be_clock env) None (ga_poison ?g) = Inr dead"
  proof (cases "DLQTable cfg = []")
    case False
    have "columns e \<in> set (pending_rows P cfg (as_outbox st))" if "e \<in> set events" for e
      using selected_events(3)[OF ok sel that] by (auto simp: pending_rows_def)
    then have "list_all (\<lambda>p. encodable_row (columns (pe_evt p))) (ga_poison ?g)"
      using gathered_poison_selected[OF selected_events(2)[OF ok sel] arr] enc False by (fastforce simp: list_all_iff)
    then show ?thesis
      using marshal_payloads_total[OF lib, of "ga_poison ?g" cfg "be_clock env" 0] by (auto simp: insertDeadLetters_def)
  qed (simp add: insertDeadLetters_def)
  then obtain dead where dead: "insertDeadLetters L cfg (be_clock env) None (ga_poison ?g) = Inr dead" by blast
  have del: "deleteEvents None (ga_deleteIDs ?g) = Inr (ga_deleteIDs ?g)" by (simp add: deleteEvents_def)
  obtain result err st' where one: "processOneBatch F L P cfg cols env st = (result, err, st')" by (metis prod_cases3)
  have "err = None"
    using one env sel tr noerr dead del by (auto simp: processOneBatch_def processEventBatch_def Let_def)
  then show "is_err (fst (snd (processOneBatch F L P cfg cols env st))) s = False" using one by simp
  have ok': "outbox_ok P cfg cols (as_outbox st @ be_inserted env)" using ok env(7) by simp
  from ok' arr one show "as_outbox (next_state F L P cfg cols env st) = filter (\<lambda>r. r \<notin> columns ` set events) (as_outbox st)"
  proof (cases rule: batch_effect)
    case unchanged
    then show ?thesis using \<open>err = None\<close> by simp
  next
    case (effect events' dead)
    then have "events' = events" using sel by simp
    moreover have "settled L cfg env events r \<longleftrightarrow> r \<in> columns ` set events" for r
      using healthy_settles[OF h] by (auto simp: settled_def list_ex_iff)
    ultimately show ?thesis using effect(2) env(7) next_state_db(1)[OF one] by simp
  qed
qed

text \<open>A bounded batch target keeps the query's arithmetic in range.\<close>

definition target_ok :: "appConfig \<Rightarrow> row list \<Rightarrow> bool" where
  "target_ok cfg rows \<longleftrightarrow> 0 < CollectBatchTarget cfg \<and> CollectBatchTarget cfg + int (length rows) < 2 ^ 63"

lemma query_routes_length: "length (query_routes P cfg rows) \<le> length rows"
proof -
  have "length (query_routes P cfg rows) \<le> length (map (resolved_route P cfg) (filter (eligible P cfg ''route_source'') rows))"
    unfolding query_routes_def by (rule length_remdups_leq)
  also have "\<dots> \<le> length rows" by simp
  finally show ?thesis .
qed

lemma share_of_some:
  assumes "target_ok cfg rows"
  shows "\<exists>share. share_of P cfg rows = Some share"
proof -
  let ?n = "int (length (query_routes P cfg rows))"
  have "CollectBatchTarget cfg + ?n < 2 ^ 63" using assms query_routes_length[of P cfg rows] by (simp add: target_ok_def)
  then have "int64_range (CollectBatchTarget cfg + ?n)" "int64_range (CollectBatchTarget cfg + ?n - 1)"
    using assms by (simp_all add: int64_range_def target_ok_def)
  then show ?thesis by (simp add: share_of_def query_share_def)
qed

lemma selection_exists:
  assumes ok: "outbox_ok P cfg cols rows" and t: "target_ok cfg rows"
  obtains events where "selectEvents L P cfg cols rows None None = Inr events"
    and "pending_rows P cfg rows \<noteq> [] \<longrightarrow> events \<noteq> []"
proof -
  note d = outbox_okD[OF ok]
  obtain share where s: "share_of P cfg rows = Some share" using share_of_some[OF t] by blast
  have "collected P cfg rows share \<noteq> []" if ne: "pending_rows P cfg rows \<noteq> []"
  proof -
    obtain r rt where "r \<in> set rows" "resolved P cfg r = Some rt"
      using ne by (auto simp: pending_rows_def filter_empty_conv resolved_def)
    then have "rt \<in> set (query_routes P cfg rows)" by (auto simp: query_routes_set)
    then show ?thesis using collected_routes[OF d(1) share_of_pos[OF s]] by auto
  qed
  then show ?thesis using that selectEvents_eq[OF d(1,2) s, of L] by blast
qed

lemma healthy_step:
  fixes F
  assumes ok: "outbox_ok P cfg cols (as_outbox st)" and h: "healthy env" and lib: "json_documented L"
    and enc: "DLQTable cfg \<noteq> [] \<longrightarrow> list_all encodable_row (pending_rows P cfg (as_outbox st))"
    and t: "target_ok cfg (as_outbox st)"
  defines "n \<equiv> next_state F L P cfg cols env st"
  shows "processEvents F L P cfg cols st (env # envs) = processEvents F L P cfg cols n envs"
    and "outbox_ok P cfg cols (as_outbox n)" and "target_ok cfg (as_outbox n)"
    and "filter (\<lambda>r. resolve cfg (cells P r) = None) (as_outbox n) = filter (\<lambda>r. resolve cfg (cells P r) = None) (as_outbox st)"
    and "pending_rows P cfg (as_outbox st) \<noteq> [] \<Longrightarrow>
      length (pending_rows P cfg (as_outbox n)) < length (pending_rows P cfg (as_outbox st))"
    and "pending_rows P cfg (as_outbox st) = [] \<Longrightarrow> pending_rows P cfg (as_outbox n) = []"
    and "DLQTable cfg \<noteq> [] \<longrightarrow> list_all encodable_row (pending_rows P cfg (as_outbox n))"
proof -
  obtain events where sel: "selectEvents L P cfg cols (as_outbox st) None None = Inr events"
    and ne: "pending_rows P cfg (as_outbox st) \<noteq> [] \<longrightarrow> events \<noteq> []" by (rule selection_exists[OF ok t, of L])
  note b = healthy_batch[OF ok h lib enc sel, of F]
  have out: "as_outbox n = filter (\<lambda>r. r \<notin> columns ` set events) (as_outbox st)" unfolding n_def by (rule b(2))
  have ev: "columns e \<in> set (as_outbox st) \<and> resolve cfg (cells P (columns e)) \<noteq> None" if "e \<in> set events" for e
    using selected_events(3)[OF ok sel that] by auto
  have "\<not> be_cancelled env" using h by (simp add: healthy_def)
  then show "processEvents F L P cfg cols st (env # envs) = processEvents F L P cfg cols n envs"
    using b(1) by (auto simp: n_def next_state_def split: prod.splits)
  show "outbox_ok P cfg cols (as_outbox n)"
    unfolding out using ids_unique_distinct[OF outbox_okD(1)[OF ok]] by (intro outbox_ok_subset[OF ok]) auto
  have "length (as_outbox n) \<le> length (as_outbox st)" unfolding out by (rule length_filter_le)
  then show "target_ok cfg (as_outbox n)" using t by (simp add: target_ok_def)
  show "filter (\<lambda>r. resolve cfg (cells P r) = None) (as_outbox n) = filter (\<lambda>r. resolve cfg (cells P r) = None) (as_outbox st)"
    unfolding out filter_filter by (intro filter_cong) (auto dest: ev)
  have pn: "pending_rows P cfg (as_outbox n) = filter (\<lambda>r. r \<notin> columns ` set events) (pending_rows P cfg (as_outbox st))"
    by (simp add: pending_rows_def out conj_commute)
  then show "pending_rows P cfg (as_outbox st) = [] \<Longrightarrow> pending_rows P cfg (as_outbox n) = []" by simp
  show "DLQTable cfg \<noteq> [] \<longrightarrow> list_all encodable_row (pending_rows P cfg (as_outbox n))"
    using enc unfolding pn by (auto simp: list_all_iff)
  assume "pending_rows P cfg (as_outbox st) \<noteq> []"
  then obtain e where "e \<in> set events" using ne by (cases events) auto
  then have "columns e \<in> set (pending_rows P cfg (as_outbox st))" "columns e \<in> columns ` set events"
    using ev by (auto simp: pending_rows_def)
  then show "length (pending_rows P cfg (as_outbox n)) < length (pending_rows P cfg (as_outbox st))"
    unfolding pn by (intro length_filter_less[of "columns e"]) auto
qed

text \<open>
  (C5) A healthy relay drains its outbox: with as many iterations as there are rows it owns, in
  which nothing fails and every sender settles (confirms or refuses) the events it gets, the
  loop is still running and the outbox holds exactly the rows this relay does not own, in
  their order, however the rows spread over routes and whatever the batch target is. Assumed of
  \<open>encoding/json\<close> is what it documents: values without NaN or infinite floats and without times
  of a year outside its range are encoded, and decoding gives only such values. When a
  dead-letter table is configured the rows the relay owns hold only such values: without this
  the claim fails, as \<open>Relay_Poison\<close> shows.
\<close>

theorem relay_drains:
  assumes "outbox_ok P cfg cols (as_outbox st)" "target_ok cfg (as_outbox st)" "list_all healthy envs"
    and lib: "\<forall>v. encodable v \<longrightarrow> (\<exists>b. json_Marshal L v = Inr b)" "\<forall>b v. json_Unmarshal L b = Inr v \<longrightarrow> encodable v"
    and enc: "DLQTable cfg \<noteq> [] \<longrightarrow>
      list_all encodable_row (filter (\<lambda>r. resolve cfg (cells P r) \<noteq> None) (as_outbox st))"
    and len: "length (filter (\<lambda>r. resolve cfg (cells P r) \<noteq> None) (as_outbox st)) \<le> length envs"
  shows "\<exists>st'. processEvents F L P cfg cols st envs = (Running, st') \<and>
    as_outbox st' = filter (\<lambda>r. resolve cfg (cells P r) = None) (as_outbox st)"
proof -
  have L: "json_documented L" using lib by (simp add: json_documented_def)
  have "\<exists>st'. processEvents F L P cfg cols st envs = (Running, st') \<and>
      as_outbox st' = filter (\<lambda>r. resolve cfg (cells P r) = None) (as_outbox st)"
    if "length (pending_rows P cfg (as_outbox st)) \<le> length envs"
      "DLQTable cfg \<noteq> [] \<longrightarrow> list_all encodable_row (pending_rows P cfg (as_outbox st))"
    using assms(1-3) that
  proof (induction envs arbitrary: st)
    case Nil
    then have "filter (\<lambda>r. resolve cfg (cells P r) = None) (as_outbox st) = as_outbox st"
      by (intro filter_True) (auto simp: pending_rows_def filter_empty_conv)
    then show ?case by simp
  next
    case (Cons env envs)
    have h: "healthy env" "list_all healthy envs" using Cons.prems(3) by auto
    note s = healthy_step[OF Cons.prems(1) h(1) L Cons.prems(5) Cons.prems(2), of F]
    have "length (pending_rows P cfg (as_outbox (next_state F L P cfg cols env st))) \<le> length envs"
      using s(5,6) Cons.prems(4) by (cases "pending_rows P cfg (as_outbox st) = []") auto
    from Cons.IH[OF s(2,3) h(2) this s(7)] show ?case unfolding s(1) s(4) .
  qed
  then show ?thesis using len enc by (simp add: pending_rows_def)
qed

text \<open>A library that refuses what \<open>encoding/json\<close> refuses.\<close>

definition drain_lib :: golib where
  "drain_lib = sample_lib\<lparr>json_Marshal :=
     (\<lambda>v. if encodable v then Inr ''{}'' else Inl (ErrorString ''json: unsupported value: NaN''))\<rparr>"

theorem relay_drains_witness:
  "\<exists>st'. processEvents sample_fmt drain_lib sample_pg dlq_config sample_cols sample_state [sample_env, sample_env, sample_env] =
      (Running, st') \<and> as_outbox st' = [sample_table_row 4 GNil]"
proof -
  let ?owned = "filter (\<lambda>r. resolve dlq_config (cells sample_pg r) \<noteq> None) (as_outbox sample_state)"
  have h: "healthy sample_env"
    using sample_arrival by (auto simp: healthy_def sample_env_def sample_send_def)
  have lib: "\<forall>v. encodable v \<longrightarrow> (\<exists>b. json_Marshal drain_lib v = Inr b)" "\<forall>b v. json_Unmarshal drain_lib b = Inr v \<longrightarrow> encodable v"
    by (simp_all add: drain_lib_def sample_lib_def)
  have left: "filter (\<lambda>r. resolve dlq_config (cells sample_pg r) = None) (as_outbox sample_state) = [sample_table_row 4 GNil]"
    "length ?owned = 3" by code_simp+
  have "outbox_ok sample_pg dlq_config sample_cols (as_outbox sample_state)" "target_ok dlq_config (as_outbox sample_state)"
    "list_all encodable_row ?owned" by code_simp+
  with relay_drains[of sample_pg dlq_config sample_cols sample_state "[sample_env, sample_env, sample_env]" drain_lib sample_fmt]
  show ?thesis using h lib left by simp
qed

end
