(* ===== verification/Relay_Backlog.thy ===== *)
theory Relay_Backlog
  imports Relay_Liveness
begin

text \<open>
  The backlog gauge of \<open>backlog.go\<close> against the rows that are pending.
\<close>

section \<open>The backlog gauge\<close>

lemma selected_columns_inj:
  assumes ok: "outbox_ok P cfg cols rows" and sel: "selectEvents L P cfg cols rows None None = Inr events"
  shows "distinct (map columns events)"
proof -
  have "distinct (map (event_key L cfg) events)" using selected_events(2)[OF ok sel] by (simp add: keys_unique_def)
  then show ?thesis by (auto simp: distinct_map inj_on_def intro: event_key_columns)
qed

lemma settled_selected:
  assumes d: "distinct (map columns events)" and e: "e \<in> set events"
  shows "settled L cfg env events (columns e) \<longleftrightarrow> batch_fate L cfg env events e \<noteq> Kept"
  using d e unfolding settled_def list_ex_iff distinct_map by (metis inj_onD)

text \<open>The events kept by a batch are pending rows; all of them when the batch was drained.\<close>

lemma kept_count:
  fixes env :: batch_env
  assumes ok: "outbox_ok P cfg cols rows" and sel: "selectEvents L P cfg cols rows None None = Inr events"
  defines "left \<equiv> pending_rows P cfg (filter (\<lambda>r. \<not> settled L cfg env events r) rows)"
  shows "length (filter (\<lambda>e. batch_fate L cfg env events e = Kept) events) \<le> length left"
    and "batchDrained events (CollectBatchTarget cfg) \<Longrightarrow>
      length (filter (\<lambda>e. batch_fate L cfg env events e = Kept) events) = length left"
proof -
  let ?kept = "map columns (filter (\<lambda>e. batch_fate L cfg env events e = Kept) events)"
  note d = outbox_okD[OF ok]
  have dc: "distinct (map columns events)" by (rule selected_columns_inj[OF ok sel])
  then have dk: "distinct ?kept" by (simp add: distinct_map_filter)
  have dl: "distinct left" using ids_unique_distinct[OF d(1)] by (simp add: left_def pending_rows_def)
  have sub: "set ?kept \<subseteq> set left"
    using selected_events(3)[OF ok sel] settled_selected[OF dc]
    by (fastforce simp: left_def pending_rows_def)
  have "length ?kept = card (set ?kept)" using distinct_card[OF dk] by simp
  also have "\<dots> \<le> card (set left)" by (rule card_mono[OF _ sub]) simp
  also have "\<dots> = length left" by (rule distinct_card[OF dl])
  finally show "length (filter (\<lambda>e. batch_fate L cfg env events e = Kept) events) \<le> length left" by simp
  assume dr: "batchDrained events (CollectBatchTarget cfg)"
  have "set left \<subseteq> set ?kept"
  proof
    fix r
    assume "r \<in> set left"
    then obtain rt where r: "r \<in> set rows" "\<not> settled L cfg env events r" "resolve cfg (cells P r) = Some rt"
      by (auto simp: left_def pending_rows_def)
    obtain share where s: "share_of P cfg rows = Some share" "events = collected P cfg rows share"
      using selected_collected[OF d(1,2) sel] by blast
    have "chosen P cfg rows share r"
      using drained_all_chosen[OF d(1) s(1) _ r(1)] dr r(3) s(2) by (simp add: resolved_def)
    then have e: "event_of rt r \<in> set events" using s(2) r by (auto simp: in_collected resolved_def)
    then have "batch_fate L cfg env events (event_of rt r) = Kept"
      using settled_selected[OF dc e] r(2) by (simp add: event_of_def)
    then show "r \<in> set ?kept" using e by (force simp: event_of_def)
  qed
  then have "set ?kept = set left" using sub by blast
  then show "length (filter (\<lambda>e. batch_fate L cfg env events e = Kept) events) = length left"
    using distinct_card[OF dk] distinct_card[OF dl] by simp
qed

lemma committed_batch:
  assumes ok: "outbox_ok P cfg cols (as_outbox st @ be_inserted env)" and arr: "arrival_ok env"
    and run: "processOneBatch F L P cfg cols env st = (result, err, st1)" and noerr: "\<not> is_err err errDatabaseBatch"
  obtains events where "selectEvents L P cfg cols (as_outbox st) None None = Inr events"
    and "as_outbox st1 = filter (\<lambda>r. \<not> settled L cfg env events r) (as_outbox st) @ be_inserted env"
    and "br_drained result = batchDrained events (CollectBatchTarget cfg)"
    and "bs_keptForRetry (br_stats result) = int (length (filter (\<lambda>e. batch_fate L cfg env events e = Kept) events))"
  using run
proof (cases rule: one_batch_cases)
  case unchanged
  then show ?thesis using noerr by simp
next
  case (effect batchErr w)
  have ok': "outbox_ok P cfg cols (as_outbox st)" by (rule outbox_ok_append[OF ok])
  have nodb: "\<not> is_err batchErr errDatabaseBatch" using effect(2) by (simp add: took_effect_def)
  obtain events where b: "selectEvents L P cfg cols (as_outbox st) None None = Inr events"
    "br_drained result = batchDrained events (CollectBatchTarget cfg)"
    by (rule batch_success[OF ok' effect(1) nodb]) blast
  from batch_counts[OF ok' arr effect(1) nodb b(1)]
  have c: "set (tx_deleted w) = event_id cfg ` {e. e \<in> set events \<and> batch_fate L cfg env events e \<noteq> Kept}"
    "bs_keptForRetry (br_stats result) = int (length (filter (\<lambda>e. batch_fate L cfg env events e = Kept) events))" by auto
  show ?thesis
    using that[OF b(1) _ b(2) c(2)] effect(3) delete_rows_settled[OF ok b(1) c(1)] by simp
qed

lemma eligible_pending: "eligible P cfg t = (\<lambda>r. resolve cfg (cells P r) \<noteq> None)"
  using eligible_iff by (simp add: resolved_def fun_eq_iff)

lemma pending_perm: "length (pending_rows P cfg (sort_key k rows)) = length (pending_rows P cfg rows)"
  unfolding pending_rows_def by (metis mset_filter mset_sort size_mset)

lemma probe_sound:
  "fst (backlog_rows P cfg rows) \<le> int (length (pending_rows P cfg rows))"
  "snd (backlog_rows P cfg rows) < BacklogCountLimit cfg \<Longrightarrow>
     fst (backlog_rows P cfg rows) = int (length (pending_rows P cfg rows))"
proof -
  let ?s = "sort_key (rank P cfg) rows" and ?n = "nat (BacklogCountLimit cfg)"
  have scan: "fst (backlog_rows P cfg rows) = int (length (pending_rows P cfg (take ?n ?s)))"
    "snd (backlog_rows P cfg rows) = int (length (take ?n ?s))"
    by (simp_all add: backlog_rows_def Let_def eligible_pending pending_rows_def)
  have "pending_rows P cfg ?s = pending_rows P cfg (take ?n ?s) @ pending_rows P cfg (drop ?n ?s)"
    unfolding pending_rows_def by (metis append_take_drop_id filter_append)
  then have "length (pending_rows P cfg (take ?n ?s)) \<le> length (pending_rows P cfg ?s)" by simp
  then show "fst (backlog_rows P cfg rows) \<le> int (length (pending_rows P cfg rows))"
    unfolding scan pending_perm by simp
  assume "snd (backlog_rows P cfg rows) < BacklogCountLimit cfg"
  then have "length ?s < ?n" unfolding scan by (simp add: min_def split: if_splits)
  then have "take ?n ?s = ?s" by simp
  then show "fst (backlog_rows P cfg rows) = int (length (pending_rows P cfg rows))"
    unfolding scan(1) using pending_perm[of P cfg "rank P cfg" rows] by simp
qed

text \<open>
  (C23) The backlog gauge is sound. After a batch whose writes took effect without error, with
  \<open>left\<close> the rows this relay owns among those present at collection and not settled: a drained
  batch sets the gauge to exactly their number, without a query; with probing disabled a
  truncated batch sets it to a lower bound and marks it as one; and a probe sets it to at
  most the number of owned rows then in the table, exactly that number unless it is marked a
  lower bound.
\<close>

theorem backlog_gauge_sound:
  assumes ok: "outbox_ok P cfg cols (as_outbox st @ be_inserted env)" and arr: "arrival_ok env"
    and run: "processOneBatch F L P cfg cols env st = (result, err, st1)" and noerr: "\<not> is_err err errDatabaseBatch"
    and upd: "st2 = updateBacklog P cfg env result st1"
  shows "\<exists>left. set left = {r. r \<in> set (as_outbox st) \<and> r \<in> set (as_outbox st1) \<and> resolve cfg (cells P r) \<noteq> None} \<and> distinct left \<and>
    (br_drained result \<longrightarrow> backlogFloor (as_stats st2) = 0 \<and> backlogEvents (as_stats st2) = int (length left)) \<and>
    (\<not> br_drained result \<and> BacklogCountLimit cfg \<le> 0 \<longrightarrow>
       backlogFloor (as_stats st2) = 1 \<and> backlogEvents (as_stats st2) \<le> int (length left)) \<and>
    (\<not> br_drained result \<and> BacklogCountLimit cfg > 0 \<and> be_probe env = None \<and>
       time_Sub (be_probe_time env) (as_lastBacklogProbe st1) \<ge> backlogProbeInterval cfg \<longrightarrow>
       backlogEvents (as_stats st2) \<le> int (length (filter (\<lambda>r. resolve cfg (cells P r) \<noteq> None) (as_outbox st1))) \<and>
       (backlogFloor (as_stats st2) = 0 \<longrightarrow>
          backlogEvents (as_stats st2) = int (length (filter (\<lambda>r. resolve cfg (cells P r) \<noteq> None) (as_outbox st1)))))"
proof -
  obtain events where b: "selectEvents L P cfg cols (as_outbox st) None None = Inr events"
    "as_outbox st1 = filter (\<lambda>r. \<not> settled L cfg env events r) (as_outbox st) @ be_inserted env"
    "br_drained result = batchDrained events (CollectBatchTarget cfg)"
    "bs_keptForRetry (br_stats result) = int (length (filter (\<lambda>e. batch_fate L cfg env events e = Kept) events))"
    by (rule committed_batch[OF ok arr run noerr])
  have dist: "distinct (as_outbox st @ be_inserted env)" by (rule ids_unique_distinct[OF outbox_okD(1)[OF ok]])
  have ok': "outbox_ok P cfg cols (as_outbox st)" by (rule outbox_ok_append[OF ok])
  let ?left = "pending_rows P cfg (filter (\<lambda>r. \<not> settled L cfg env events r) (as_outbox st))"
  note kc = kept_count[OF ok' b(1), of env]
  have "set ?left = {r. r \<in> set (as_outbox st) \<and> r \<in> set (as_outbox st1) \<and> resolve cfg (cells P r) \<noteq> None}"
    using dist by (auto simp: b(2) pending_rows_def)
  moreover have "distinct ?left" using dist by (simp add: pending_rows_def)
  moreover have "br_drained result \<longrightarrow> backlogFloor (as_stats st2) = 0 \<and> backlogEvents (as_stats st2) = int (length ?left)"
    using kc(2) b(3,4) by (simp add: upd updateBacklog_def setBacklog_def Let_def)
  moreover have "\<not> br_drained result \<and> BacklogCountLimit cfg \<le> 0 \<longrightarrow>
      backlogFloor (as_stats st2) = 1 \<and> backlogEvents (as_stats st2) \<le> int (length ?left)"
    using kc(1) b(4) by (simp add: upd updateBacklog_def setBacklog_def Let_def)
  moreover have "\<not> br_drained result \<and> BacklogCountLimit cfg > 0 \<and> be_probe env = None \<and>
       time_Sub (be_probe_time env) (as_lastBacklogProbe st1) \<ge> backlogProbeInterval cfg \<longrightarrow>
       backlogEvents (as_stats st2) \<le> int (length (pending_rows P cfg (as_outbox st1))) \<and>
       (backlogFloor (as_stats st2) = 0 \<longrightarrow> backlogEvents (as_stats st2) = int (length (pending_rows P cfg (as_outbox st1))))"
    using probe_sound[of P cfg "as_outbox st1"]
    by (auto simp: upd updateBacklog_def setBacklog_def Let_def countBacklog_def split: prod.splits if_splits)
  ultimately show ?thesis unfolding pending_rows_def[of P cfg "as_outbox st1"] by blast
qed

theorem backlog_gauge_sound_witness:
  "case processOneBatch sample_fmt sample_lib sample_pg dlq_config sample_cols sample_env sample_state of (result, err, st1) \<Rightarrow>
     backlogFloor (as_stats (updateBacklog sample_pg dlq_config sample_env result st1)) = 0 \<and>
     (\<exists>left. set left = {r. r \<in> set sample_table \<and> r \<in> set (as_outbox st1) \<and> resolve dlq_config (cells sample_pg r) \<noteq> None} \<and>
        backlogEvents (as_stats (updateBacklog sample_pg dlq_config sample_env result st1)) = int (length left))"
proof -
  let ?r = "processOneBatch sample_fmt sample_lib sample_pg dlq_config sample_cols sample_env sample_state"
  have "\<not> is_err (fst (snd ?r)) errDatabaseBatch" "br_drained (fst ?r)" "as_outbox sample_state = sample_table"
    by (simp_all add: sample_one_batch sample_result_def sample_state_fields)
  then show ?thesis
    using backlog_gauge_sound[OF sample_state_ok sample_arrival, of sample_fmt sample_lib "fst ?r" "fst (snd ?r)" "snd (snd ?r)"]
    by (auto split: prod.splits)
qed

end
