(* ===== verification/Relay_Poison.thy ===== *)
theory Relay_Poison
  imports Relay
begin

text \<open>
  The limit of dead-lettering: \<open>insertDeadLetters\<close> encodes the whole row with \<open>json.Marshal\<close> and
  gives up the batch on the first encoding error. A condemned row that cannot be encoded is
  therefore collected again in every batch and no batch of the relay takes effect any more.
\<close>

section \<open>Rows without a JSON encoding\<close>

text \<open>Values holding a NaN or an infinite float, for which \<open>json.Marshal\<close> documents an error.\<close>

fun has_nonfinite :: "goval \<Rightarrow> bool" where
  "has_nonfinite (GFloat64 f) = (case f of Finite q \<Rightarrow> False | _ \<Rightarrow> True)"
| "has_nonfinite (GSlice vs) = list_ex has_nonfinite vs"
| "has_nonfinite (GMap m) = list_ex (\<lambda>(k, v). has_nonfinite v) m"
| "has_nonfinite v = False"

definition strict_encoder :: "golib \<Rightarrow> bool" where
  "strict_encoder L \<longleftrightarrow> (\<forall>v. has_nonfinite v \<longrightarrow> (\<exists>err. json_Marshal L v = Inl err))"

lemma eventJSONValue_nonfinite: "has_nonfinite v \<Longrightarrow> has_nonfinite (eventJSONValue L v)"
  by (cases v) auto

lemma payload_nonfinite:
  assumes "list_ex (\<lambda>(c, v). has_nonfinite v) (columns (pe_evt p))"
  shows "has_nonfinite (GMap (deadLetterPayload L cfg now p))"
proof -
  obtain c v where cv: "(c, v) \<in> set (columns (pe_evt p))" "has_nonfinite v" using assms by (auto simp: list_ex_iff)
  have "(c, eventJSONValue L v) \<in> set (originalEventJSON L (pe_evt p))"
    using cv(1) by (force simp: originalEventJSON_def)
  then have "list_ex (\<lambda>(c, v). has_nonfinite v) (originalEventJSON L (pe_evt p))"
    using eventJSONValue_nonfinite[OF cv(2)] unfolding list_ex_iff by blast
  then show ?thesis by (simp add: deadLetterPayload_def)
qed

lemma no_dead_letter:
  assumes "strict_encoder L" "list_ex (\<lambda>(c, v). has_nonfinite v) row"
  shows "\<not> dead_letter_of L cfg row m b"
  using assms payload_nonfinite unfolding dead_letter_of_def strict_encoder_def by (metis Inl_Inr_False)

section \<open>The relay behind such a row\<close>

text \<open>
  A row that blocks: owned, its options malformed (so condemned at any time), with a column
  that has no JSON encoding.
\<close>

definition blocking_row :: "golib \<Rightarrow> pg \<Rightarrow> appConfig \<Rightarrow> eventRoute \<Rightarrow> row \<Rightarrow> bool" where
  "blocking_row L P cfg rt row \<longleftrightarrow> resolve cfg (cells P row) = Some rt \<and>
     list_ex (\<lambda>(c, v). has_nonfinite v) row \<and> (\<exists>err. withParsedOptions L cfg (event_of rt row) = Inl err)"

lemma blocking_fate:
  assumes "blocking_row L P cfg rt row"
  shows "\<exists>m. batch_fate L cfg env events (event_of rt row) = Dead m"
  using assms by (auto simp: blocking_row_def batch_fate_def verdict_def)

lemma older_mono: "older P cfg rows' rt row = {} \<Longrightarrow> set rows \<subseteq> set rows' \<Longrightarrow> older P cfg rows rt row = {}"
  by (auto simp: older_def)

lemma blocked_batch:
  assumes ok: "outbox_ok P cfg cols (as_outbox st @ be_inserted env)" and arr: "arrival_ok env"
    and lib: "strict_encoder L" and dlq: "DLQTable cfg \<noteq> []"
    and b: "blocking_row L P cfg rt row" and row: "row \<in> set (as_outbox st)" "older P cfg (as_outbox st) rt row = {}"
    and run: "processOneBatch F L P cfg cols env st = (result, err, st')"
  shows "as_outbox st' = as_outbox st @ be_inserted env \<and> as_dlq st' = as_dlq st \<and> is_err err errDatabaseBatch"
  using ok arr run
proof (cases rule: batch_effect)
  case unchanged
  then show ?thesis by simp
next
  case (effect events dead)
  have d: "ids_unique P cfg (as_outbox st)" "table_ok cfg cols (as_outbox st)"
    using outbox_okD(1,2)[OF outbox_ok_append[OF ok]] by auto
  have "event_of rt row \<in> set events"
    using oldest_selected[OF d effect(1) row(1) _ row(2)] b by (simp add: blocking_row_def)
  moreover obtain m where "batch_fate L cfg env events (event_of rt row) = Dead m" using blocking_fate[OF b] by blast
  ultimately obtain e where "dead_letter_of L cfg row m e" using effect(4) dlq by (fastforce simp: event_of_def)
  then show ?thesis using no_dead_letter[OF lib] b by (auto simp: blocking_row_def)
qed

lemma blocked_run:
  assumes "outbox_ok P cfg cols (as_outbox st @ concat (map be_inserted envs))" "list_all arrival_ok envs"
    and lib: "strict_encoder L" and dlq: "DLQTable cfg \<noteq> []" and b: "blocking_row L P cfg rt row"
    and "row \<in> set (as_outbox st)" "older P cfg (as_outbox st @ concat (map be_inserted envs)) rt row = {}"
  shows "\<exists>n. as_outbox (state_after F L P cfg cols st envs) = as_outbox st @ concat (map be_inserted (take n envs)) \<and>
    as_dlq (state_after F L P cfg cols st envs) = as_dlq st"
  using assms(1,2,6,7)
proof (induction envs arbitrary: st)
  case Nil
  then show ?case by (simp add: state_after_def)
next
  case (Cons env envs)
  obtain result err st' where run: "processOneBatch F L P cfg cols env st = (result, err, st')" by (metis prod_cases3)
  let ?n = "next_state F L P cfg cols env st"
  have ok: "outbox_ok P cfg cols (as_outbox st @ be_inserted env)"
    using outbox_ok_append[of P cfg cols "as_outbox st @ be_inserted env" "concat (map be_inserted envs)"] Cons.prems(1) by simp
  have old: "older P cfg (as_outbox st) rt row = {}" by (rule older_mono[OF Cons.prems(4)]) auto
  have "arrival_ok env" using Cons.prems(2) by simp
  from blocked_batch[OF ok this lib dlq b Cons.prems(3) old run]
  have n: "as_outbox ?n = as_outbox st @ be_inserted env" "as_dlq ?n = as_dlq st" using next_state_db[OF run] by auto
  show ?case
  proof (cases rule: processEvents_Cons[of env F L P cfg cols st envs])
    case cancelled
    then show ?thesis by (intro exI[of _ 0]) (simp add: state_after_def)
  next
    case (fatal e)
    then show ?thesis using n by (intro exI[of _ 1]) (simp add: state_after_def)
  next
    case continue
    obtain k where "as_outbox (state_after F L P cfg cols ?n envs) = as_outbox ?n @ concat (map be_inserted (take k envs)) \<and>
        as_dlq (state_after F L P cfg cols ?n envs) = as_dlq ?n"
      using Cons.IH[of ?n] Cons.prems n by auto
    then show ?thesis using n continue by (intro exI[of _ "Suc k"]) (simp add: state_after_def)
  qed
qed

text \<open>
  (C26) One condemned row can stop the relay for all routes. With a dead-letter table and an
  encoder that refuses non-finite floats, as \<open>json.Marshal\<close> documents: while the oldest row of
  some route has malformed options and a NaN or infinite float column, no run of the relay
  deletes any row or writes any dead letter, whatever the senders confirm; the outbox only grows
  by the rows inserted meanwhile.
\<close>

theorem unencodable_row_blocks:
  assumes "outbox_ok P cfg cols (as_outbox st @ concat (map be_inserted envs))" "list_all arrival_ok envs"
    and "\<forall>v. has_nonfinite v \<longrightarrow> (\<exists>err. json_Marshal L v = Inl err)" "DLQTable cfg \<noteq> []"
    and "resolve cfg (cells P row) = Some rt" "list_ex (\<lambda>(c, v). has_nonfinite v) row"
    and "\<exists>err. withParsedOptions L cfg (event_of rt row) = Inl err"
    and "row \<in> set (as_outbox st)" "older P cfg (as_outbox st @ concat (map be_inserted envs)) rt row = {}"
  shows "\<exists>n. as_outbox (snd (processEvents F L P cfg cols st envs)) = as_outbox st @ concat (map be_inserted (take n envs)) \<and>
    as_dlq (snd (processEvents F L P cfg cols st envs)) = as_dlq st"
  using blocked_run[of P cfg cols st envs L rt row F] assms
  unfolding strict_encoder_def blocking_row_def state_after_def by blast

definition strict_lib :: golib where
  "strict_lib = sample_lib\<lparr>json_Marshal :=
     (\<lambda>v. if has_nonfinite v then Inl (ErrorString ''json: unsupported value: NaN'') else Inr ''{}'')\<rparr>"

definition nan_row :: row where
  "nan_row = [(''id'', GInt64 1), (''payload'', GBytes ''hello''), (''target'', GString ''sqs''), (''destination'', GNil),
     (''options'', GString ''!''), (''score'', GFloat64 NaN)]"

definition nan_cols :: "string list" where
  "nan_cols = [''id'', ''payload'', ''target'', ''destination'', ''options'', ''score'']"

definition plain_row :: row where
  "plain_row = [(''id'', GInt64 2), (''payload'', GBytes ''hello''), (''target'', GString ''pubsub''), (''destination'', GNil),
     (''options'', GNil), (''score'', GNil)]"

definition nan_state :: app_state where
  "nan_state = sample_state\<lparr>as_outbox := [nan_row, plain_row]\<rparr>"

theorem unencodable_row_blocks_witness:
  "as_outbox (snd (processEvents sample_fmt strict_lib sample_pg dlq_config nan_cols nan_state [sample_env, sample_env])) =
     [nan_row, plain_row]"
proof -
  have "\<exists>n. as_outbox (snd (processEvents sample_fmt strict_lib sample_pg dlq_config nan_cols nan_state [sample_env, sample_env])) =
      as_outbox nan_state @ concat (map be_inserted (take n [sample_env, sample_env])) \<and>
    as_dlq (snd (processEvents sample_fmt strict_lib sample_pg dlq_config nan_cols nan_state [sample_env, sample_env])) = as_dlq nan_state"
  proof (rule unencodable_row_blocks)
    show "outbox_ok sample_pg dlq_config nan_cols (as_outbox nan_state @ concat (map be_inserted [sample_env, sample_env]))"
      by code_simp
    show "list_all arrival_ok [sample_env, sample_env]" using sample_arrival by simp
    show "\<forall>v. has_nonfinite v \<longrightarrow> (\<exists>err. json_Marshal strict_lib v = Inl err)" by (simp add: strict_lib_def)
    show "DLQTable dlq_config \<noteq> []" by code_simp
    show "resolve dlq_config (cells sample_pg nan_row) = Some sample_sqs" by code_simp
    show "list_ex (\<lambda>(c, v). has_nonfinite v) nan_row" by code_simp
    have "\<not> isl (withParsedOptions strict_lib dlq_config (event_of sample_sqs nan_row)) = False" by code_simp
    then show "\<exists>err. withParsedOptions strict_lib dlq_config (event_of sample_sqs nan_row) = Inl err"
      by (auto simp: isl_def)
    show "nan_row \<in> set (as_outbox nan_state)" by code_simp
    show "older sample_pg dlq_config (as_outbox nan_state @ concat (map be_inserted [sample_env, sample_env])) sample_sqs nan_row = {}"
      by code_simp
  qed
  moreover have "be_inserted sample_env = []" "as_outbox nan_state = [nan_row, plain_row]" by code_simp+
  moreover have "concat (map be_inserted (take n [sample_env, sample_env])) = []" for n
    using calculation(2) by (auto dest!: in_set_takeD)
  ultimately show ?thesis by (metis append_Nil2)
qed

end
