(* ===== verification/Provisioning.thy ===== *)
theory Provisioning
  imports Schema_Checks
begin

text \<open>
  \<open>init.go\<close>: the SQL that \<open>outboxer init\<close> prints or applies, as text; the statements behind the
  text with their effect on a catalogue; and \<open>applyInit\<close> with its transaction. The random part of
  the dollar-quoting tag (\<open>rand.Text\<close>) is an argument.
\<close>

section \<open>The statements as text\<close>

record initStatement =
  is_comment :: string
  is_sql :: string

abbreviation nl :: string where "nl \<equiv> [CHR 0x0A]"

definition plain_sql :: "string \<Rightarrow> initStatement" where
  "plain_sql s = \<lparr> is_comment = [], is_sql = s \<rparr>"

definition createSchemaSQL :: "(string list \<Rightarrow> string) \<Rightarrow> appConfig \<Rightarrow> string" where
  "createSchemaSQL san cfg = ''CREATE SCHEMA IF NOT EXISTS '' @ ident san (PGSchema cfg) @ '';''"

definition createEventTableSQL :: "(string list \<Rightarrow> string) \<Rightarrow> appConfig \<Rightarrow> string" where
  "createEventTableSQL san cfg =
     (let cols = [ident san (EventID cfg) @ '' bigint GENERATED BY DEFAULT AS IDENTITY PRIMARY KEY'',
                  ident san (EventPayload cfg) @ '' text NOT NULL''] @
        (if EventTarget cfg \<noteq> [] then [ident san (EventTarget cfg) @ '' text''] else []) @
        (if EventDestination cfg \<noteq> [] then [ident san (EventDestination cfg) @ '' text''] else []) @
        (if EventTimestamp cfg \<noteq> [] then [ident san (EventTimestamp cfg) @ '' timestamptz''] else []) @
        (if EventOptions cfg \<noteq> [] then [ident san (EventOptions cfg) @ '' jsonb''] else []) in
      ''CREATE TABLE IF NOT EXISTS '' @ qualifiedIdent san (PGSchema cfg) (EventTable cfg) @ '' ('' @ nl @ ''    '' @
      Join cols ('','' @ nl @ ''    '') @ nl @ '');'')"

definition eventTableStorageSQL :: "(string list \<Rightarrow> string) \<Rightarrow> appConfig \<Rightarrow> string" where
  "eventTableStorageSQL san cfg =
     ''ALTER TABLE '' @ qualifiedIdent san (PGSchema cfg) (EventTable cfg) @ '' SET ('' @ nl @
     ''    autovacuum_vacuum_threshold = 1000,'' @ nl @
     ''    autovacuum_vacuum_scale_factor = 0.01,'' @ nl @
     ''    autovacuum_analyze_threshold = 1000,'' @ nl @
     ''    autovacuum_analyze_scale_factor = 0.02'' @ nl @
     '');''"

definition createDLQTableSQL :: "(string list \<Rightarrow> string) \<Rightarrow> appConfig \<Rightarrow> string" where
  "createDLQTableSQL san cfg =
     ''CREATE TABLE IF NOT EXISTS '' @ qualifiedIdent san (PGSchema cfg) (DLQTable cfg) @ '' ('' @ nl @ ''    '' @
     ident san ''id'' @ '' bigint GENERATED BY DEFAULT AS IDENTITY PRIMARY KEY,'' @ nl @ ''    '' @
     ident san ''event'' @ '' jsonb NOT NULL'' @ nl @ '');''"

definition notifyFunctionStatement :: "(string list \<Rightarrow> string) \<Rightarrow> appConfig \<Rightarrow> initStatement" where
  "notifyFunctionStatement san cfg =
     plain_sql (''CREATE OR REPLACE FUNCTION '' @ qualifiedIdent san (PGSchema cfg) ''outboxer_notify'' @
       ''() RETURNS trigger AS $$'' @ nl @
       ''BEGIN'' @ nl @
       ''  PERFORM pg_notify(TG_ARGV[0], '' @ empty_lit @ '');'' @ nl @
       ''  RETURN NULL;'' @ nl @
       ''END;'' @ nl @
       ''$$ LANGUAGE plpgsql;'')"

definition notifyTriggerStatements :: "(string list \<Rightarrow> string) \<Rightarrow> appConfig \<Rightarrow> initStatement list" where
  "notifyTriggerStatements san cfg =
     (let table = qualifiedIdent san (PGSchema cfg) (EventTable cfg);
          function = qualifiedIdent san (PGSchema cfg) ''outboxer_notify'' in
      [plain_sql (''DROP TRIGGER IF EXISTS outboxer_notify ON '' @ table @ '';''),
       plain_sql (''CREATE TRIGGER outboxer_notify'' @ nl @ ''AFTER INSERT ON '' @ table @ nl @
         ''FOR EACH STATEMENT'' @ nl @ ''EXECUTE FUNCTION '' @ function @ ''('' @ sqlStringLiteral (NotifyChannel cfg) @ '');'')])"

definition role_tag :: "string \<Rightarrow> string" where
  "role_tag randText = ''$outboxer_'' @ randText @ ''$''"

definition runRoleStatement :: "(string list \<Rightarrow> string) \<Rightarrow> string \<Rightarrow> appConfig \<Rightarrow> bool \<Rightarrow> initStatement" where
  "runRoleStatement san randText cfg redactSecrets =
     (let password = (if redactSecrets then ''NULL''
            else if PGPassword cfg \<noteq> [] then sqlStringLiteral (PGPassword cfg) else ''NULL'');
          comment = (if redactSecrets
            then ''-- Configure authentication for the run role separately before starting Outboxer.'' else []);
          tag = role_tag randText in
      \<lparr> is_comment = comment,
        is_sql = ''DO '' @ tag @ '' BEGIN'' @ nl @
          ''  IF NOT EXISTS (SELECT FROM pg_roles WHERE rolname = '' @ sqlStringLiteral (PGUser cfg) @ '') THEN'' @ nl @
          ''    CREATE ROLE '' @ ident san (PGUser cfg) @ '' LOGIN PASSWORD '' @ password @ '';'' @ nl @
          ''  END IF;'' @ nl @
          ''END '' @ tag @ '';'' \<rparr>)"

definition runRoleGrantStatements :: "(string list \<Rightarrow> string) \<Rightarrow> appConfig \<Rightarrow> initStatement list" where
  "runRoleGrantStatements san cfg =
     (let run = ident san (PGUser cfg); table = qualifiedIdent san (PGSchema cfg) (EventTable cfg) in
      [plain_sql (''GRANT USAGE ON SCHEMA '' @ ident san (PGSchema cfg) @ '' TO '' @ run @ '';''),
       plain_sql (''GRANT SELECT, DELETE ON '' @ table @ '' TO '' @ run @ '';''),
       plain_sql (''GRANT UPDATE ('' @ ident san (EventID cfg) @ '') ON '' @ table @ '' TO '' @ run @ '';'')] @
      (if DLQTable cfg \<noteq> []
       then [plain_sql (''GRANT INSERT ON '' @ qualifiedIdent san (PGSchema cfg) (DLQTable cfg) @ '' TO '' @ run @ '';'')]
       else []))"

definition producerGrantStatements :: "(string list \<Rightarrow> string) \<Rightarrow> appConfig \<Rightarrow> initStatement list" where
  "producerGrantStatements san cfg =
     (let table = qualifiedIdent san (PGSchema cfg) (EventTable cfg) in
      concat (map (\<lambda>role. let quotedRole = ident san role in
        [plain_sql (''GRANT USAGE ON SCHEMA '' @ ident san (PGSchema cfg) @ '' TO '' @ quotedRole @ '';''),
         plain_sql (''GRANT SELECT, INSERT ON '' @ table @ '' TO '' @ quotedRole @ '';'')]) (PGProducerRoles cfg)))"

definition buildInitStatements :: "(string list \<Rightarrow> string) \<Rightarrow> string \<Rightarrow> appConfig \<Rightarrow> bool \<Rightarrow> initStatement list" where
  "buildInitStatements san randText cfg redactSecrets =
     (let manageRoles = PGInitUser cfg \<noteq> [] in
      (if manageRoles then [runRoleStatement san randText cfg redactSecrets] else []) @
      [plain_sql (createSchemaSQL san cfg), plain_sql (createEventTableSQL san cfg),
       \<lparr> is_comment = ''-- The outbox churns every row (insert + delete), so autovacuum must run far more eagerly than the defaults.'',
         is_sql = eventTableStorageSQL san cfg \<rparr>] @
      (if DLQTable cfg \<noteq> [] then [plain_sql (createDLQTableSQL san cfg)] else []) @
      [notifyFunctionStatement san cfg] @ notifyTriggerStatements san cfg @
      (if manageRoles then runRoleGrantStatements san cfg @ producerGrantStatements san cfg else []))"

fun render_from :: "bool \<Rightarrow> initStatement list \<Rightarrow> string" where
  "render_from later [] = nl"
| "render_from later (s # stmts) =
     (if later then nl @ nl else []) @ (if is_comment s \<noteq> [] then is_comment s @ nl else []) @ is_sql s @
     render_from True stmts"

definition renderInitScript :: "initStatement list \<Rightarrow> string" where
  "renderInitScript stmts = render_from False stmts"

section \<open>The statements and their effect\<close>

text \<open>What is granted on: a schema, a table, a column of a table.\<close>

datatype pg_object = OnSchema string | OnTable string string | OnColumn string string string

record pg_table =
  tb_kind :: string
  tb_canInsert :: bool
  tb_columns :: "dlqColumnMetadata list"

record catalog =
  ct_roles :: "string list"
  ct_schemas :: "string list"
  ct_tables :: "((string \<times> string) \<times> pg_table) list"
  ct_storage :: "(string \<times> string) list"
  ct_functions :: "string list"
  ct_triggers :: "((string \<times> string) \<times> string \<times> string) list"
  ct_grants :: "(pg_object \<times> string \<times> string) list"

text \<open>The column definitions used, with the type and the rest of the definition.\<close>

datatype column_kind = IdentityKey | RequiredText | PlainText | Timestamp | JSONB | RequiredJSONB

fun kind_sql :: "column_kind \<Rightarrow> string" where
  "kind_sql IdentityKey = '' bigint GENERATED BY DEFAULT AS IDENTITY PRIMARY KEY''"
| "kind_sql RequiredText = '' text NOT NULL''"
| "kind_sql PlainText = '' text''"
| "kind_sql Timestamp = '' timestamptz''"
| "kind_sql JSONB = '' jsonb''"
| "kind_sql RequiredJSONB = '' jsonb NOT NULL''"

text \<open>The row \<open>pg_attribute\<close> has for such a column, seen by the role that created the table.\<close>

definition kind_column :: "string \<times> column_kind \<Rightarrow> dlqColumnMetadata" where
  "kind_column c =
     \<lparr> col_name = fst c,
       col_typeName = (case snd c of IdentityKey \<Rightarrow> ''int8'' | RequiredText \<Rightarrow> ''text'' | PlainText \<Rightarrow> ''text''
          | Timestamp \<Rightarrow> ''timestamptz'' | JSONB \<Rightarrow> ''jsonb'' | RequiredJSONB \<Rightarrow> ''jsonb''),
       col_notNull = (snd c = IdentityKey \<or> snd c = RequiredText \<or> snd c = RequiredJSONB),
       col_defaultExpr = None,
       col_identity = (if snd c = IdentityKey then ''d'' else []),
       col_generated = [], col_canInsertColumn = True \<rparr>"

datatype ddl =
    EnsureRole string "string option"
  | CreateSchema string
  | CreateTable string string "(string \<times> column_kind) list"
  | TuneStorage string string
  | NotifyFunction string
  | DropTrigger string string
  | CreateTrigger string string string
  | Grant "string list" pg_object string

fun render_ddl :: "(string list \<Rightarrow> string) \<Rightarrow> string \<Rightarrow> ddl \<Rightarrow> string" where
  "render_ddl san tag (EnsureRole role password) =
     ''DO '' @ tag @ '' BEGIN'' @ nl @
     ''  IF NOT EXISTS (SELECT FROM pg_roles WHERE rolname = '' @ sqlStringLiteral role @ '') THEN'' @ nl @
     ''    CREATE ROLE '' @ ident san role @ '' LOGIN PASSWORD '' @
     (case password of None \<Rightarrow> ''NULL'' | Some p \<Rightarrow> sqlStringLiteral p) @ '';'' @ nl @
     ''  END IF;'' @ nl @ ''END '' @ tag @ '';''"
| "render_ddl san tag (CreateSchema s) = ''CREATE SCHEMA IF NOT EXISTS '' @ ident san s @ '';''"
| "render_ddl san tag (CreateTable s t cols) =
     ''CREATE TABLE IF NOT EXISTS '' @ qualifiedIdent san s t @ '' ('' @ nl @ ''    '' @
     Join (map (\<lambda>(c, k). ident san c @ kind_sql k) cols) ('','' @ nl @ ''    '') @ nl @ '');''"
| "render_ddl san tag (TuneStorage s t) =
     ''ALTER TABLE '' @ qualifiedIdent san s t @ '' SET ('' @ nl @
     ''    autovacuum_vacuum_threshold = 1000,'' @ nl @ ''    autovacuum_vacuum_scale_factor = 0.01,'' @ nl @
     ''    autovacuum_analyze_threshold = 1000,'' @ nl @ ''    autovacuum_analyze_scale_factor = 0.02'' @ nl @ '');''"
| "render_ddl san tag (NotifyFunction s) =
     ''CREATE OR REPLACE FUNCTION '' @ qualifiedIdent san s ''outboxer_notify'' @ ''() RETURNS trigger AS $$'' @ nl @
     ''BEGIN'' @ nl @ ''  PERFORM pg_notify(TG_ARGV[0], '' @ empty_lit @ '');'' @ nl @ ''  RETURN NULL;'' @ nl @
     ''END;'' @ nl @ ''$$ LANGUAGE plpgsql;''"
| "render_ddl san tag (DropTrigger s t) = ''DROP TRIGGER IF EXISTS outboxer_notify ON '' @ qualifiedIdent san s t @ '';''"
| "render_ddl san tag (CreateTrigger s t channel) =
     ''CREATE TRIGGER outboxer_notify'' @ nl @ ''AFTER INSERT ON '' @ qualifiedIdent san s t @ nl @
     ''FOR EACH STATEMENT'' @ nl @ ''EXECUTE FUNCTION '' @ qualifiedIdent san s ''outboxer_notify'' @
     ''('' @ sqlStringLiteral channel @ '');''"
| "render_ddl san tag (Grant privs obj role) =
     ''GRANT '' @ Join privs '', '' @
     (case obj of OnSchema s \<Rightarrow> '' ON SCHEMA '' @ ident san s
        | OnTable s t \<Rightarrow> '' ON '' @ qualifiedIdent san s t
        | OnColumn s t c \<Rightarrow> '' ('' @ ident san c @ '') ON '' @ qualifiedIdent san s t) @
     '' TO '' @ ident san role @ '';''"

text \<open>\<open>IF NOT EXISTS\<close> keeps an object that is there.\<close>

definition ensure :: "'k \<Rightarrow> 'v \<Rightarrow> ('k \<times> 'v) list \<Rightarrow> ('k \<times> 'v) list" where
  "ensure k v xs = (if map_of xs k = None then xs @ [(k, v)] else xs)"

fun exec_ddl :: "ddl \<Rightarrow> catalog \<Rightarrow> catalog" where
  "exec_ddl (EnsureRole role password) c = c\<lparr>ct_roles := List.insert role (ct_roles c)\<rparr>"
| "exec_ddl (CreateSchema s) c = c\<lparr>ct_schemas := List.insert s (ct_schemas c)\<rparr>"
| "exec_ddl (CreateTable s t cols) c =
     c\<lparr>ct_tables := ensure (s, t) \<lparr> tb_kind = ''r'', tb_canInsert = True, tb_columns = map kind_column cols \<rparr> (ct_tables c)\<rparr>"
| "exec_ddl (TuneStorage s t) c = c\<lparr>ct_storage := List.insert (s, t) (ct_storage c)\<rparr>"
| "exec_ddl (NotifyFunction s) c = c\<lparr>ct_functions := List.insert s (ct_functions c)\<rparr>"
| "exec_ddl (DropTrigger s t) c = c\<lparr>ct_triggers := filter (\<lambda>(k, v). k \<noteq> (s, t)) (ct_triggers c)\<rparr>"
| "exec_ddl (CreateTrigger s t channel) c = c\<lparr>ct_triggers := ct_triggers c @ [((s, t), s, channel)]\<rparr>"
| "exec_ddl (Grant privs obj role) c =
     c\<lparr>ct_grants := fold List.insert (map (\<lambda>p. (obj, p, role)) privs) (ct_grants c)\<rparr>"

text \<open>The statements of a configuration; \<open>password\<close> is what \<open>CREATE ROLE\<close> carries.\<close>

definition event_columns :: "appConfig \<Rightarrow> (string \<times> column_kind) list" where
  "event_columns cfg =
     [(EventID cfg, IdentityKey), (EventPayload cfg, RequiredText)] @
     filter (\<lambda>(c, k). c \<noteq> []) [(EventTarget cfg, PlainText), (EventDestination cfg, PlainText),
       (EventTimestamp cfg, Timestamp), (EventOptions cfg, JSONB)]"

definition run_grants :: "appConfig \<Rightarrow> ddl list" where
  "run_grants cfg =
     [Grant [''USAGE''] (OnSchema (PGSchema cfg)) (PGUser cfg),
      Grant [''SELECT'', ''DELETE''] (OnTable (PGSchema cfg) (EventTable cfg)) (PGUser cfg),
      Grant [''UPDATE''] (OnColumn (PGSchema cfg) (EventTable cfg) (EventID cfg)) (PGUser cfg)] @
     (if DLQTable cfg = [] then [] else [Grant [''INSERT''] (OnTable (PGSchema cfg) (DLQTable cfg)) (PGUser cfg)])"

definition producer_grants :: "appConfig \<Rightarrow> ddl list" where
  "producer_grants cfg =
     concat (map (\<lambda>role. [Grant [''USAGE''] (OnSchema (PGSchema cfg)) role,
       Grant [''SELECT'', ''INSERT''] (OnTable (PGSchema cfg) (EventTable cfg)) role]) (PGProducerRoles cfg))"

definition init_plan :: "appConfig \<Rightarrow> string option \<Rightarrow> ddl list" where
  "init_plan cfg password =
     (if PGInitUser cfg = [] then [] else [EnsureRole (PGUser cfg) password]) @
     [CreateSchema (PGSchema cfg), CreateTable (PGSchema cfg) (EventTable cfg) (event_columns cfg),
      TuneStorage (PGSchema cfg) (EventTable cfg)] @
     (if DLQTable cfg = [] then []
      else [CreateTable (PGSchema cfg) (DLQTable cfg) [(''id'', IdentityKey), (''event'', RequiredJSONB)]]) @
     [NotifyFunction (PGSchema cfg), DropTrigger (PGSchema cfg) (EventTable cfg),
      CreateTrigger (PGSchema cfg) (EventTable cfg) (NotifyChannel cfg)] @
     (if PGInitUser cfg = [] then [] else run_grants cfg @ producer_grants cfg)"

definition role_password :: "appConfig \<Rightarrow> bool \<Rightarrow> string option" where
  "role_password cfg redact = (if redact \<or> PGPassword cfg = [] then None else Some (PGPassword cfg))"

section \<open>Applying the statements\<close>

text \<open>
  What the outside decides in one \<open>init --apply\<close>: the errors of opening the database (for the
  connection settings used) and of beginning the transaction, what a statement text does to the
  catalogue, the errors of the two validation queries, and the outcome of the commit, which may
  have taken effect although it reports an error.
\<close>

record init_env =
  ie_open :: "appConfig \<Rightarrow> go_error option"
  ie_begin :: "go_error option"
  ie_exec :: "string \<Rightarrow> catalog \<Rightarrow> go_error + catalog"
  ie_columns :: "go_error option"
  ie_dlq :: "go_error option"
  ie_commit :: "go_error option"
  ie_lost_reply :: bool

fun execInitStatements :: "(string \<Rightarrow> catalog \<Rightarrow> go_error + catalog) \<Rightarrow> initStatement list \<Rightarrow> catalog \<Rightarrow> go_error + catalog" where
  "execInitStatements run [] c = Inr c"
| "execInitStatements run (s # stmts) c =
     (case run (is_sql s) c of Inl err \<Rightarrow> Inl err | Inr c' \<Rightarrow> execInitStatements run stmts c')"

definition columns_answer :: "go_error option \<Rightarrow> appConfig \<Rightarrow> catalog \<Rightarrow> go_error + string list" where
  "columns_answer queryErr cfg c =
     (case queryErr of Some err \<Rightarrow> Inl err
      | None \<Rightarrow> (case map_of (ct_tables c) (PGSchema cfg, EventTable cfg) of
          None \<Rightarrow> Inl (ErrorString ''relation does not exist'')
        | Some t \<Rightarrow> Inr (map col_name (tb_columns t))))"

definition dlq_answer ::
  "go_error option \<Rightarrow> appConfig \<Rightarrow> catalog \<Rightarrow> go_error + ((go_error + dlq_row) list \<times> go_error option)" where
  "dlq_answer queryErr cfg c =
     (case queryErr of Some err \<Rightarrow> Inl err
      | None \<Rightarrow> (case map_of (ct_tables c) (PGSchema cfg, DLQTable cfg) of
          None \<Rightarrow> Inr ([], None)
        | Some t \<Rightarrow> Inr (map (\<lambda>col. Inr (tb_kind t, tb_canInsert t, col)) (tb_columns t), None)))"

definition init_connection :: "appConfig \<Rightarrow> appConfig" where
  "init_connection cfg =
     (if PGInitUser cfg \<noteq> [] then cfg\<lparr>PGUser := PGInitUser cfg, PGPassword := PGInitPassword cfg\<rparr> else cfg)"

definition wrap_as :: "string \<Rightarrow> go_error \<Rightarrow> go_error option" where
  "wrap_as m err = Some (WrapError (m @ '': '' @ error_text err) err)"

definition applyInit ::
  "(string list \<Rightarrow> string) \<Rightarrow> string \<Rightarrow> init_env \<Rightarrow> appConfig \<Rightarrow> catalog \<Rightarrow> go_error option \<times> catalog" where
  "applyInit san randText env cfg c =
     (case ie_open env (init_connection cfg) of
        Some err \<Rightarrow> (wrap_as ''open database'' err, c)
      | None \<Rightarrow>
      (case ie_begin env of
         Some err \<Rightarrow> (wrap_as ''begin transaction'' err, c)
       | None \<Rightarrow>
       (case execInitStatements (ie_exec env) (buildInitStatements san randText cfg False) c of
          Inl err \<Rightarrow> (wrap_as ''apply provisioning statement'' err, c)
        | Inr c' \<Rightarrow>
        (case validateProvisionedSchema cfg (columns_answer (ie_columns env) cfg c') (dlq_answer (ie_dlq env) cfg c') of
           Some err \<Rightarrow> (wrap_as ''post-apply validation'' err, c)
         | None \<Rightarrow>
         (case ie_commit env of
            Some err \<Rightarrow> (wrap_as ''commit'' err, if ie_lost_reply env then c' else c)
          | None \<Rightarrow> (None, c'))))))"

end
