(* ===== verification/Provisioning_Facts.thy ===== *)
theory Provisioning_Facts
  imports Provisioning
begin

text \<open>
  What provisioning guarantees: the printed script is the rendering of a plan of statements, it
  holds no secret, the plan makes the database ready for the relay, running it again changes
  nothing, and \<open>init --apply\<close> is atomic.
\<close>

section \<open>The text is the plan\<close>

lemma event_table_text:
  "createEventTableSQL san cfg = render_ddl san tag (CreateTable (PGSchema cfg) (EventTable cfg) (event_columns cfg))"
  by (simp add: createEventTableSQL_def event_columns_def)

lemma producer_grants_text:
  "map is_sql (producerGrantStatements san cfg) = map (render_ddl san tag) (producer_grants cfg)"
  by (simp add: producerGrantStatements_def producer_grants_def Let_def map_concat o_def plain_sql_def)

lemma run_grants_text: "map is_sql (runRoleGrantStatements san cfg) = map (render_ddl san tag) (run_grants cfg)"
  by (simp add: runRoleGrantStatements_def run_grants_def Let_def plain_sql_def)

lemma trigger_text:
  "map is_sql (notifyTriggerStatements san cfg) =
     map (render_ddl san tag) [DropTrigger (PGSchema cfg) (EventTable cfg),
       CreateTrigger (PGSchema cfg) (EventTable cfg) (NotifyChannel cfg)]"
  by (simp add: notifyTriggerStatements_def Let_def plain_sql_def)

lemma role_text:
  "is_sql (runRoleStatement san r cfg redact) =
     render_ddl san (role_tag r) (EnsureRole (PGUser cfg) (role_password cfg redact))"
  by (simp add: runRoleStatement_def role_password_def Let_def)

lemma object_texts:
  "createSchemaSQL san cfg = render_ddl san tag (CreateSchema (PGSchema cfg))"
  "eventTableStorageSQL san cfg = render_ddl san tag (TuneStorage (PGSchema cfg) (EventTable cfg))"
  "createDLQTableSQL san cfg =
     render_ddl san tag (CreateTable (PGSchema cfg) (DLQTable cfg) [(''id'', IdentityKey), (''event'', RequiredJSONB)])"
  "is_sql (notifyFunctionStatement san cfg) = render_ddl san tag (NotifyFunction (PGSchema cfg))"
  by (simp_all add: createSchemaSQL_def eventTableStorageSQL_def createDLQTableSQL_def notifyFunctionStatement_def plain_sql_def)

lemma is_sql_plain: "is_sql (plain_sql s) = s"
  by (simp add: plain_sql_def)

lemma plan_text:
  "map is_sql (buildInitStatements san r cfg redact) =
     map (render_ddl san (role_tag r)) (init_plan cfg (role_password cfg redact))"
proof -
  note texts = role_text[of san r cfg redact] object_texts[of san cfg "role_tag r"] event_table_text[of san cfg "role_tag r"]
    trigger_text[of san cfg "role_tag r"] run_grants_text[of san cfg "role_tag r"] producer_grants_text[of san cfg "role_tag r"]
  show ?thesis
    by (cases "PGInitUser cfg = []"; cases "DLQTable cfg = []")
      (simp_all only: buildInitStatements_def init_plan_def Let_def map_append list.map initStatement.select_convs is_sql_plain
        texts simp_thms if_True if_False append.simps not_True_eq_False not_False_eq_True append_assoc append_Nil2)
qed

text \<open>
  The SQL of \<open>init\<close> means what it says: for every configuration, the statement texts are, in
  order, the renderings of the plan (role, schema, tables, storage settings, notification
  function and trigger, grants), with the password of the run role only when secrets are not
  redacted.
\<close>

theorem init_sql_is_plan:
  "map is_sql (buildInitStatements san r cfg redact) =
     map (render_ddl san (role_tag r)) (init_plan cfg (role_password cfg redact))"
  by (rule plan_text)

section \<open>No secrets in print mode\<close>

lemma statements_blind:
  "buildInitStatements san r (cfg\<lparr>PGPassword := p, PGInitPassword := q\<rparr>) True = buildInitStatements san r cfg True"
  by (simp add: buildInitStatements_def Let_def runRoleStatement_def runRoleGrantStatements_def producerGrantStatements_def
      notifyTriggerStatements_def notifyFunctionStatement_def createSchemaSQL_def createEventTableSQL_def
      eventTableStorageSQL_def createDLQTableSQL_def)

text \<open>
  Print mode reveals no secret: the script printed by \<open>init\<close> is the same whatever the
  passwords of the run role and of the provisioning role are, while the statements that are
  applied carry the password of the run role as an SQL literal that reads back as the password.
\<close>

theorem print_mode_no_secrets:
  "renderInitScript (buildInitStatements san r (cfg\<lparr>PGPassword := p, PGInitPassword := q\<rparr>) True) =
     renderInitScript (buildInitStatements san r cfg True) \<and>
   (PGInitUser cfg = [] \<or> PGPassword cfg = [] \<or>
     (\<exists>before after. is_sql (hd (buildInitStatements san r cfg False)) = before @ sqlStringLiteral (PGPassword cfg) @ after))"
proof
  show "renderInitScript (buildInitStatements san r (cfg\<lparr>PGPassword := p, PGInitPassword := q\<rparr>) True) =
     renderInitScript (buildInitStatements san r cfg True)" by (simp only: statements_blind)
  show "PGInitUser cfg = [] \<or> PGPassword cfg = [] \<or>
     (\<exists>before after. is_sql (hd (buildInitStatements san r cfg False)) = before @ sqlStringLiteral (PGPassword cfg) @ after)"
  proof -
    have "\<exists>before after. is_sql (runRoleStatement san r cfg False) = before @ sqlStringLiteral (PGPassword cfg) @ after"
      if "PGPassword cfg \<noteq> []"
      unfolding role_text role_password_def using that
      by (simp only: render_ddl.simps append_assoc[symmetric] option.simps if_False simp_thms) (metis append_assoc)
    then show ?thesis by (auto simp: buildInitStatements_def Let_def)
  qed
qed

section \<open>A provisioned database is ready\<close>

abbreviation run_plan :: "ddl list \<Rightarrow> catalog \<Rightarrow> catalog" where
  "run_plan plan c \<equiv> fold exec_ddl plan c"

definition is_grant :: "ddl \<Rightarrow> bool" where
  "is_grant d = (case d of Grant privs obj role \<Rightarrow> True | _ \<Rightarrow> False)"

definition granted :: "ddl list \<Rightarrow> (pg_object \<times> string \<times> string) list" where
  "granted ds = concat (map (\<lambda>d. case d of Grant privs obj role \<Rightarrow> map (\<lambda>p. (obj, p, role)) privs | _ \<Rightarrow> []) ds)"

lemma run_grants_only:
  "list_all is_grant ds \<Longrightarrow> run_plan ds c = c\<lparr>ct_grants := fold List.insert (granted ds) (ct_grants c)\<rparr>"
proof (induction ds arbitrary: c)
  case (Cons d ds)
  obtain privs obj role where "d = Grant privs obj role" using Cons.prems by (auto simp: is_grant_def split: ddl.splits)
  then show ?case using Cons by (simp add: granted_def)
qed (simp add: granted_def)

lemma grants_are_grants: "list_all is_grant (run_grants cfg @ producer_grants cfg)"
  by (auto simp: run_grants_def producer_grants_def is_grant_def list_all_iff)

definition plan_grants :: "appConfig \<Rightarrow> (pg_object \<times> string \<times> string) list" where
  "plan_grants cfg = (if PGInitUser cfg = [] then [] else granted (run_grants cfg @ producer_grants cfg))"

definition event_table :: "appConfig \<Rightarrow> pg_table" where
  "event_table cfg = \<lparr> tb_kind = ''r'', tb_canInsert = True, tb_columns = map kind_column (event_columns cfg) \<rparr>"

definition dlq_table :: pg_table where
  "dlq_table = \<lparr> tb_kind = ''r'', tb_canInsert = True,
     tb_columns = map kind_column [(''id'', IdentityKey), (''event'', RequiredJSONB)] \<rparr>"

text \<open>The catalogue after the plan, field by field.\<close>

lemma plan_effect:
  "run_plan (init_plan cfg password) c =
     \<lparr> ct_roles = (if PGInitUser cfg = [] then ct_roles c else List.insert (PGUser cfg) (ct_roles c)),
       ct_schemas = List.insert (PGSchema cfg) (ct_schemas c),
       ct_tables = (if DLQTable cfg = [] then id else ensure (PGSchema cfg, DLQTable cfg) dlq_table)
         (ensure (PGSchema cfg, EventTable cfg) (event_table cfg) (ct_tables c)),
       ct_storage = List.insert (PGSchema cfg, EventTable cfg) (ct_storage c),
       ct_functions = List.insert (PGSchema cfg) (ct_functions c),
       ct_triggers = filter (\<lambda>(k, v). k \<noteq> (PGSchema cfg, EventTable cfg)) (ct_triggers c) @
         [((PGSchema cfg, EventTable cfg), PGSchema cfg, NotifyChannel cfg)],
       ct_grants = fold List.insert (plan_grants cfg) (ct_grants c) \<rparr>"
  by (cases "PGInitUser cfg = []"; cases "DLQTable cfg = []")
    (simp_all add: init_plan_def run_grants_only[OF grants_are_grants, unfolded fold_append comp_def] plan_grants_def
      event_table_def dlq_table_def granted_def)

lemma ensure_lookup:
  "map_of (ensure k v xs) k' = (case map_of xs k' of Some w \<Rightarrow> Some w | None \<Rightarrow> if k' = k then Some v else None)"
  by (auto simp: ensure_def map_add_def split: option.splits)

lemma ensure_present: "map_of xs k \<noteq> None \<Longrightarrow> ensure k v xs = xs"
  by (simp add: ensure_def)

lemma in_fold_insert: "set (fold List.insert xs ys) = set xs \<union> set ys"
  by (induction xs arbitrary: ys) auto

lemma fold_insert_present: "set xs \<subseteq> set ys \<Longrightarrow> fold List.insert xs ys = ys"
  by (induction xs) (auto simp: List.insert_def)

lemma fold_insert_again: "fold List.insert xs (fold List.insert xs ys) = fold List.insert xs ys"
  by (rule fold_insert_present) (simp add: in_fold_insert)

lemma ensure_again: "ensure k v (ensure k v xs) = ensure k v xs"
  by (rule ensure_present) (simp add: ensure_lookup split: option.splits)

lemma ensure_both_again: "ensure j w (ensure k v (ensure j w (ensure k v xs))) = ensure j w (ensure k v xs)"
proof -
  have "ensure k v (ensure j w (ensure k v xs)) = ensure j w (ensure k v xs)"
    by (rule ensure_present) (simp add: ensure_lookup split: option.splits)
  then show ?thesis by (simp add: ensure_again)
qed

text \<open>
  Provisioning is idempotent: running the statements of \<open>init\<close> on a database on which they
  ran before changes nothing, whatever was there at first.
\<close>

theorem init_idempotent:
  "fold exec_ddl (init_plan cfg p) (fold exec_ddl (init_plan cfg q) c) = fold exec_ddl (init_plan cfg q) c"
  unfolding plan_effect by (simp add: fold_insert_again ensure_again ensure_both_again)



























definition init_config :: appConfig where
  "init_config = defaultConfig\<lparr>DLQTable := ''dead'', PGInitUser := ''admin'', PGUser := ''relay'', PGPassword := ''secret''\<rparr>"

definition empty_catalog :: catalog where
  "empty_catalog = \<lparr> ct_roles = [], ct_schemas = [], ct_tables = [], ct_storage = [], ct_functions = [], ct_triggers = [], ct_grants = [] \<rparr>"

section \<open>Applying is atomic\<close>

lemma exec_statements:
  assumes "\<forall>d c. d \<in> set ds \<longrightarrow> (\<exists>err. run (txt d) c = Inl err) \<or> run (txt d) c = Inr (exec_ddl d c)"
    and "map is_sql stmts = map txt ds" and "execInitStatements run stmts c = Inr c'"
  shows "c' = fold exec_ddl ds c"
  using assms
proof (induction ds arbitrary: stmts c)
  case (Cons d ds)
  then obtain s rest where s: "stmts = s # rest" "is_sql s = txt d" "map is_sql rest = map txt ds" by (cases stmts) auto
  have "(\<exists>err. run (txt d) c = Inl err) \<or> run (txt d) c = Inr (exec_ddl d c)" using Cons.prems(1) by simp
  then have "execInitStatements run rest (exec_ddl d c) = Inr c'" using Cons.prems(3) s by auto
  then show ?case using Cons.IH[OF _ s(3)] Cons.prems(1) by simp
qed simp

text \<open>
  (C28) \<open>init --apply\<close> is atomic and validated: on a database that executes each statement or
  fails it, either the catalogue is unchanged and an error is returned, or it has changed by
  exactly the plan and passes the relay's checks; then no error is returned, or only that of the
  commit.
\<close>

theorem apply_init_atomic:
  assumes "\<forall>d c. d \<in> set (init_plan cfg (role_password cfg False)) \<longrightarrow>
      (\<exists>err. ie_exec env (render_ddl san (role_tag r) d) c = Inl err) \<or>
      ie_exec env (render_ddl san (role_tag r) d) c = Inr (exec_ddl d c)"
    and "applyInit san r env cfg c = (err, c')"
  shows "(c' = c \<and> err \<noteq> None) \<or>
    (c' = fold exec_ddl (init_plan cfg (role_password cfg False)) c \<and>
     validateProvisionedSchema cfg (columns_answer None cfg c') (dlq_answer None cfg c') = None \<and>
     (err = None \<or> ie_commit env \<noteq> None))"
proof (cases "execInitStatements (ie_exec env) (buildInitStatements san r cfg False) c")
  case (Inr c1)
  have c1: "c1 = fold exec_ddl (init_plan cfg (role_password cfg False)) c"
    by (rule exec_statements[OF assms(1) plan_text Inr])
  have "validateProvisionedSchema cfg (columns_answer None cfg c1) (dlq_answer None cfg c1) = None"
    if "validateProvisionedSchema cfg (columns_answer (ie_columns env) cfg c1) (dlq_answer (ie_dlq env) cfg c1) = None"
    using that by (auto simp: validateProvisionedSchema_def columns_answer_def dlq_answer_def loadDLQTableMetadata_def
        split: option.splits if_splits sum.splits)
  then show ?thesis
    using assms(2) Inr c1 by (auto simp: applyInit_def wrap_as_def split: option.splits if_splits)
qed (use assms(2) in \<open>auto simp: applyInit_def wrap_as_def split: option.splits\<close>)

text \<open>A database that knows the statements of one plan by their text.\<close>

definition plan_db :: "(ddl \<Rightarrow> string) \<Rightarrow> ddl list \<Rightarrow> string \<Rightarrow> catalog \<Rightarrow> go_error + catalog" where
  "plan_db txt plan s c =
     (case find (\<lambda>d. txt d = s) plan of None \<Rightarrow> Inl (ErrorString ''syntax error'') | Some d \<Rightarrow> Inr (exec_ddl d c))"

lemma plan_db_knows: "distinct (map txt plan) \<Longrightarrow> d \<in> set plan \<Longrightarrow> plan_db txt plan (txt d) c = Inr (exec_ddl d c)"
proof -
  assume dist: "distinct (map txt plan)" and d: "d \<in> set plan"
  then have "find (\<lambda>e. txt e = txt d) plan = Some d"
    by (induction plan) (auto simp: rev_image_eqI)
  then show ?thesis by (simp add: plan_db_def)
qed

definition dotted :: "string list \<Rightarrow> string" where
  "dotted names = Join names ''.''"

definition good_init :: init_env where
  "good_init = \<lparr> ie_open = (\<lambda>_. None), ie_begin = None,
     ie_exec = plan_db (render_ddl dotted (role_tag ''X'')) (init_plan init_config (role_password init_config False)),
     ie_columns = None, ie_dlq = None, ie_commit = None, ie_lost_reply = False \<rparr>"

theorem apply_init_atomic_witness:
  "snd (applyInit dotted ''X'' good_init init_config empty_catalog) =
     fold exec_ddl (init_plan init_config (Some ''secret'')) empty_catalog"
proof -
  let ?plan = "init_plan init_config (role_password init_config False)"
  let ?r = "applyInit dotted ''X'' good_init init_config empty_catalog"
  have dist: "distinct (map (render_ddl dotted (role_tag ''X'')) ?plan)" by code_simp
  have knows: "\<forall>d c. d \<in> set ?plan \<longrightarrow> (\<exists>err. ie_exec good_init (render_ddl dotted (role_tag ''X'') d) c = Inl err) \<or>
      ie_exec good_init (render_ddl dotted (role_tag ''X'') d) c = Inr (exec_ddl d c)"
    using plan_db_knows[OF dist] by (simp add: good_init_def)
  have "fst ?r = None" by code_simp
  moreover have "role_password init_config False = Some ''secret''" by code_simp
  moreover have "?r = (fst ?r, snd ?r)" by simp
  ultimately show ?thesis using apply_init_atomic[OF knows, of empty_catalog "fst ?r" "snd ?r"] by simp
qed


end
