(* ===== verification/Config_Flags.thy ===== *)
theory Config_Flags
  imports Config
begin

text \<open>
  \<open>config_flags.go\<close>, \<open>dotenv.go\<close> and the loading functions of \<open>config.go\<close>: from the environment, a
  \<open>.env\<close> file and the command line to a configuration. The parts of Go's \<open>flag\<close> and \<open>strconv\<close> packages
  the code uses are written out. The code binds every flag to a field or a scratch variable by
  pointer; here the store of these variables is a function from flag names to values, and
  \<open>config_of\<close> reads the fields from it. Usage texts are not modelled.
\<close>

section \<open>Parsing numbers and booleans\<close>

datatype num_error = ErrSyntax | ErrRange

definition lower :: "char \<Rightarrow> char" where
  "lower c = lower_char c"

definition digit_value :: "char \<Rightarrow> nat option" where
  "digit_value c =
     (let n = of_char c :: nat; l = of_char (lower c) :: nat in
      if 48 \<le> n \<and> n \<le> 57 then Some (n - 48)
      else if 97 \<le> l \<and> l \<le> 122 then Some (l - 97 + 10)
      else None)"

text \<open>The loop of \<open>strconv.ParseUint\<close>; underscores are skipped when the base was given as 0.\<close>

fun parse_digits :: "bool \<Rightarrow> nat \<Rightarrow> nat \<Rightarrow> string \<Rightarrow> nat \<Rightarrow> num_error + nat" where
  "parse_digits base0 base maxVal [] n = Inr n"
| "parse_digits base0 base maxVal (c # cs) n =
     (if c = CHR ''_'' \<and> base0 then parse_digits base0 base maxVal cs n
      else (case digit_value c of
          None \<Rightarrow> Inl ErrSyntax
        | Some d \<Rightarrow>
            if d \<ge> base then Inl ErrSyntax
            else if n * base + d > maxVal then Inl ErrRange
            else parse_digits base0 base maxVal cs (n * base + d)))"

text \<open>\<open>underscoreOK\<close>: an underscore only between digits, or after a base prefix.\<close>

fun underscores :: "bool \<Rightarrow> char \<Rightarrow> string \<Rightarrow> bool" where
  "underscores hex i [] = (i \<noteq> CHR ''_'')"
| "underscores hex i (c # cs) =
     (let n = of_char c :: nat; l = of_char (lower c) :: nat in
      if (48 \<le> n \<and> n \<le> 57) \<or> (hex \<and> 97 \<le> l \<and> l \<le> 102) then underscores hex (CHR ''0'') cs
      else if c = CHR ''_'' then i = CHR ''0'' \<and> underscores hex (CHR ''_'') cs
      else i \<noteq> CHR ''_'' \<and> underscores hex (CHR ''!'') cs)"

definition base_prefix :: "string \<Rightarrow> (nat \<times> string) option" where
  "base_prefix s =
     (if length s \<ge> 2 \<and> s ! 0 = CHR ''0''
      then (let p = lower (s ! 1) in
            if p = CHR ''b'' then Some (2, drop 2 s)
            else if p = CHR ''o'' then Some (8, drop 2 s)
            else if p = CHR ''x'' then Some (16, drop 2 s)
            else None)
      else None)"

definition drop_sign :: "string \<Rightarrow> string" where
  "drop_sign s = (if s \<noteq> [] \<and> (hd s = CHR ''-'' \<or> hd s = CHR ''+'') then tl s else s)"

definition underscoreOK :: "string \<Rightarrow> bool" where
  "underscoreOK s =
     (let s' = drop_sign s in
      case base_prefix s' of
        Some (b, rest) \<Rightarrow> underscores (b = 16) (CHR ''0'') rest
      | None \<Rightarrow> underscores False (CHR ''^'') s')"

text \<open>\<open>strconv.ParseUint(s, 0, 64)\<close>.\<close>

definition ParseUint0 :: "string \<Rightarrow> num_error + nat" where
  "ParseUint0 s =
     (if s = [] then Inl ErrSyntax
      else (let (base, digits) =
              (if hd s = CHR ''0''
               then (case base_prefix s of
                   Some (b, rest) \<Rightarrow> if length s \<ge> 3 then (b, rest) else (8, tl s)
                 | None \<Rightarrow> (8, tl s))
               else (10, s)) in
            case parse_digits True base (2 ^ 64 - 1) digits 0 of
              Inl err \<Rightarrow> Inl err
            | Inr n \<Rightarrow> if CHR ''_'' \<in> set s \<and> \<not> underscoreOK s then Inl ErrSyntax else Inr n))"

text \<open>\<open>strconv.ParseInt(s, 0, 64)\<close>.\<close>

definition ParseInt :: "string \<Rightarrow> num_error + int" where
  "ParseInt s =
     (if s = [] then Inl ErrSyntax
      else (let neg = (hd s = CHR ''-'') in
            case ParseUint0 (drop_sign s) of
              Inl err \<Rightarrow> Inl err
            | Inr n \<Rightarrow>
                if \<not> neg \<and> n \<ge> 2 ^ 63 then Inl ErrRange
                else if neg \<and> n > 2 ^ 63 then Inl ErrRange
                else Inr (if neg then - int n else int n)))"

text \<open>\<open>strconv.ParseUint(s, 10, 16)\<close>.\<close>

definition ParseUint16 :: "string \<Rightarrow> num_error + nat" where
  "ParseUint16 s = (if s = [] then Inl ErrSyntax else parse_digits False 10 65535 s 0)"

definition ParseBool :: "string \<Rightarrow> bool option" where
  "ParseBool s =
     (if s \<in> set [''1'', ''t'', ''T'', ''TRUE'', ''true'', ''True''] then Some True
      else if s \<in> set [''0'', ''f'', ''F'', ''FALSE'', ''false'', ''False''] then Some False
      else None)"

text \<open>
  \<open>strings.EqualFold\<close> with an ASCII word: letters match in either case, and two letters have a
  non-ASCII rune that folds to them (the long s and the Kelvin sign).
\<close>

fun EqualFold :: "string \<Rightarrow> string \<Rightarrow> bool" where
  "EqualFold s [] = (s = [])"
| "EqualFold s (t # ts) =
     ((s \<noteq> [] \<and> lower (hd s) = lower t \<and> EqualFold (tl s) ts) \<or>
      (lower t = CHR ''s'' \<and> take 2 s = map char_of [0xC5, 0xBF :: nat] \<and> EqualFold (drop 2 s) ts) \<or>
      (lower t = CHR ''k'' \<and> take 3 s = map char_of [0xE2, 0x84, 0xAA :: nat] \<and> EqualFold (drop 3 s) ts))"

section \<open>Flag values\<close>

definition disableSentinel :: string where "disableSentinel = ''disabled''"

datatype fval = FString string | FInt int | FBool bool | FUint16 "16 word"

text \<open>The types of flags; the last four are the source's own \<open>flag.Value\<close> implementations.\<close>

datatype flag_kind = IntFlag | BoolFlag | nonEmptyStringValue | disableableStringValue | uint16Value | secretStringValue

definition num_error_text :: "num_error \<Rightarrow> string" where
  "num_error_text e = (case e of ErrSyntax \<Rightarrow> ''parse error'' | ErrRange \<Rightarrow> ''value out of range'')"

definition must_not_be_empty :: go_error where
  "must_not_be_empty = ErrorString ''value must not be empty''"

definition flag_set :: "fmt \<Rightarrow> flag_kind \<Rightarrow> string \<Rightarrow> go_error + fval" where
  "flag_set F kind value =
     (case kind of
        IntFlag \<Rightarrow> (case ParseInt value of
            Inl e \<Rightarrow> Inl (ErrorString (num_error_text e)) | Inr n \<Rightarrow> Inr (FInt n))
      | BoolFlag \<Rightarrow> (case ParseBool value of
            None \<Rightarrow> Inl (ErrorString ''parse error'') | Some b \<Rightarrow> Inr (FBool b))
      | nonEmptyStringValue \<Rightarrow> if value = [] then Inl must_not_be_empty else Inr (FString value)
      | disableableStringValue \<Rightarrow>
          if value = []
          then Inl (ErrorString (''value must not be empty; use '' @ fst F disableSentinel @ '' to omit it''))
          else if EqualFold value disableSentinel then Inr (FString [])
          else Inr (FString value)
      | uint16Value \<Rightarrow> (case ParseUint16 value of
            Inl e \<Rightarrow> Inl (ErrorString (''strconv.ParseUint: parsing '' @ fst F value @ '': '' @
              (case e of ErrSyntax \<Rightarrow> ''invalid syntax'' | ErrRange \<Rightarrow> ''value out of range'')))
          | Inr n \<Rightarrow> Inr (FUint16 (of_nat n)))
      | secretStringValue \<Rightarrow> if value = [] then Inl must_not_be_empty else Inr (FString value))"

text \<open>\<open>String()\<close> of a flag.\<close>

definition flag_String :: "flag_kind \<Rightarrow> fval \<Rightarrow> string" where
  "flag_String kind v =
     (case v of
        FInt n \<Rightarrow> Itoa n
      | FBool b \<Rightarrow> if b then ''true'' else ''false''
      | FUint16 w \<Rightarrow> Itoa (uint w)
      | FString s \<Rightarrow>
          (case kind of
             disableableStringValue \<Rightarrow> if s = [] then disableSentinel else s
           | secretStringValue \<Rightarrow> if s = [] then [] else ''<set>''
           | _ \<Rightarrow> s))"

section \<open>The flags\<close>

record cliOption =
  opt_name :: string
  opt_kind :: flag_kind
  opt_default :: fval
  opt_envVars :: "string list"

definition addFlag :: "flag_kind \<Rightarrow> string \<Rightarrow> fval \<Rightarrow> string \<Rightarrow> cliOption" where
  "addFlag kind name v envVar =
     \<lparr> opt_name = name, opt_kind = kind, opt_default = v, opt_envVars = parseStringList envVar \<rparr>"

abbreviation addStringFlag :: "string \<Rightarrow> string \<Rightarrow> string \<Rightarrow> cliOption" where
  "addStringFlag name v envVar \<equiv> addFlag nonEmptyStringValue name (FString v) envVar"

abbreviation addDisableableFlag :: "string \<Rightarrow> string \<Rightarrow> string \<Rightarrow> cliOption" where
  "addDisableableFlag name v envVar \<equiv> addFlag disableableStringValue name (FString v) envVar"

abbreviation addIntFlag :: "string \<Rightarrow> int \<Rightarrow> string \<Rightarrow> cliOption" where
  "addIntFlag name v envVar \<equiv> addFlag IntFlag name (FInt v) envVar"

abbreviation addBoolFlag :: "string \<Rightarrow> bool \<Rightarrow> string \<Rightarrow> cliOption" where
  "addBoolFlag name v envVar \<equiv> addFlag BoolFlag name (FBool v) envVar"

text \<open>The flags of the relay, in the order they are registered, with the defaults of \<open>cfg\<close>.\<close>

definition bindConfigFlags :: "appConfig \<Rightarrow> cliOption list" where
  "bindConfigFlags cfg =
     [addStringFlag ''event-table'' (EventTable cfg) ''EVENT_TABLE'',
      addStringFlag ''event-id'' (EventID cfg) ''EVENT_ID'',
      addDisableableFlag ''event-timestamp'' (EventTimestamp cfg) ''EVENT_TIMESTAMP'',
      addStringFlag ''event-payload'' (EventPayload cfg) ''EVENT_PAYLOAD'',
      addDisableableFlag ''event-target'' (EventTarget cfg) ''EVENT_TARGET'',
      addDisableableFlag ''event-destination'' (EventDestination cfg) ''EVENT_DESTINATION'',
      addDisableableFlag ''event-options'' (EventOptions cfg) ''EVENT_OPTIONS'',
      addIntFlag ''collect-batch-target'' (CollectBatchTarget cfg) ''COLLECT_BATCH_TARGET'',
      addDisableableFlag ''dlq-table'' (DLQTable cfg) ''DLQ_TABLE'',
      addIntFlag ''publish-timeout-ms'' (cfg_PublishTimeout cfg sdiv time_Millisecond) ''PUBLISH_TIMEOUT_MS'',
      addIntFlag ''max-event-age-ms'' (MaxEventAge cfg sdiv time_Millisecond) ''MAX_EVENT_AGE_MS'',
      addIntFlag ''health-port'' (HealthPort cfg) ''HEALTH_PORT, PORT'',
      addStringFlag ''log-level'' (LogLevel cfg) ''LOG_LEVEL'',
      addStringFlag ''log-format'' (LogFormat cfg) ''LOG_FORMAT'',
      addStringFlag ''pg-host'' (PGHost cfg) ''PG_HOST'',
      addFlag uint16Value ''pg-port'' (FUint16 (PGPort cfg)) ''PG_PORT'',
      addStringFlag ''pg-user'' (PGUser cfg) ''PG_USER'',
      addFlag secretStringValue ''pg-password'' (FString (PGPassword cfg)) ''PG_PASSWORD'',
      addStringFlag ''pg-database'' (PGDatabase cfg) ''PG_DATABASE'',
      addStringFlag ''pg-schema'' (PGSchema cfg) ''PG_SCHEMA'',
      addBoolFlag ''pg-ssl'' (PGSSL cfg) ''PG_SSL'',
      addBoolFlag ''pg-ssl-reject-unauthorized'' (PGSSLRejectUnauthorized cfg) ''PG_SSL_REJECT_UNAUTHORIZED'',
      addStringFlag ''pg-ssl-root-cert'' (PGSSLRootCert cfg) ''PG_SSL_ROOT_CERT'',
      addIntFlag ''pg-query-timeout-ms'' (PGQueryTimeout cfg sdiv time_Millisecond) ''PG_QUERY_TIMEOUT_MS'',
      addBoolFlag ''pubsub-enabled'' (PubSubEnabled cfg) ''PUBSUB_ENABLED'',
      addDisableableFlag ''default-pubsub-topic'' (DefaultPubSubTopic cfg) ''DEFAULT_PUBSUB_TOPIC'',
      addStringFlag ''pubsub-destinations'' (Join (PubSubDestinations cfg) '','') ''PUBSUB_DESTINATIONS'',
      addStringFlag ''pubsub-project-id'' (PubSubProjectID cfg) ''PUBSUB_PROJECT_ID'',
      addStringFlag ''pubsub-api-endpoint'' (PubSubAPIEndpoint cfg) ''PUBSUB_API_ENDPOINT'',
      addBoolFlag ''sqs-enabled'' (SQSEnabled cfg) ''SQS_ENABLED'',
      addDisableableFlag ''default-sqs-queue-url'' (DefaultSQSQueueURL cfg) ''DEFAULT_SQS_QUEUE_URL'',
      addStringFlag ''sqs-destinations'' (Join (SQSDestinations cfg) '','') ''SQS_DESTINATIONS'',
      addStringFlag ''sqs-api-endpoint'' (SQSAPIEndpoint cfg) ''SQS_API_ENDPOINT'',
      addStringFlag ''aws-region'' (AWSRegion cfg) ''AWS_REGION'',
      addStringFlag ''aws-role-arn'' (AWSRoleARN cfg) ''AWS_ROLE_ARN'',
      addStringFlag ''aws-role-session-name'' (AWSRoleSessionName cfg) ''AWS_ROLE_SESSION_NAME'',
      addDisableableFlag ''aws-web-identity-provider'' (AWSWebIdentityProvider cfg) ''AWS_WEB_IDENTITY_PROVIDER'',
      addStringFlag ''aws-web-identity-audience'' (AWSWebIdentityAudience cfg) ''AWS_WEB_IDENTITY_AUDIENCE'']"

definition init_flags :: "appConfig \<Rightarrow> cliOption list" where
  "init_flags cfg =
     [addBoolFlag ''apply'' False '''',
      addStringFlag ''pg-init-user'' (PGInitUser cfg) ''PG_INIT_USER'',
      addFlag secretStringValue ''pg-init-password'' (FString (PGInitPassword cfg)) ''PG_INIT_PASSWORD'',
      addStringFlag ''pg-producer-roles'' (Join (PGProducerRoles cfg) '','') ''PG_PRODUCER_ROLES'']"

type_synonym flag_values = "string \<Rightarrow> fval"

definition find_flag :: "cliOption list \<Rightarrow> string \<Rightarrow> cliOption option" where
  "find_flag opts name = find (\<lambda>opt. opt_name opt = name) opts"

definition initial_values :: "cliOption list \<Rightarrow> flag_values" where
  "initial_values opts name = (case find_flag opts name of Some opt \<Rightarrow> opt_default opt | None \<Rightarrow> FString [])"

section \<open>The environment\<close>

definition retiredEnvVars :: "(string \<times> string) list" where
  "retiredEnvVars =
     [(''SQS_SEND_CONCURRENCY'', ''fixed at 128, the fastest measured setting''),
      (''BACKLOG_COUNT_LIMIT'', ''fixed at 100000''),
      (''ERROR_COOLDOWN_MS'', ''fixed at 5s''),
      (''PUBLISH_RESULT_GRACE_MS'', ''fixed at 5s''),
      (''WATCHDOG_INTERVAL_MS'', ''fixed at 10m''),
      (''STATS_INTERVAL_MS'', ''fixed at 10s''),
      (''PG_CONNECT_TIMEOUT_MS'', ''fixed at 10s''),
      (''AWS_ROLE_DURATION_SECONDS'', ''fixed at 1h''),
      (''AWS_CREDENTIAL_REFRESH_WINDOW_MS'', ''fixed at 5m''),
      (''HEALTH_STALE_AFTER_MS'', ''fixed at 5m''),
      (''NOTIFY_CHANNEL'', ''derived from the event table as outboxer_<table>''),
      (''POLL_INTERVAL_MS'', ''fixed at 1s (the wake-up backstop; LISTEN/NOTIFY is the fast path)'')]"

text \<open>A map is ranged over in any order: \<open>order\<close> is the order of this run.\<close>

definition rejectRetiredEnv ::
  "((string \<times> string) list \<Rightarrow> (string \<times> string) list) \<Rightarrow> (string \<Rightarrow> string option) \<Rightarrow> go_error option" where
  "rejectRetiredEnv order LookupEnv =
     (case find (\<lambda>(name, resolution). LookupEnv name \<noteq> None) (order retiredEnvVars) of
        Some (name, resolution) \<Rightarrow> Some (ErrorString (name @ '' was removed and is now '' @ resolution @ ''; unset it''))
      | None \<Rightarrow> None)"

fun first_env :: "(string \<Rightarrow> string option) \<Rightarrow> string list \<Rightarrow> (string \<times> string) option" where
  "first_env LookupEnv [] = None"
| "first_env LookupEnv (name # names) =
     (case LookupEnv name of Some value \<Rightarrow> Some (name, value) | None \<Rightarrow> first_env LookupEnv names)"

fun applyEnv :: "fmt \<Rightarrow> (string \<Rightarrow> string option) \<Rightarrow> cliOption list \<Rightarrow> flag_values \<Rightarrow> go_error + flag_values" where
  "applyEnv F LookupEnv [] v = Inr v"
| "applyEnv F LookupEnv (opt # opts) v =
     (case first_env LookupEnv (opt_envVars opt) of
        None \<Rightarrow> applyEnv F LookupEnv opts v
      | Some (name, value) \<Rightarrow>
          (case flag_set F (opt_kind opt) value of
             Inl err \<Rightarrow> Inl (WrapError (''invalid '' @ name @ '': '' @ error_text err) err)
           | Inr x \<Rightarrow> applyEnv F LookupEnv opts (v(opt_name opt := x))))"

section \<open>The command line\<close>

definition flag_ErrHelp :: go_error where
  "flag_ErrHelp = ErrorString ''flag: help requested''"

text \<open>\<open>flag.FlagSet.Parse\<close>: the values and the remaining arguments.\<close>

fun flags_Parse :: "fmt \<Rightarrow> cliOption list \<Rightarrow> string list \<Rightarrow> flag_values \<Rightarrow> go_error + flag_values \<times> string list" where
  "flags_Parse F opts [] v = Inr (v, [])"
| "flags_Parse F opts (s # args) v =
     (if length s < 2 \<or> hd s \<noteq> CHR ''-'' then Inr (v, s # args)
      else if s = ''--'' then Inr (v, args)
      else (let name0 = drop (if s ! 1 = CHR ''-'' then 2 else 1) s in
        if name0 = [] \<or> hd name0 = CHR ''-'' \<or> hd name0 = CHR ''=''
        then Inl (ErrorString (''bad flag syntax: '' @ s))
        else (case Cut name0 (CHR ''='') of (name, value, hasValue) \<Rightarrow>
          (case find_flag opts name of
             None \<Rightarrow> Inl (if name = ''help'' \<or> name = ''h'' then flag_ErrHelp
               else ErrorString (''flag provided but not defined: -'' @ name))
           | Some opt \<Rightarrow>
               if opt_kind opt = BoolFlag
               then (case flag_set F BoolFlag (if hasValue then value else ''true'') of
                   Inl err \<Rightarrow> Inl (ErrorString ((if hasValue then ''invalid boolean value '' @ fst F value @ '' for -'' @ name
                     else ''invalid boolean flag '' @ name) @ '': '' @ error_text err))
                 | Inr x \<Rightarrow> flags_Parse F opts args (v(name := x)))
               else if hasValue
               then (case flag_set F (opt_kind opt) value of
                   Inl err \<Rightarrow> Inl (ErrorString (''invalid value '' @ fst F value @ '' for flag -'' @ name @ '': '' @ error_text err))
                 | Inr x \<Rightarrow> flags_Parse F opts args (v(name := x)))
               else (case args of
                   [] \<Rightarrow> Inl (ErrorString (''flag needs an argument: -'' @ name))
                 | value' # rest \<Rightarrow>
                     (case flag_set F (opt_kind opt) value' of
                        Inl err \<Rightarrow> Inl (ErrorString (''invalid value '' @ fst F value' @ '' for flag -'' @ name @ '': '' @ error_text err))
                      | Inr x \<Rightarrow> flags_Parse F opts rest (v(name := x))))))))"

section \<open>Loading a configuration\<close>

definition parse_values ::
  "fmt \<Rightarrow> ((string \<times> string) list \<Rightarrow> (string \<times> string) list) \<Rightarrow> (string \<Rightarrow> string option) \<Rightarrow> cliOption list \<Rightarrow>
   string list \<Rightarrow> go_error + flag_values" where
  "parse_values F order LookupEnv opts args =
     (case rejectRetiredEnv order LookupEnv of
        Some err \<Rightarrow> Inl err
      | None \<Rightarrow>
          (case applyEnv F LookupEnv opts (initial_values opts) of
             Inl err \<Rightarrow> Inl err
           | Inr v \<Rightarrow>
               (case flags_Parse F opts args v of
                  Inl err \<Rightarrow> Inl err
                | Inr (v', rest) \<Rightarrow>
                    if length rest > 0 then Inl (ErrorString (''unexpected argument: '' @ fst F (rest ! 0)))
                    else Inr v')))"

definition str_of :: "fval \<Rightarrow> string" where "str_of x = (case x of FString s \<Rightarrow> s | _ \<Rightarrow> [])"
definition int_of :: "fval \<Rightarrow> int" where "int_of x = (case x of FInt n \<Rightarrow> n | _ \<Rightarrow> 0)"
definition bool_of :: "fval \<Rightarrow> bool" where "bool_of x = (case x of FBool b \<Rightarrow> b | _ \<Rightarrow> False)"
definition uint16_of :: "fval \<Rightarrow> 16 word" where "uint16_of x = (case x of FUint16 w \<Rightarrow> w | _ \<Rightarrow> 0)"

text \<open>\<open>time.Duration(ms) * time.Millisecond\<close> wraps.\<close>

definition milliseconds :: "int \<Rightarrow> int" where
  "milliseconds ms = wrap64 (ms * time_Millisecond)"

text \<open>The fields that flags are bound to directly.\<close>

definition bound_fields :: "flag_values \<Rightarrow> appConfig" where
  "bound_fields v = defaultConfig\<lparr>
     EventTable := str_of (v ''event-table''), EventID := str_of (v ''event-id''),
     EventTimestamp := str_of (v ''event-timestamp''), EventPayload := str_of (v ''event-payload''),
     EventTarget := str_of (v ''event-target''), EventDestination := str_of (v ''event-destination''),
     EventOptions := str_of (v ''event-options''), CollectBatchTarget := int_of (v ''collect-batch-target''),
     DLQTable := str_of (v ''dlq-table''), HealthPort := int_of (v ''health-port''),
     LogLevel := str_of (v ''log-level''), LogFormat := str_of (v ''log-format''),
     PGHost := str_of (v ''pg-host''), PGPort := uint16_of (v ''pg-port''), PGUser := str_of (v ''pg-user''),
     PGPassword := str_of (v ''pg-password''), PGDatabase := str_of (v ''pg-database''), PGSchema := str_of (v ''pg-schema''),
     PGSSL := bool_of (v ''pg-ssl''), PGSSLRejectUnauthorized := bool_of (v ''pg-ssl-reject-unauthorized''),
     PGSSLRootCert := str_of (v ''pg-ssl-root-cert''), PubSubEnabled := bool_of (v ''pubsub-enabled''), DefaultPubSubTopic := str_of (v ''default-pubsub-topic''),
     PubSubProjectID := str_of (v ''pubsub-project-id''), PubSubAPIEndpoint := str_of (v ''pubsub-api-endpoint''),
     SQSEnabled := bool_of (v ''sqs-enabled''), DefaultSQSQueueURL := str_of (v ''default-sqs-queue-url''),
     SQSAPIEndpoint := str_of (v ''sqs-api-endpoint''),
     AWSRegion := str_of (v ''aws-region''), AWSRoleARN := str_of (v ''aws-role-arn''),
     AWSRoleSessionName := str_of (v ''aws-role-session-name''),
     AWSWebIdentityProvider := str_of (v ''aws-web-identity-provider''),
     AWSWebIdentityAudience := str_of (v ''aws-web-identity-audience'')\<rparr>"

text \<open>The function \<open>bindConfigFlags\<close> returns: the scratch values converted onto the configuration.\<close>

definition finalize :: "flag_values \<Rightarrow> appConfig \<Rightarrow> appConfig" where
  "finalize v cfg = cfg\<lparr>
     cfg_PublishTimeout := milliseconds (int_of (v ''publish-timeout-ms'')),
     MaxEventAge := milliseconds (int_of (v ''max-event-age-ms'')),
     PGQueryTimeout := milliseconds (int_of (v ''pg-query-timeout-ms'')),
     PubSubDestinations := parseStringList (str_of (v ''pubsub-destinations'')),
     SQSDestinations := parseStringList (str_of (v ''sqs-destinations''))\<rparr>"

definition config_of :: "flag_values \<Rightarrow> appConfig" where
  "config_of v = deriveConfig (finalize v (bound_fields v))"

definition loadConfig ::
  "fmt \<Rightarrow> ((string \<times> string) list \<Rightarrow> (string \<times> string) list) \<Rightarrow> (string \<Rightarrow> string option) \<Rightarrow> string list \<Rightarrow>
   go_error + appConfig" where
  "loadConfig F order LookupEnv args =
     (case parse_values F order LookupEnv (bindConfigFlags defaultConfig) args of
        Inl err \<Rightarrow> Inl err
      | Inr v \<Rightarrow> Inr (config_of v))"

definition loadInitConfig ::
  "fmt \<Rightarrow> ((string \<times> string) list \<Rightarrow> (string \<times> string) list) \<Rightarrow> (string \<Rightarrow> string option) \<Rightarrow> string list \<Rightarrow>
   go_error + appConfig \<times> bool" where
  "loadInitConfig F order LookupEnv args =
     (case parse_values F order LookupEnv (bindConfigFlags defaultConfig @ init_flags defaultConfig) args of
        Inl err \<Rightarrow> Inl err
      | Inr v \<Rightarrow> Inr ((config_of v)\<lparr>PGInitUser := str_of (v ''pg-init-user''),
          PGInitPassword := str_of (v ''pg-init-password''),
          PGProducerRoles := parseStringList (str_of (v ''pg-producer-roles''))\<rparr>, bool_of (v ''apply'')))"

section \<open>The .env file\<close>

text \<open>One line; \<open>Unquote\<close> is \<open>strconv.Unquote\<close>.\<close>

definition dotenv_line :: "(string \<Rightarrow> string option) \<Rightarrow> string \<Rightarrow> (string \<times> string) option" where
  "dotenv_line Unquote raw =
     (let line = TrimSpace raw in
      if line = [] \<or> HasPrefix line ''#'' then None
      else (let line' = (if HasPrefix line ''export '' then drop 7 line else line) in
        case Cut line' (CHR ''='') of (k, v, found) \<Rightarrow>
          if \<not> found then None
          else (let key = TrimSpace k; value = TrimSpace v in
            if key = [] then None
            else Some (key, case Unquote value of Some u \<Rightarrow> u | None \<Rightarrow> value))))"

text \<open>\<open>os.Setenv\<close> refuses a key or a value with a NUL byte; the error is ignored.\<close>

definition Setenv :: "string \<Rightarrow> string \<Rightarrow> (string \<Rightarrow> string option) \<Rightarrow> string \<Rightarrow> string option" where
  "Setenv key value env = (if CHR 0x00 \<in> set key \<or> CHR 0x00 \<in> set value \<or> CHR ''='' \<in> set key then env else env(key \<mapsto> value))"

fun loadDotEnv_lines :: "(string \<Rightarrow> string option) \<Rightarrow> string list \<Rightarrow> (string \<Rightarrow> string option) \<Rightarrow> string \<Rightarrow> string option" where
  "loadDotEnv_lines Unquote [] env = env"
| "loadDotEnv_lines Unquote (line # lines) env =
     (case dotenv_line Unquote line of
        None \<Rightarrow> loadDotEnv_lines Unquote lines env
      | Some (key, value) \<Rightarrow>
          loadDotEnv_lines Unquote lines (if env key \<noteq> None then env else Setenv key value env))"

definition loadDotEnv ::
  "(string \<Rightarrow> string option) \<Rightarrow> string option \<Rightarrow> (string \<Rightarrow> string option) \<Rightarrow> string \<Rightarrow> string option" where
  "loadDotEnv Unquote content env =
     (case content of None \<Rightarrow> env | Some s \<Rightarrow> loadDotEnv_lines Unquote (Split (CHR 0x0A) s) env)"

end
