(* ===== verification/Config_Loading.thy ===== *)
theory Config_Loading
  imports Config_Flags
begin

text \<open>
  What loading a configuration guarantees: the precedence of command line, environment and
  defaults, the precedence of the environment over the \<open>.env\<close> file, the round trip of flag values
  through their text, and the range in which durations are exact.
\<close>

section \<open>Precedence\<close>

definition flags_ok :: "cliOption list \<Rightarrow> bool" where
  "flags_ok opts \<longleftrightarrow> distinct (map opt_name opts) \<and>
     list_all (\<lambda>opt. opt_name opt \<noteq> [] \<and> hd (opt_name opt) \<noteq> CHR ''-'' \<and> CHR ''='' \<notin> set (opt_name opt)) opts"

text \<open>One setting on the command line.\<close>

definition setting :: "string \<times> string \<Rightarrow> string" where
  "setting s = ''--'' @ fst s @ ''='' @ snd s"

lemma find_flag_in: "distinct (map opt_name opts) \<Longrightarrow> opt \<in> set opts \<Longrightarrow> find_flag opts (opt_name opt) = Some opt"
  by (induction opts) (auto simp: find_flag_def rev_image_eqI)

lemma Cut_setting: "CHR ''='' \<notin> set n \<Longrightarrow> Cut (n @ CHR ''='' # x) (CHR ''='') = (n, x, True)"
proof -
  assume "CHR ''='' \<notin> set n"
  then have "takeWhile (\<lambda>c. c \<noteq> CHR ''='') (n @ CHR ''='' # x) = n" "dropWhile (\<lambda>c. c \<noteq> CHR ''='') (n @ CHR ''='' # x) = CHR ''='' # x"
    by (induction n) auto
  then show ?thesis by (simp add: Cut_def)
qed

text \<open>The error for an invalid text of a flag on the command line, and for one in a variable.\<close>

definition setting_error :: "fmt \<Rightarrow> cliOption \<Rightarrow> string \<Rightarrow> go_error \<Rightarrow> go_error" where
  "setting_error F opt x e = ErrorString ((if opt_kind opt = BoolFlag
     then ''invalid boolean value '' @ fst F x @ '' for -'' else ''invalid value '' @ fst F x @ '' for flag -'') @
     opt_name opt @ '': '' @ error_text e)"

definition env_error :: "string \<Rightarrow> go_error \<Rightarrow> go_error" where
  "env_error name e = WrapError (''invalid '' @ name @ '': '' @ error_text e) e"

definition valid_for :: "fmt \<Rightarrow> cliOption \<Rightarrow> string \<Rightarrow> bool" where
  "valid_for F opt x \<longleftrightarrow> (\<exists>y. flag_set F (opt_kind opt) x = Inr y)"

text \<open>The environment gives a flag nothing, or a valid text.\<close>

definition env_valid :: "fmt \<Rightarrow> (string \<Rightarrow> string option) \<Rightarrow> cliOption \<Rightarrow> bool" where
  "env_valid F LookupEnv opt \<longleftrightarrow>
     (case first_env LookupEnv (opt_envVars opt) of None \<Rightarrow> True | Some (name, x) \<Rightarrow> valid_for F opt x)"

lemma parse_setting:
  assumes ok: "flags_ok opts" and opt: "opt \<in> set opts" "opt_name opt = n"
  shows "case flag_set F (opt_kind opt) x of
      Inr y \<Rightarrow> flags_Parse F opts (setting (n, x) # args) v = flags_Parse F opts args (v(n := y))
    | Inl e \<Rightarrow> flags_Parse F opts (setting (n, x) # args) v = Inl (setting_error F opt x e)"
proof -
  have n: "n \<noteq> []" "hd n \<noteq> CHR ''-''" "CHR ''='' \<notin> set n" using ok opt by (auto simp: flags_ok_def list_all_iff)
  then have hd: "hd n \<noteq> CHR ''=''" by (metis hd_in_set)
  have f: "find_flag opts n = Some opt" using find_flag_in[of opts opt] ok opt by (simp add: flags_ok_def)
  have s: "setting (n, x) = CHR ''-'' # CHR ''-'' # n @ CHR ''='' # x" by (simp add: setting_def)
  show ?thesis
    using n hd f opt(2) by (auto simp: s Cut_setting Let_def setting_error_def split: sum.splits)
qed

text \<open>What a flag holds after an optional text was given for it.\<close>

definition holds_given :: "fmt \<Rightarrow> cliOption \<Rightarrow> string option \<Rightarrow> fval \<Rightarrow> fval \<Rightarrow> bool" where
  "holds_given F opt given old new =
     (case given of Some x \<Rightarrow> flag_set F (opt_kind opt) x = Inr new | None \<Rightarrow> new = old)"

lemma holds_given_simps [simp]:
  "holds_given F opt None old new \<longleftrightarrow> new = old"
  "holds_given F opt (Some x) old new \<longleftrightarrow> flag_set F (opt_kind opt) x = Inr new"
  by (simp_all add: holds_given_def)

text \<open>The last setting of a flag.\<close>

definition last_given :: "(string \<times> string) list \<Rightarrow> string \<Rightarrow> string option" where
  "last_given as n = map_of (rev as) n"

lemma last_given_Cons:
  "last_given [] m = None"
  "last_given ((n, x) # as) m = (case last_given as m of Some y \<Rightarrow> Some y | None \<Rightarrow> if m = n then Some x else None)"
  by (simp_all add: last_given_def map_add_def split: option.splits)

lemma parse_settings_ok:
  assumes ok: "flags_ok opts" and "fst ` set as \<subseteq> opt_name ` set opts"
    and "flags_Parse F opts (map setting as) v = Inr (v', rest)"
  shows "rest = [] \<and> (\<forall>opt. opt \<in> set opts \<longrightarrow>
    holds_given F opt (last_given as (opt_name opt)) (v (opt_name opt)) (v' (opt_name opt)))"
  using assms(2,3)
proof (induction as arbitrary: v)
  case Nil
  then show ?case by (simp add: last_given_Cons)
next
  case (Cons a as)
  obtain n x where a: "a = (n, x)" by fastforce
  obtain opt where opt: "opt \<in> set opts" "opt_name opt = n" using Cons.prems(1) a by auto
  note step = parse_setting[OF ok opt, of F x "map setting as" v]
  obtain y where y: "flag_set F (opt_kind opt) x = Inr y"
    using step Cons.prems(2) a by (cases "flag_set F (opt_kind opt) x") auto
  have run: "flags_Parse F opts (map setting as) (v(n := y)) = Inr (v', rest)"
    using step Cons.prems(2) a y by simp
  have sub: "fst ` set as \<subseteq> opt_name ` set opts" using Cons.prems(1) by simp
  note ih = Cons.IH[OF sub run]
  have "holds_given F o' (last_given (a # as) (opt_name o')) (v (opt_name o')) (v' (opt_name o'))" if o': "o' \<in> set opts" for o'
  proof (cases "opt_name o' = n")
    case True
    then have "o' = opt" using o' opt ok by (metis find_flag_in flags_ok_def option.inject)
    moreover have "holds_given F o' (last_given as n) y (v' n)" using ih o' True by fastforce
    ultimately show ?thesis using y True unfolding a last_given_Cons by (cases "last_given as n") auto
  next
    case False
    have "holds_given F o' (last_given as (opt_name o')) ((v(n := y)) (opt_name o')) (v' (opt_name o'))" using ih o' by blast
    then show ?thesis using False unfolding a last_given_Cons by (cases "last_given as (opt_name o')") auto
  qed
  then show ?case using ih by blast
qed

lemma parse_settings_error:
  assumes ok: "flags_ok opts" and "fst ` set as \<subseteq> opt_name ` set opts"
    and "flags_Parse F opts (map setting as) v = Inl err"
  shows "\<exists>opt pre x post e. opt \<in> set opts \<and> as = pre @ (opt_name opt, x) # post \<and>
    (\<forall>o' y. o' \<in> set opts \<longrightarrow> (opt_name o', y) \<in> set pre \<longrightarrow> valid_for F o' y) \<and>
    flag_set F (opt_kind opt) x = Inl e \<and> err = setting_error F opt x e"
  using assms(2,3)
proof (induction as arbitrary: v)
  case (Cons a as)
  obtain n x where a: "a = (n, x)" by fastforce
  obtain opt where opt: "opt \<in> set opts" "opt_name opt = n" using Cons.prems(1) a by auto
  note step = parse_setting[OF ok opt, of F x "map setting as" v]
  show ?case
  proof (cases "flag_set F (opt_kind opt) x")
    case (Inl e)
    then have "err = setting_error F opt x e" using step Cons.prems(2) a by simp
    then show ?thesis using opt a Inl by (intro exI[of _ opt] exI[of _ "[]"] exI[of _ x] exI[of _ as]) auto
  next
    case (Inr y)
    then have "flags_Parse F opts (map setting as) (v(n := y)) = Inl err" using step Cons.prems(2) a by simp
    moreover have "fst ` set as \<subseteq> opt_name ` set opts" using Cons.prems(1) by simp
    ultimately obtain bad pre z post e where bad: "bad \<in> set opts" "as = pre @ (opt_name bad, z) # post"
      "\<forall>o' y. o' \<in> set opts \<longrightarrow> (opt_name o', y) \<in> set pre \<longrightarrow> valid_for F o' y"
      "flag_set F (opt_kind bad) z = Inl e" "err = setting_error F bad z e"
      using Cons.IH[of "v(n := y)"] by blast
    have "o' = opt" if "o' \<in> set opts" "opt_name o' = n" for o'
      using that opt ok by (metis find_flag_in flags_ok_def option.inject)
    then have "\<forall>o' w. o' \<in> set opts \<longrightarrow> (opt_name o', w) \<in> set (a # pre) \<longrightarrow> valid_for F o' w"
      using bad(3) Inr by (auto simp: a valid_for_def)
    moreover have "a # as = (a # pre) @ (opt_name bad, z) # post" using bad(2) by simp
    ultimately show ?thesis using bad(1,4,5) by blast
  qed
qed simp

definition env_given :: "(string \<Rightarrow> string option) \<Rightarrow> cliOption \<Rightarrow> string option" where
  "env_given LookupEnv opt = map_option snd (first_env LookupEnv (opt_envVars opt))"

lemma apply_env_other:
  "applyEnv F LookupEnv opts v = Inr v' \<Longrightarrow> n \<notin> opt_name ` set opts \<Longrightarrow> v' n = v n"
  by (induction opts arbitrary: v) (auto split: option.splits sum.splits prod.splits)

lemma apply_env_ok:
  assumes "distinct (map opt_name opts)" "applyEnv F LookupEnv opts v = Inr v'" "opt \<in> set opts"
  shows "holds_given F opt (env_given LookupEnv opt) (v (opt_name opt)) (v' (opt_name opt))"
  using assms
proof (induction opts arbitrary: v)
  case (Cons o1 opts)
  have d: "distinct (map opt_name opts)" "opt_name o1 \<notin> opt_name ` set opts" using Cons.prems(1) by auto
  obtain v1 where v1: "applyEnv F LookupEnv opts v1 = Inr v'" "\<And>n. n \<noteq> opt_name o1 \<Longrightarrow> v1 n = v n"
    "holds_given F o1 (env_given LookupEnv o1) (v (opt_name o1)) (v1 (opt_name o1))"
    using Cons.prems(2) by (auto simp: env_given_def split: option.splits sum.splits prod.splits)
  show ?case
  proof (cases "opt = o1")
    case True
    then show ?thesis using v1 apply_env_other[OF v1(1) d(2)] by simp
  next
    case False
    then have o': "opt \<in> set opts" using Cons.prems(3) by simp
    then have "opt_name opt \<noteq> opt_name o1" using d(2) by (metis imageI)
    then show ?thesis using Cons.IH[OF d(1) v1(1) o'] v1(2) by simp
  qed
qed simp

lemma apply_env_error:
  "applyEnv F LookupEnv opts v = Inl err \<Longrightarrow>
     \<exists>pre opt post name x e. opts = pre @ opt # post \<and> list_all (env_valid F LookupEnv) pre \<and>
       first_env LookupEnv (opt_envVars opt) = Some (name, x) \<and> flag_set F (opt_kind opt) x = Inl e \<and> err = env_error name e"
proof (induction opts arbitrary: v)
  case (Cons o1 opts)
  consider (bad) name x e where "first_env LookupEnv (opt_envVars o1) = Some (name, x)" "flag_set F (opt_kind o1) x = Inl e"
      "err = env_error name e"
    | (later) v1 where "env_valid F LookupEnv o1" "applyEnv F LookupEnv opts v1 = Inl err"
    using Cons.prems by (auto simp: env_error_def env_valid_def valid_for_def split: option.splits sum.splits prod.splits)
  then show ?case
  proof cases
    case bad
    moreover have "o1 # opts = [] @ o1 # opts" "list_all (env_valid F LookupEnv) []" by simp_all
    ultimately show ?thesis by blast
  next
    case later
    obtain pre opt post name x e where "opts = pre @ opt # post" "list_all (env_valid F LookupEnv) pre"
      "first_env LookupEnv (opt_envVars opt) = Some (name, x)" "flag_set F (opt_kind opt) x = Inl e" "err = env_error name e"
      using Cons.IH[OF later(2)] by blast
    moreover from calculation have "o1 # opts = (o1 # pre) @ opt # post" "list_all (env_valid F LookupEnv) (o1 # pre)"
      using later(1) by simp_all
    ultimately show ?thesis by blast
  qed
qed simp

lemma apply_env_valid: "applyEnv F LookupEnv opts v = Inr v' \<Longrightarrow> list_all (env_valid F LookupEnv) opts"
  by (induction opts arbitrary: v) (auto simp: env_valid_def valid_for_def split: option.splits sum.splits prod.splits)

subsection \<open>Names of environment variables\<close>

text \<open>Strings that neither begin nor end with a byte of a space.\<close>

definition space_bytes :: "char list" where
  "space_bytes = concat space_seqs"

lemma strip_none: "\<forall>p. p \<in> set seqs \<longrightarrow> set p \<subseteq> B \<Longrightarrow> s = [] \<or> hd s \<notin> B \<Longrightarrow> strip seqs s = s"
proof -
  assume sub: "\<forall>p. p \<in> set seqs \<longrightarrow> set p \<subseteq> B" and s: "s = [] \<or> hd s \<notin> B"
  have "List.find (\<lambda>p. p \<noteq> [] \<and> HasPrefix s p) seqs = None"
  proof -
    have "\<not> (p \<noteq> [] \<and> HasPrefix s p)" if "p \<in> set seqs" for p
    proof
      assume p: "p \<noteq> [] \<and> HasPrefix s p"
      then obtain t where "s = p @ t" by (auto simp: HasPrefix_iff)
      then have "s \<noteq> []" "hd s \<in> set p" using p by (auto simp: hd_append)
      then show False using sub that s by auto
    qed
    then show ?thesis by (simp add: find_None_iff)
  qed
  then show ?thesis by (subst strip.simps) simp
qed

lemma TrimSpace_plain: "set s \<inter> set space_bytes = {} \<Longrightarrow> TrimSpace s = s"
proof -
  assume s: "set s \<inter> set space_bytes = {}"
  have "strip space_seqs s = s"
    by (rule strip_none[where B = "set space_bytes"]) (use s in \<open>cases s; auto simp: space_bytes_def\<close>)+
  moreover have "strip (map rev space_seqs) (rev s) = rev s"
    by (rule strip_none[where B = "set space_bytes"]) (use s in \<open>cases s rule: rev_cases; auto simp: space_bytes_def\<close>)+
  ultimately show ?thesis by (simp add: TrimSpace_def)
qed

definition plain_char :: "char \<Rightarrow> bool" where
  "plain_char c = (let n = of_char c :: nat in (65 \<le> n \<and> n \<le> 90) \<or> n = 95 \<or> (97 \<le> n \<and> n \<le> 122))"

lemma plain_not_space: "plain_char c \<Longrightarrow> c \<notin> set space_bytes"
proof
  assume "plain_char c" "c \<in> set space_bytes"
  moreover have "list_all (\<lambda>c. \<not> plain_char c) space_bytes"
    by (simp add: space_bytes_def space_seqs_def plain_char_def upt_rec)
  ultimately show False by (auto simp: list_all_iff)
qed

lemma parseStringList_plain: "s \<noteq> [] \<Longrightarrow> list_all plain_char s \<Longrightarrow> parseStringList s = [s]"
proof -
  assume s: "s \<noteq> []" "list_all plain_char s"
  have "\<not> plain_char (CHR '','')" by (simp add: plain_char_def)
  then have "Split (CHR '','') s = [s]" using s by (intro Split_no_occurrence) (auto simp: list_all_iff)
  moreover have "TrimSpace s = s" using s(2) plain_not_space by (intro TrimSpace_plain) (auto simp: list_all_iff)
  ultimately show ?thesis using s(1) by (simp add: parseStringList_def)
qed

lemma relay_flags_ok: "flags_ok (bindConfigFlags cfg)"
  by (simp add: flags_ok_def bindConfigFlags_def addFlag_def)

text \<open>The two outcomes of parsing settings of known flags.\<close>

lemma parse_values_error:
  assumes ok: "flags_ok opts" and sub: "fst ` set as \<subseteq> opt_name ` set opts"
    and run: "parse_values F order LookupEnv opts (map setting as) = Inl err"
  shows "rejectRetiredEnv order LookupEnv = Some err \<or> rejectRetiredEnv order LookupEnv = None \<and>
    ((\<exists>pre opt post name x e. opts = pre @ opt # post \<and> list_all (env_valid F LookupEnv) pre \<and>
        first_env LookupEnv (opt_envVars opt) = Some (name, x) \<and> flag_set F (opt_kind opt) x = Inl e \<and> err = env_error name e) \<or>
     list_all (env_valid F LookupEnv) opts \<and>
       (\<exists>opt pre x post e. opt \<in> set opts \<and> as = pre @ (opt_name opt, x) # post \<and>
          (\<forall>o' y. o' \<in> set opts \<longrightarrow> (opt_name o', y) \<in> set pre \<longrightarrow> valid_for F o' y) \<and>
          flag_set F (opt_kind opt) x = Inl e \<and> err = setting_error F opt x e))"
proof -
  consider (retired) "rejectRetiredEnv order LookupEnv = Some err"
    | (env) "rejectRetiredEnv order LookupEnv = None" "applyEnv F LookupEnv opts (initial_values opts) = Inl err"
    | (cli) v where "rejectRetiredEnv order LookupEnv = None" "applyEnv F LookupEnv opts (initial_values opts) = Inr v"
        "flags_Parse F opts (map setting as) v = Inl err"
    | (rest) v v' a rest where "flags_Parse F opts (map setting as) v = Inr (v', a # rest)"
    using run unfolding parse_values_def by (auto split: option.splits sum.splits prod.splits if_splits simp: neq_Nil_conv)
  then show ?thesis
  proof cases
    case env
    from apply_env_error[OF env(2)] env(1) show ?thesis by blast
  next
    case cli
    from parse_settings_error[OF ok sub cli(3)] apply_env_valid[OF cli(2)] cli(1) show ?thesis by blast
  next
    case rest
    from parse_settings_ok[OF ok sub rest] show ?thesis by simp
  qed simp
qed

lemma parse_values_ok:
  assumes ok: "flags_ok opts" and sub: "fst ` set as \<subseteq> opt_name ` set opts"
    and run: "parse_values F order LookupEnv opts (map setting as) = Inr v"
  shows "rejectRetiredEnv order LookupEnv = None" and "\<And>opt. opt \<in> set opts \<Longrightarrow>
    (case map_of (rev as) (opt_name opt) of
       Some x \<Rightarrow> flag_set F (opt_kind opt) x = Inr (v (opt_name opt))
     | None \<Rightarrow> (case first_env LookupEnv (opt_envVars opt) of
         Some (name, x) \<Rightarrow> flag_set F (opt_kind opt) x = Inr (v (opt_name opt))
       | None \<Rightarrow> v (opt_name opt) = opt_default opt))"
proof -
  have dist: "distinct (map opt_name opts)" using ok by (simp add: flags_ok_def)
  obtain v1 where r: "rejectRetiredEnv order LookupEnv = None" and v1: "applyEnv F LookupEnv opts (initial_values opts) = Inr v1"
    and v: "flags_Parse F opts (map setting as) v1 = Inr (v, [])"
    using run unfolding parse_values_def by (auto split: option.splits sum.splits prod.splits if_splits)
  show "rejectRetiredEnv order LookupEnv = None" by (rule r)
  fix opt assume opt: "opt \<in> set opts"
  have env: "holds_given F opt (env_given LookupEnv opt) (opt_default opt) (v1 (opt_name opt))"
    using apply_env_ok[OF dist v1 opt] find_flag_in[OF dist opt] by (simp add: initial_values_def)
  have cli: "holds_given F opt (map_of (rev as) (opt_name opt)) (v1 (opt_name opt)) (v (opt_name opt))"
    using parse_settings_ok[OF ok sub v] opt by (simp add: last_given_def)
  show "case map_of (rev as) (opt_name opt) of
       Some x \<Rightarrow> flag_set F (opt_kind opt) x = Inr (v (opt_name opt))
     | None \<Rightarrow> (case first_env LookupEnv (opt_envVars opt) of
         Some (name, x) \<Rightarrow> flag_set F (opt_kind opt) x = Inr (v (opt_name opt))
       | None \<Rightarrow> v (opt_name opt) = opt_default opt)"
    using env cli by (cases "map_of (rev as) (opt_name opt)"; cases "first_env LookupEnv (opt_envVars opt)")
      (auto simp: env_given_def)
qed

text \<open>
  (C29) Command line over environment over default. For settings \<open>--name=value\<close> of relay flags on
  the command line: when parsing succeeds, every flag holds the value of its last setting, else
  of the first of its environment variables that is set, else its default, each read by the
  flag's own parser. When it fails, the error is that of a removed variable that is set; else
  that of the first flag, in the order of their definition, whose variable holds an invalid value,
  and it names this variable; else that of the first invalid setting, and it names the flag and
  the value.
\<close>

theorem config_precedence:
  assumes "fst ` set as \<subseteq> set (map opt_name (bindConfigFlags cfg))"
  shows "case parse_values F order LookupEnv (bindConfigFlags cfg) (map (\<lambda>(n, x). ''--'' @ n @ ''='' @ x) as) of
      Inr v \<Rightarrow> rejectRetiredEnv order LookupEnv = None \<and> (\<forall>opt. opt \<in> set (bindConfigFlags cfg) \<longrightarrow>
        (case map_of (rev as) (opt_name opt) of
           Some x \<Rightarrow> flag_set F (opt_kind opt) x = Inr (v (opt_name opt))
         | None \<Rightarrow> (case first_env LookupEnv (opt_envVars opt) of
             Some (name, x) \<Rightarrow> flag_set F (opt_kind opt) x = Inr (v (opt_name opt))
           | None \<Rightarrow> v (opt_name opt) = opt_default opt)))
    | Inl err \<Rightarrow> rejectRetiredEnv order LookupEnv = Some err \<or> rejectRetiredEnv order LookupEnv = None \<and>
        ((\<exists>pre opt post name x e. bindConfigFlags cfg = pre @ opt # post \<and> list_all (env_valid F LookupEnv) pre \<and>
            first_env LookupEnv (opt_envVars opt) = Some (name, x) \<and> flag_set F (opt_kind opt) x = Inl e \<and>
            err = WrapError (''invalid '' @ name @ '': '' @ error_text e) e) \<or>
         list_all (env_valid F LookupEnv) (bindConfigFlags cfg) \<and>
           (\<exists>opt pre x post e. opt \<in> set (bindConfigFlags cfg) \<and> as = pre @ (opt_name opt, x) # post \<and>
              (\<forall>o' y. o' \<in> set (bindConfigFlags cfg) \<longrightarrow> (opt_name o', y) \<in> set pre \<longrightarrow> valid_for F o' y) \<and>
              flag_set F (opt_kind opt) x = Inl e \<and>
              err = ErrorString ((if opt_kind opt = BoolFlag
                then ''invalid boolean value '' @ fst F x @ '' for -'' else ''invalid value '' @ fst F x @ '' for flag -'') @
                opt_name opt @ '': '' @ error_text e)))"
proof -
  have args: "map (\<lambda>(n, x). ''--'' @ n @ ''='' @ x) as = map setting as" by (simp add: setting_def split_def)
  have sub: "fst ` set as \<subseteq> opt_name ` set (bindConfigFlags cfg)" using assms by simp
  note error = parse_values_error[OF relay_flags_ok sub, of F order LookupEnv, unfolded setting_error_def env_error_def]
    and good = parse_values_ok[OF relay_flags_ok sub, of F order LookupEnv]
  show ?thesis
  proof (cases "parse_values F order LookupEnv (bindConfigFlags cfg) (map setting as)")
    case (Inl err)
    show ?thesis unfolding args Inl sum.case by (rule error[OF Inl])
  next
    case (Inr v)
    then show ?thesis unfolding args Inr using good[OF Inr] by simp
  qed
qed

definition sample_lookup :: "string \<Rightarrow> string option" where
  "sample_lookup name = (if name = ''EVENT_ID'' then Some ''1'' else None)"

definition sample_fmt_verbs :: fmt where
  "sample_fmt_verbs = (id, \<lambda>_. [])"

definition table_flag :: cliOption where
  "table_flag = addStringFlag ''event-table'' (EventTable defaultConfig) ''EVENT_TABLE''"

definition id_flag :: cliOption where
  "id_flag = addStringFlag ''event-id'' (EventID defaultConfig) ''EVENT_ID''"

lemma flag_facts:
  "opt_name table_flag = ''event-table''" "opt_name id_flag = ''event-id''" "opt_kind table_flag = nonEmptyStringValue"
  "first_env sample_lookup (opt_envVars id_flag) = Some (''EVENT_ID'', ''1'')"
  by (simp_all add: table_flag_def id_flag_def addFlag_def sample_lookup_def plain_char_def parseStringList_plain)

lemma flags_listed: "table_flag \<in> set (bindConfigFlags defaultConfig)" "id_flag \<in> set (bindConfigFlags defaultConfig)"
  by (simp_all add: bindConfigFlags_def table_flag_def id_flag_def)

lemma sample_env_value: "first_env sample_lookup names = Some (name, x) \<Longrightarrow> x = ''1''"
  by (induction names) (auto simp: sample_lookup_def split: if_splits)

section \<open>Flag values read back\<close>

lemma digit_value_digit: "d < 10 \<Longrightarrow> digit_value (digit_char d) = Some d"
  by (simp add: digit_value_def of_char_digit_char)

lemma digit_not_underscore: "d < 10 \<Longrightarrow> digit_char d \<noteq> CHR ''_''"
proof
  assume d: "d < 10" and eq: "digit_char d = CHR ''_''"
  have "(of_char (digit_char d) :: nat) = 95" unfolding eq by simp
  then show False using of_char_digit_char[OF d] d by simp
qed

lemma parse_digits_append:
  "parse_digits b0 base M (xs @ ys) a =
     (case parse_digits b0 base M xs a of Inl e \<Rightarrow> Inl e | Inr k \<Rightarrow> parse_digits b0 base M ys k)"
  by (induction xs arbitrary: a) (auto split: option.splits)

lemma parse_digits_dec: "n \<le> M \<Longrightarrow> parse_digits b0 10 M (dec_nat n) 0 = Inr n"
proof (induction n rule: dec_nat.induct)
  case (1 n)
  show ?case
  proof (cases "n < 10")
    case True
    then show ?thesis using 1(2) by (subst dec_nat.simps) (simp add: digit_value_digit digit_not_underscore)
  next
    case False
    have "n mod 10 < 10" by simp
    moreover have "parse_digits b0 10 M (dec_nat (n div 10)) 0 = Inr (n div 10)" using 1 False by simp
    ultimately show ?thesis
      using False 1(2) by (subst dec_nat.simps) (simp add: parse_digits_append digit_value_digit digit_not_underscore)
  qed
qed

lemma dec_nat_ne: "dec_nat n \<noteq> []"
  by (subst dec_nat.simps) simp

lemma digit_chars: "digit_char 0 = CHR ''0''" "digit_char (Suc 0) = CHR ''1''"
proof -
  have "(of_char (CHR ''0'') :: nat) = 48" "(of_char (CHR ''1'') :: nat) = 49" by simp_all
  then have "char_of (48 :: nat) = CHR ''0''" "char_of (49 :: nat) = CHR ''1''" by (metis char_of_char)+
  then show "digit_char 0 = CHR ''0''" "digit_char (Suc 0) = CHR ''1''" by (simp_all add: digit_char_def)
qed

lemma digit_char_zero: "d < 10 \<Longrightarrow> digit_char d = CHR ''0'' \<longleftrightarrow> d = 0"
proof -
  assume d: "d < 10"
  have "d = 0" if "digit_char d = CHR ''0''"
  proof -
    have "(of_char (digit_char d) :: nat) = 48" using that by simp
    then show ?thesis using of_char_digit_char[OF d] by simp
  qed
  then show ?thesis by (auto simp: digit_chars)
qed

lemma hd_dec_nat: "n > 0 \<Longrightarrow> hd (dec_nat n) \<noteq> CHR ''0''"
proof (induction n rule: dec_nat.induct)
  case (1 n)
  show ?case
  proof (cases "n < 10")
    case True
    then show ?thesis using 1(2) by (subst dec_nat.simps) (simp add: digit_char_zero)
  next
    case False
    then have "0 < n div 10" by simp
    then show ?thesis using 1(1) False by (subst dec_nat.simps) (simp add: dec_nat_ne)
  qed
qed

lemma dec_nat_no_underscore: "CHR ''_'' \<notin> set (dec_nat n)"
proof (induction n rule: dec_nat.induct)
  case (1 n)
  have "digit_char (n mod 10) \<noteq> CHR ''_''" by (rule digit_not_underscore) simp
  then show ?case using 1 digit_not_underscore[of n] by (subst dec_nat.simps) (auto dest: sym)
qed

lemma dec_nat_zero: "dec_nat 0 = ''0''"
  by (subst dec_nat.simps) (simp add: digit_chars)

lemma ParseUint0_dec: "n < 2 ^ 64 \<Longrightarrow> ParseUint0 (dec_nat n) = Inr n"
proof (cases "n = 0")
  case True
  then show ?thesis by (simp add: dec_nat_zero ParseUint0_def base_prefix_def)
next
  case False
  assume "n < 2 ^ 64"
  then have "parse_digits True 10 (2 ^ 64 - 1) (dec_nat n) 0 = Inr n" by (intro parse_digits_dec) simp
  then show ?thesis
    using False hd_dec_nat[of n] by (simp add: ParseUint0_def dec_nat_ne dec_nat_no_underscore del: power_numeral diff_numeral_simps)
qed

lemma hd_dec_nat_sign: "hd (dec_nat n) \<noteq> CHR ''-''" "hd (dec_nat n) \<noteq> CHR ''+''"
proof -
  have "hd (dec_nat n) \<in> set (dec_nat n)" by (simp add: dec_nat_ne)
  then have "48 \<le> (of_char (hd (dec_nat n)) :: nat)" using dec_nat_chars[of _ n] by auto
  then show "hd (dec_nat n) \<noteq> CHR ''-''" "hd (dec_nat n) \<noteq> CHR ''+''" by auto
qed

lemma ParseInt_Itoa: "int64_range n \<Longrightarrow> ParseInt (Itoa n) = Inr n"
proof (cases "n < 0")
  case True
  assume r: "int64_range n"
  then have m: "nat (- n) \<le> 2 ^ 63" "nat (- n) < 2 ^ 64" using True by (simp_all add: int64_range_def nat_le_iff nat_less_iff)
  have "ParseInt (Itoa n) = Inr (- int (nat (- n)))"
    using True m(1) ParseUint0_dec[OF m(2)] by (simp add: ParseInt_def Itoa_def drop_sign_def del: power_numeral)
  then show ?thesis using True by simp
next
  case False
  assume r: "int64_range n"
  then have m: "nat n < 2 ^ 63" "nat n < 2 ^ 64" using False by (simp_all add: int64_range_def nat_less_iff)
  have "ParseInt (Itoa n) = Inr (int (nat n))"
    using False m(1) ParseUint0_dec[OF m(2)] hd_dec_nat_sign[of "nat n"]
    by (simp add: ParseInt_def Itoa_def drop_sign_def dec_nat_ne del: power_numeral)
  then show ?thesis using False by simp
qed

lemma ParseUint16_dec: "n \<le> 65535 \<Longrightarrow> ParseUint16 (dec_nat n) = Inr n"
  using parse_digits_dec[of n 65535 False] dec_nat_ne[of n] by (simp only: ParseUint16_def if_False)

lemma unat16_le: "unat (w :: 16 word) \<le> 65535"
proof -
  have "unat w < 2 ^ LENGTH(16)" by (rule unsigned_less)
  then show ?thesis by simp
qed

lemma ParseUint16_Itoa: "ParseUint16 (Itoa (uint (w :: 16 word))) = Inr (unat w)"
proof -
  have "\<not> uint w < 0" by (simp add: not_less)
  then have "Itoa (uint w) = dec_nat (nat (uint w))" by (simp only: Itoa_def if_False)
  then show ?thesis using ParseUint16_dec[OF unat16_le, of w] by (simp only: unat_eq_nat_uint)
qed

text \<open>The values a flag of a kind can be given.\<close>

fun expressible :: "flag_kind \<Rightarrow> fval \<Rightarrow> bool" where
  "expressible IntFlag (FInt n) = int64_range n"
| "expressible BoolFlag (FBool b) = True"
| "expressible nonEmptyStringValue (FString s) = (s \<noteq> [])"
| "expressible disableableStringValue (FString s) = (\<not> EqualFold s disableSentinel)"
| "expressible uint16Value (FUint16 w) = True"
| "expressible k v = False"

lemma disabled_folds: "EqualFold disableSentinel disableSentinel"
  by (simp add: disableSentinel_def)

text \<open>
  Flag values read back: for every value an integer, boolean, port, required or optional
  string flag can hold, setting the flag to its own text gives the same value; the empty
  optional string travels as the word disabled.
\<close>

theorem flag_value_roundtrip:
  assumes "expressible kind v"
  shows "flag_set F kind (flag_String kind v) = Inr v"
  using assms
proof (cases kind)
  case BoolFlag
  then show ?thesis using assms by (cases v; cases "v = FBool True") (simp_all add: flag_set_def flag_String_def ParseBool_def)
next
  case uint16Value
  then show ?thesis using assms by (cases v) (simp_all add: flag_set_def flag_String_def ParseUint16_Itoa)
next
  case IntFlag
  then show ?thesis using assms by (cases v) (simp_all add: flag_set_def flag_String_def ParseInt_Itoa)
next
  case disableableStringValue
  then obtain s where v: "v = FString s" "\<not> EqualFold s disableSentinel" using assms by (cases v) auto
  have "disableSentinel \<noteq> []" by (simp add: disableSentinel_def)
  then show ?thesis using disableableStringValue v disabled_folds by (simp add: flag_set_def flag_String_def)
qed (use assms in \<open>cases v; simp add: flag_set_def flag_String_def\<close>)+

theorem flag_value_roundtrip_witness:
  "flag_set sample_fmt_verbs disableableStringValue (flag_String disableableStringValue (FString [])) = Inr (FString []) \<and>
   flag_set sample_fmt_verbs IntFlag (flag_String IntFlag (FInt (- 9223372036854775808))) = Inr (FInt (- 9223372036854775808))"
  by (intro conjI flag_value_roundtrip) (simp_all add: disableSentinel_def int64_range_def)

lemma one_valid: "flag_set F kind ''1'' \<noteq> Inl e"
proof (cases kind)
  case IntFlag
  have "ParseInt (Itoa 1) = Inr 1" by (rule ParseInt_Itoa) (simp add: int64_range_def)
  moreover have "Itoa 1 = ''1''" by (simp add: Itoa_def dec_nat.simps digit_chars)
  ultimately show ?thesis using IntFlag by (simp add: flag_set_def)
next
  case uint16Value
  have "parse_digits False 10 65535 (dec_nat 1) 0 = Inr 1" by (rule parse_digits_dec) simp
  moreover have "dec_nat 1 = ''1''" by (simp add: dec_nat.simps digit_chars)
  ultimately show ?thesis using uint16Value by (simp add: flag_set_def ParseUint16_def del: parse_digits.simps)
next
  case disableableStringValue
  then show ?thesis by (simp add: flag_set_def)
qed (simp_all add: flag_set_def ParseBool_def)

theorem config_precedence_witness:
  "case parse_values sample_fmt_verbs id sample_lookup (bindConfigFlags defaultConfig)
       (map (\<lambda>(n, x). ''--'' @ n @ ''='' @ x) [(''event-table'', ''b'')]) of
     Inl err \<Rightarrow> False
   | Inr v \<Rightarrow> flag_set sample_fmt_verbs (opt_kind table_flag) ''b'' = Inr (v ''event-table'') \<and>
       flag_set sample_fmt_verbs (opt_kind id_flag) ''1'' = Inr (v ''event-id'')"
proof -
  define p where "p = parse_values sample_fmt_verbs id sample_lookup (bindConfigFlags defaultConfig)
       (map (\<lambda>(n, x). ''--'' @ n @ ''='' @ x) [(''event-table'', ''b'')])"
  have sub: "fst ` set [(''event-table'', ''b'')] \<subseteq> set (map opt_name (bindConfigFlags defaultConfig))"
    by (simp add: bindConfigFlags_def addFlag_def)
  note pre = config_precedence[OF sub, where F = sample_fmt_verbs and order = id and LookupEnv = sample_lookup, folded p_def]
  have table: "opt = table_flag" if "opt \<in> set (bindConfigFlags defaultConfig)" "opt_name opt = ''event-table''" for opt
    using that flags_listed(1) flag_facts(1) relay_flags_ok by (metis find_flag_in flags_ok_def option.inject)
  have "flag_set sample_fmt_verbs nonEmptyStringValue ''b'' = Inr (FString ''b'')" by (simp add: flag_set_def)
  moreover have "rejectRetiredEnv id sample_lookup = None" by (simp add: rejectRetiredEnv_def retiredEnvVars_def sample_lookup_def)
  ultimately have "p \<noteq> Inl err" for err
  proof (intro notI)
    assume ok: "flag_set sample_fmt_verbs nonEmptyStringValue ''b'' = Inr (FString ''b'')"
      and none: "rejectRetiredEnv id sample_lookup = None" and p: "p = Inl err"
    from pre[unfolded p sum.case] none obtain opt x e where opt: "opt \<in> set (bindConfigFlags defaultConfig)"
      "(opt_name opt, x) \<in> set [(''event-table'', ''b'')] \<or> (\<exists>name. first_env sample_lookup (opt_envVars opt) = Some (name, x))"
      "flag_set sample_fmt_verbs (opt_kind opt) x = Inl e"
    proof (elim disjE conjE exE)
      fix pre opt post name x e
      assume "bindConfigFlags defaultConfig = pre @ opt # post" "first_env sample_lookup (opt_envVars opt) = Some (name, x)"
        "flag_set sample_fmt_verbs (opt_kind opt) x = Inl e"
      then show thesis using that[of opt x e] by auto
    next
      fix opt pre x post e
      assume "opt \<in> set (bindConfigFlags defaultConfig)" "[(''event-table'', ''b'')] = pre @ (opt_name opt, x) # post"
        "flag_set sample_fmt_verbs (opt_kind opt) x = Inl e"
      then show thesis using that[of opt x e] by (metis in_set_conv_decomp)
    qed simp
    from opt(2) show False
    proof
      assume "(opt_name opt, x) \<in> set [(''event-table'', ''b'')]"
      then show False using opt(3) table[OF opt(1)] flag_facts(3) ok by simp
    next
      assume "\<exists>name. first_env sample_lookup (opt_envVars opt) = Some (name, x)"
      then have "x = ''1''" using sample_env_value by blast
      then show False using opt(3) one_valid by simp
    qed
  qed
  then obtain v where v: "p = Inr v" by (cases p) auto
  from pre[unfolded v sum.case] have all: "opt \<in> set (bindConfigFlags defaultConfig) \<Longrightarrow>
      (case map_of (rev [(''event-table'', ''b'')]) (opt_name opt) of
         Some x \<Rightarrow> flag_set sample_fmt_verbs (opt_kind opt) x = Inr (v (opt_name opt))
       | None \<Rightarrow> (case first_env sample_lookup (opt_envVars opt) of
           Some (name, x) \<Rightarrow> flag_set sample_fmt_verbs (opt_kind opt) x = Inr (v (opt_name opt))
         | None \<Rightarrow> v (opt_name opt) = opt_default opt))" for opt by blast
  show ?thesis
    using all[OF flags_listed(1)] all[OF flags_listed(2)] unfolding p_def[symmetric] v by (simp add: flag_facts)
qed

section \<open>The .env file\<close>

definition settable :: "string \<times> string \<Rightarrow> bool" where
  "settable kv \<longleftrightarrow> CHR 0x00 \<notin> set (fst kv) \<and> CHR 0x00 \<notin> set (snd kv) \<and> CHR ''='' \<notin> set (fst kv)"

lemma dotenv_lines:
  "loadDotEnv_lines Unquote lines env name =
     (case env name of Some x \<Rightarrow> Some x | None \<Rightarrow> map_of (filter settable (List.map_filter (dotenv_line Unquote) lines)) name)"
proof (induction lines arbitrary: env)
  case (Cons line lines)
  show ?case
  proof (cases "dotenv_line Unquote line")
    case (Some kv)
    then show ?thesis
      using Cons by (cases kv) (auto simp: map_filter_simps settable_def Setenv_def split: option.splits)
  qed (use Cons in \<open>simp add: map_filter_simps split: option.splits\<close>)
qed (simp add: map_filter_simps split: option.splits)

text \<open>
  The environment wins over the \<open>.env\<close> file, and the file's first definition of a name wins
  over later ones: after loading, a variable has the value it had before, else that of the first
  well-formed line of the file that defines it and can be set, else none.
\<close>

theorem dotenv_precedence:
  "loadDotEnv Unquote (Some content) env name =
     (case env name of Some x \<Rightarrow> Some x
      | None \<Rightarrow> map_of (filter settable (List.map_filter (dotenv_line Unquote) (Split (CHR 0x0A) content))) name)"
  by (simp add: loadDotEnv_def dotenv_lines)

section \<open>Durations\<close>

lemma milliseconds_exact:
  "milliseconds ms = ms * 1000000 \<longleftrightarrow> - 9223372036854 \<le> ms \<and> ms \<le> 9223372036854"
proof
  assume "milliseconds ms = ms * 1000000"
  then have "int64_range (ms * 1000000)" using wrap64_range[of "ms * 1000000"] by (simp add: milliseconds_def time_Millisecond_def)
  then show "- 9223372036854 \<le> ms \<and> ms \<le> 9223372036854" by (simp add: int64_range_def)
next
  assume "- 9223372036854 \<le> ms \<and> ms \<le> 9223372036854"
  then have "int64_range (ms * 1000000)" by (simp add: int64_range_def)
  then show "milliseconds ms = ms * 1000000" by (simp add: milliseconds_def time_Millisecond_def wrap64_id)
qed

lemma event_age_steps:
  "finalize (v(''max-event-age-ms'' := FInt n)) cfg = (finalize v cfg)\<lparr>MaxEventAge := milliseconds n\<rparr>"
  "deriveConfig (c\<lparr>MaxEventAge := x\<rparr>) = (deriveConfig c)\<lparr>MaxEventAge := x\<rparr>"
  by (simp_all add: finalize_def int_of_def deriveConfig_def)

lemma event_age_unbound: "bound_fields (v(''max-event-age-ms'' := x)) = bound_fields v"
  unfolding bound_fields_def fun_upd_apply by (simp only: list.inject char.inject list.distinct simp_thms if_False)

lemma event_age_field:
  "config_of (v(''max-event-age-ms'' := FInt n)) = (config_of v)\<lparr>MaxEventAge := milliseconds n\<rparr>"
  by (simp only: config_of_def event_age_steps event_age_unbound)

lemma event_age_valid:
  assumes "a > 0" "b > 0"
  shows "validate F configValidationRelay (c\<lparr>MaxEventAge := a\<rparr>) = None \<longleftrightarrow>
    validate F configValidationRelay (c\<lparr>MaxEventAge := b\<rparr>) = None"
proof -
  have "configuredProviderRoutes (c\<lparr>MaxEventAge := x\<rparr>) = configuredProviderRoutes c" for x
    by (simp add: configuredProviderRoutes_def providerSpecs_def pubsub_route_def sqs_route_def)
  then show ?thesis using assms by (simp add: validate_runnable runnable_def config_columns_def)
qed

text \<open>
  (C39) Millisecond settings are exact only up to 292 years: the conversion to a duration is exact
  for at most 9223372036854 ms in absolute value and wraps beyond, so a larger maximum event age
  can pass validation as an age of under a millisecond, as one of 18446744073710 ms does, which
  becomes 448384 ns.
\<close>

theorem duration_settings_wrap:
  "(milliseconds ms = ms * 1000000 \<longleftrightarrow> - 9223372036854 \<le> ms \<and> ms \<le> 9223372036854) \<and>
   flag_set F IntFlag (Itoa 18446744073710) = Inr (FInt 18446744073710) \<and>
   MaxEventAge (config_of (v(''max-event-age-ms'' := FInt 18446744073710))) = 448384 \<and>
   (validate F configValidationRelay (config_of (v(''max-event-age-ms'' := FInt 18446744073710))) = None \<longleftrightarrow>
    validate F configValidationRelay (config_of (v(''max-event-age-ms'' := FInt 1))) = None)"
proof (intro conjI)
  show "milliseconds ms = ms * 1000000 \<longleftrightarrow> - 9223372036854 \<le> ms \<and> ms \<le> 9223372036854" by (rule milliseconds_exact)
  show "flag_set F IntFlag (Itoa 18446744073710) = Inr (FInt 18446744073710)"
    by (simp add: flag_set_def ParseInt_Itoa int64_range_def)
  have ms: "milliseconds 18446744073710 = 448384" "milliseconds 1 = 1000000"
    by (simp_all add: milliseconds_def time_Millisecond_def wrap64_def)
  show "MaxEventAge (config_of (v(''max-event-age-ms'' := FInt 18446744073710))) = 448384" by (simp add: event_age_field ms)
  show "validate F configValidationRelay (config_of (v(''max-event-age-ms'' := FInt 18446744073710))) = None \<longleftrightarrow>
    validate F configValidationRelay (config_of (v(''max-event-age-ms'' := FInt 1))) = None"
    unfolding event_age_field ms by (rule event_age_valid) simp_all
qed

section \<open>Types of flag values\<close>

text \<open>A flag holds its default or a value its parser made of some text.\<close>

definition accepted :: "fmt \<Rightarrow> cliOption \<Rightarrow> fval \<Rightarrow> bool" where
  "accepted F opt x \<longleftrightarrow> x = opt_default opt \<or> (\<exists>s. flag_set F (opt_kind opt) s = Inr x)"

definition all_accepted :: "fmt \<Rightarrow> cliOption list \<Rightarrow> flag_values \<Rightarrow> bool" where
  "all_accepted F opts v \<longleftrightarrow> (\<forall>n opt. find_flag opts n = Some opt \<longrightarrow> accepted F opt (v n))"

lemma all_accepted_initial: "all_accepted F opts (initial_values opts)"
  by (simp add: all_accepted_def initial_values_def accepted_def)

lemma all_accepted_set:
  "all_accepted F opts v \<Longrightarrow> find_flag opts n = Some opt \<Longrightarrow> flag_set F (opt_kind opt) s = Inr x \<Longrightarrow> all_accepted F opts (v(n := x))"
  by (auto simp: all_accepted_def accepted_def)

lemma applyEnv_accepted:
  assumes "distinct (map opt_name opts)"
  shows "set os \<subseteq> set opts \<Longrightarrow> all_accepted F opts v \<Longrightarrow> applyEnv F LookupEnv os v = Inr v' \<Longrightarrow> all_accepted F opts v'"
proof (induction os arbitrary: v)
  case (Cons o1 os)
  have f: "find_flag opts (opt_name o1) = Some o1" using find_flag_in[OF assms] Cons.prems(1) by simp
  show ?case
  proof (cases "first_env LookupEnv (opt_envVars o1)")
    case None
    then show ?thesis using Cons by simp
  next
    case (Some p)
    obtain name s where p: "p = (name, s)" by fastforce
    then obtain x where x: "flag_set F (opt_kind o1) s = Inr x" using Cons.prems(3) Some by (auto split: sum.splits)
    have "applyEnv F LookupEnv os (v(opt_name o1 := x)) = Inr v'" using Cons.prems(3) Some p x by simp
    moreover have "set os \<subseteq> set opts" using Cons.prems(1) by simp
    ultimately show ?thesis using Cons.IH[OF _ all_accepted_set[OF Cons.prems(2) f x]] by blast
  qed
qed simp

lemma flags_Parse_step:
  assumes "flags_Parse F opts (s # args) v = Inr (v', rest)"
  shows "v' = v \<or> (\<exists>name opt x t as. find_flag opts name = Some opt \<and> flag_set F (opt_kind opt) t = Inr x \<and>
    length as \<le> length args \<and> flags_Parse F opts as (v(name := x)) = Inr (v', rest))"
proof (cases "length s < 2 \<or> hd s \<noteq> CHR ''-'' \<or> s = ''--''")
  case True
  then show ?thesis using assms by (auto split: if_splits)
next
  case False
  define name0 where "name0 = drop (if s ! 1 = CHR ''-'' then 2 else 1) s"
  obtain name value' hasValue where cut: "Cut name0 (CHR ''='') = (name, value', hasValue)" using prod_cases3 by blast
  note run = assms[unfolded flags_Parse.simps(2) Let_def, folded name0_def]
  obtain opt where opt: "find_flag opts name = Some opt" using run False cut by (auto split: if_splits option.splits)
  show ?thesis
  proof (cases "opt_kind opt = BoolFlag \<or> hasValue")
    case True
    then have "\<exists>x t. flag_set F (opt_kind opt) t = Inr x \<and> flags_Parse F opts args (v(name := x)) = Inr (v', rest)"
      using run False cut opt by (cases "opt_kind opt = BoolFlag") (auto split: if_splits sum.splits)
    then show ?thesis using opt by blast
  next
    case arg: False
    then obtain t as x where "args = t # as" "flag_set F (opt_kind opt) t = Inr x" "flags_Parse F opts as (v(name := x)) = Inr (v', rest)"
      using run False cut opt by (auto split: if_splits list.splits sum.splits)
    moreover from this have "length as \<le> length args" by simp
    ultimately show ?thesis using opt by blast
  qed
qed

lemma flags_Parse_accepted:
  "flags_Parse F opts args v = Inr (v', rest) \<Longrightarrow> all_accepted F opts v \<Longrightarrow> all_accepted F opts v'"
proof (induction "length args" arbitrary: args v rule: less_induct)
  case less
  show ?case
  proof (cases args)
    case (Cons s args')
    from flags_Parse_step[OF less.prems(1)[unfolded Cons]] show ?thesis
      using less.hyps less.prems(2) all_accepted_set Cons by (metis le_imp_less_Suc length_Cons)
  qed (use less.prems in simp)
qed

fun has_type :: "flag_kind \<Rightarrow> fval \<Rightarrow> bool" where
  "has_type IntFlag (FInt n) = int64_range n"
| "has_type BoolFlag (FBool b) = True"
| "has_type nonEmptyStringValue (FString s) = True"
| "has_type disableableStringValue (FString s) = True"
| "has_type secretStringValue (FString s) = True"
| "has_type uint16Value (FUint16 w) = True"
| "has_type k v = False"

lemma ParseInt_range: "ParseInt s = Inr n \<Longrightarrow> int64_range n"
  by (auto simp: ParseInt_def int64_range_def Let_def split: if_splits sum.splits)

lemma flag_set_typed: "flag_set F kind s = Inr x \<Longrightarrow> has_type kind x \<and> (x = FString [] \<longrightarrow> kind = disableableStringValue)"
  by (cases kind) (auto simp: flag_set_def dest: ParseInt_range split: sum.splits option.splits if_splits)

lemma default_typed: "opt \<in> set (bindConfigFlags defaultConfig) \<Longrightarrow> has_type (opt_kind opt) (opt_default opt)"
  by (simp add: bindConfigFlags_def addFlag_def defaultConfig_def time_Second_def time_Millisecond_def int64_range_def)
    (elim disjE; simp add: int64_range_def)

text \<open>
  (C40) Loaded values are well typed. For any environment and any arguments: when parsing
  succeeds, every flag of the relay holds a value of its own type, integers in 64 bits, so that
  the configuration is read from the flags without a mismatch; and a text flag is empty only if
  its default is empty or it is one of those that the word disabled empties.
\<close>

theorem loaded_values_typed:
  assumes "parse_values F order LookupEnv (bindConfigFlags defaultConfig) args = Inr v"
    and "opt \<in> set (bindConfigFlags defaultConfig)"
  shows "has_type (opt_kind opt) (v (opt_name opt)) \<and>
    (v (opt_name opt) = FString [] \<longrightarrow> opt_default opt = FString [] \<or> opt_kind opt = disableableStringValue)"
proof -
  let ?opts = "bindConfigFlags defaultConfig"
  have dist: "distinct (map opt_name ?opts)" using relay_flags_ok by (simp add: flags_ok_def)
  obtain v1 where v1: "applyEnv F LookupEnv ?opts (initial_values ?opts) = Inr v1" and v: "flags_Parse F ?opts args v1 = Inr (v, [])"
    using assms(1) unfolding parse_values_def by (auto split: option.splits sum.splits prod.splits if_splits)
  have "all_accepted F ?opts v"
    using flags_Parse_accepted[OF v applyEnv_accepted[OF dist subset_refl all_accepted_initial v1]] .
  then have "accepted F opt (v (opt_name opt))" using find_flag_in[OF dist assms(2)] by (simp add: all_accepted_def)
  then show ?thesis using flag_set_typed[of F "opt_kind opt"] default_typed[OF assms(2)] by (auto simp: accepted_def)
qed

lemma no_env: "applyEnv F (\<lambda>_. None) opts v = Inr v"
proof -
  have "first_env (\<lambda>_. None) names = None" for names by (induction names) auto
  then show ?thesis by (induction opts) auto
qed

theorem loaded_values_typed_witness:
  "has_type IntFlag (initial_values (bindConfigFlags defaultConfig) ''health-port'')"
proof -
  let ?opt = "addIntFlag ''health-port'' (HealthPort defaultConfig) ''HEALTH_PORT, PORT''"
  have run: "parse_values sample_fmt_verbs id (\<lambda>_. None) (bindConfigFlags defaultConfig) [] = Inr (initial_values (bindConfigFlags defaultConfig))"
    by (simp add: parse_values_def rejectRetiredEnv_def retiredEnvVars_def no_env)
  have "?opt \<in> set (bindConfigFlags defaultConfig)" by (simp add: bindConfigFlags_def)
  from loaded_values_typed[OF run this] show ?thesis by (simp add: addFlag_def)
qed

section \<open>Defaults\<close>

text \<open>
  With no settings at all, loading gives exactly the default configuration; durations survive the
  way through their milliseconds.
\<close>

lemma initial_at:
  assumes "opt \<in> set (bindConfigFlags defaultConfig)"
  shows "initial_values (bindConfigFlags defaultConfig) (opt_name opt) = opt_default opt"
proof -
  have "distinct (map opt_name (bindConfigFlags defaultConfig))" using relay_flags_ok by (simp add: flags_ok_def)
  from find_flag_in[OF this assms] show ?thesis by (simp add: initial_values_def)
qed

lemma initial_all: "map (\<lambda>opt. initial_values (bindConfigFlags defaultConfig) (opt_name opt)) (bindConfigFlags defaultConfig) =
    map opt_default (bindConfigFlags defaultConfig)"
  by (rule map_cong[OF refl initial_at])


lemma defaults_bound:
  assumes "map (\<lambda>opt. v (opt_name opt)) (bindConfigFlags defaultConfig) = map opt_default (bindConfigFlags defaultConfig)"
  shows "bound_fields v = defaultConfig"
proof -
  note e = assms[unfolded bindConfigFlags_def addFlag_def list.map list.inject cliOption.simps]
  show ?thesis
    by (simp only: bound_fields_def e str_of_def int_of_def bool_of_def uint16_of_def fval.case) (rule appConfig.equality; simp)
qed

lemma defaults_finalized:
  assumes "map (\<lambda>opt. v (opt_name opt)) (bindConfigFlags defaultConfig) = map opt_default (bindConfigFlags defaultConfig)"
  shows "finalize v defaultConfig = defaultConfig"
proof -
  note e = assms[unfolded bindConfigFlags_def addFlag_def list.map list.inject cliOption.simps]
  have "PubSubDestinations defaultConfig = []" "SQSDestinations defaultConfig = []" by (simp_all add: defaultConfig_def)
  moreover have "parseStringList [] = []" using parseStringList_Join[of "[]"] by simp
  moreover have "milliseconds (cfg_PublishTimeout defaultConfig sdiv time_Millisecond) = cfg_PublishTimeout defaultConfig"
    "milliseconds (MaxEventAge defaultConfig sdiv time_Millisecond) = MaxEventAge defaultConfig"
    "milliseconds (PGQueryTimeout defaultConfig sdiv time_Millisecond) = PGQueryTimeout defaultConfig" by code_simp+
  ultimately show ?thesis
    by (simp only: finalize_def e str_of_def int_of_def fval.case Join.simps) (rule appConfig.equality; simp)
qed

lemma no_retired: "rejectRetiredEnv order (\<lambda>_. None) = None"
proof -
  have "find (\<lambda>(name, resolution). False) xs = None" for xs :: "(string \<times> string) list" by (simp add: find_None_iff)
  then show ?thesis by (simp add: rejectRetiredEnv_def)
qed

theorem defaults_loaded:
  "loadConfig F order (\<lambda>_. None) [] = Inr defaultConfig"
proof -
  let ?v = "initial_values (bindConfigFlags defaultConfig)"
  have "config_of ?v = deriveConfig defaultConfig"
    by (simp only: config_of_def defaults_bound[OF initial_all] defaults_finalized[OF initial_all])
  also have "\<dots> = defaultConfig" by (simp add: deriveConfig_def defaultConfig_def)
  finally have "config_of ?v = defaultConfig" .
  moreover note no_retired[of order]
  ultimately show ?thesis by (simp add: loadConfig_def parse_values_def no_env)
qed

text \<open>Two settings on top of the defaults.\<close>

definition sqs_config :: appConfig where
  "sqs_config = defaultConfig\<lparr>SQSEnabled := True, DefaultSQSQueueURL := ''q''\<rparr>"

lemma sqs_config_of:
  assumes d: "map (\<lambda>opt. v (opt_name opt)) (bindConfigFlags defaultConfig) = map opt_default (bindConfigFlags defaultConfig)"
  shows "config_of (v(''sqs-enabled'' := FBool True, ''default-sqs-queue-url'' := FString ''q'')) = sqs_config"
proof -
  let ?v = "v(''sqs-enabled'' := FBool True, ''default-sqs-queue-url'' := FString ''q'')"
  have b: "bound_fields ?v = (bound_fields v)\<lparr>SQSEnabled := True, DefaultSQSQueueURL := ''q''\<rparr>"
    unfolding bound_fields_def fun_upd_apply
    by (simp only: list.inject char.inject list.distinct simp_thms if_False if_True bool_of_def str_of_def fval.case) (rule appConfig.equality; simp)
  have f: "finalize ?v cfg = finalize v cfg" for cfg
    unfolding finalize_def fun_upd_apply by (simp only: list.inject char.inject list.distinct simp_thms if_False if_True)
  have comm: "finalize v (cfg\<lparr>SQSEnabled := True, DefaultSQSQueueURL := ''q''\<rparr>) = (finalize v cfg)\<lparr>SQSEnabled := True, DefaultSQSQueueURL := ''q''\<rparr>" for cfg
    by (simp add: finalize_def)
  have "deriveConfig (defaultConfig\<lparr>SQSEnabled := True, DefaultSQSQueueURL := ''q''\<rparr>) = sqs_config"
    by (simp add: deriveConfig_def defaultConfig_def sqs_config_def)
  then show ?thesis by (simp only: config_of_def b f comm defaults_bound[OF d] defaults_finalized[OF d])
qed

lemma sqs_config_loaded:
  "loadConfig F order (\<lambda>_. None) [''--sqs-enabled=true'', ''--default-sqs-queue-url=q''] = Inr sqs_config"
proof -
  let ?opts = "bindConfigFlags defaultConfig" and ?v = "initial_values (bindConfigFlags defaultConfig)"
  let ?b = "addBoolFlag ''sqs-enabled'' (SQSEnabled defaultConfig) ''SQS_ENABLED''"
    and ?q = "addDisableableFlag ''default-sqs-queue-url'' (DefaultSQSQueueURL defaultConfig) ''DEFAULT_SQS_QUEUE_URL''"
  have args: "[''--sqs-enabled=true'', ''--default-sqs-queue-url=q''] = [setting (''sqs-enabled'', ''true''), setting (''default-sqs-queue-url'', ''q'')]"
    by (simp add: setting_def)
  have mem: "?b \<in> set ?opts" "?q \<in> set ?opts" by (simp_all add: bindConfigFlags_def)
  have fs: "flag_set F (opt_kind ?b) ''true'' = Inr (FBool True)" by (simp add: addFlag_def flag_set_def ParseBool_def)
  have qs: "flag_set F (opt_kind ?q) ''q'' = Inr (FString ''q'')"
  proof -
    have "\<not> EqualFold ''q'' disableSentinel" by code_simp
    then show ?thesis by (simp add: addFlag_def flag_set_def)
  qed
  have "flags_Parse F ?opts [setting (''sqs-enabled'', ''true''), setting (''default-sqs-queue-url'', ''q'')] ?v =
      Inr (?v(''sqs-enabled'' := FBool True, ''default-sqs-queue-url'' := FString ''q''), [])"
    using parse_setting[OF relay_flags_ok mem(1), of "''sqs-enabled''" F "''true''"] parse_setting[OF relay_flags_ok mem(2), of "''default-sqs-queue-url''" F "''q''"]
    by (simp only: fs qs sum.case) (simp add: addFlag_def)
  moreover have "rejectRetiredEnv order (\<lambda>_. None) = None" by (rule no_retired)
  ultimately show ?thesis
    unfolding args by (simp add: loadConfig_def parse_values_def no_env sqs_config_of[OF initial_all])
qed

end
