(* ===== verification/Trace_Refinement.thy ===== *)
theory Trace_Refinement
  imports Outbox_Prelude
begin

text \<open>
  The interface between a component that acts step by step and a monitor that watches what it does:
  every step keeps the component's invariant, and its actions take the monitor from the view of the
  state before to the view of the state after. Then a run of any length does. The clients are the
  notification listener, watched by the rules of the connection pool, and the Pub/Sub client, watched
  by the list of publishers it created.
\<close>

locale trace_refinement =
  fixes step :: "'e \<Rightarrow> 's \<Rightarrow> 'a list \<times> 's"
    and run :: "'e list \<Rightarrow> 's \<Rightarrow> 'a list \<times> 's"
    and watch :: "'m \<Rightarrow> 'a list \<Rightarrow> 'm"
    and view :: "'s \<Rightarrow> 'm"
    and inv :: "'s \<Rightarrow> bool"
  assumes run_Nil: "run [] s = ([], s)"
    and run_Cons: "run (e # es) s = (let (as, s') = step e s; (bs, s'') = run es s' in (as @ bs, s''))"
    and watch_Nil: "watch m [] = m"
    and watch_append: "watch m (as @ bs) = watch (watch m as) bs"
    and step_refines: "inv s \<Longrightarrow> step e s = (as, s') \<Longrightarrow> inv s' \<and> watch (view s) as = view s'"
begin

lemma run_refines: "inv s \<Longrightarrow> run es s = (as, s') \<Longrightarrow> inv s' \<and> watch (view s) as = view s'"
proof (induction es arbitrary: s as)
  case Nil
  then show ?case by (simp add: run_Nil watch_Nil)
next
  case (Cons e es)
  obtain a1 s1 where one: "step e s = (a1, s1)" by fastforce
  obtain a2 where two: "run es s1 = (a2, s')" "as = a1 @ a2"
    using Cons.prems(2) one by (auto simp: run_Cons split: prod.splits)
  show ?case using step_refines[OF Cons.prems(1) one] Cons.IH[OF _ two(1)] two(2) by (simp add: watch_append)
qed

text \<open>A measure that every step adds the same amount to counts the steps.\<close>

lemma run_counts:
  assumes "\<And>s e as s'. inv s \<Longrightarrow> step e s = (as, s') \<Longrightarrow> List.map_filter f as = [c]"
    and "inv s" "run es s = (as, s')"
  shows "List.map_filter f as = replicate (length es) c"
  using assms(2,3)
proof (induction es arbitrary: s as)
  case Nil
  then show ?case by (simp add: run_Nil map_filter_simps)
next
  case (Cons e es)
  obtain a1 s1 where one: "step e s = (a1, s1)" by fastforce
  obtain a2 where two: "run es s1 = (a2, s')" "as = a1 @ a2"
    using Cons.prems(2) one by (auto simp: run_Cons split: prod.splits)
  show ?case
    using assms(1)[OF Cons.prems(1) one] step_refines[OF Cons.prems(1) one] Cons.IH[OF _ two(1)] two(2)
    by (simp add: map_filter_append)
qed

end

end
