(* ===== verification/Clients.thy ===== *)
theory Clients
  imports SQS_Sender Pubsub_Sender Trace_Refinement
begin

text \<open>
  The adapters between the senders and the SDKs: \<open>awsPublisher\<close> of \<open>sqs/client.go\<close>, which translates
  requests and answers, and \<open>CloudPublisher\<close> of \<open>pubsub/client.go\<close>, which keeps one publisher per
  topic. The SDK call itself is a parameter; a Go pointer is an option.
\<close>

section \<open>The SQS request\<close>

record MessageAttributeValue =
  av_DataType :: "string option"
  av_StringValue :: "string option"
  av_BinaryValue :: "bytes option"
  av_StringListValues :: "string list option"
  av_BinaryListValues :: "bytes list option"

record SendMessageBatchRequestEntry =
  re_Id :: "string option"
  re_MessageBody :: "bytes option"
  re_MessageAttributes :: "MessageAttributeValue gomap"
  re_DelaySeconds :: "32 word"
  re_MessageGroupId :: "string option"
  re_MessageDeduplicationId :: "string option"
  re_MessageSystemAttributes :: "MessageAttributeValue gomap"

definition convert_attribute :: "MessageAttribute \<Rightarrow> MessageAttributeValue" where
  "convert_attribute v =
     \<lparr> av_DataType = Some (DataType v),
       av_StringValue = (if HasStringValue v then Some (StringValue v) else None),
       av_BinaryValue = (if HasBinaryValue v then Some (BinaryValue v) else None),
       av_StringListValues = (if HasStringList v then Some (StringListValues v) else None),
       av_BinaryListValues = (if HasBinaryList v then Some (BinaryListValues v) else None) \<rparr>"

definition convertAttributesToAWSSQS :: "MessageAttribute gomap \<Rightarrow> MessageAttributeValue gomap" where
  "convertAttributesToAWSSQS attributes = map (\<lambda>(key, v). (key, convert_attribute v)) attributes"

definition convert_entry :: "BatchEntry \<Rightarrow> SendMessageBatchRequestEntry" where
  "convert_entry entry =
     \<lparr> re_Id = Some (be_ID entry),
       re_MessageBody = Some (be_MessageBody entry),
       re_MessageAttributes = convertAttributesToAWSSQS (be_Attributes entry),
       re_DelaySeconds = (case be_DelaySeconds entry of Some d \<Rightarrow> d | None \<Rightarrow> 0),
       re_MessageGroupId = (if be_MessageGroupID entry \<noteq> [] then Some (be_MessageGroupID entry) else None),
       re_MessageDeduplicationId = (if be_DeduplicationID entry \<noteq> [] then Some (be_DeduplicationID entry) else None),
       re_MessageSystemAttributes = (if be_AWSXRayTraceHeader entry \<noteq> []
         then [(''AWSTraceHeader'', \<lparr> av_DataType = Some ''String'', av_StringValue = Some (be_AWSXRayTraceHeader entry),
                av_BinaryValue = None, av_StringListValues = None, av_BinaryListValues = None \<rparr>)]
         else []) \<rparr>"

section \<open>The SQS answer\<close>

record SendMessageBatchResultEntry =
  ok_Id :: "string option"
  ok_MessageId :: "string option"

record BatchResultErrorEntry =
  er_Id :: "string option"
  er_Code :: "string option"
  er_Message :: "string option"
  er_SenderFault :: bool

record SendMessageBatchOutput =
  out_Successful :: "SendMessageBatchResultEntry list"
  out_Failed :: "BatchResultErrorEntry list"

text \<open>\<open>aws.ToString\<close>\<close>

definition ToString :: "string option \<Rightarrow> string" where
  "ToString p = (case p of Some s \<Rightarrow> s | None \<Rightarrow> [])"

definition convert_response :: "SendMessageBatchOutput \<Rightarrow> BatchResponse" where
  "convert_response r =
     \<lparr> Successful = map (\<lambda>e. \<lparr> bs_ID = ToString (ok_Id e), bs_MessageID = ToString (ok_MessageId e) \<rparr>) (out_Successful r),
       Failed = map (\<lambda>e. \<lparr> bf_ID = ToString (er_Id e), bf_Code = ToString (er_Code e),
          bf_Message = ToString (er_Message e), bf_SenderFault = er_SenderFault e \<rparr>) (out_Failed r) \<rparr>"

text \<open>\<open>client\<close> is the SDK's \<open>SendMessageBatch\<close> on the queue URL and the entries.\<close>

definition SendBatch ::
  "(string \<Rightarrow> SendMessageBatchRequestEntry list \<Rightarrow> go_error + SendMessageBatchOutput) \<Rightarrow> string \<Rightarrow> BatchEntry list \<Rightarrow>
   go_error + BatchResponse" where
  "SendBatch client queueURL entries =
     (case client queueURL (map convert_entry entries) of
        Inl err \<Rightarrow> Inl err
      | Inr response \<Rightarrow> Inr (convert_response response))"

section \<open>Nothing is lost in translation\<close>

text \<open>What a service reads from an entry.\<close>

definition read_attribute :: "MessageAttributeValue \<Rightarrow> MessageAttribute" where
  "read_attribute a =
     \<lparr> DataType = ToString (av_DataType a), StringValue = ToString (av_StringValue a),
       BinaryValue = ToString (av_BinaryValue a),
       StringListValues = (case av_StringListValues a of Some l \<Rightarrow> l | None \<Rightarrow> []),
       BinaryListValues = (case av_BinaryListValues a of Some l \<Rightarrow> l | None \<Rightarrow> []),
       HasStringValue = (av_StringValue a \<noteq> None), HasBinaryValue = (av_BinaryValue a \<noteq> None),
       HasStringList = (av_StringListValues a \<noteq> None), HasBinaryList = (av_BinaryListValues a \<noteq> None) \<rparr>"

definition read_entry :: "SendMessageBatchRequestEntry \<Rightarrow> BatchEntry" where
  "read_entry e =
     \<lparr> be_ID = ToString (re_Id e), be_MessageBody = ToString (re_MessageBody e),
       be_Attributes = map (\<lambda>(k, a). (k, read_attribute a)) (re_MessageAttributes e),
       be_MessageGroupID = ToString (re_MessageGroupId e), be_DeduplicationID = ToString (re_MessageDeduplicationId e),
       be_DelaySeconds = (if re_DelaySeconds e = 0 then None else Some (re_DelaySeconds e)),
       be_AWSXRayTraceHeader = (case map_of (re_MessageSystemAttributes e) ''AWSTraceHeader'' of
          Some a \<Rightarrow> ToString (av_StringValue a) | None \<Rightarrow> []) \<rparr>"

text \<open>An attribute whose unused parts are empty, as the sender builds them.\<close>

definition clean_attribute :: "MessageAttribute \<Rightarrow> bool" where
  "clean_attribute v \<longleftrightarrow> (HasStringValue v \<or> StringValue v = []) \<and> (HasBinaryValue v \<or> BinaryValue v = []) \<and>
     (HasStringList v \<or> StringListValues v = []) \<and> (HasBinaryList v \<or> BinaryListValues v = [])"

lemma read_converted_attribute: "clean_attribute v \<Longrightarrow> read_attribute (convert_attribute v) = v"
  by (auto simp: clean_attribute_def read_attribute_def convert_attribute_def ToString_def)

lemma read_converted_attributes:
  "list_all (\<lambda>(k, v). clean_attribute v) m \<Longrightarrow> map (\<lambda>(k, a). (k, read_attribute a)) (convertAttributesToAWSSQS m) = m"
  by (induction m) (auto simp: convertAttributesToAWSSQS_def read_converted_attribute)

text \<open>The attributes the sender parses are of this form.\<close>

lemma parsed_attribute_clean: "sqsMessageAttributeValue v = Inr a \<Longrightarrow> clean_attribute a"
  by (auto simp: sqsMessageAttributeValue_def clean_attribute_def zero_attribute_def Let_def
      split: option.splits sum.splits if_splits)

lemma parsed_attributes_clean: "convert_attributes m = Inr as \<Longrightarrow> list_all (\<lambda>(k, v). clean_attribute v) as"
  by (induction m arbitrary: as rule: convert_attributes.induct)
    (auto split: sum.splits dest: parsed_attribute_clean)

text \<open>What the service answers in the terms of the sender: a nil pointer stands for an empty string.\<close>

definition stands_for :: "string option \<Rightarrow> string \<Rightarrow> bool" where
  "stands_for p s \<longleftrightarrow> p = Some s \<or> (p = None \<and> s = [])"

definition answers :: "SendMessageBatchOutput \<Rightarrow> BatchResponse \<Rightarrow> bool" where
  "answers out resp \<longleftrightarrow>
     list_all2 (\<lambda>o' s. stands_for (ok_Id o') (bs_ID s) \<and> stands_for (ok_MessageId o') (bs_MessageID s))
       (out_Successful out) (Successful resp) \<and>
     list_all2 (\<lambda>o' f. stands_for (er_Id o') (bf_ID f) \<and> stands_for (er_Code o') (bf_Code f) \<and>
         stands_for (er_Message o') (bf_Message f) \<and> er_SenderFault o' = bf_SenderFault f)
       (out_Failed out) (Failed resp)"

lemma ToString_stands: "stands_for p s \<Longrightarrow> ToString p = s"
  by (auto simp: stands_for_def ToString_def)

lemma converted_list: "list_all2 (\<lambda>x y. h x = y) xs ys \<Longrightarrow> map h xs = ys"
  by (induction rule: list_all2_induct) auto

lemma convert_response_answers:
  assumes "answers out resp"
  shows "convert_response out = resp"
proof -
  have "map (\<lambda>e. \<lparr> bs_ID = ToString (ok_Id e), bs_MessageID = ToString (ok_MessageId e) \<rparr>) (out_Successful out) = Successful resp"
    using assms by (intro converted_list, unfold answers_def) (auto elim!: list_all2_mono simp: ToString_stands)
  moreover have "map (\<lambda>e. \<lparr> bf_ID = ToString (er_Id e), bf_Code = ToString (er_Code e),
      bf_Message = ToString (er_Message e), bf_SenderFault = er_SenderFault e \<rparr>) (out_Failed out) = Failed resp"
    using assms by (intro converted_list, unfold answers_def) (auto elim!: list_all2_mono simp: ToString_stands)
  ultimately show ?thesis by (simp add: convert_response_def)
qed

lemma read_converted_entry:
  assumes "list_all (\<lambda>(k, v). clean_attribute v) (be_Attributes e)"
  shows "read_entry (convert_entry e) = (if be_DelaySeconds e = Some 0 then e\<lparr>be_DelaySeconds := None\<rparr> else e)"
  using read_converted_attributes[OF assms]
  by (cases "be_DelaySeconds e") (auto simp: read_entry_def convert_entry_def ToString_def)

text \<open>
  (C31) The SQS client loses nothing, a zero delay excepted. Take any service that maps a queue URL
  and a batch in the sender's terms to an error or an answer in the sender's terms, and any SDK
  call that hands it the URL and what it reads from the translated entries, and brings back its
  error, or its answer with every string as a pointer (nil for an empty one): then \<open>SendBatch\<close>
  is the service itself, applied to the queue URL it was given and the sender's entries, in order
  and with every field; only a delay of zero seconds reads as no delay. So identifiers, codes,
  messages and the sender-fault flag, which decides about poison, arrive as the service gave them.
\<close>

theorem sqs_client_faithful:
  assumes clean: "list_all (\<lambda>e. list_all (\<lambda>(k, v). clean_attribute v) (be_Attributes e)) entries"
    and client: "\<forall>u es. case service u (map read_entry es) of
        Inl err \<Rightarrow> client u es = Inl err
      | Inr resp \<Rightarrow> (\<exists>out. client u es = Inr out \<and> answers out resp)"
  shows "SendBatch client queueURL entries =
    service queueURL (map (\<lambda>e. if be_DelaySeconds e = Some 0 then e\<lparr>be_DelaySeconds := None\<rparr> else e) entries)"
proof -
  let ?es = "map convert_entry entries"
  have read: "map read_entry ?es = map (\<lambda>e. if be_DelaySeconds e = Some 0 then e\<lparr>be_DelaySeconds := None\<rparr> else e) entries"
    using clean read_converted_entry by (auto simp: list_all_iff)
  show ?thesis
  proof (cases "service queueURL (map read_entry ?es)")
    case (Inl err)
    then have "client queueURL ?es = Inl err" using client[THEN spec, of queueURL, THEN spec, of ?es] by simp
    then show ?thesis using Inl unfolding read by (simp add: SendBatch_def)
  next
    case (Inr resp)
    then obtain out where "client queueURL ?es = Inr out" "answers out resp"
      using client[THEN spec, of queueURL, THEN spec, of ?es] by auto
    then show ?thesis using Inr convert_response_answers unfolding read by (simp add: SendBatch_def)
  qed
qed

section \<open>One publisher per topic\<close>

text \<open>
  The operations of \<open>CloudPublisher\<close> and the calls they make. The mutex makes the lookup of a
  publisher atomic, so concurrent use is some sequence of operations. \<open>order\<close> is the order in which
  the map is ranged over by \<open>Close\<close>.
\<close>

datatype sdk_call =
    NewPublisher nat string
  | SDKPublish nat bytes "string gomap" string
  | SDKFlush nat
  | SDKResume nat string
  | SDKStop nat

datatype cloud_op = OpPublish Message | OpFlush string | OpResume string string

record CloudPublisher =
  publishers :: "(string \<times> nat) list"

definition topic_publisher :: "string \<Rightarrow> CloudPublisher \<Rightarrow> nat \<times> sdk_call list \<times> CloudPublisher" where
  "topic_publisher topic p =
     (case map_of (publishers p) topic of
        Some i \<Rightarrow> (i, [], p)
      | None \<Rightarrow> (let i = length (publishers p) in (i, [NewPublisher i topic], p\<lparr>publishers := publishers p @ [(topic, i)]\<rparr>)))"

fun cloud_step :: "cloud_op \<Rightarrow> CloudPublisher \<Rightarrow> sdk_call list \<times> CloudPublisher" where
  "cloud_step (OpPublish m) p =
     (case topic_publisher (msg_Topic m) p of (i, calls, p') \<Rightarrow>
        (calls @ [SDKPublish i (msg_Data m) (msg_Attributes m) (msg_OrderingKey m)], p'))"
| "cloud_step (OpFlush topic) p = (case topic_publisher topic p of (i, calls, p') \<Rightarrow> (calls @ [SDKFlush i], p'))"
| "cloud_step (OpResume topic key) p =
     (if key = [] then ([], p)
      else (case topic_publisher topic p of (i, calls, p') \<Rightarrow> (calls @ [SDKResume i key], p')))"

fun cloud_run :: "cloud_op list \<Rightarrow> CloudPublisher \<Rightarrow> sdk_call list \<times> CloudPublisher" where
  "cloud_run [] p = ([], p)"
| "cloud_run (op # ops) p =
     (case cloud_step op p of (calls, p') \<Rightarrow> (case cloud_run ops p' of (rest, p'') \<Rightarrow> (calls @ rest, p'')))"

definition cloud_Close :: "((string \<times> nat) list \<Rightarrow> (string \<times> nat) list) \<Rightarrow> CloudPublisher \<Rightarrow> sdk_call list" where
  "cloud_Close order p = map (\<lambda>(topic, i). SDKStop i) (order (publishers p))"

definition sample_entry :: BatchEntry where
  "sample_entry = \<lparr> be_ID = ''0'', be_MessageBody = ''hi'', be_Attributes = [(''k'', zero_attribute\<lparr>DataType := ''String'', StringValue := ''v'', HasStringValue := True\<rparr>)],
     be_MessageGroupID = [], be_DeduplicationID = [], be_DelaySeconds = Some 0, be_AWSXRayTraceHeader = ''Root=1'' \<rparr>"

text \<open>A service that refuses the entries of one queue as the sender's fault, and its SDK call.\<close>

definition sample_service :: "string \<Rightarrow> BatchEntry list \<Rightarrow> go_error + BatchResponse" where
  "sample_service u es =
     (if u = ''q'' then Inr \<lparr> Successful = [], Failed = map (\<lambda>e. \<lparr> bf_ID = be_ID e, bf_Code = ''InvalidMessageContents'',
        bf_Message = [], bf_SenderFault = True \<rparr>) es \<rparr>
      else Inl (ErrorString ''no such queue''))"

definition sample_sdk_call :: "string \<Rightarrow> SendMessageBatchRequestEntry list \<Rightarrow> go_error + SendMessageBatchOutput" where
  "sample_sdk_call u es =
     (if u = ''q'' then Inr \<lparr> out_Successful = [], out_Failed = map (\<lambda>e. \<lparr> er_Id = Some (be_ID (read_entry e)),
        er_Code = Some ''InvalidMessageContents'', er_Message = None, er_SenderFault = True \<rparr>) es \<rparr>
      else Inl (ErrorString ''no such queue''))"

theorem sqs_client_faithful_witness:
  "SendBatch sample_sdk_call ''q'' [sample_entry] = sample_service ''q'' [sample_entry\<lparr>be_DelaySeconds := None\<rparr>]"
proof -
  have "list_all (\<lambda>e. list_all (\<lambda>(k, v). clean_attribute v) (be_Attributes e)) [sample_entry]"
    by (simp add: sample_entry_def clean_attribute_def zero_attribute_def)
  moreover have "\<forall>u es. case sample_service u (map read_entry es) of Inl err \<Rightarrow> sample_sdk_call u es = Inl err
      | Inr resp \<Rightarrow> (\<exists>out. sample_sdk_call u es = Inr out \<and> answers out resp)"
    by (auto simp: sample_service_def sample_sdk_call_def answers_def stands_for_def list_all2_conv_all_nth)
  ultimately show ?thesis using sqs_client_faithful[where entries = "[sample_entry]" and service = sample_service and client = sample_sdk_call and queueURL = "''q''"] by (simp add: sample_entry_def)
qed

section \<open>What the cache guarantees\<close>

definition cache_inv :: "CloudPublisher \<Rightarrow> bool" where
  "cache_inv p \<longleftrightarrow> distinct (map fst (publishers p)) \<and> map snd (publishers p) = [0..<length (publishers p)]"

definition created :: "sdk_call list \<Rightarrow> (string \<times> nat) list" where
  "created calls = List.map_filter (\<lambda>c. case c of NewPublisher i t \<Rightarrow> Some (t, i) | _ \<Rightarrow> None) calls"

definition sends :: "sdk_call list \<Rightarrow> (nat \<times> bytes \<times> string gomap \<times> string) list" where
  "sends calls = List.map_filter (\<lambda>c. case c of SDKPublish i d a k \<Rightarrow> Some (i, d, a, k) | _ \<Rightarrow> None) calls"

definition messages :: "cloud_op list \<Rightarrow> Message list" where
  "messages ops = List.map_filter (\<lambda>op. case op of OpPublish m \<Rightarrow> Some m | _ \<Rightarrow> None) ops"

lemma trace_parts:
  "created [] = []" "created (c # cs) = (case c of NewPublisher i t \<Rightarrow> [(t, i)] | _ \<Rightarrow> []) @ created cs"
  "created (xs @ ys) = created xs @ created ys" "sends (xs @ ys) = sends xs @ sends ys"
  "sends [] = []" "sends (c # cs) = (case c of SDKPublish i d a k \<Rightarrow> [(i, d, a, k)] | _ \<Rightarrow> []) @ sends cs"
  "messages [] = []" "messages (op # ops) = (case op of OpPublish m \<Rightarrow> [m] | _ \<Rightarrow> []) @ messages ops"
  by (auto simp: created_def sends_def messages_def map_filter_simps map_filter_append split: sdk_call.splits cloud_op.splits)

lemma topic_publisher_step:
  assumes "cache_inv p" "topic_publisher topic p = (i, calls, p')"
  shows "cache_inv p'" "publishers p' = publishers p @ created calls" "map_of (publishers p') topic = Some i" "sends calls = []"
proof -
  have "cache_inv p' \<and> publishers p' = publishers p @ created calls \<and> map_of (publishers p') topic = Some i \<and> sends calls = []"
  proof (cases "map_of (publishers p) topic")
    case None
    then have "topic \<notin> set (map fst (publishers p))" by (simp add: map_of_eq_None_iff)
    then show ?thesis
      using assms None by (auto simp: topic_publisher_def cache_inv_def trace_parts Let_def map_add_def)
  qed (use assms in \<open>simp add: topic_publisher_def trace_parts\<close>)
  then show "cache_inv p'" "publishers p' = publishers p @ created calls" "map_of (publishers p') topic = Some i" "sends calls = []"
    by auto
qed

lemma cloud_step_trace:
  assumes "cache_inv p" "cloud_step op p = (calls, p')"
  shows "cache_inv p'" "publishers p' = publishers p @ created calls"
    "sends calls = map (\<lambda>m. (the (map_of (publishers p') (msg_Topic m)), msg_Data m, msg_Attributes m, msg_OrderingKey m)) (messages [op])"
  using assms by (cases op; auto simp: trace_parts topic_publisher_step(4) split: prod.splits if_splits
      dest: topic_publisher_step)+

interpretation cache: trace_refinement cloud_step cloud_run "\<lambda>pubs calls. pubs @ created calls" publishers cache_inv
  by unfold_locales (auto simp: trace_parts Let_def cloud_step_trace split: prod.splits)

lemma cloud_run_sends:
  assumes "cache_inv p" "cloud_run ops p = (calls, p')"
  shows "sends calls = map (\<lambda>m. (the (map_of (publishers p') (msg_Topic m)), msg_Data m, msg_Attributes m, msg_OrderingKey m)) (messages ops)"
  using assms
proof (induction ops arbitrary: p calls)
  case Nil
  then show ?case by (simp add: trace_parts)
next
  case (Cons op ops)
  obtain c1 p1 where one: "cloud_step op p = (c1, p1)" by fastforce
  obtain c2 where two: "cloud_run ops p1 = (c2, p')" "calls = c1 @ c2" using Cons.prems(2) one by (auto split: prod.splits)
  note s = cloud_step_trace[OF Cons.prems(1) one]
  note ih = Cons.IH[OF s(1) two(1)]
  have pub: "publishers p' = publishers p1 @ created c2" using cache.run_refines[OF s(1) two(1)] by simp
  have "the (map_of (publishers p') (msg_Topic m)) = the (map_of (publishers p1) (msg_Topic m))" if "m \<in> set (messages [op])" for m
  proof -
    have "op = OpPublish m" using that by (cases op) (auto simp: trace_parts)
    then obtain i c where "topic_publisher (msg_Topic m) p = (i, c, p1)" using one by (auto split: prod.splits)
    then have "map_of (publishers p1) (msg_Topic m) = Some i" using topic_publisher_step(3)[OF Cons.prems(1)] by blast
    then show ?thesis unfolding pub by (simp add: map_add_Some_iff map_add_def)
  qed
  then show ?case using ih s two(2) by (cases op) (auto simp: trace_parts)
qed

text \<open>
  One publisher per topic. Whatever is published, flushed and resumed, in any interleaving,
  each topic gets exactly one SDK publisher, different topics different ones, every message goes
  to the publisher of its topic with its data, attributes and ordering key, in the order of the
  calls, and closing stops every publisher exactly once.
\<close>

theorem one_publisher_per_topic:
  assumes "cloud_run ops \<lparr> publishers = [] \<rparr> = (calls, p)" "mset (order (publishers p)) = mset (publishers p)"
  shows "created calls = publishers p \<and> distinct (map fst (created calls)) \<and> distinct (map snd (created calls)) \<and>
    sends calls = map (\<lambda>m. (the (map_of (created calls) (msg_Topic m)), msg_Data m, msg_Attributes m, msg_OrderingKey m)) (messages ops) \<and>
    mset (cloud_Close order p) = mset (map (\<lambda>(t, i). SDKStop i) (created calls))"
proof -
  have start: "cache_inv \<lparr> publishers = [] \<rparr>" by (simp add: cache_inv_def)
  from cache.run_refines[OF start assms(1)] cloud_run_sends[OF start assms(1)]
  have t: "cache_inv p" "publishers p = created calls"
    "sends calls = map (\<lambda>m. (the (map_of (publishers p) (msg_Topic m)), msg_Data m, msg_Attributes m, msg_OrderingKey m)) (messages ops)"
    by auto
  have "distinct (map fst (publishers p))" "distinct (map snd (publishers p))" using t(1) by (simp_all add: cache_inv_def)
  moreover have "mset (cloud_Close order p) = mset (map (\<lambda>(t, i). SDKStop i) (publishers p))"
    by (simp add: cloud_Close_def assms(2))
  ultimately show ?thesis using t by simp
qed

definition sample_message :: "string \<Rightarrow> string \<Rightarrow> Message" where
  "sample_message topic data = \<lparr> msg_Topic = topic, msg_Data = data, msg_OrderingKey = ''k'', msg_Attributes = [] \<rparr>"

theorem one_publisher_per_topic_witness:
  "distinct (map fst (created (fst (cloud_run [OpPublish (sample_message ''a'' ''1''), OpPublish (sample_message ''b'' ''2''),
     OpResume ''a'' ''k''] \<lparr> publishers = [] \<rparr>))))"
proof -
  let ?r = "cloud_run [OpPublish (sample_message ''a'' ''1''), OpPublish (sample_message ''b'' ''2''), OpResume ''a'' ''k''] \<lparr> publishers = [] \<rparr>"
  have "?r = (fst ?r, snd ?r)" by simp
  moreover have "mset (rev (publishers (snd ?r))) = mset (publishers (snd ?r))" by (rule mset_rev)
  ultimately show ?thesis using one_publisher_per_topic by blast
qed

end
