(* ===== verification/Wake_Ups.thy ===== *)
theory Wake_Ups
  imports Config Routing_SQL Trace_Refinement
begin

text \<open>
  Waiting for new events: the notification listener of \<open>notify.go\<close> with \<open>waitForEvents\<close> and
  \<open>sleepContext\<close> of \<open>processor.go\<close>, and the deferred close of \<open>processEvents\<close>. The connections taken
  from the pool are numbered; what the database and the clock answer is an environment per call.
\<close>

section \<open>The listener\<close>

text \<open>What is done to connections and to time; a flag tells whether a statement worked.\<close>

datatype conn_act =
    TakeConn nat
  | Listen nat string bool
  | Unlisten nat bool
  | MarkBad nat
  | ReleaseConn nat
  | AwaitNotification nat int
  | DrainOne nat int
  | Sleep int

record listener_state =
  ls_listener :: "nat option"
  ls_taken :: nat

text \<open>
  One idle cycle: whether a connection can be had, whether \<open>LISTEN\<close> works, whether the wait ends by
  a notification (with the number that were buffered behind it), by its time window or by a
  failure of the connection, whether the parent context is cancelled by then, and whether
  \<open>UNLISTEN\<close> works on a close.
\<close>

datatype wait_outcome = Notified nat | WindowEnded | ConnFailed go_error

record idle_env =
  id_conn :: "go_error option"
  id_listen :: "go_error option"
  id_wait :: wait_outcome
  id_cancelled :: bool
  id_unlisten :: "go_error option"

definition startListener ::
  "(string list \<Rightarrow> string) \<Rightarrow> appConfig \<Rightarrow> idle_env \<Rightarrow> listener_state \<Rightarrow> conn_act list \<times> (go_error + nat) \<times> listener_state" where
  "startListener san cfg env st =
     (case id_conn env of
        Some err \<Rightarrow> ([], Inl err, st)
      | None \<Rightarrow>
          (let c = ls_taken st; st' = st\<lparr>ls_taken := Suc c\<rparr> in
           case id_listen env of
             Some err \<Rightarrow> ([TakeConn c, Listen c (''LISTEN '' @ ident san (NotifyChannel cfg)) False, ReleaseConn c], Inl err, st')
           | None \<Rightarrow> ([TakeConn c, Listen c (''LISTEN '' @ ident san (NotifyChannel cfg)) True], Inr c, st')))"

text \<open>Safe on a nil listener; the subscription is removed, or the connection is discarded.\<close>

definition close_listener :: "go_error option \<Rightarrow> nat option \<Rightarrow> conn_act list" where
  "close_listener unlistenErr l =
     (case l of
        None \<Rightarrow> []
      | Some c \<Rightarrow> [Unlisten c (unlistenErr = None)] @ (if unlistenErr = None then [] else [MarkBad c]) @ [ReleaseConn c])"

text \<open>One wait per buffered notification, and one more that ends the loop with its timeout.\<close>

primrec drainNotifications :: "nat \<Rightarrow> nat \<Rightarrow> conn_act list" where
  "drainNotifications c 0 = [DrainOne c time_Millisecond]"
| "drainNotifications c (Suc buffered) = DrainOne c time_Millisecond # drainNotifications c buffered"

text \<open>A cancelled parent context ends the wait's own window, so it is no failure.\<close>

definition wait_listener :: "nat \<Rightarrow> int \<Rightarrow> idle_env \<Rightarrow> conn_act list \<times> go_error option" where
  "wait_listener c timeout env =
     (case id_wait env of
        Notified buffered \<Rightarrow> ([AwaitNotification c timeout] @ drainNotifications c buffered, None)
      | WindowEnded \<Rightarrow> ([AwaitNotification c timeout], None)
      | ConnFailed err \<Rightarrow> ([AwaitNotification c timeout], if id_cancelled env then None else Some err))"

definition sleepContext :: "int \<Rightarrow> conn_act list" where
  "sleepContext d = (if d \<le> 0 then [] else [Sleep d])"

definition waitForEvents ::
  "(string list \<Rightarrow> string) \<Rightarrow> appConfig \<Rightarrow> idle_env \<Rightarrow> listener_state \<Rightarrow> conn_act list \<times> listener_state" where
  "waitForEvents san cfg env st =
     (case (case ls_listener st of
          Some c \<Rightarrow> ([], Inr c, st)
        | None \<Rightarrow> startListener san cfg env st) of
        (acts, Inl err, st') \<Rightarrow> (acts @ sleepContext pollInterval, st')
      | (acts, Inr c, st') \<Rightarrow>
          (case wait_listener c pollInterval env of
             (acts', None) \<Rightarrow> (acts @ acts', st'\<lparr>ls_listener := Some c\<rparr>)
           | (acts', Some err) \<Rightarrow>
               if id_cancelled env then (acts @ acts', st'\<lparr>ls_listener := Some c\<rparr>)
               else (acts @ acts' @ close_listener (id_unlisten env) (Some c), st'\<lparr>ls_listener := None\<rparr>)))"

text \<open>The idle cycles of \<open>processEvents\<close> and its deferred close; other work uses other connections.\<close>

fun idle_cycles ::
  "(string list \<Rightarrow> string) \<Rightarrow> appConfig \<Rightarrow> idle_env list \<Rightarrow> listener_state \<Rightarrow> conn_act list \<times> listener_state" where
  "idle_cycles san cfg [] st = ([], st)"
| "idle_cycles san cfg (env # envs) st =
     (case waitForEvents san cfg env st of
        (acts, st') \<Rightarrow> (case idle_cycles san cfg envs st' of (rest, st'') \<Rightarrow> (acts @ rest, st'')))"

definition listener_life ::
  "(string list \<Rightarrow> string) \<Rightarrow> appConfig \<Rightarrow> idle_env list \<Rightarrow> go_error option \<Rightarrow> conn_act list" where
  "listener_life san cfg envs unlistenErr =
     (case idle_cycles san cfg envs \<lparr> ls_listener = None, ls_taken = 0 \<rparr> of
        (acts, st) \<Rightarrow> acts @ close_listener unlistenErr (ls_listener st))"

section \<open>The life of a connection\<close>

text \<open>
  The rules for the listener's connections as a state machine: one connection at a time; waiting
  only while subscribed; back to the pool only if not subscribed, which is after \<open>LISTEN\<close> failed,
  after \<open>UNLISTEN\<close> worked, or after the connection was marked bad because it did not.
\<close>

datatype pool_state = NoConn | Taken nat | Subscribed nat | Doubtful nat | Releasable nat | Broken

fun pool_step :: "pool_state \<Rightarrow> conn_act \<Rightarrow> pool_state" where
  "pool_step NoConn (TakeConn c) = Taken c"
| "pool_step NoConn (Sleep d) = NoConn"
| "pool_step (Taken c) (Listen d ch ok) = (if d = c then if ok then Subscribed c else Releasable c else Broken)"
| "pool_step (Subscribed c) (AwaitNotification d t) = (if d = c then Subscribed c else Broken)"
| "pool_step (Subscribed c) (DrainOne d t) = (if d = c then Subscribed c else Broken)"
| "pool_step (Subscribed c) (Unlisten d ok) = (if d = c then if ok then Releasable c else Doubtful c else Broken)"
| "pool_step (Doubtful c) (MarkBad d) = (if d = c then Releasable c else Broken)"
| "pool_step (Releasable c) (ReleaseConn d) = (if d = c then NoConn else Broken)"
| "pool_step s a = Broken"

definition pool_run :: "pool_state \<Rightarrow> conn_act list \<Rightarrow> pool_state" where
  "pool_run s acts = foldl pool_step s acts"

lemma pool_run_simps [simp]:
  "pool_run s [] = s" "pool_run s (a # as) = pool_run (pool_step s a) as" "pool_run s (xs @ ys) = pool_run (pool_run s xs) ys"
  by (simp_all add: pool_run_def)

definition listener_pool :: "listener_state \<Rightarrow> pool_state" where
  "listener_pool st = (case ls_listener st of None \<Rightarrow> NoConn | Some c \<Rightarrow> Subscribed c)"

lemma close_listener_pool:
  "pool_run (case l of None \<Rightarrow> NoConn | Some c \<Rightarrow> Subscribed c) (close_listener err l) = NoConn"
  by (auto simp: close_listener_def split: option.splits)

definition wait_time :: "conn_act \<Rightarrow> int option" where
  "wait_time a = (case a of AwaitNotification c t \<Rightarrow> Some t | Sleep t \<Rightarrow> Some t | _ \<Rightarrow> None)"

lemma drain_keeps:
  "pool_run (Subscribed c) (drainNotifications c n) = Subscribed c \<and> List.map_filter wait_time (drainNotifications c n) = []"
  by (induction n) (auto simp: wait_time_def map_filter_simps)

lemma waitForEvents_step:
  assumes "waitForEvents san cfg env st = (acts, st')"
  shows "pool_run (listener_pool st) acts = listener_pool st' \<and> List.map_filter wait_time acts = [pollInterval]"
proof -
  have "pollInterval > 0" by (simp add: pollInterval_def time_Second_def time_Millisecond_def)
  then show ?thesis
    using assms
    by (cases "ls_listener st"; cases "id_conn env"; cases "id_listen env"; cases "id_wait env"; cases "id_cancelled env")
      (auto simp: waitForEvents_def startListener_def wait_listener_def listener_pool_def close_listener_def Let_def
        sleepContext_def drain_keeps wait_time_def map_filter_simps split: if_splits)
qed

interpretation pool: trace_refinement "waitForEvents san cfg" "idle_cycles san cfg" pool_run listener_pool "\<lambda>_. True" for san cfg
  by unfold_locales (auto simp: Let_def waitForEvents_step split: prod.splits)

text \<open>
  (C32) Listener connections are never leaked. Over any number of idle cycles, whatever fails in
  them, and the close at the end: at most one connection is held, waiting happens only on a
  subscribed connection, none goes back to the pool with a subscription, all are released at
  the end, and each cycle waits exactly once, for at most the poll interval.
\<close>

theorem listener_never_leaks:
  "pool_run NoConn (listener_life san cfg envs err) = NoConn \<and>
   List.map_filter wait_time (listener_life san cfg envs err) = replicate (length envs) pollInterval"
proof -
  obtain acts st where life: "idle_cycles san cfg envs \<lparr> ls_listener = None, ls_taken = 0 \<rparr> = (acts, st)" by fastforce
  have "List.map_filter wait_time (close_listener err l) = []" for l
    by (auto simp: close_listener_def wait_time_def map_filter_simps split: option.splits)
  moreover have "List.map_filter wait_time acts = replicate (length envs) pollInterval"
    by (rule pool.run_counts[OF _ TrueI life]) (simp add: waitForEvents_step)
  ultimately show ?thesis
    using pool.run_refines[OF TrueI life] close_listener_pool[of "ls_listener st" err]
    by (simp add: listener_life_def life listener_pool_def map_filter_append)
qed

end
