(* ===== verification/Metrics.thy ===== *)
theory Metrics
  imports Monitoring
begin

text \<open>
  \<open>metrics.go\<close>: the Prometheus text exposition of the counters and gauges, and the statement that a
  scraper reads back exactly the values the relay keeps. The text of a duration in seconds
  (\<open>strconv.FormatFloat\<close> of the milliseconds over 1000) is the argument \<open>formatSeconds\<close>.
\<close>

section \<open>The exposition\<close>

record metric =
  mt_name :: string
  mt_help :: string
  mt_type :: string
  mt_value :: string

definition writeMetric :: "metric \<Rightarrow> string" where
  "writeMetric m =
     ''# HELP '' @ mt_name m @ '' '' @ mt_help m @ [CHR 0x0A] @
     ''# TYPE '' @ mt_name m @ '' '' @ mt_type m @ [CHR 0x0A] @
     mt_name m @ '' '' @ mt_value m @ [CHR 0x0A]"

definition writeCounter :: "string \<Rightarrow> string \<Rightarrow> int \<Rightarrow> metric" where
  "writeCounter name hp v = \<lparr> mt_name = name, mt_help = hp, mt_type = ''counter'', mt_value = Itoa v \<rparr>"

definition writeGauge :: "string \<Rightarrow> string \<Rightarrow> string \<Rightarrow> metric" where
  "writeGauge name hp v = \<lparr> mt_name = name, mt_help = hp, mt_type = ''gauge'', mt_value = v \<rparr>"

text \<open>The metrics in the order they are written.\<close>

definition counter_metrics :: "statsSnapshot \<Rightarrow> metric list" where
  "counter_metrics s =
     [writeCounter ''outboxer_events_selected_total'' ''Events selected from the outbox table by committed batches.'' (sn_selected s),
      writeCounter ''outboxer_events_sent_total'' ''Events confirmed by a publishing provider and deleted.'' (sn_sent s),
      writeCounter ''outboxer_events_poison_total'' ''Poison events deleted without a dead-letter table.'' (sn_poison s),
      writeCounter ''outboxer_events_dlq_total'' ''Poison events written to the dead-letter table.'' (sn_dlq s),
      writeCounter ''outboxer_events_kept_for_retry_total''
        ''Events left pending after their batch, summed per batch: one event retried across N batches counts N times.''
        (sn_keptForRetry s),
      writeCounter ''outboxer_batches_processed_total'' ''Batches committed, including empty ones.'' (sn_batchesProcessed s),
      writeCounter ''outboxer_batch_errors_total'' ''Batches that failed on a database error and rolled back.'' (sn_batchErrors s),
      writeCounter ''outboxer_sender_errors_total''
        ''Errors returned by publishing providers; the affected events stay pending.'' (sn_senderErrors s),
      writeCounter ''outboxer_fatal_after_commit_errors_total''
        ''Fatal sender errors that stop the relay after committing completed work.'' (sn_fatalAfterCommitErrors s)]"

definition gauge_metrics :: "(int \<Rightarrow> string) \<Rightarrow> appConfig \<Rightarrow> appStats \<Rightarrow> metric list" where
  "gauge_metrics formatSeconds cfg s =
     [writeGauge ''outboxer_collect_batch_target''
        ''Configured COLLECT_BATCH_TARGET; the last batch is saturated when it selected this many events.''
        (Itoa (CollectBatchTarget cfg)),
      writeGauge ''outboxer_last_batch_selected_events'' ''Events selected by the most recent committed batch.''
        (Itoa (lastBatchSelected s)),
      writeGauge ''outboxer_events_pending_retry''
        ''Events that failed to send in the most recent committed batch and remain pending.'' (Itoa (lastBatchKeptForRetry s))] @
     (if EventTimestamp cfg \<noteq> []
      then [writeGauge ''outboxer_oldest_event_age_seconds''
        ''Age of the oldest event selected by the most recent committed batch; 0 when the outbox was empty. This is the outbox lag.''
        (formatSeconds (oldestEventAgeMillis s))]
      else []) @
     [writeGauge ''outboxer_last_batch_db_seconds''
        ''Database time (select, dead-letter insert, delete) of the most recent committed batch.''
        (formatSeconds (lastBatchDBMillis s)),
      writeGauge ''outboxer_last_batch_publish_seconds'' ''Provider publish time of the most recent committed batch.''
        (formatSeconds (lastBatchPublishMillis s)),
      writeGauge ''outboxer_backlog_events''
        (''This relay'' @ [char_of (39 :: nat)] @ ''s pending events after the last committed batch: exact when the batch drained every route, otherwise the bounded probe'' @ [char_of (39 :: nat)] @ ''s count.'')
        (Itoa (backlogEvents s)),
      writeGauge ''outboxer_backlog_floor''
        ''1 when outboxer_backlog_events is only a lower bound (probe hit its scan cap or no batch committed yet).''
        (Itoa (backlogFloor s)),
      writeGauge ''outboxer_last_successful_batch_timestamp_seconds''
        ''Unix time of the last committed batch (startup time until the first one).''
        (formatSeconds (lastSuccessUnixMilli s))]"

definition writeMetrics :: "(int \<Rightarrow> string) \<Rightarrow> appConfig \<Rightarrow> appStats \<Rightarrow> string" where
  "writeMetrics formatSeconds cfg s = concat (map writeMetric (counter_metrics (counters s) @ gauge_metrics formatSeconds cfg s))"

section \<open>What a scraper reads\<close>

text \<open>The samples of an exposition: the lines that are neither empty nor comments, cut at the space.\<close>

definition read_sample :: "string \<Rightarrow> (string \<times> string) option" where
  "read_sample line =
     (if line = [] \<or> hd line = CHR ''#'' then None
      else (case Cut line (CHR '' '') of (name, v, found) \<Rightarrow> if found then Some (name, v) else None))"

definition read_exposition :: "string \<Rightarrow> (string \<times> string) list" where
  "read_exposition text = List.map_filter read_sample (Split (CHR 0x0A) text)"

text \<open>A metric whose parts do not disturb the format.\<close>

definition clean_metric :: "metric \<Rightarrow> bool" where
  "clean_metric m \<longleftrightarrow> mt_name m \<noteq> [] \<and> hd (mt_name m) \<noteq> CHR ''#'' \<and> CHR '' '' \<notin> set (mt_name m) \<and>
     list_all (\<lambda>s. CHR 0x0A \<notin> set s) [mt_name m, mt_help m, mt_type m, mt_value m]"

lemma Cut_space: "CHR '' '' \<notin> set n \<Longrightarrow> Cut (n @ CHR '' '' # v) (CHR '' '') = (n, v, True)"
proof -
  assume "CHR '' '' \<notin> set n"
  then have "takeWhile (\<lambda>c. c \<noteq> CHR '' '') (n @ CHR '' '' # v) = n" "dropWhile (\<lambda>c. c \<noteq> CHR '' '') (n @ CHR '' '' # v) = CHR '' '' # v"
    by (induction n) auto
  then show ?thesis by (simp add: Cut_def)
qed

lemma Split_line: "CHR 0x0A \<notin> set l \<Longrightarrow> Split (CHR 0x0A) (l @ CHR 0x0A # rest) = l # Split (CHR 0x0A) rest"
  by (induction l) auto

lemma sample_after_comments:
  "f a = None \<Longrightarrow> f b = None \<Longrightarrow> f c = Some d \<Longrightarrow>
     List.map_filter f ([a, b, c] @ xs) = d # List.map_filter f xs"
  by (simp add: map_filter_simps)

lemma read_metric:
  assumes "clean_metric m"
  shows "read_exposition (writeMetric m @ rest) = (mt_name m, mt_value m) # read_exposition rest"
proof -
  let ?hp = "''# HELP '' @ mt_name m @ '' '' @ mt_help m" and ?type = "''# TYPE '' @ mt_name m @ '' '' @ mt_type m"
    and ?sample = "mt_name m @ '' '' @ mt_value m"
  have c: "mt_name m \<noteq> []" "hd (mt_name m) \<noteq> CHR ''#''" "CHR '' '' \<notin> set (mt_name m)" "CHR 0x0A \<notin> set (mt_name m)"
    "CHR 0x0A \<notin> set (mt_help m)" "CHR 0x0A \<notin> set (mt_type m)" "CHR 0x0A \<notin> set (mt_value m)"
    using assms by (simp_all add: clean_metric_def)
  have lines: "CHR 0x0A \<notin> set ?hp" "CHR 0x0A \<notin> set ?type" "CHR 0x0A \<notin> set ?sample" using c by auto
  have "writeMetric m @ rest = ?hp @ CHR 0x0A # ?type @ CHR 0x0A # ?sample @ CHR 0x0A # rest" by (simp add: writeMetric_def)
  then have "Split (CHR 0x0A) (writeMetric m @ rest) = [?hp, ?type, ?sample] @ Split (CHR 0x0A) rest"
    using Split_line[OF lines(1)] Split_line[OF lines(2)] Split_line[OF lines(3)] by (simp only: append.simps)
  moreover have "read_sample ?hp = None" "read_sample ?type = None" by (simp_all add: read_sample_def)
  moreover have "read_sample ?sample = Some (mt_name m, mt_value m)" using c by (simp add: read_sample_def Cut_space hd_append)
  ultimately show ?thesis unfolding read_exposition_def by (simp only: sample_after_comments)
qed

lemma read_metrics:
  "list_all clean_metric ms \<Longrightarrow> read_exposition (concat (map writeMetric ms)) = map (\<lambda>m. (mt_name m, mt_value m)) ms"
proof (induction ms)
  case Nil
  then show ?case by (simp add: read_exposition_def read_sample_def map_filter_simps)
qed (simp add: read_metric)

lemma Itoa_no_newline: "CHR 0x0A \<notin> set (Itoa n)"
proof -
  have "c \<noteq> CHR 0x0A" if "c \<in> set (dec_nat k)" for c k using dec_nat_chars[OF that] by auto
  then show ?thesis by (auto simp: Itoa_def)
qed

lemma counters_clean: "list_all clean_metric (counter_metrics s)"
  by (simp add: counter_metrics_def clean_metric_def writeCounter_def Itoa_no_newline)

lemma gauges_clean:
  assumes "\<forall>ms. CHR 0x0A \<notin> set (formatSeconds ms)"
  shows "list_all clean_metric (gauge_metrics formatSeconds cfg s)"
proof -
  have "char_of (39 :: nat) \<noteq> CHR 0x0A"
  proof
    assume "char_of (39 :: nat) = CHR 0x0A"
    then have "(of_char (char_of (39 :: nat)) :: nat) = of_char (CHR 0x0A)" by simp
    then show False by simp
  qed
  then show ?thesis using assms by (simp add: gauge_metrics_def clean_metric_def writeGauge_def Itoa_no_newline eq_commute[of "CHR 0x0A"])
qed

text \<open>
  A scraper reads back the relay's numbers: reading the exposition gives, for each counter
  and gauge, once and under its name, the decimal of the value in the statistics; the age of the
  oldest event is there exactly when a timestamp column is configured.
\<close>

theorem metrics_read_back:
  assumes "\<forall>ms. CHR 0x0A \<notin> set (formatSeconds ms)"
  shows "read_exposition (writeMetrics formatSeconds cfg s) =
     [(''outboxer_events_selected_total'', Itoa (sn_selected (counters s))),
      (''outboxer_events_sent_total'', Itoa (sn_sent (counters s))),
      (''outboxer_events_poison_total'', Itoa (sn_poison (counters s))),
      (''outboxer_events_dlq_total'', Itoa (sn_dlq (counters s))),
      (''outboxer_events_kept_for_retry_total'', Itoa (sn_keptForRetry (counters s))),
      (''outboxer_batches_processed_total'', Itoa (sn_batchesProcessed (counters s))),
      (''outboxer_batch_errors_total'', Itoa (sn_batchErrors (counters s))),
      (''outboxer_sender_errors_total'', Itoa (sn_senderErrors (counters s))),
      (''outboxer_fatal_after_commit_errors_total'', Itoa (sn_fatalAfterCommitErrors (counters s))),
      (''outboxer_collect_batch_target'', Itoa (CollectBatchTarget cfg)),
      (''outboxer_last_batch_selected_events'', Itoa (lastBatchSelected s)),
      (''outboxer_events_pending_retry'', Itoa (lastBatchKeptForRetry s))] @
     (if EventTimestamp cfg = [] then [] else [(''outboxer_oldest_event_age_seconds'', formatSeconds (oldestEventAgeMillis s))]) @
     [(''outboxer_last_batch_db_seconds'', formatSeconds (lastBatchDBMillis s)),
      (''outboxer_last_batch_publish_seconds'', formatSeconds (lastBatchPublishMillis s)),
      (''outboxer_backlog_events'', Itoa (backlogEvents s)),
      (''outboxer_backlog_floor'', Itoa (backlogFloor s)),
      (''outboxer_last_successful_batch_timestamp_seconds'', formatSeconds (lastSuccessUnixMilli s))] \<and>
    distinct (map fst (read_exposition (writeMetrics formatSeconds cfg s)))"
proof -
  have "list_all clean_metric (counter_metrics (counters s) @ gauge_metrics formatSeconds cfg s)"
    using counters_clean gauges_clean[OF assms] by simp
  from read_metrics[OF this] show ?thesis
    by (simp add: writeMetrics_def counter_metrics_def gauge_metrics_def writeCounter_def writeGauge_def)
qed

theorem metrics_read_back_witness:
  "map_of (read_exposition (writeMetrics Itoa defaultConfig (newAppStats 0))) ''outboxer_backlog_floor'' = Some (Itoa 1)"
proof -
  have "\<forall>ms. CHR 0x0A \<notin> set (Itoa ms)" using Itoa_no_newline by simp
  note r = metrics_read_back[OF this, of defaultConfig "newAppStats 0"]
  have "backlogFloor (newAppStats 0) = 1" by (simp add: newAppStats_def)
  then show ?thesis using r by simp
qed

end
