(* ===== verification/Relay_Accounting.thy ===== *)
theory Relay_Accounting
  imports Relay Metrics Monitoring_Facts
begin

text \<open>
  The numbers the relay reports against the tables it works on: over any run the counters account
  for every row that left the outbox and for every dead letter, and the exposition shows these
  counters. All counters are kept modulo \<open>2 ^ 64\<close>.
\<close>

section \<open>The balance of a state\<close>

definition settled_total :: "statsSnapshot \<Rightarrow> int" where
  "settled_total s = sn_sent s + sn_poison s + sn_dlq s"

definition balance :: "app_state \<Rightarrow> int" where
  "balance st = settled_total (counters (as_stats st)) + int (length (as_outbox st))"

definition dlq_balance :: "app_state \<Rightarrow> int" where
  "dlq_balance st = sn_dlq (counters (as_stats st)) - int (length (as_dlq st))"

text \<open>A failed commit that took effect anyway is the one thing the counters cannot know of.\<close>

definition unambiguous :: "batch_env \<Rightarrow> bool" where
  "unambiguous env \<longleftrightarrow> (case be_commit env of CommitOK \<Rightarrow> True | CommitFailed _ applied \<Rightarrow> \<not> applied)"

text \<open>The iterations of a run whose batch was started.\<close>

fun batches_run ::
  "fmt \<Rightarrow> golib \<Rightarrow> pg \<Rightarrow> appConfig \<Rightarrow> string list \<Rightarrow> app_state \<Rightarrow> batch_env list \<Rightarrow> batch_env list" where
  "batches_run F L P cfg cols st [] = []"
| "batches_run F L P cfg cols st (env # envs) =
     (if be_cancelled env then []
      else env # (if fst (processEvents F L P cfg cols st [env]) = Running
        then batches_run F L P cfg cols (next_state F L P cfg cols env st) envs else []))"

section \<open>One batch\<close>

lemma wrap64_ex: "\<exists>k. wrap64 x = x + k * 2 ^ 64"
proof -
  have "2 ^ 64 dvd wrap64 x - x" using wrap64_mod[of x] by (simp add: mod_eq_dvd_iff)
  then obtain k where "wrap64 x - x = 2 ^ 64 * k" by (elim dvdE)
  then have "wrap64 x = x + k * 2 ^ 64" by simp
  then show ?thesis ..
qed

lemma settled_total_add:
  "settled_total (add_batch s b) mod 2 ^ 64 = (settled_total s + bs_sent b + bs_poison b + bs_dlq b) mod 2 ^ 64"
proof -
  obtain k1 where 1: "wrap64 (sn_sent s + bs_sent b) = sn_sent s + bs_sent b + k1 * 2 ^ 64" using wrap64_ex by blast
  obtain k2 where 2: "wrap64 (sn_poison s + bs_poison b) = sn_poison s + bs_poison b + k2 * 2 ^ 64" using wrap64_ex by blast
  obtain k3 where 3: "wrap64 (sn_dlq s + bs_dlq b) = sn_dlq s + bs_dlq b + k3 * 2 ^ 64" using wrap64_ex by blast
  have "settled_total (add_batch s b) =
      wrap64 (sn_sent s + bs_sent b) + wrap64 (sn_poison s + bs_poison b) + wrap64 (sn_dlq s + bs_dlq b)"
    by (simp add: settled_total_def add_batch_def)
  also have "\<dots> = (settled_total s + bs_sent b + bs_poison b + bs_dlq b) + (k1 + k2 + k3) * 2 ^ 64"
    unfolding 1 2 3 settled_total_def by algebra
  finally have "settled_total (add_batch s b) =
      (settled_total s + bs_sent b + bs_poison b + bs_dlq b) + (k1 + k2 + k3) * 2 ^ 64" .
  then show ?thesis by (simp only: mod_mult_self1)
qed

lemma settled_rows:
  assumes ok: "outbox_ok P cfg cols rows" and sel: "selectEvents L P cfg cols rows None None = Inr events"
  shows "length (filter (settled L cfg env events) rows) =
    length (filter (\<lambda>e. batch_fate L cfg env events e \<noteq> Kept) events)"
proof -
  let ?E = "{e. e \<in> set events \<and> batch_fate L cfg env events e \<noteq> Kept}"
  note s = selected_events[OF ok sel]
  have de: "distinct events" using s(2) by (simp add: keys_unique_def distinct_map)
  have inj: "inj_on columns ?E"
  proof (rule inj_onI)
    fix a b assume a: "a \<in> ?E" and b: "b \<in> ?E" and "columns a = columns b"
    then have "event_id cfg a = event_id cfg b" using s(3)[of a] s(3)[of b] by auto
    then have "event_key L cfg a = event_key L cfg b" by (simp add: event_key_id)
    then show "a = b" using s(2) a b by (auto simp: keys_unique_def distinct_map dest: inj_onD)
  qed
  have "{row. row \<in> set rows \<and> settled L cfg env events row} = columns ` ?E"
    using s(3) by (auto simp: settled_def list_ex_iff)
  then have "card (set (filter (settled L cfg env events) rows)) =
      card (set (filter (\<lambda>e. batch_fate L cfg env events e \<noteq> Kept) events))"
    using card_image[OF inj] unfolding set_filter by simp
  moreover have "distinct (filter (settled L cfg env events) rows)"
    using ids_unique_distinct[OF outbox_okD(1)[OF ok]] by simp
  moreover have "distinct (filter (\<lambda>e. batch_fate L cfg env events e \<noteq> Kept) events)" using de by simp
  ultimately show ?thesis by (simp only: distinct_card)
qed

lemma committed_balance:
  assumes ok: "outbox_ok P cfg cols (as_outbox st @ be_inserted env)" and arr: "arrival_ok env"
    and b: "processEventBatch F L P cfg cols env (as_outbox st) = (r, batchErr, w)" and noerr: "\<not> is_err batchErr errDatabaseBatch"
    and st': "st' = apply_tx cfg w (st\<lparr>as_outbox := as_outbox st @ be_inserted env,
      as_stats := addCommittedBatch (as_stats st) (br_stats r) (be_done env)\<rparr>)"
  shows "balance st' mod 2 ^ 64 = (balance st + int (length (be_inserted env))) mod 2 ^ 64 \<and>
    dlq_balance st' mod 2 ^ 64 = dlq_balance st mod 2 ^ 64"
proof -
  have ok': "outbox_ok P cfg cols (as_outbox st)" by (rule outbox_ok_append[OF ok])
  obtain events where sel: "selectEvents L P cfg cols (as_outbox st) None None = Inr events"
    by (rule batch_success[OF ok' b noerr]) blast
  let ?c = "counters (as_stats st)" and ?b = "br_stats r" and ?f = "batch_fate L cfg env events"
  note counts = batch_counts[OF ok' arr b noerr sel]
  have fates: "(?f e \<noteq> Kept) = (?f e = Delivered \<or> is_dead (?f e))" for e by (cases "?f e") auto
  have kept: "length (filter (\<lambda>e. ?f e \<noteq> Kept) events) =
      length (filter (\<lambda>e. ?f e = Delivered) events) + length (filter (\<lambda>e. is_dead (?f e)) events)"
    unfolding fates by (rule length_filter_disjoint[symmetric]) (auto simp: is_dead_iff)
  have "as_outbox st' = filter (\<lambda>row. \<not> settled L cfg env events row) (as_outbox st) @ be_inserted env"
    using st' delete_rows_settled[OF ok sel] counts by (simp add: apply_tx_def)
  then have len: "int (length (as_outbox st')) = int (length (as_outbox st)) + int (length (be_inserted env)) -
      (bs_sent ?b + bs_poison ?b + bs_dlq ?b)"
    using settled_rows[OF ok' sel, of env] kept counts sum_length_filter_compl[of "settled L cfg env events" "as_outbox st"] by simp
  have dq: "as_dlq st' = as_dlq st @ tx_dead w" using st' by (simp add: apply_tx_def)
  have c: "counters (as_stats st') = add_batch ?c ?b" using st' by (simp add: addCommittedBatch_def apply_tx_def)
  have "balance st' mod 2 ^ 64 = (settled_total (add_batch ?c ?b) + int (length (as_outbox st'))) mod 2 ^ 64"
    by (simp add: balance_def c)
  also have "\<dots> = ((settled_total ?c + bs_sent ?b + bs_poison ?b + bs_dlq ?b) + int (length (as_outbox st'))) mod 2 ^ 64"
    by (rule mod_add_cong[OF settled_total_add refl])
  finally have bal: "balance st' mod 2 ^ 64 = (balance st + int (length (be_inserted env))) mod 2 ^ 64"
    by (simp add: balance_def len algebra_simps)
  obtain k where k: "wrap64 (sn_dlq ?c + bs_dlq ?b) = sn_dlq ?c + bs_dlq ?b + k * 2 ^ 64" using wrap64_ex by blast
  have "dlq_balance st' = dlq_balance st + k * 2 ^ 64"
    using dq counts by (simp add: dlq_balance_def c add_batch_def k)
  then show ?thesis using bal by (simp only: mod_mult_self1)
qed

lemma batch_balance:
  assumes ok: "outbox_ok P cfg cols (as_outbox st @ be_inserted env)" and arr: "arrival_ok env" and un: "unambiguous env"
    and run: "processOneBatch F L P cfg cols env st = (result, err, st')"
  shows "balance st' mod 2 ^ 64 = (balance st + int (length (be_inserted env))) mod 2 ^ 64 \<and>
    dlq_balance st' mod 2 ^ 64 = dlq_balance st mod 2 ^ 64"
proof -
  obtain r batchErr w where b: "processEventBatch F L P cfg cols env (as_outbox st) = (r, batchErr, w)" by (metis prod_cases3)
  show ?thesis
  proof (cases "be_begin env = None \<and> \<not> is_err batchErr errDatabaseBatch \<and> be_commit env = CommitOK")
    case False
    then have "as_outbox st' = as_outbox st @ be_inserted env" "as_dlq st' = as_dlq st" "as_stats st' = addBatchError (as_stats st)"
      using run b un by (auto simp: processOneBatch_def unambiguous_def Let_def split: option.splits if_splits commit_outcome.splits)
    then show ?thesis by (simp add: balance_def dlq_balance_def addBatchError_def settled_total_def algebra_simps)
  next
    case True
    then show ?thesis using run b by (intro committed_balance[OF ok arr b]) (auto simp: processOneBatch_def Let_def)
  qed
qed

section \<open>Runs\<close>

lemma updateBacklog_counters [simp]: "counters (as_stats (updateBacklog P cfg env result st)) = counters (as_stats st)"
  by (auto simp: updateBacklog_def setBacklog_def Let_def split: sum.splits prod.splits)

lemma next_state_balance:
  assumes ok: "outbox_ok P cfg cols (as_outbox st @ be_inserted env)" and arr: "arrival_ok env" and un: "unambiguous env"
  shows "balance (next_state F L P cfg cols env st) mod 2 ^ 64 = (balance st + int (length (be_inserted env))) mod 2 ^ 64"
    and "dlq_balance (next_state F L P cfg cols env st) mod 2 ^ 64 = dlq_balance st mod 2 ^ 64"
proof -
  obtain result err st' where run: "processOneBatch F L P cfg cols env st = (result, err, st')" by (metis prod_cases3)
  have "balance (next_state F L P cfg cols env st) = balance st'" "dlq_balance (next_state F L P cfg cols env st) = dlq_balance st'"
    by (auto simp: next_state_def run balance_def dlq_balance_def)
  then show "balance (next_state F L P cfg cols env st) mod 2 ^ 64 = (balance st + int (length (be_inserted env))) mod 2 ^ 64"
    and "dlq_balance (next_state F L P cfg cols env st) mod 2 ^ 64 = dlq_balance st mod 2 ^ 64"
    using batch_balance[OF ok arr un run] by simp_all
qed

lemma iteration:
  obtains (cancelled) "be_cancelled env" "\<And>es. processEvents F L P cfg cols st (env # es) = (Returned None, st)"
    | (stop) out where "\<not> be_cancelled env"
        "\<And>es. processEvents F L P cfg cols st (env # es) = (Returned out, next_state F L P cfg cols env st)"
    | (continue) "\<not> be_cancelled env"
        "\<And>es. processEvents F L P cfg cols st (env # es) = processEvents F L P cfg cols (next_state F L P cfg cols env st) es"
proof -
  obtain result err st' where run: "processOneBatch F L P cfg cols env st = (result, err, st')" by (metis prod_cases3)
  consider "be_cancelled env" | "\<not> be_cancelled env" "is_err err ErrFatalAfterCommit"
    | "\<not> be_cancelled env" "\<not> is_err err ErrFatalAfterCommit" by blast
  then show ?thesis
  proof cases
    case 1
    then show ?thesis using cancelled by simp
  next
    case 2
    then show ?thesis using stop[of err] run by (simp add: next_state_def)
  next
    case 3
    then show ?thesis using continue run by (simp add: next_state_def)
  qed
qed

lemma run_balance:
  assumes "outbox_ok P cfg cols (as_outbox st @ concat (map be_inserted envs))" "list_all arrival_ok envs" "list_all unambiguous envs"
  shows "balance (state_after F L P cfg cols st envs) mod 2 ^ 64 =
      (balance st + int (length (concat (map be_inserted (batches_run F L P cfg cols st envs))))) mod 2 ^ 64 \<and>
    dlq_balance (state_after F L P cfg cols st envs) mod 2 ^ 64 = dlq_balance st mod 2 ^ 64"
  using assms
proof (induction envs arbitrary: st)
  case Nil
  then show ?case by (simp add: state_after_def)
next
  case (Cons env envs)
  let ?n = "next_state F L P cfg cols env st"
  have ok: "outbox_ok P cfg cols (as_outbox st @ be_inserted env @ concat (map be_inserted envs))" using Cons.prems(1) by simp
  have ok1: "outbox_ok P cfg cols (as_outbox st @ be_inserted env)"
    using outbox_ok_append[of P cfg cols "as_outbox st @ be_inserted env"] ok by simp
  have arr: "arrival_ok env" "unambiguous env" "list_all arrival_ok envs" "list_all unambiguous envs" using Cons.prems(2,3) by auto
  note one = next_state_balance[OF ok1 arr(1,2), of F L]
  note ih = Cons.IH[OF next_outbox_ok[OF ok arr(1), of F L] arr(3,4)]
  show ?case
  proof (cases rule: iteration[of env F L P cfg cols st])
    case cancelled
    then show ?thesis by (simp add: state_after_def del: processEvents.simps)
  next
    case (stop out)
    then show ?thesis using one by (simp add: state_after_def del: processEvents.simps)
  next
    case continue
    have "processEvents F L P cfg cols st [env] = (Running, ?n)" unfolding continue(2) by simp
    then have "batches_run F L P cfg cols st (env # envs) = env # batches_run F L P cfg cols ?n envs" using continue(1) by simp
    moreover have "state_after F L P cfg cols st (env # envs) = state_after F L P cfg cols ?n envs"
      using continue(2)[of envs] by (simp only: state_after_def)
    moreover have "(balance ?n + int i) mod 2 ^ 64 = (balance st + int (length (be_inserted env)) + int i) mod 2 ^ 64" for i
      by (rule mod_add_cong[OF one(1) refl])
    ultimately show ?thesis using ih one(2) by (simp add: add.assoc)
  qed
qed

lemma run_subset:
  assumes "outbox_ok P cfg cols (as_outbox st @ concat (map be_inserted envs))" "list_all arrival_ok envs"
  shows "set (as_outbox (state_after F L P cfg cols st envs)) \<subseteq>
    set (as_outbox st @ concat (map be_inserted (batches_run F L P cfg cols st envs)))"
  using assms
proof (induction envs arbitrary: st)
  case Nil
  then show ?case by (simp add: state_after_def)
next
  case (Cons env envs)
  let ?n = "next_state F L P cfg cols env st"
  have ok: "outbox_ok P cfg cols (as_outbox st @ be_inserted env @ concat (map be_inserted envs))" using Cons.prems(1) by simp
  have ok1: "outbox_ok P cfg cols (as_outbox st @ be_inserted env)"
    using outbox_ok_append[of P cfg cols "as_outbox st @ be_inserted env"] ok by simp
  have arr: "arrival_ok env" "list_all arrival_ok envs" using Cons.prems(2) by auto
  have one: "set (as_outbox ?n) \<subseteq> set (as_outbox st @ be_inserted env)" using next_outbox_subset[OF ok1 arr(1), of F L] by blast
  note ih = Cons.IH[OF next_outbox_ok[OF ok arr(1), of F L] arr(2)]
  show ?case
  proof (cases rule: iteration[of env F L P cfg cols st])
    case cancelled
    then show ?thesis by (simp add: state_after_def del: processEvents.simps)
  next
    case (stop out)
    then show ?thesis using one by (simp add: state_after_def del: processEvents.simps)
  next
    case continue
    have "processEvents F L P cfg cols st [env] = (Running, ?n)" unfolding continue(2) by simp
    then have "batches_run F L P cfg cols st (env # envs) = env # batches_run F L P cfg cols ?n envs" using continue(1) by simp
    moreover have "state_after F L P cfg cols st (env # envs) = state_after F L P cfg cols ?n envs"
      using continue(2)[of envs] by (simp only: state_after_def)
    ultimately show ?thesis using ih one by auto
  qed
qed

lemma batches_run_prefix: "\<exists>rest. envs = batches_run F L P cfg cols st envs @ rest"
  by (induction envs arbitrary: st) auto

lemma length_filter_gone:
  assumes "distinct xs" "distinct ys" "set ys \<subseteq> set xs"
  shows "length (filter (\<lambda>x. x \<notin> set ys) xs) + length ys = length xs"
proof -
  have "length (filter (\<lambda>x. x \<in> set ys) xs) = card (set xs \<inter> set ys)"
    using assms(1) distinct_card[of "filter (\<lambda>x. x \<in> set ys) xs"] by (simp add: Int_def)
  also have "set xs \<inter> set ys = set ys" using assms(3) by blast
  finally have "length (filter (\<lambda>x. x \<in> set ys) xs) = length ys" using assms(2) by (simp add: distinct_card)
  then show ?thesis using sum_length_filter_compl[of "\<lambda>x. x \<in> set ys" xs] by simp
qed

section \<open>The reported numbers\<close>

text \<open>
  (C35) The metrics tell the truth about the tables. Over any run of a relay, with any failures
  except a failed commit that took effect anyway: what a scraper reads as published, discarded
  and dead-lettered events adds up to the number of rows that left the outbox, counting those
  inserted meanwhile, and the dead-lettered events are as many as the dead letters stored (in
  64-bit arithmetic, as the counters are).
\<close>

theorem metrics_account_for_rows:
  assumes ok: "outbox_ok P cfg cols (as_outbox st @ concat (map be_inserted envs))" and arr: "list_all arrival_ok envs"
    and un: "list_all unambiguous envs" and run: "processEvents F L P cfg cols st envs = (out, st')"
    and fresh: "as_stats st = newAppStats t0" and clean: "\<forall>ms. CHR 0x0A \<notin> set (formatSeconds ms)"
  shows "\<exists>sent poison dlq.
    set [(''outboxer_events_sent_total'', Itoa sent), (''outboxer_events_poison_total'', Itoa poison),
      (''outboxer_events_dlq_total'', Itoa dlq)] \<subseteq> set (read_exposition (writeMetrics formatSeconds cfg (as_stats st'))) \<and>
    (sent + poison + dlq) mod 2 ^ 64 = int (length (filter (\<lambda>row. row \<notin> set (as_outbox st'))
      (as_outbox st @ concat (map be_inserted (batches_run F L P cfg cols st envs))))) mod 2 ^ 64 \<and>
    dlq mod 2 ^ 64 = (int (length (as_dlq st')) - int (length (as_dlq st))) mod 2 ^ 64"
proof -
  let ?c = "counters (as_stats st')" and ?all = "as_outbox st @ concat (map be_inserted (batches_run F L P cfg cols st envs))"
  have st': "state_after F L P cfg cols st envs = st'" using run by (simp add: state_after_def)
  note b = run_balance[OF ok arr un, of F L, unfolded st']
  have zero: "settled_total (counters (as_stats st)) = 0" "sn_dlq (counters (as_stats st)) = 0"
    by (simp_all add: fresh newAppStats_def zero_snapshot_def settled_total_def)
  obtain rest where rest: "envs = batches_run F L P cfg cols st envs @ rest" using batches_run_prefix by blast
  have "distinct (as_outbox st @ concat (map be_inserted envs))" by (rule ids_unique_distinct[OF outbox_okD(1)[OF ok]])
  moreover have "as_outbox st @ concat (map be_inserted envs) = ?all @ concat (map be_inserted rest)"
    by (subst rest) (simp only: map_append concat_append append_assoc)
  ultimately have "distinct (?all @ concat (map be_inserted rest))" by (simp only:)
  then have "distinct ?all" unfolding distinct_append[of ?all] by blast
  moreover have "distinct (as_outbox st')"
    using run_outbox_ok[of P cfg cols st envs "[]" F L] ok arr st' ids_unique_distinct outbox_okD(1) by fastforce
  moreover have "set (as_outbox st') \<subseteq> set ?all" using run_subset[OF ok arr, of F L] st' by simp
  ultimately have "length (filter (\<lambda>row. row \<notin> set (as_outbox st')) ?all) + length (as_outbox st') = length ?all"
    by (rule length_filter_gone)
  then have gone: "int (length (filter (\<lambda>row. row \<notin> set (as_outbox st')) ?all)) = int (length ?all) - int (length (as_outbox st'))"
    by linarith
  have "(balance st' - int (length (as_outbox st'))) mod 2 ^ 64 =
      (balance st + int (length (concat (map be_inserted (batches_run F L P cfg cols st envs)))) - int (length (as_outbox st'))) mod 2 ^ 64"
    by (rule mod_diff_cong[OF conjunct1[OF b] refl])
  then have "settled_total ?c mod 2 ^ 64 = int (length (filter (\<lambda>row. row \<notin> set (as_outbox st')) ?all)) mod 2 ^ 64"
    unfolding gone by (simp add: balance_def zero)
  moreover have "(dlq_balance st' + int (length (as_dlq st'))) mod 2 ^ 64 = (dlq_balance st + int (length (as_dlq st'))) mod 2 ^ 64"
    by (rule mod_add_cong[OF conjunct2[OF b] refl])
  then have "sn_dlq ?c mod 2 ^ 64 = (int (length (as_dlq st')) - int (length (as_dlq st))) mod 2 ^ 64"
    by (simp add: dlq_balance_def zero)
  moreover have "set [(''outboxer_events_sent_total'', Itoa (sn_sent ?c)), (''outboxer_events_poison_total'', Itoa (sn_poison ?c)),
      (''outboxer_events_dlq_total'', Itoa (sn_dlq ?c))] \<subseteq> set (read_exposition (writeMetrics formatSeconds cfg (as_stats st')))"
    unfolding conjunct1[OF metrics_read_back[OF clean]] by simp
  ultimately show ?thesis unfolding settled_total_def by (intro exI conjI)
qed

theorem metrics_account_for_rows_witness:
  "\<exists>sent poison dlq. (''outboxer_events_sent_total'', Itoa sent) \<in> set (read_exposition (writeMetrics Itoa dlq_config
      (as_stats (snd (processEvents sample_fmt sample_lib sample_pg dlq_config sample_cols sample_state [sample_env]))))) \<and>
    (sent + poison + dlq) mod 2 ^ 64 = 3"
proof -
  let ?run = "processEvents sample_fmt sample_lib sample_pg dlq_config sample_cols sample_state [sample_env]"
  have ok: "outbox_ok sample_pg dlq_config sample_cols (as_outbox sample_state @ concat (map be_inserted [sample_env]))"
    using sample_state_ok by simp
  have arr: "list_all arrival_ok [sample_env]" using sample_arrival by simp
  have un: "list_all unambiguous [sample_env]" by (simp add: unambiguous_def sample_env_def)
  have fresh: "as_stats sample_state = newAppStats 0" by (simp add: sample_state_def)
  have clean: "\<forall>ms. CHR 0x0A \<notin> set (Itoa ms)" using Itoa_no_newline by simp
  have none: "concat (map be_inserted (batches_run sample_fmt sample_lib sample_pg dlq_config sample_cols sample_state [sample_env])) = []"
    by (simp add: sample_env_def)
  have n: "length (filter (\<lambda>row. row \<notin> set (as_outbox (snd ?run))) (as_outbox sample_state @ [])) = 3"
    unfolding sample_run_outbox by (simp add: sample_state_fields sample_table_def sample_table_row_def)
  note m = metrics_account_for_rows[OF ok arr un prod.collapse[symmetric] fresh clean, of sample_fmt sample_lib, unfolded none n]
  then obtain sent poison dlq where s: "(''outboxer_events_sent_total'', Itoa sent) \<in> set (read_exposition (writeMetrics Itoa dlq_config (as_stats (snd ?run))))"
    and t: "(sent + poison + dlq) mod 2 ^ 64 = int 3 mod 2 ^ 64"
    unfolding list.set insert_subset by blast
  have "int 3 mod 2 ^ 64 = 3" by simp
  then show ?thesis using s t by metis
qed

end
