(* ===== verification/Aws_Client.thy ===== *)
theory Aws_Client
  imports Config
begin

text \<open>
  \<open>NewClient\<close> and the Google token retriever of \<open>sqs/client.go\<close> with \<open>sqsConfig\<close> of \<open>providers.go\<close>: which
  credentials, region, endpoint and connection pool the AWS client is built with. The SDK's own
  constructors are data here; \<open>LoadDefaultConfig\<close> and the metadata server are arguments.
\<close>

section \<open>The sender's settings\<close>

record sqs_Config =
  sc_SendConcurrency :: int
  sc_PublishTimeout :: int
  sc_APIEndpoint :: string
  sc_AWSRegion :: string
  sc_AWSRoleARN :: string
  sc_AWSRoleSessionName :: string
  sc_AWSRoleDuration :: int
  sc_AWSCredentialRefreshWindow :: int
  sc_AWSWebIdentityProvider :: string
  sc_AWSWebIdentityAudience :: string

definition sqsConfig :: "appConfig \<Rightarrow> sqs_Config" where
  "sqsConfig cfg =
     \<lparr> sc_SendConcurrency = SQSSendConcurrency cfg, sc_PublishTimeout = cfg_PublishTimeout cfg,
       sc_APIEndpoint = SQSAPIEndpoint cfg, sc_AWSRegion = AWSRegion cfg, sc_AWSRoleARN = AWSRoleARN cfg,
       sc_AWSRoleSessionName = AWSRoleSessionName cfg, sc_AWSRoleDuration = AWSRoleDuration cfg,
       sc_AWSCredentialRefreshWindow = AWSCredentialRefreshWindow cfg,
       sc_AWSWebIdentityProvider = AWSWebIdentityProvider cfg, sc_AWSWebIdentityAudience = AWSWebIdentityAudience cfg \<rparr>"

definition WebIdentityProviderGoogle :: string where
  "WebIdentityProviderGoogle = ''google''"

section \<open>The client\<close>

record role_options =
  RoleSessionName :: string
  Duration :: int
  ExpiryWindow :: int

datatype aws_credentials =
    DefaultChain
  | AssumeRole string role_options
  | WebIdentityRole string role_options string

record aws_client =
  ac_Region :: "string option"
  ac_Credentials :: aws_credentials
  ac_BaseEndpoint :: "string option"
  ac_MaxIdleConnsPerHost :: int
  ac_MaxIdleConns :: int

text \<open>
  \<open>transport\<close> is the SDK's default transport (idle connections per host and in all); \<open>LoadDefaultConfig\<close>
  fails or not, given the region option.
\<close>

definition sqs_NewClient ::
  "int \<times> int \<Rightarrow> (string option \<Rightarrow> go_error option) \<Rightarrow> sqs_Config \<Rightarrow> go_error + aws_client" where
  "sqs_NewClient transport LoadDefaultConfig cfg =
     (let region = (if sc_AWSRegion cfg \<noteq> [] then Some (sc_AWSRegion cfg) else None);
          role = \<lparr> RoleSessionName = sc_AWSRoleSessionName cfg, Duration = sc_AWSRoleDuration cfg,
            ExpiryWindow = sc_AWSCredentialRefreshWindow cfg \<rparr> in
      case LoadDefaultConfig region of
        Some err \<Rightarrow> Inl err
      | None \<Rightarrow> Inr
          \<lparr> ac_Region = region,
            ac_Credentials =
              (if sc_AWSWebIdentityProvider cfg = WebIdentityProviderGoogle
               then WebIdentityRole (sc_AWSRoleARN cfg) role (sc_AWSWebIdentityAudience cfg)
               else if sc_AWSRoleARN cfg \<noteq> [] then AssumeRole (sc_AWSRoleARN cfg) role
               else DefaultChain),
            ac_BaseEndpoint = (if sc_APIEndpoint cfg \<noteq> [] then Some (sc_APIEndpoint cfg) else None),
            ac_MaxIdleConnsPerHost = max (fst transport) (sc_SendConcurrency cfg),
            ac_MaxIdleConns = max (snd transport) (sc_SendConcurrency cfg) \<rparr>)"

text \<open>The token is fetched anew for every refresh, with \<open>metadata.GetWithContext\<close> under its own timeout.\<close>

definition googleIDTokenTimeout :: int where
  "googleIDTokenTimeout = 10 * time_Second"

definition GetIdentityToken ::
  "(string \<Rightarrow> string) \<Rightarrow> (int \<Rightarrow> string \<Rightarrow> go_error + string) \<Rightarrow> string \<Rightarrow> go_error + bytes" where
  "GetIdentityToken QueryEscape Get audience =
     (let path = ''instance/service-accounts/default/identity?audience='' @ QueryEscape audience @ ''&format=full'' in
      case Get googleIDTokenTimeout path of
        Inl err \<Rightarrow> Inl (WrapError (''fetch Google ID token from metadata server: '' @ error_text err) err)
      | Inr token \<Rightarrow> Inr token)"

section \<open>No credentials by accident\<close>

lemma NewClient_fields:
  assumes "sqs_NewClient transport LoadDefaultConfig sc = Inr client"
  shows "ac_MaxIdleConnsPerHost client = max (fst transport) (sc_SendConcurrency sc)"
    "ac_MaxIdleConns client = max (snd transport) (sc_SendConcurrency sc)"
    "sc_AWSWebIdentityProvider sc = ''google'' \<Longrightarrow> \<exists>role. RoleSessionName role = sc_AWSRoleSessionName sc \<and>
       ac_Credentials client = WebIdentityRole (sc_AWSRoleARN sc) (role :: role_options) (sc_AWSWebIdentityAudience sc)"
    "sc_AWSWebIdentityProvider sc \<noteq> ''google'' \<Longrightarrow> sc_AWSRoleARN sc \<noteq> [] \<Longrightarrow> \<exists>role. RoleSessionName role = sc_AWSRoleSessionName sc \<and>
       ac_Credentials client = AssumeRole (sc_AWSRoleARN sc) (role :: role_options)"
    "sc_AWSWebIdentityProvider sc \<noteq> ''google'' \<Longrightarrow> sc_AWSRoleARN sc = [] \<Longrightarrow> ac_Credentials client = DefaultChain"
  using assms by (simp_all add: sqs_NewClient_def Let_def WebIdentityProviderGoogle_def split: option.splits) (auto intro!: exI)

text \<open>
  A validated configuration never publishes with credentials it did not ask for: with a web
  identity provider the client assumes the configured role with a token for the configured
  audience, neither of them empty; without one but with a role it assumes that role; and the SDK's
  default credentials are used exactly when no role is configured. The connection pool holds a
  connection per concurrent request.
\<close>

theorem aws_credentials_as_configured:
  assumes valid: "validate F configValidationRelay cfg = None"
    and client: "sqs_NewClient transport LoadDefaultConfig (sqsConfig cfg) = Inr client"
  shows "(AWSWebIdentityProvider cfg \<noteq> [] \<longrightarrow> (\<exists>role. ac_Credentials client = WebIdentityRole (AWSRoleARN cfg) role (AWSWebIdentityAudience cfg) \<and>
        RoleSessionName role = AWSRoleSessionName cfg) \<and> AWSRoleARN cfg \<noteq> [] \<and> AWSWebIdentityAudience cfg \<noteq> []) \<and>
    (AWSWebIdentityProvider cfg = [] \<and> AWSRoleARN cfg \<noteq> [] \<longrightarrow> (\<exists>role. ac_Credentials client = AssumeRole (AWSRoleARN cfg) role \<and>
        RoleSessionName role = AWSRoleSessionName cfg)) \<and>
    (ac_Credentials client = DefaultChain \<longleftrightarrow> AWSRoleARN cfg = []) \<and>
    ac_MaxIdleConnsPerHost client \<ge> SQSSendConcurrency cfg \<and> ac_MaxIdleConns client \<ge> SQSSendConcurrency cfg"
proof -
  have aws: "AWSWebIdentityProvider cfg \<noteq> [] \<longrightarrow>
      AWSWebIdentityProvider cfg = ''google'' \<and> AWSRoleARN cfg \<noteq> [] \<and> AWSWebIdentityAudience cfg \<noteq> []"
    using valid by (simp add: validate_runnable runnable_def)
  note fields = NewClient_fields[OF client]
  have sc: "sc_AWSWebIdentityProvider (sqsConfig cfg) = AWSWebIdentityProvider cfg" "sc_AWSRoleARN (sqsConfig cfg) = AWSRoleARN cfg"
    "sc_AWSRoleSessionName (sqsConfig cfg) = AWSRoleSessionName cfg" "sc_AWSWebIdentityAudience (sqsConfig cfg) = AWSWebIdentityAudience cfg"
    "sc_SendConcurrency (sqsConfig cfg) = SQSSendConcurrency cfg" by (simp_all add: sqsConfig_def)
  note fields = fields[unfolded sc]
  consider (web) "AWSWebIdentityProvider cfg = ''google''" "AWSRoleARN cfg \<noteq> []" "AWSWebIdentityAudience cfg \<noteq> []"
    | (none) "AWSWebIdentityProvider cfg = []" using aws by blast
  then show ?thesis
  proof cases
    case web
    from fields(3)[OF web(1)] show ?thesis using web fields(1,2) by auto
  next
    case none
    show ?thesis
    proof (cases "AWSRoleARN cfg = []")
      case True
      then show ?thesis using fields(5) none fields(1,2) by auto
    next
      case False
      from fields(4)[OF _ False] show ?thesis using none False fields(1,2) by auto
    qed
  qed
qed

definition aws_config :: appConfig where
  "aws_config = defaultConfig\<lparr>SQSEnabled := True, DefaultSQSQueueURL := ''q'', AWSRoleARN := ''arn'',
     AWSWebIdentityProvider := ''google'', AWSWebIdentityAudience := ''aud''\<rparr>"

theorem aws_credentials_as_configured_witness:
  "ac_Credentials (projr (sqs_NewClient (10, 100) (\<lambda>_. None) (sqsConfig aws_config))) \<noteq> DefaultChain \<and>
   ac_MaxIdleConns (projr (sqs_NewClient (10, 100) (\<lambda>_. None) (sqsConfig aws_config))) \<ge> 128"
proof -
  have v: "validate (id, \<lambda>_. []) configValidationRelay aws_config = None" by code_simp
  have c: "sqs_NewClient (10, 100) (\<lambda>_. None) (sqsConfig aws_config) =
      Inr (projr (sqs_NewClient (10, 100) (\<lambda>_. None) (sqsConfig aws_config)))"
    by (simp add: sqs_NewClient_def Let_def)
  have "AWSRoleARN aws_config \<noteq> []" "SQSSendConcurrency aws_config = 128" by code_simp+
  then show ?thesis using aws_credentials_as_configured[OF v c] by simp
qed

end
