(* ===== verification/Startup.thy ===== *)
theory Startup
  imports Config_Loading Provisioning Processor Monitoring_Facts
begin

text \<open>
  \<open>run.go\<close>, \<open>runInit\<close> of \<open>init.go\<close>, \<open>buildProviderSenders\<close> of \<open>providers.go\<close>, \<open>openDB\<close> and
  \<open>buildTLSConfig\<close> of \<open>db.go\<close>, \<open>logging.go\<close>: how a process starts, which resources it takes, and how
  it gives them back on every exit but that of the watchdog, which ends the process at once. Go's
  \<open>defer\<close> is a list of releases, run last in first out.
\<close>

section \<open>Logging\<close>

datatype slog_Level = LevelDebug | LevelInfo | LevelWarn | LevelError

text \<open>
  \<open>strings.ToLower\<close> in front of a comparison with an ASCII word: besides the ASCII letters, the two
  runes whose lower case is an ASCII letter (capital dotted i, Kelvin sign) matter.
\<close>

fun lower_word :: "string \<Rightarrow> string" where
  "lower_word [] = []"
| "lower_word (c # cs) =
     (if HasPrefix (c # cs) (map char_of [0xC4, 0xB0 :: nat]) then CHR ''i'' # lower_word (drop 1 cs)
      else if HasPrefix (c # cs) (map char_of [0xE2, 0x84, 0xAA :: nat]) then CHR ''k'' # lower_word (drop 2 cs)
      else lower_char c # lower_word cs)"

definition parseLogLevel :: "string \<Rightarrow> slog_Level" where
  "parseLogLevel level =
     (let l = lower_word level in
      if l = ''debug'' then LevelDebug
      else if l = ''warn'' \<or> l = ''warning'' then LevelWarn
      else if l = ''error'' then LevelError
      else LevelInfo)"

datatype slog_Handler = JSONHandler slog_Level | TextHandler slog_Level

definition setupLogging :: "string \<Rightarrow> string \<Rightarrow> slog_Handler" where
  "setupLogging level format =
     (if EqualFold format ''json'' then JSONHandler (parseLogLevel level) else TextHandler (parseLogLevel level))"

text \<open>
  Levels are the integers \<open>slog\<close> gives them, ordered as such; a handler writes a record of at least
  its own level.
\<close>

fun slog_value :: "slog_Level \<Rightarrow> int" where
  "slog_value LevelDebug = - 4"
| "slog_value LevelInfo = 0"
| "slog_value LevelWarn = 4"
| "slog_value LevelError = 8"

instantiation slog_Level :: linorder
begin

definition less_eq_slog_Level :: "slog_Level \<Rightarrow> slog_Level \<Rightarrow> bool" where
  "a \<le> b \<longleftrightarrow> slog_value a \<le> slog_value b"

definition less_slog_Level :: "slog_Level \<Rightarrow> slog_Level \<Rightarrow> bool" where
  "a < b \<longleftrightarrow> slog_value a < slog_value b"

instance
proof
  fix a b c :: slog_Level
  show "a < b \<longleftrightarrow> a \<le> b \<and> \<not> b \<le> a" by (auto simp: less_eq_slog_Level_def less_slog_Level_def)
  show "a \<le> a" by (simp add: less_eq_slog_Level_def)
  show "a \<le> b \<Longrightarrow> b \<le> c \<Longrightarrow> a \<le> c" by (simp add: less_eq_slog_Level_def)
  show "a \<le> b \<Longrightarrow> b \<le> a \<Longrightarrow> a = b" by (cases a; cases b) (simp_all add: less_eq_slog_Level_def)
  show "a \<le> b \<or> b \<le> a" by (auto simp: less_eq_slog_Level_def)
qed

end

fun handler_level :: "slog_Handler \<Rightarrow> slog_Level" where
  "handler_level (JSONHandler l) = l"
| "handler_level (TextHandler l) = l"

definition Enabled :: "slog_Handler \<Rightarrow> slog_Level \<Rightarrow> bool" where
  "Enabled h level \<longleftrightarrow> handler_level h \<le> level"

text \<open>
  Whatever log level and format are configured, errors are logged; and debug lines, which carry
  events' data, only when the level is set to debug.
\<close>

theorem log_levels:
  "Enabled (setupLogging level format) LevelError \<and>
   (Enabled (setupLogging level format) LevelDebug \<longleftrightarrow> lower_word level = ''debug'')"
proof -
  have "handler_level (setupLogging level format) = parseLogLevel level" by (simp add: setupLogging_def)
  moreover have "parseLogLevel level \<le> LevelError" by (cases "parseLogLevel level") (simp_all add: less_eq_slog_Level_def)
  moreover have "parseLogLevel level \<le> LevelDebug \<longleftrightarrow> parseLogLevel level = LevelDebug"
    by (cases "parseLogLevel level") (simp_all add: less_eq_slog_Level_def)
  moreover have "parseLogLevel level = LevelDebug \<longleftrightarrow> lower_word level = ''debug''"
    by (simp add: parseLogLevel_def Let_def)
  ultimately show ?thesis by (simp add: Enabled_def)
qed

section \<open>The database connection\<close>

record tlsConfig =
  ServerName :: string
  InsecureSkipVerify :: bool
  RootCAs :: "string option"

record pgConfig =
  pc_Host :: string
  pc_Port :: "16 word"
  pc_User :: string
  pc_Password :: string
  pc_Database :: string
  pc_ConnectTimeout :: int
  pc_TLSConfig :: "tlsConfig option"
  pc_MaxOpenConns :: nat
  pc_MaxIdleConns :: nat

text \<open>\<open>ReadFile\<close> is \<open>os.ReadFile\<close>; \<open>has_certs\<close> tells whether a PEM text holds a certificate.\<close>

definition buildTLSConfig ::
  "fmt \<Rightarrow> (string \<Rightarrow> go_error + string) \<Rightarrow> (string \<Rightarrow> bool) \<Rightarrow> appConfig \<Rightarrow> go_error + tlsConfig" where
  "buildTLSConfig F ReadFile has_certs cfg =
     (let tls = \<lparr> ServerName = PGHost cfg, InsecureSkipVerify = \<not> PGSSLRejectUnauthorized cfg, RootCAs = None \<rparr> in
      if PGSSLRootCert cfg \<noteq> []
      then (case ReadFile (PGSSLRootCert cfg) of
          Inl err \<Rightarrow> Inl (WrapError (''read PG SSL root cert: '' @ error_text err) err)
        | Inr pem \<Rightarrow>
            if \<not> has_certs pem
            then Inl (ErrorString (''no certificates found in PG SSL root cert '' @ fst F (PGSSLRootCert cfg)))
            else Inr (tls\<lparr>RootCAs := Some pem\<rparr>))
      else Inr tls)"

definition openDB ::
  "fmt \<Rightarrow> (string \<Rightarrow> go_error + string) \<Rightarrow> (string \<Rightarrow> bool) \<Rightarrow> go_error option \<Rightarrow> appConfig \<Rightarrow> go_error + pgConfig" where
  "openDB F ReadFile has_certs parseErr cfg =
     (case parseErr of
        Some err \<Rightarrow> Inl err
      | None \<Rightarrow>
          (let pg = \<lparr> pc_Host = PGHost cfg, pc_Port = PGPort cfg, pc_User = PGUser cfg, pc_Password = PGPassword cfg,
               pc_Database = PGDatabase cfg, pc_ConnectTimeout = PGConnectTimeout cfg, pc_TLSConfig = None,
               pc_MaxOpenConns = 2, pc_MaxIdleConns = 2 \<rparr> in
           if PGSSL cfg
           then (case buildTLSConfig F ReadFile has_certs cfg of
               Inl err \<Rightarrow> Inl err
             | Inr tls \<Rightarrow> Inr (pg\<lparr>pc_TLSConfig := Some tls\<rparr>))
           else Inr pg))"

section \<open>Resources\<close>

datatype resource = RootContext | Watchdog | Database | Provider string | HealthServer

datatype life = Opened resource | Closed resource | Processing

text \<open>
  \<open>buildProviderSenders\<close>: \<open>build\<close> is the constructor of a provider's sender. On an error the cleanups
  of the providers built so far run, the last built first.
\<close>

fun build_loop ::
  "(string \<Rightarrow> go_error option) \<Rightarrow> appConfig \<Rightarrow> ((appConfig \<Rightarrow> bool) \<times> (appConfig \<Rightarrow> providerRoute)) list \<Rightarrow>
   string list \<Rightarrow> life list \<times> (go_error + string list)" where
  "build_loop build cfg [] built = ([], Inr built)"
| "build_loop build cfg ((enabled, rt) # specs) built =
     (if \<not> enabled cfg then build_loop build cfg specs built
      else (let t = route_target (rt cfg) in
        case build t of
          Some err \<Rightarrow> (map (\<lambda>b. Closed (Provider b)) (rev built),
            Inl (WrapError (''create '' @ t @ '' provider: '' @ error_text err) err))
        | None \<Rightarrow> (case build_loop build cfg specs (built @ [t]) of (acts, r) \<Rightarrow> (Opened (Provider t) # acts, r))))"

definition buildProviderSenders ::
  "(string \<Rightarrow> go_error option) \<Rightarrow> appConfig \<Rightarrow> life list \<times> (go_error + string list)" where
  "buildProviderSenders build cfg = build_loop build cfg providerSpecs []"

section \<open>The relay process\<close>

text \<open>
  What the outside answers during start-up: the connection settings' parse error, the file system,
  the providers' constructors, the two start-up checks and the health port. \<open>rn_process\<close> is the outcome
  of \<open>processEvents\<close>, as in theory Processor; while it is running nothing is released.

  The watchdog goroutine runs beside the process: \<open>rn_before\<close> is how often progress was marked before
  its first reading, and for each of its ticks \<open>rn_ticks\<close> has the number of steps the process had taken
  by then and how often progress was marked since the reading before.
\<close>

record run_env =
  rn_parseErr :: "go_error option"
  rn_ReadFile :: "string \<Rightarrow> go_error + string"
  rn_has_certs :: "string \<Rightarrow> bool"
  rn_build :: "string \<Rightarrow> go_error option"
  rn_columns :: "go_error + string list"
  rn_dlq :: "go_error + ((go_error + dlq_row) list \<times> go_error option)"
  rn_listen :: "go_error option"
  rn_process :: "appConfig \<Rightarrow> loop_outcome"
  rn_before :: nat
  rn_ticks :: "(nat \<times> nat) list"

text \<open>\<open>StallExit\<close> is \<open>os.Exit(1)\<close> in the watchdog's \<open>onStall\<close>: the process ends where it is.\<close>

datatype run_result = StillRunning | Exit "go_error option" | StallExit

definition fail :: "string \<Rightarrow> go_error \<Rightarrow> run_result" where
  "fail m err = Exit (Some (WrapError (m @ '': '' @ error_text err) err))"

text \<open>The main goroutine, from the creation of the root context.\<close>

definition relay_main :: "fmt \<Rightarrow> run_env \<Rightarrow> appConfig \<Rightarrow> life list \<times> run_result" where
  "relay_main F env cfg =
     (case openDB F (rn_ReadFile env) (rn_has_certs env) (rn_parseErr env) cfg of
        Inl err \<Rightarrow> ([Opened RootContext, Opened Watchdog, Closed Watchdog, Closed RootContext], fail ''open database'' err)
      | Inr db \<Rightarrow>
          (let pre = [Opened RootContext, Opened Watchdog, Opened Database];
               post = [Closed Database, Closed Watchdog, Closed RootContext] in
           case buildProviderSenders (rn_build env) cfg of
             (acts, Inl err) \<Rightarrow> (pre @ acts @ post, Exit (Some err))
           | (acts, Inr built) \<Rightarrow>
               (let pre = pre @ acts; post = map (\<lambda>b. Closed (Provider b)) (rev built) @ post in
                case checkDBWorks cfg (rn_columns env) of
                  Some err \<Rightarrow> (pre @ post, fail ''database check failed'' err)
                | None \<Rightarrow>
                    (case checkDLQWorks cfg (rn_dlq env) of
                       Some err \<Rightarrow> (pre @ post, fail ''DLQ check failed'' err)
                     | None \<Rightarrow>
                         if HealthPort cfg > 0 \<and> rn_listen env \<noteq> None
                         then (pre @ post, fail ''start health server'' (the (rn_listen env)))
                         else (let pre = pre @ (if HealthPort cfg > 0 then [Opened HealthServer] else []);
                                   post = (if HealthPort cfg > 0 then [Closed HealthServer] else []) @ post in
                           case rn_process env cfg of
                             Running \<Rightarrow> (pre @ [Processing], StillRunning)
                           | Returned (Some err) \<Rightarrow> (pre @ [Processing] @ post, fail ''process events'' err)
                           | Returned None \<Rightarrow> (pre @ [Processing] @ post, Exit None))))))"

text \<open>
  The steps the process had taken when the watchdog called \<open>onStall\<close>, if it did: at the first tick that
  reads the value read before.
\<close>

definition stalled_at :: "run_env \<Rightarrow> nat option" where
  "stalled_at env =
     (let first = (markProgress ^^ rn_before env) 0 in
      map_option (\<lambda>k. fst (rn_ticks env ! k)) (watch first (readings first (map snd (rn_ticks env)))))"

text \<open>
  Both goroutines: a stall at any moment from the start of the watchdog to the end of the process
  ends it, with the deferred releases that have not run yet left out. Stopping the watchdog
  does not recall a tick that is already there (\<open>select\<close> may still take it), so a stall after
  \<open>Closed Watchdog\<close> counts too.
\<close>

definition runRelay_config :: "fmt \<Rightarrow> run_env \<Rightarrow> appConfig \<Rightarrow> life list \<times> run_result" where
  "runRelay_config F env cfg =
     (case relay_main F env cfg of
        (acts, result) \<Rightarrow>
          (case stalled_at env of
             None \<Rightarrow> (acts, result)
           | Some n \<Rightarrow>
               if Opened Watchdog \<in> set (take n acts) \<and> (n \<le> length acts \<or> result = StillRunning)
               then (take n acts, StallExit)
               else (acts, result)))"

definition runRelay ::
  "fmt \<Rightarrow> ((string \<times> string) list \<Rightarrow> (string \<times> string) list) \<Rightarrow> (string \<Rightarrow> string option) \<Rightarrow> run_env \<Rightarrow>
   string list \<Rightarrow> life list \<times> run_result" where
  "runRelay F order LookupEnv env args =
     (case loadConfig F order LookupEnv args of
        Inl err \<Rightarrow> ([], if err = flag_ErrHelp then Exit None else fail ''invalid configuration'' err)
      | Inr cfg \<Rightarrow>
          (case validate F configValidationRelay cfg of
             Some err \<Rightarrow> ([], fail ''invalid configuration'' err)
           | None \<Rightarrow> runRelay_config F env cfg))"

section \<open>The init command and the dispatch\<close>

text \<open>The printed script, the result, and the catalogue afterwards.\<close>

definition runInit ::
  "fmt \<Rightarrow> (string list \<Rightarrow> string) \<Rightarrow> string \<Rightarrow> ((string \<times> string) list \<Rightarrow> (string \<times> string) list) \<Rightarrow>
   (string \<Rightarrow> string option) \<Rightarrow> init_env \<Rightarrow> string list \<Rightarrow> catalog \<Rightarrow> string \<times> run_result \<times> catalog" where
  "runInit F san randText order LookupEnv env args c =
     (case loadInitConfig F order LookupEnv args of
        Inl err \<Rightarrow> ([], if err = flag_ErrHelp then Exit None else fail ''invalid configuration'' err, c)
      | Inr (cfg, apply) \<Rightarrow>
          (case validate F configValidationInit cfg of
             Some err \<Rightarrow> ([], fail ''invalid configuration'' err, c)
           | None \<Rightarrow>
               if \<not> apply then (renderInitScript (buildInitStatements san randText cfg True), Exit None, c)
               else (case applyInit san randText env cfg c of (err, c') \<Rightarrow> ([], Exit err, c'))))"

datatype command = InitCommand "string list" | RelayCommand "string list" | UnknownCommand string

definition dispatch :: "string list \<Rightarrow> command" where
  "dispatch args =
     (if length args > 0 \<and> \<not> HasPrefix (args ! 0) ''-''
      then (if args ! 0 = ''init'' then InitCommand (tl args) else UnknownCommand (args ! 0))
      else RelayCommand args)"

section \<open>Every exit gives everything back\<close>

text \<open>Resources as a stack: a release must be of the one taken last.\<close>

fun stack_run :: "resource list \<Rightarrow> life list \<Rightarrow> resource list option" where
  "stack_run held [] = Some held"
| "stack_run held (Opened r # acts) = stack_run (r # held) acts"
| "stack_run held (Closed r # acts) =
     (case held of h # rest \<Rightarrow> if h = r then stack_run rest acts else None | [] \<Rightarrow> None)"
| "stack_run held (Processing # acts) = stack_run held acts"

lemma stack_run_append:
  "stack_run held (xs @ ys) = (case stack_run held xs of None \<Rightarrow> None | Some h \<Rightarrow> stack_run h ys)"
  by (induction held xs rule: stack_run.induct) (auto split: list.splits)

lemma stack_run_releases: "stack_run (map Provider bs @ held) (map (\<lambda>b. Closed (Provider b)) bs @ acts) = stack_run held acts"
  by (induction bs) auto

lemma build_loop_stack:
  "build_loop build cfg specs built = (acts, r) \<Longrightarrow>
     stack_run (map Provider (rev built) @ held) acts =
       Some (case r of Inl err \<Rightarrow> held | Inr bs \<Rightarrow> map Provider (rev bs) @ held)"
proof (induction build cfg specs built arbitrary: acts rule: build_loop.induct)
  case (1 build cfg built)
  then show ?case by auto
next
  case (2 build cfg enabled rt specs built)
  let ?t = "route_target (rt cfg)"
  show ?case
  proof (cases "enabled cfg")
    case False
    then show ?thesis using 2 by simp
  next
    case True
    show ?thesis
    proof (cases "build ?t")
      case (Some err)
      then show ?thesis using 2(3) True Let_def[of ?t] stack_run_releases[of "rev built" held "[]"] by auto
    next
      case None
      obtain acts' where "build_loop build cfg specs (built @ [?t]) = (acts', r)" "acts = Opened (Provider ?t) # acts'"
        using 2(3) True None by (auto simp: Let_def split: prod.splits)
      then show ?thesis using 2(2)[OF _ refl None] True by simp
    qed
  qed
qed

lemma build_no_processing: "build_loop build cfg specs built = (acts, r) \<Longrightarrow> Processing \<notin> set acts"
  by (induction build cfg specs built arbitrary: acts rule: build_loop.induct)
    (auto simp: Let_def split: if_splits option.splits prod.splits)

definition started :: "run_env \<Rightarrow> appConfig \<Rightarrow> bool" where
  "started env cfg \<longleftrightarrow> checkDBWorks cfg (rn_columns env) = None \<and> checkDLQWorks cfg (rn_dlq env) = None \<and>
     (HealthPort cfg > 0 \<longrightarrow> rn_listen env = None)"

lemma relay_stack:
  assumes "relay_main F env cfg = (acts, result)"
  shows "(result \<noteq> StillRunning \<longrightarrow> stack_run [] acts = Some []) \<and> (Processing \<in> set acts \<longrightarrow> started env cfg)"
proof (cases "openDB F (rn_ReadFile env) (rn_has_certs env) (rn_parseErr env) cfg")
  case (Inl err)
  then show ?thesis using assms by (auto simp: relay_main_def)
next
  case (Inr db)
  let ?pre = "[Opened RootContext, Opened Watchdog, Opened Database]"
  let ?held = "[Database, Watchdog, RootContext]"
  obtain b r where b: "buildProviderSenders (rn_build env) cfg = (b, r)" by fastforce
  have quiet: "Processing \<notin> set b" using build_no_processing b by (auto simp: buildProviderSenders_def)
  have pre: "stack_run [] (?pre @ b @ rest) =
      stack_run (case r of Inl err \<Rightarrow> ?held | Inr bs \<Rightarrow> map Provider (rev bs) @ ?held) rest" for rest
    using build_loop_stack[of "rn_build env" cfg providerSpecs "[]" b r ?held] b
    by (simp add: buildProviderSenders_def stack_run_append)
  show ?thesis
  proof (cases r)
    case (Inl err)
    then show ?thesis using assms Inr b quiet pre[of "[Closed Database, Closed Watchdog, Closed RootContext]"]
      by (auto simp: relay_main_def)
  next
    case built: (Inr bs)
    let ?post = "map (\<lambda>b. Closed (Provider b)) (rev bs) @ [Closed Database, Closed Watchdog, Closed RootContext]"
    have post: "stack_run (map Provider (rev bs) @ ?held) ?post = Some []"
      using stack_run_releases[of "rev bs" ?held "[Closed Database, Closed Watchdog, Closed RootContext]"] by simp
    have "stack_run [] (?pre @ b @ ?post) = Some []" "stack_run [] (?pre @ b @ Processing # ?post) = Some []"
      "stack_run [] (?pre @ b @ Opened HealthServer # Processing # Closed HealthServer # ?post) = Some []"
      using post built by (simp_all only: pre sum.case) simp_all
    then show ?thesis
      using assms Inr b built quiet
      by (auto simp: relay_main_def started_def Let_def fail_def split: option.splits if_splits loop_outcome.splits)
  qed
qed

text \<open>The stall: what it needs, and what it leaves of the process.\<close>

lemma main_no_stall: "relay_main F env cfg \<noteq> (acts, StallExit)"
  by (simp add: relay_main_def fail_def Let_def split: sum.split prod.split option.split loop_outcome.split)

lemma relay_unstalled:
  assumes "runRelay_config F env cfg = (acts, result)" "result \<noteq> StallExit"
  shows "relay_main F env cfg = (acts, result)"
  using assms by (auto simp: runRelay_config_def split: prod.splits option.splits if_splits)

lemma relay_stalled:
  assumes "runRelay_config F env cfg = (acts, StallExit)"
  obtains n rest result where "stalled_at env = Some n" "relay_main F env cfg = (acts @ rest, result)" "Opened Watchdog \<in> set acts"
proof -
  obtain all result where main: "relay_main F env cfg = (all, result)" by fastforce
  then have "result \<noteq> StallExit" using main_no_stall by metis
  then obtain n where n: "stalled_at env = Some n" "Opened Watchdog \<in> set (take n all)" "acts = take n all"
    using assms main by (auto simp: runRelay_config_def split: option.splits if_splits)
  then have "relay_main F env cfg = (acts @ drop n all, result)" using main by simp
  then show ?thesis using that n by metis
qed

lemma watch_silent:
  assumes "watch ((markProgress ^^ b) 0) (readings ((markProgress ^^ b) 0) ns) = Some k"
  shows "k < length ns" and "ns ! k mod 2 ^ 64 = 0" and "j < k \<Longrightarrow> ns ! j mod 2 ^ 64 \<noteq> 0"
proof -
  have "wrap64 0 = 0" by (simp add: int64_range_def)
  then have first: "(markProgress ^^ b) 0 = wrap64 (int b)" using markProgress_funpow[of b 0] by (simp only: add_0_left)
  note t = assms[unfolded first watch_readings]
  show "k < length ns" using t by (rule conjunct1)
  show "ns ! k mod 2 ^ 64 = 0" using t by (elim conjE)
  show "ns ! j mod 2 ^ 64 \<noteq> 0" if "j < k" using t that by (elim conjE allE impE)
qed

lemma stall_silent:
  assumes "stalled_at env = Some n"
  shows "\<exists>k m. k < length (rn_ticks env) \<and> rn_ticks env ! k = (n, m) \<and> m mod 2 ^ 64 = 0 \<and>
    (\<forall>j < k. snd (rn_ticks env ! j) mod 2 ^ 64 \<noteq> 0)"
proof -
  let ?p = "(markProgress ^^ rn_before env) 0" and ?ns = "map snd (rn_ticks env)"
  obtain k where k: "watch ?p (readings ?p ?ns) = Some k" "n = fst (rn_ticks env ! k)"
    using assms unfolding stalled_at_def Let_def by (auto simp del: funpow.simps)
  note silent = watch_silent[OF k(1)]
  have len: "k < length (rn_ticks env)" using silent(1) by (simp only: length_map)
  have "snd (rn_ticks env ! k) mod 2 ^ 64 = 0" using silent(2) by (simp only: nth_map[OF len])
  moreover have "snd (rn_ticks env ! j) mod 2 ^ 64 \<noteq> 0" if "j < k" for j
    using silent(3)[OF that] unfolding nth_map[OF less_trans[OF that len]] .
  moreover have "rn_ticks env ! k = (n, snd (rn_ticks env ! k))" by (simp only: k(2) prod.collapse)
  ultimately show ?thesis using len by metis
qed

text \<open>Without ticks there is no stall, and the main goroutine is the process.\<close>

lemma unwatched: "runRelay_config F (env\<lparr>rn_ticks := []\<rparr>) cfg = relay_main F env cfg"
proof -
  let ?env = "env\<lparr>rn_ticks := []\<rparr>"
  have fields: "rn_parseErr ?env = rn_parseErr env" "rn_ReadFile ?env = rn_ReadFile env" "rn_has_certs ?env = rn_has_certs env"
    "rn_build ?env = rn_build env" "rn_columns ?env = rn_columns env" "rn_dlq ?env = rn_dlq env" "rn_listen ?env = rn_listen env"
    "rn_process ?env = rn_process env" by simp_all
  have "relay_main F ?env cfg = relay_main F env cfg" unfolding relay_main_def fields by (rule refl)
  then show ?thesis by (simp add: runRelay_config_def stalled_at_def Let_def split: prod.split)
qed

text \<open>
  (C33) Start-up is safe. Whatever fails: a relay process that returns from \<open>runRelay\<close>, with or
  without an error, has given back every resource it took, the one taken last first. Only the
  watchdog's \<open>os.Exit(1)\<close> leaves resources to the operating system, on purpose: it happens only after
  the watchdog was started, at the first tick before which no progress was marked since the tick
  before, and the process has then done a part, up to that moment, of what it would have done
  without it. And in every case the process has processed events only with a configuration that
  passed validation, after the checks of both tables passed, and with the health port bound if
  one is configured.
\<close>

theorem startup_safe:
  assumes "runRelay F order LookupEnv env args = (acts, result)"
  shows "(\<forall>r. result = Exit r \<longrightarrow> stack_run [] acts = Some []) \<and>
    (result = StallExit \<longrightarrow> Opened Watchdog \<in> set acts \<and>
       (\<exists>k n m. k < length (rn_ticks env) \<and> rn_ticks env ! k = (n, m) \<and> m mod 2 ^ 64 = 0 \<and>
          (\<forall>j < k. snd (rn_ticks env ! j) mod 2 ^ 64 \<noteq> 0)) \<and>
       (\<exists>rest r. runRelay F order LookupEnv (env\<lparr>rn_ticks := []\<rparr>) args = (acts @ rest, r) \<and> r \<noteq> StallExit)) \<and>
    (Processing \<in> set acts \<longrightarrow> (\<exists>cfg. loadConfig F order LookupEnv args = Inr cfg \<and>
       validate F configValidationRelay cfg = None \<and> checkDBWorks cfg (rn_columns env) = None \<and>
       checkDLQWorks cfg (rn_dlq env) = None \<and> (HealthPort cfg > 0 \<longrightarrow> rn_listen env = None)))"
proof (cases "loadConfig F order LookupEnv args")
  case (Inl err)
  then show ?thesis using assms by (auto simp: runRelay_def fail_def split: if_splits)
next
  case (Inr cfg)
  show ?thesis
  proof (cases "validate F configValidationRelay cfg")
    case None
    have run: "runRelay_config F env cfg = (acts, result)" using assms Inr None by (simp add: runRelay_def)
    have none: "runRelay F order LookupEnv (env\<lparr>rn_ticks := []\<rparr>) args = relay_main F env cfg"
      using Inr None by (simp add: runRelay_def unwatched)
    show ?thesis
    proof (cases "result = StallExit")
      case True
      obtain n rest r where stall: "stalled_at env = Some n" "relay_main F env cfg = (acts @ rest, r)" "Opened Watchdog \<in> set acts"
        using relay_stalled run True by metis
      have "r \<noteq> StallExit" using stall(2) main_no_stall by metis
      then show ?thesis
        using stall stall_silent[OF stall(1)] relay_stack[OF stall(2)] Inr None True none by (auto simp: started_def)
    next
      case False
      from relay_stack[OF relay_unstalled[OF run False]] show ?thesis using Inr None False by (auto simp: started_def)
    qed
  qed (use assms Inr in \<open>auto simp: runRelay_def fail_def\<close>)
qed

text \<open>
  TLS is never silently weakened: with TLS asked for, a database handle has TLS settings for
  the configured host, verification is on unless it was switched off, and a configured root
  certificate was read and holds a certificate.
\<close>

theorem tls_as_configured:
  assumes "openDB F ReadFile has_certs parseErr cfg = Inr db" "PGSSL cfg"
  shows "\<exists>tls. pc_TLSConfig db = Some tls \<and> ServerName tls = PGHost cfg \<and>
    InsecureSkipVerify tls = (\<not> PGSSLRejectUnauthorized cfg) \<and>
    (PGSSLRootCert cfg \<noteq> [] \<longrightarrow> (\<exists>pem. ReadFile (PGSSLRootCert cfg) = Inr pem \<and> has_certs pem \<and> RootCAs tls = Some pem))"
  using assms by (auto simp: openDB_def buildTLSConfig_def Let_def split: option.splits sum.splits if_splits)

definition sample_run :: run_env where
  "sample_run = \<lparr> rn_parseErr = None, rn_ReadFile = (\<lambda>_. Inr []), rn_has_certs = (\<lambda>_. True), rn_build = (\<lambda>_. None),
     rn_columns = Inr [''id'', ''payload'', ''target'', ''destination''], rn_dlq = Inr ([], None), rn_listen = None,
     rn_process = (\<lambda>_. Returned None), rn_before = 0, rn_ticks = [(6, 1), (9, 2)] \<rparr>"

definition sample_args :: "string list" where
  "sample_args = [''--sqs-enabled=true'', ''--default-sqs-queue-url=q'']"

lemma sample_run_relay:
  "runRelay (id, \<lambda>_. []) id (\<lambda>_. None) sample_run sample_args =
     ([Opened RootContext, Opened Watchdog, Opened Database, Opened (Provider ''sqs''), Processing,
       Closed (Provider ''sqs''), Closed Database, Closed Watchdog, Closed RootContext], Exit None)"
proof -
  have "validate (id, \<lambda>_. []) configValidationRelay sqs_config = None" by code_simp
  moreover have "runRelay_config (id, \<lambda>_. []) sample_run sqs_config =
     ([Opened RootContext, Opened Watchdog, Opened Database, Opened (Provider ''sqs''), Processing,
       Closed (Provider ''sqs''), Closed Database, Closed Watchdog, Closed RootContext], Exit None)" by code_simp
  ultimately show ?thesis by (simp add: runRelay_def sample_args_def sqs_config_loaded)
qed

text \<open>A process that hangs while it opens the first provider, and is ended by its watchdog.\<close>

lemma hung_run_relay:
  "runRelay (id, \<lambda>_. []) id (\<lambda>_. None) (sample_run\<lparr>rn_ticks := [(2, 1), (3, 0)]\<rparr>) sample_args =
     ([Opened RootContext, Opened Watchdog, Opened Database], StallExit)"
proof -
  have "validate (id, \<lambda>_. []) configValidationRelay sqs_config = None" by code_simp
  moreover have "runRelay_config (id, \<lambda>_. []) (sample_run\<lparr>rn_ticks := [(2, 1), (3, 0)]\<rparr>) sqs_config =
     ([Opened RootContext, Opened Watchdog, Opened Database], StallExit)" by code_simp
  ultimately show ?thesis by (simp add: runRelay_def sample_args_def sqs_config_loaded)
qed

theorem startup_safe_witness:
  "(\<exists>acts cfg. runRelay (id, \<lambda>_. []) id (\<lambda>_. None) sample_run sample_args = (acts, Exit None) \<and> Processing \<in> set acts \<and>
     stack_run [] acts = Some [] \<and> loadConfig (id, \<lambda>_. []) id (\<lambda>_. None) sample_args = Inr cfg \<and>
     validate (id, \<lambda>_. []) configValidationRelay cfg = None) \<and>
   (\<exists>rest r. runRelay (id, \<lambda>_. []) id (\<lambda>_. None) (sample_run\<lparr>rn_ticks := []\<rparr>) sample_args =
     (Opened RootContext # Opened Watchdog # Opened Database # rest, r))"
  using startup_safe[OF sample_run_relay] sample_run_relay startup_safe[OF hung_run_relay] by auto

definition tls_config :: appConfig where
  "tls_config = defaultConfig\<lparr>PGSSL := True, PGSSLRootCert := ''ca.pem''\<rparr>"

theorem tls_as_configured_witness:
  "\<exists>tls :: tlsConfig. InsecureSkipVerify tls = False \<and> RootCAs tls = Some ''pem''"
proof -
  have ok: "openDB (id, \<lambda>_. []) (\<lambda>_. Inr ''pem'') (\<lambda>_. True) None tls_config = Inr (projr (openDB (id, \<lambda>_. []) (\<lambda>_. Inr ''pem'') (\<lambda>_. True) None tls_config))"
    by (simp add: openDB_def buildTLSConfig_def tls_config_def defaultConfig_def Let_def)
  have c: "PGSSL tls_config" "PGSSLRejectUnauthorized tls_config" "PGSSLRootCert tls_config \<noteq> []"
    by (simp_all add: tls_config_def defaultConfig_def)
  from tls_as_configured[OF ok c(1)] c(2,3) obtain tls :: tlsConfig where "InsecureSkipVerify tls = False" "RootCAs tls = Some ''pem''"
    by auto
  then show ?thesis by blast
qed

end
