(* ===== verification/Service.thy ===== *)
theory Service
  imports Startup Metrics Monitoring_Facts
begin

text \<open>
  The surface of the process: the HTTP endpoints of \<open>http.go\<close> and \<open>metrics.go\<close>, the statistics lines
  of \<open>stats.go\<close> with the last one \<open>runRelay\<close> writes on exit, and \<open>Run\<close> of \<open>run.go\<close> with the exit code of
  \<open>main.go\<close>.
\<close>

section \<open>HTTP endpoints\<close>

text \<open>\<open>Duration.Round\<close> of the standard library.\<close>

definition time_Round :: "int \<Rightarrow> int \<Rightarrow> int" where
  "time_Round d m =
     (if m \<le> 0 then d
      else if d < 0
      then (let r = - (d smod m) in
        if 2 * r < m then d + r
        else if d - m + r \<ge> - (2 ^ 63) then d - m + r else - (2 ^ 63))
      else (let r = d smod m in
        if 2 * r < m then d - r
        else if d + m - r < 2 ^ 63 then d + m - r else 2 ^ 63 - 1))"

definition healthz_body :: "fmt \<Rightarrow> appConfig \<Rightarrow> appStats \<Rightarrow> int \<Rightarrow> string" where
  "healthz_body F cfg s now =
     (let threshold = HealthStaleAfter cfg; last = lastSuccess s; age = time_Sub now last;
          text = snd F (time_Round age time_Second) in
      if threshold \<le> 0 then ''ok (staleness check disabled)''
      else if last = zero_time \<or> age > threshold
      then ''unhealthy: no committed batch for '' @ text @ '' (threshold '' @ snd F threshold @ '')''
      else ''ok: last committed batch '' @ text @ '' ago'')"

datatype http_response = Response int string string | Redirect string

definition metrics_content_type :: string where
  "metrics_content_type = ''text/plain; version=0.0.4; charset=utf-8''"

text \<open>
  The handler of \<open>newHTTPServer\<close> on the path of a request: status, content type when the handler sets
  one, and body. A path that \<open>cleanPath\<close> of \<open>net/http\<close> changes is redirected by the mux before any
  handler; the pattern \<open>/\<close> matches whatever no other pattern does.
\<close>

definition http_handler ::
  "fmt \<Rightarrow> (string \<Rightarrow> string) \<Rightarrow> (int \<Rightarrow> string) \<Rightarrow> appConfig \<Rightarrow> appStats \<Rightarrow> int \<Rightarrow> string \<Rightarrow> http_response" where
  "http_handler F cleanPath formatSeconds cfg s now path =
     (if cleanPath path \<noteq> path then Redirect (cleanPath path)
      else if path = ''/metrics'' then Response 200 metrics_content_type (writeMetrics formatSeconds cfg s)
      else if path = ''/healthz'' \<or> path = ''/health''
      then Response (handleHealthz cfg s now) [] (healthz_body F cfg s now)
      else Response 200 [] ''all good'')"

text \<open>
  Only a silent loop makes the service unhealthy. After a batch committed at time \<open>t\<close>, with any
  failed batches and statistics lines since, every endpoint answers 200, except that both health
  endpoints answer 503 from the moment the threshold has passed; and the body of \<open>/metrics\<close> gives
  a scraper the number of batch errors.
\<close>

theorem endpoints_follow_commits:
  assumes h: "HealthStaleAfter cfg > 0" "t \<ge> 1000000" "now \<ge> t" "now < 2 ^ 63"
    and ops: "list_all (\<lambda>op. op = Failed \<or> op = Interval) ops"
    and clean: "\<forall>ms. CHR 0x0A \<notin> set (formatSeconds ms)" and path: "cleanPath path = path"
    and s: "s = foldl stats_step (addCommittedBatch s0 batch t) ops"
  shows "\<exists>status ctype body. http_handler F cleanPath formatSeconds cfg s now path = Response status ctype body \<and>
    (status = 503 \<longleftrightarrow> path \<in> {''/healthz'', ''/health''} \<and> now - (t div 1000000) * 1000000 > HealthStaleAfter cfg) \<and>
    (status \<noteq> 503 \<longrightarrow> status = 200) \<and>
    (path = ''/metrics'' \<longrightarrow>
       map_of (read_exposition body) ''outboxer_batch_errors_total'' = Some (Itoa (sn_batchErrors (counters s))))"
proof -
  have "handleHealthz cfg s now = (if now - (t div 1000000) * 1000000 > HealthStaleAfter cfg then 503 else 200)"
    unfolding s by (rule health_follows_commit[OF h ops])
  moreover have "map_of (read_exposition (writeMetrics formatSeconds cfg s)) ''outboxer_batch_errors_total'' =
      Some (Itoa (sn_batchErrors (counters s)))"
    unfolding conjunct1[OF metrics_read_back[OF clean]] by simp
  ultimately show ?thesis using path by (simp add: http_handler_def)
qed

theorem endpoints_follow_commits_witness:
  "\<exists>ctype body. http_handler (id, \<lambda>_. []) id Itoa defaultConfig (addCommittedBatch (newAppStats 0) zero_batch 1000000000)
     2000000000 ''/healthz'' = Response 200 ctype body"
proof -
  have h: "HealthStaleAfter defaultConfig > 1000000000" by code_simp
  have c: "\<forall>ms. CHR 0x0A \<notin> set (Itoa ms)" using Itoa_no_newline by simp
  have pos: "HealthStaleAfter defaultConfig > 0" using h by simp
  have times: "(1000000000 :: int) \<ge> 1000000" "(2000000000 :: int) \<ge> 1000000000" "(2000000000 :: int) < 2 ^ 63" by simp_all
  have ops: "list_all (\<lambda>op. op = Failed \<or> op = Interval) []" by simp
  have st: "addCommittedBatch (newAppStats 0) zero_batch 1000000000 =
      foldl stats_step (addCommittedBatch (newAppStats 0) zero_batch 1000000000) []" by simp
  have path: "id ''/healthz'' = ''/healthz''" by simp
  obtain status ctype body where r: "http_handler (id, \<lambda>_. []) id Itoa defaultConfig (addCommittedBatch (newAppStats 0) zero_batch 1000000000)
      2000000000 ''/healthz'' = Response status ctype body" "status \<noteq> 503 \<longrightarrow> status = 200"
      "status = 503 \<longrightarrow> (2000000000 :: int) - (1000000000 div 1000000) * 1000000 > HealthStaleAfter defaultConfig"
    using endpoints_follow_commits[of defaultConfig 1000000000 2000000000 "[]" Itoa id "''/healthz''", OF pos times ops c path st, of "(id, \<lambda>_. [])"]
    by blast
  have "status \<noteq> 503" using r(3) h by simp
  then show ?thesis using r(1,2) by simp
qed

section \<open>Statistics lines\<close>

text \<open>The interval in milliseconds and the deltas; nothing is logged once the context is cancelled.\<close>

definition logStats :: "appConfig \<Rightarrow> bool \<Rightarrow> appStats \<Rightarrow> (int \<times> statsSnapshot) option \<times> appStats" where
  "logStats cfg cancelled s =
     (if cancelled then (None, s)
      else (case intervalSnapshot s of (snapshot, s') \<Rightarrow> (Some (StatsInterval cfg sdiv time_Millisecond, snapshot), s')))"

text \<open>
  What happens to the statistics of a process: batches, and ticks of the goroutine of
  \<open>startStatsLogger\<close>, each with whether the context is cancelled by then. The goroutine runs only with
  a positive interval; on exit \<open>runRelay\<close> writes one more line, under the same condition, with a
  context of its own.
\<close>

datatype process_event = BatchCommitted batchStats int | BatchFailed | Tick bool

fun stats_lines :: "appConfig \<Rightarrow> appStats \<Rightarrow> process_event list \<Rightarrow> (int \<times> statsSnapshot) list \<times> appStats" where
  "stats_lines cfg s [] = ([], s)"
| "stats_lines cfg s (BatchCommitted b now # evs) = stats_lines cfg (addCommittedBatch s b now) evs"
| "stats_lines cfg s (BatchFailed # evs) = stats_lines cfg (addBatchError s) evs"
| "stats_lines cfg s (Tick cancelled # evs) =
     (if StatsInterval cfg \<le> 0 then stats_lines cfg s evs
      else (case logStats cfg cancelled s of (line, s') \<Rightarrow>
        (case stats_lines cfg s' evs of (rest, s'') \<Rightarrow> ((case line of None \<Rightarrow> [] | Some l \<Rightarrow> [l]) @ rest, s''))))"

definition process_lines :: "appConfig \<Rightarrow> int \<Rightarrow> process_event list \<Rightarrow> (int \<times> statsSnapshot) list \<times> appStats" where
  "process_lines cfg t0 evs =
     (case stats_lines cfg (newAppStats t0) evs of (rows, s) \<Rightarrow>
        if StatsInterval cfg > 0
        then (case logStats cfg False s of (Some l, s') \<Rightarrow> (rows @ [l], s') | (None, s') \<Rightarrow> (rows, s'))
        else (rows, s))"

fun stats_ops :: "process_event list \<Rightarrow> stats_op list" where
  "stats_ops [] = []"
| "stats_ops (BatchCommitted b now # evs) = Committed b now # stats_ops evs"
| "stats_ops (BatchFailed # evs) = Failed # stats_ops evs"
| "stats_ops (Tick cancelled # evs) = (if cancelled then [] else [Interval]) @ stats_ops evs"

lemma stats_lines_deltas:
  assumes "StatsInterval cfg > 0"
  shows "map snd (fst (stats_lines cfg s evs)) = deltas s (stats_ops evs) \<and>
    snd (stats_lines cfg s evs) = foldl stats_step s (stats_ops evs)"
proof (induction evs arbitrary: s)
  case (Cons ev evs)
  show ?case
  proof (cases ev)
    case (Tick cancelled)
    obtain snapshot s' where i: "intervalSnapshot s = (snapshot, s')" by fastforce
    obtain rest s'' where r: "stats_lines cfg s' evs = (rest, s'')" by fastforce
    show ?thesis using Cons.IH[of s] Cons.IH[of s'] assms Tick i r by (cases cancelled) (simp_all add: logStats_def)
  qed (use Cons.IH in simp_all)
qed simp

lemma deltas_append: "deltas s (xs @ ys) = deltas s xs @ deltas (foldl stats_step s xs) ys"
  by (induction xs arbitrary: s) auto

text \<open>
  The log accounts for the whole life of the process: with statistics on, the lines written up to
  and including the one on exit add up, counter by counter and in 64-bit arithmetic, to the
  counters at exit, whatever batches ran and whenever the ticks came.
\<close>

theorem stats_lines_complete:
  assumes on: "StatsInterval cfg > 0" and f: "f \<in> set counter_fields" and run: "process_lines cfg t0 evs = (rows, s)"
  shows "wrap64 (sum_list (map (f \<circ> snd) rows)) = f (counters s)"
proof -
  let ?s = "foldl stats_step (newAppStats t0) (stats_ops evs)"
  obtain ls where ls: "stats_lines cfg (newAppStats t0) evs = (ls, ?s)" "map snd ls = deltas (newAppStats t0) (stats_ops evs)"
    using stats_lines_deltas[OF on, of "newAppStats t0" evs] by (metis prod.collapse)
  have "rows = ls @ [(StatsInterval cfg sdiv time_Millisecond, fst (intervalSnapshot ?s))]" "s = snd (intervalSnapshot ?s)"
    using run on by (auto simp: process_lines_def ls(1) logStats_def split: prod.splits)
  then have "map snd rows = deltas (newAppStats t0) (stats_ops evs @ [Interval])" "counters s = counters ?s"
    using ls(2) by (simp_all add: deltas_append intervalSnapshot_def Let_def)
  moreover have "map (f \<circ> snd) rows = map f (map snd rows)" by simp
  ultimately show ?thesis using intervals_partition[OF f, of t0 "stats_ops evs"] by (simp only:)
qed

theorem stats_lines_complete_witness:
  "wrap64 (sum_list (map (sn_batchErrors \<circ> snd) (fst (process_lines defaultConfig 5 [BatchFailed, Tick False, BatchFailed, Tick True])))) =
     sn_batchErrors (counters (snd (process_lines defaultConfig 5 [BatchFailed, Tick False, BatchFailed, Tick True])))"
proof -
  have "StatsInterval defaultConfig > 0" by code_simp
  moreover have "sn_batchErrors \<in> set counter_fields" by (simp add: counter_fields_def)
  ultimately show ?thesis using stats_lines_complete prod.collapse by metis
qed

section \<open>The process\<close>

text \<open>
  \<open>Run\<close>: the \<open>.env\<close> file is applied to the environment first, for both commands. \<open>dotenv\<close> is the content
  of the file if it can be read, \<open>env\<close> the environment of the process.
\<close>

datatype run_trace = RelayRun "life list" | InitRun string catalog | Rejected

definition Run ::
  "fmt \<Rightarrow> (string list \<Rightarrow> string) \<Rightarrow> string \<Rightarrow> ((string \<times> string) list \<Rightarrow> (string \<times> string) list) \<Rightarrow>
   (string \<Rightarrow> string option) \<Rightarrow> string option \<Rightarrow> (string \<Rightarrow> string option) \<Rightarrow> run_env \<Rightarrow> init_env \<Rightarrow> catalog \<Rightarrow>
   string list \<Rightarrow> run_trace \<times> run_result" where
  "Run F san randText order Unquote dotenv env renv ienv c args =
     (let LookupEnv = loadDotEnv Unquote dotenv env in
      case dispatch args of
        InitCommand rest \<Rightarrow> (case runInit F san randText order LookupEnv ienv rest c of (printed, result, c') \<Rightarrow> (InitRun printed c', result))
      | RelayCommand all \<Rightarrow> (case runRelay F order LookupEnv renv all of (acts, result) \<Rightarrow> (RelayRun acts, result))
      | UnknownCommand name \<Rightarrow> (Rejected, Exit (Some (ErrorString (''unknown command '' @ fst F name)))))"

definition main_exit :: "run_result \<Rightarrow> nat option" where
  "main_exit result =
     (case result of StillRunning \<Rightarrow> None | Exit None \<Rightarrow> Some 0 | Exit (Some err) \<Rightarrow> Some 1 | StallExit \<Rightarrow> Some 1)"

lemma main_ended_processed:
  assumes "relay_main F env cfg = (acts, Exit None)"
  shows "Processing \<in> set acts"
proof (cases "openDB F (rn_ReadFile env) (rn_has_certs env) (rn_parseErr env) cfg")
  case (Inr db)
  then show ?thesis
    using assms by (auto simp: relay_main_def fail_def Let_def split: sum.splits prod.splits option.splits if_splits loop_outcome.splits)
qed (use assms in \<open>simp add: relay_main_def fail_def\<close>)

text \<open>
  The exit code tells what happened, and printing touches no database: the exit code is zero only
  for a relay that ended its loop without error, a help request, or an \<open>init\<close> that printed its
  script or applied its plan; an unknown command takes no resource and fails; and without
  \<open>--apply\<close> the catalogue is unchanged and the script shows the redacted statements.
\<close>

theorem exit_codes:
  assumes "Run F san randText order Unquote dotenv env renv ienv c args = (trace, result)"
  shows "(\<forall>name. dispatch args = UnknownCommand name \<longrightarrow> trace = Rejected \<and> main_exit result = Some 1) \<and>
    (\<forall>acts. trace = RelayRun acts \<longrightarrow> main_exit result = Some 0 \<longrightarrow> acts = [] \<or> Processing \<in> set acts) \<and>
    (\<forall>rest cfg. dispatch args = InitCommand rest \<longrightarrow>
       loadInitConfig F order (loadDotEnv Unquote dotenv env) rest = Inr (cfg, False) \<longrightarrow>
       validate F configValidationInit cfg = None \<longrightarrow>
       trace = InitRun (renderInitScript (buildInitStatements san randText cfg True)) c \<and> main_exit result = Some 0)"
proof (cases "dispatch args")
  case (InitCommand rest)
  then show ?thesis
    using assms by (auto simp: Run_def runInit_def main_exit_def Let_def fail_def split: sum.splits prod.splits option.splits if_splits)
next
  case (UnknownCommand name)
  then show ?thesis using assms by (auto simp: Run_def main_exit_def)
next
  case (RelayCommand all)
  let ?env = "loadDotEnv Unquote dotenv env"
  obtain acts where run: "runRelay F order ?env renv all = (acts, result)" "trace = RelayRun acts"
    using assms RelayCommand by (auto simp: Run_def Let_def split: prod.splits)
  have "acts = [] \<or> Processing \<in> set acts" if ok: "main_exit result = Some 0"
  proof -
    have "result = Exit None" using ok by (auto simp: main_exit_def split: run_result.splits option.splits)
    then have "acts = [] \<or> (\<exists>cfg. relay_main F renv cfg = (acts, Exit None))"
      using run(1) relay_unstalled by (fastforce simp: runRelay_def split: sum.splits option.splits)
    then show ?thesis using main_ended_processed by blast
  qed
  then show ?thesis using run(2) RelayCommand by auto
qed

definition quiet_env :: init_env where
  "quiet_env = \<lparr> ie_open = (\<lambda>_. None), ie_begin = None, ie_exec = (\<lambda>_ c. Inr c), ie_columns = None, ie_dlq = None,
     ie_commit = None, ie_lost_reply = False \<rparr>"

theorem exit_codes_witness:
  "main_exit (snd (Run (id, \<lambda>_. []) concat [] id (\<lambda>_. None) None (\<lambda>_. None) sample_run quiet_env c [''start''])) = Some 1"
proof -
  have "dispatch [''start''] = UnknownCommand ''start''" by (simp add: dispatch_def HasPrefix_def)
  then show ?thesis
    using exit_codes[OF prod.collapse[symmetric]] by blast
qed

end
