(* ===== verification/Shared_Table.thy ===== *)
theory Shared_Table
  imports Relay
begin

text \<open>
  Several relays on one outbox table: replicas, or the two processes of a rolling deploy. The
  collection query ends in \<open>FOR UPDATE\<close>, without \<open>SKIP LOCKED\<close>: PostgreSQL (READ COMMITTED) evaluates
  it on the snapshot taken when the statement starts, then locks the selected rows one by one in
  the order of the id column; it waits at a row another transaction has locked, and drops a row
  that a transaction has deleted and committed since the snapshot. The locks live until the
  transaction ends. This theory is the step relation of such a system and its invariants; the
  batch in the middle is \<open>processOneBatch\<close> on the rows the relay has locked.
\<close>

section \<open>State and steps\<close>

text \<open>
  The claim of a relay: none outside a batch; else the snapshot of its query, the selected rows it
  has still to lock, and those it has locked.
\<close>

datatype claim = Idle | Claiming (snapshot: "row list") (to_lock: "row list") (locked: "row list")

fun held :: "claim \<Rightarrow> row list" where
  "held Idle = []"
| "held (Claiming snap todo rows) = rows"

text \<open>
  The shared tables, the claim and the memory of each relay (statistics and the time of its last
  backlog probe), and the history of the rows removed: by which relay, and with which fate.
\<close>

record shared =
  sh_outbox :: "row list"
  sh_dlq :: "bytes list"
  sh_claim :: "nat \<Rightarrow> claim"
  sh_memory :: "nat \<Rightarrow> appStats \<times> int"
  sh_removed :: "(nat \<times> row \<times> fate) list"

definition gone :: "shared \<Rightarrow> row list" where
  "gone s = map (\<lambda>(i, row, f). row) (sh_removed s)"

text \<open>The rows the query selects on a snapshot, in the order in which they are locked.\<close>

definition selection :: "pg \<Rightarrow> appConfig \<Rightarrow> row list \<Rightarrow> go_error + row list" where
  "selection P cfg rows = (case select_rows P cfg rows of Inl err \<Rightarrow> Inl err | Inr sel \<Rightarrow> Inr (map snd sel))"

text \<open>The events of a relay that holds these rows, and the private view on which its batch runs.\<close>

definition claim_events :: "pg \<Rightarrow> appConfig \<Rightarrow> row list \<Rightarrow> event list" where
  "claim_events P cfg rows = map (\<lambda>row. event_of (the (resolved P cfg row)) row) rows"

definition private_view :: "shared \<Rightarrow> nat \<Rightarrow> row list \<Rightarrow> app_state" where
  "private_view s i rows =
     \<lparr> as_outbox = rows, as_dlq = [], as_stats = fst (sh_memory s i), as_lastBacklogProbe = snd (sh_memory s i) \<rparr>"

text \<open>
  The end of a batch, with commit or rollback: the deletions and dead letters take effect on the
  shared tables and all locks are released. The backlog gauge is updated after the transaction.
\<close>

definition finish_batch ::
  "fmt \<Rightarrow> golib \<Rightarrow> pg \<Rightarrow> appConfig \<Rightarrow> string list \<Rightarrow> batch_env \<Rightarrow> nat \<Rightarrow> row list \<Rightarrow> shared \<Rightarrow> shared" where
  "finish_batch F L P cfg cols env i rows s =
     (case processOneBatch F L P cfg cols env (private_view s i rows) of (result, err, st) \<Rightarrow>
        let lost = filter (\<lambda>row. row \<notin> set (as_outbox st)) rows;
            outbox = filter (\<lambda>row. row \<notin> set lost) (sh_outbox s);
            st' = (if is_err err ErrFatalAfterCommit \<or> is_err err errDatabaseBatch then st
                   else updateBacklog P cfg env result (st\<lparr>as_outbox := outbox\<rparr>)) in
        s\<lparr>sh_outbox := outbox, sh_dlq := sh_dlq s @ as_dlq st, sh_claim := (sh_claim s)(i := Idle),
          sh_memory := (sh_memory s)(i := (as_stats st', as_lastBacklogProbe st')),
          sh_removed := sh_removed s @
            map (\<lambda>row. (i, row, batch_fate L cfg env (claim_events P cfg rows) (event_of (the (resolved P cfg row)) row))) lost\<rparr>)"

text \<open>
  The steps. Producers insert rows with ids of their own; a relay takes its snapshot, locks its
  next row when no other relay holds it, drops it when it is gone, and ends its batch when it holds
  all that is left. A transaction that fails before its batch, for instance at the query timeout
  while it waits, or with its process, releases its locks.
\<close>

datatype turn = Insert "row list" | Snapshot nat | Lock nat | Drop nat | Abandon nat | Finish nat batch_env

inductive step ::
  "fmt \<Rightarrow> golib \<Rightarrow> pg \<Rightarrow> (nat \<Rightarrow> appConfig) \<Rightarrow> string list \<Rightarrow> shared \<Rightarrow> turn \<Rightarrow> shared \<Rightarrow> bool"
  for F L P cfgs cols where
  insert: "(\<And>i. outbox_ok P (cfgs i) cols (sh_outbox s @ gone s @ new)) \<Longrightarrow>
     step F L P cfgs cols s (Insert new) (s\<lparr>sh_outbox := sh_outbox s @ new\<rparr>)"
| snapshot: "sh_claim s i = Idle \<Longrightarrow> selection P (cfgs i) (sh_outbox s) = Inr rows \<Longrightarrow>
     step F L P cfgs cols s (Snapshot i) (s\<lparr>sh_claim := (sh_claim s)(i := Claiming (sh_outbox s) rows [])\<rparr>)"
| lock: "sh_claim s i = Claiming snap (row # todo) rows \<Longrightarrow> row \<in> set (sh_outbox s) \<Longrightarrow>
     (\<And>j. j \<noteq> i \<Longrightarrow> row \<notin> set (held (sh_claim s j))) \<Longrightarrow>
     step F L P cfgs cols s (Lock i) (s\<lparr>sh_claim := (sh_claim s)(i := Claiming snap todo (rows @ [row]))\<rparr>)"
| drop: "sh_claim s i = Claiming snap (row # todo) rows \<Longrightarrow> row \<notin> set (sh_outbox s) \<Longrightarrow>
     step F L P cfgs cols s (Drop i) (s\<lparr>sh_claim := (sh_claim s)(i := Claiming snap todo rows)\<rparr>)"
| abandon: "sh_claim s i \<noteq> Idle \<Longrightarrow>
     step F L P cfgs cols s (Abandon i) (s\<lparr>sh_claim := (sh_claim s)(i := Idle)\<rparr>)"
| finish: "sh_claim s i = Claiming snap [] rows \<Longrightarrow> arrival_ok env \<Longrightarrow> be_inserted env = [] \<Longrightarrow>
     step F L P cfgs cols s (Finish i env) (finish_batch F L P (cfgs i) cols env i rows s)"

inductive_cases finishE: "step F L P cfgs cols s (Finish i env) s'"

text \<open>
  Reachable states, from tables nobody works on; \<open>guard\<close> restricts the steps taken into account. The
  relays agree on the id column, and each has a validated batch target.
\<close>

definition fleet_ok :: "(nat \<Rightarrow> appConfig) \<Rightarrow> bool" where
  "fleet_ok cfgs \<longleftrightarrow> (\<forall>i. EventID (cfgs i) = EventID (cfgs 0) \<and> CollectBatchTarget (cfgs i) > 0)"

definition fresh_tables :: "pg \<Rightarrow> (nat \<Rightarrow> appConfig) \<Rightarrow> string list \<Rightarrow> shared \<Rightarrow> bool" where
  "fresh_tables P cfgs cols s \<longleftrightarrow> (\<forall>i. outbox_ok P (cfgs i) cols (sh_outbox s)) \<and> (\<forall>i. sh_claim s i = Idle) \<and>
     sh_dlq s = [] \<and> sh_removed s = []"

inductive reachable ::
  "fmt \<Rightarrow> golib \<Rightarrow> pg \<Rightarrow> (nat \<Rightarrow> appConfig) \<Rightarrow> string list \<Rightarrow> (shared \<Rightarrow> turn \<Rightarrow> bool) \<Rightarrow> shared \<Rightarrow> bool"
  for F L P cfgs cols guard where
  start: "fresh_tables P cfgs cols s \<Longrightarrow> reachable F L P cfgs cols guard s"
| turn: "reachable F L P cfgs cols guard s \<Longrightarrow> step F L P cfgs cols s t s' \<Longrightarrow> guard s t \<Longrightarrow>
     reachable F L P cfgs cols guard s'"

section \<open>A claim is a collection\<close>

text \<open>The share of a route does not shrink when there are fewer routes.\<close>

lemma query_share_mono:
  assumes "query_share b n = Some s" "b > 0" "1 \<le> m" "m \<le> n"
  shows "\<exists>s'. query_share b m = Some s' \<and> s \<le> s'"
proof -
  have r: "int64_range (b + n)" "int64_range (b + n - 1)" "s = max 1 ((b + n - 1) sdiv n)"
    using assms(1) by (auto simp: query_share_def split: if_splits)
  have r': "int64_range (b + m)" "int64_range (b + m - 1)" using r(1) assms(2-4) by (auto simp: int64_range_def)
  have q: "(b + k - 1) sdiv k = (b - 1) div k + 1" if "k \<ge> 1" for k
  proof -
    have "(b + k - 1) div k = (b - 1) div k + 1" using that div_add_self2[of k "b - 1"] by (simp add: algebra_simps)
    then show ?thesis using that assms(2) by (simp add: sdiv_pos)
  qed
  have "(b - 1) div n \<le> (b - 1) div m" using assms(2-4) by (intro zdiv_mono2) auto
  then have "(b + n - 1) sdiv n \<le> (b + m - 1) sdiv m" using q[of n] q[of m] assms(3,4) by simp
  then show ?thesis using r' r(3) by (auto simp: query_share_def)
qed

lemma selection_chosen:
  assumes u: "ids_unique P cfg rows" and sel: "selection P cfg rows = Inr sel"
  obtains share where "share_of P cfg rows = Some share" "sel = filter (chosen P cfg rows share) (sort_key (rank P cfg) rows)"
proof (cases "query_routes P cfg rows = []")
  case True
  have "filter (chosen P cfg rows 1) (sort_key (rank P cfg) rows) = []" using chosen_empty[OF True] by (simp add: filter_empty_conv)
  then show ?thesis using that[of 1] sel True by (simp add: share_of_def selection_def select_rows_def)
next
  case False
  then obtain share where s: "query_share (CollectBatchTarget cfg) (int (length (query_routes P cfg rows))) = Some share"
    using sel by (cases "query_share (CollectBatchTarget cfg) (int (length (query_routes P cfg rows)))")
      (auto simp: selection_def select_rows_def)
  show ?thesis using that[of share] sel s False select_rows_eq[OF u False s] by (simp add: share_of_def selection_def comp_def)
qed

text \<open>
  A relay that holds a part of a selection runs its batch on exactly these rows: the query over
  them alone would select all of them, with the same routes.
\<close>

lemma share_of_part:
  assumes share: "share_of P cfg rows = Some share" and b: "CollectBatchTarget cfg > 0"
    and part: "set part \<subseteq> set rows" "\<And>r. r \<in> set part \<Longrightarrow> resolved P cfg r \<noteq> None"
  obtains share' where "share_of P cfg part = Some share'" "part = [] \<or> share \<le> share'"
proof (cases "part = []")
  case True
  then show ?thesis using that[of 1] by (simp add: share_of_def query_routes_def)
next
  case False
  let ?n = "length (query_routes P cfg rows)" and ?m = "length (query_routes P cfg part)"
  have "set (query_routes P cfg part) \<subseteq> set (query_routes P cfg rows)" using part(1) unfolding query_routes_set by blast
  then have "?m \<le> ?n"
    using query_routes_distinct by (metis List.finite_set card_mono distinct_card)
  moreover obtain r where "r \<in> set part" using False by (cases part) auto
  then obtain rt where "rt \<in> set (query_routes P cfg part)" using part(2) unfolding query_routes_set by blast
  then have ne: "query_routes P cfg part \<noteq> []" by auto
  then have "1 \<le> ?m" by (cases "query_routes P cfg part") auto
  ultimately have m: "1 \<le> int ?m" "int ?m \<le> int ?n" "query_routes P cfg rows \<noteq> []" by auto
  then have "query_share (CollectBatchTarget cfg) (int ?n) = Some share" using share by (simp add: share_of_def)
  from query_share_mono[OF this b m(1,2)] show ?thesis using that ne by (auto simp: share_of_def)
qed

lemma claimed_rows_collected:
  assumes ok: "outbox_ok P cfg cols snap" and b: "CollectBatchTarget cfg > 0" and share: "share_of P cfg snap = Some share"
    and sel: "past @ todo = filter (chosen P cfg snap share) (sort_key (rank P cfg) snap)"
    and part: "rows = filter Q past"
  shows "selectEvents L P cfg cols rows None None = Inr (claim_events P cfg rows)" and "outbox_ok P cfg cols rows"
    and "sorted_wrt (\<lambda>a b. rank P cfg a < rank P cfg b) (past @ todo)"
proof -
  note d = outbox_okD[OF ok]
  have sorted: "sorted_wrt (\<lambda>a b. rank P cfg a < rank P cfg b) (past @ todo)"
    unfolding sel using sorted_key_strict[of "rank P cfg" snap] d(1) by (simp add: sorted_wrt_filter ids_unique_def)
  then have rows: "sorted_wrt (\<lambda>a b. rank P cfg a < rank P cfg b) rows"
    by (simp add: part sorted_wrt_append sorted_wrt_filter)
  have "set (past @ todo) = {r \<in> set snap. chosen P cfg snap share r}" unfolding sel by auto
  then have sub: "set rows \<subseteq> set snap" and ch: "\<And>r. r \<in> set rows \<Longrightarrow> chosen P cfg snap share r" by (auto simp: part)
  have res: "resolved P cfg r \<noteq> None" if "r \<in> set rows" for r using ch[OF that] by (auto simp: chosen_def)
  show ok': "outbox_ok P cfg cols rows" by (rule outbox_ok_subset[OF ok sub strict_distinct[OF rows]])
  obtain share' where s': "share_of P cfg rows = Some share'" "rows = [] \<or> share \<le> share'"
    using share_of_part[OF share b sub res] by blast
  have "chosen P cfg rows share' r" if r: "r \<in> set rows" for r
  proof -
    obtain rt where rt: "resolved P cfg r = Some rt" using res[OF r] by blast
    have "card (older P cfg rows rt r) \<le> card (older P cfg snap rt r)"
      using sub by (intro card_mono finite_subset[of "older P cfg snap rt r" "set snap"]) (auto simp: older_def)
    moreover have "int (card (older P cfg snap rt r)) < share" using ch[OF r] chosen_iff[OF d(1) _ rt] sub r by auto
    ultimately have "int (card (older P cfg rows rt r)) < share'" using s'(2) r by auto
    then show ?thesis using chosen_iff[OF outbox_okD(1)[OF ok'] r rt] by simp
  qed
  moreover have "sort_key (rank P cfg) rows = rows"
    using rows by (intro sort_key_id_if_sorted) (simp add: sorted_wrt_map sorted_wrt_mono_rel[of rows "\<lambda>a b. rank P cfg a < rank P cfg b"])
  ultimately have "filter (chosen P cfg rows share') (sort_key (rank P cfg) rows) = rows" by (simp add: filter_id_conv)
  then show "selectEvents L P cfg cols rows None None = Inr (claim_events P cfg rows)"
    using selectEvents_eq[OF outbox_okD(1,2)[OF ok'] s'(1), of L] by (simp add: collected_def claim_events_def)
  show "sorted_wrt (\<lambda>a b. rank P cfg a < rank P cfg b) (past @ todo)" by (rule sorted)
qed

section \<open>What holds in every reachable state\<close>

text \<open>
  A claim is the run of a lock-taking query: the rows dealt with so far are a prefix of the
  selection of the snapshot; those that were not dropped are locked, still in the table, and those
  that were dropped are gone.
\<close>

definition claim_inv :: "pg \<Rightarrow> appConfig \<Rightarrow> string list \<Rightarrow> row set \<Rightarrow> row set \<Rightarrow> claim \<Rightarrow> bool" where
  "claim_inv P cfg cols table removed c \<longleftrightarrow>
     (case c of Idle \<Rightarrow> True
      | Claiming snap todo rows \<Rightarrow> outbox_ok P cfg cols snap \<and> set snap \<subseteq> table \<union> removed \<and> set rows \<subseteq> table \<and>
          (\<exists>share past. share_of P cfg snap = Some share \<and>
             past @ todo = filter (chosen P cfg snap share) (sort_key (rank P cfg) snap) \<and>
             rows = filter (\<lambda>r. r \<in> set rows) past \<and> set past \<subseteq> set rows \<union> removed))"

definition table_inv :: "pg \<Rightarrow> (nat \<Rightarrow> appConfig) \<Rightarrow> string list \<Rightarrow> shared \<Rightarrow> bool" where
  "table_inv P cfgs cols s \<longleftrightarrow> (\<forall>i. outbox_ok P (cfgs i) cols (sh_outbox s @ gone s)) \<and>
     (\<forall>i. claim_inv P (cfgs i) cols (set (sh_outbox s)) (set (gone s)) (sh_claim s i)) \<and>
     (\<forall>i j. i \<noteq> j \<longrightarrow> set (held (sh_claim s i)) \<inter> set (held (sh_claim s j)) = {})"

lemma claim_inv_Idle [simp]: "claim_inv P cfg cols table removed Idle"
  by (simp add: claim_inv_def)

lemma claim_inv_mono:
  assumes "claim_inv P cfg cols table removed c" "table \<union> removed \<subseteq> table' \<union> removed'" "removed \<subseteq> removed'" "set (held c) \<subseteq> table'"
  shows "claim_inv P cfg cols table' removed' c"
proof (cases c)
  case (Claiming snap todo rows)
  from assms(1) obtain share past where c: "outbox_ok P cfg cols snap" "set snap \<subseteq> table \<union> removed"
      "share_of P cfg snap = Some share" "past @ todo = filter (chosen P cfg snap share) (sort_key (rank P cfg) snap)"
      "rows = filter (\<lambda>r. r \<in> set rows) past" "set past \<subseteq> set rows \<union> removed"
    by (auto simp: claim_inv_def Claiming)
  have "set snap \<subseteq> table' \<union> removed'" "set rows \<subseteq> table'" "set past \<subseteq> set rows \<union> removed'"
    using c(2,6) assms(2-4) by (auto simp: Claiming)
  then show ?thesis using c(1,3-5) unfolding claim_inv_def Claiming claim.case by blast
qed simp

lemma claim_lock:
  assumes "claim_inv P cfg cols table removed (Claiming snap (row # todo) rows)" "row \<in> table" "table \<inter> removed = {}"
  shows "claim_inv P cfg cols table removed (Claiming snap todo (rows @ [row]))"
proof -
  from assms(1) obtain share past where c: "outbox_ok P cfg cols snap" "set snap \<subseteq> table \<union> removed" "set rows \<subseteq> table"
      "share_of P cfg snap = Some share" "past @ row # todo = filter (chosen P cfg snap share) (sort_key (rank P cfg) snap)"
      "rows = filter (\<lambda>r. r \<in> set rows) past" "set past \<subseteq> set rows \<union> removed"
    by (auto simp: claim_inv_def)
  have "distinct (past @ row # todo)"
    unfolding c(5) using ids_unique_distinct[OF outbox_okD(1)[OF c(1)]] by simp
  then have "rows @ [row] = filter (\<lambda>r. r \<in> set (rows @ [row])) (past @ [row])"
    using c(6) by (auto intro!: trans[OF c(6)] filter_cong)
  moreover have "(past @ [row]) @ todo = filter (chosen P cfg snap share) (sort_key (rank P cfg) snap)" using c(5) by simp
  moreover have "set (past @ [row]) \<subseteq> set (rows @ [row]) \<union> removed" using c(7) by auto
  moreover have "set (rows @ [row]) \<subseteq> table" using c(3) assms(2) by simp
  ultimately show ?thesis using c(1,2,4) unfolding claim_inv_def claim.case by blast
qed

lemma claim_drop:
  assumes "claim_inv P cfg cols table removed (Claiming snap (row # todo) rows)" "row \<notin> table"
  shows "claim_inv P cfg cols table removed (Claiming snap todo rows)"
proof -
  from assms(1) obtain share past where c: "outbox_ok P cfg cols snap" "set snap \<subseteq> table \<union> removed" "set rows \<subseteq> table"
      "share_of P cfg snap = Some share" "past @ row # todo = filter (chosen P cfg snap share) (sort_key (rank P cfg) snap)"
      "rows = filter (\<lambda>r. r \<in> set rows) past" "set past \<subseteq> set rows \<union> removed"
    by (auto simp: claim_inv_def)
  have "row \<in> set (past @ row # todo)" by simp
  then have "row \<in> set snap" unfolding c(5) by simp
  then have "row \<in> removed" using c(2) assms(2) by blast
  moreover have "row \<notin> set rows" using c(3) assms(2) by blast
  ultimately have "rows = filter (\<lambda>r. r \<in> set rows) (past @ [row])" "set (past @ [row]) \<subseteq> set rows \<union> removed"
    using c(6,7) by auto
  moreover have "(past @ [row]) @ todo = filter (chosen P cfg snap share) (sort_key (rank P cfg) snap)" using c(5) by simp
  ultimately show ?thesis using c(1-4) unfolding claim_inv_def claim.case by blast
qed

lemma claim_start:
  assumes "outbox_ok P cfg cols rows" "selection P cfg rows = Inr sel" "set rows \<subseteq> table"
  shows "claim_inv P cfg cols table removed (Claiming rows sel [])"
proof -
  obtain share where "share_of P cfg rows = Some share" "sel = filter (chosen P cfg rows share) (sort_key (rank P cfg) rows)"
    by (rule selection_chosen[OF outbox_okD(1)[OF assms(1)] assms(2)])
  then show ?thesis using assms(1,3) unfolding claim_inv_def claim.case by (auto intro!: exI[of _ share] exI[of _ "[]"])
qed

subsection \<open>The end of a batch\<close>

definition lost_rows ::
  "fmt \<Rightarrow> golib \<Rightarrow> pg \<Rightarrow> appConfig \<Rightarrow> string list \<Rightarrow> batch_env \<Rightarrow> nat \<Rightarrow> row list \<Rightarrow> shared \<Rightarrow> row list" where
  "lost_rows F L P cfg cols env i rows s =
     filter (\<lambda>row. row \<notin> set (as_outbox (snd (snd (processOneBatch F L P cfg cols env (private_view s i rows)))))) rows"

definition lost_fate :: "golib \<Rightarrow> pg \<Rightarrow> appConfig \<Rightarrow> batch_env \<Rightarrow> row list \<Rightarrow> row \<Rightarrow> fate" where
  "lost_fate L P cfg env rows row =
     batch_fate L cfg env (claim_events P cfg rows) (event_of (the (resolved P cfg row)) row)"

lemma finish_fields:
  "sh_outbox (finish_batch F L P cfg cols env i rows s) =
     filter (\<lambda>row. row \<notin> set (lost_rows F L P cfg cols env i rows s)) (sh_outbox s)"
  "sh_dlq (finish_batch F L P cfg cols env i rows s) =
     sh_dlq s @ as_dlq (snd (snd (processOneBatch F L P cfg cols env (private_view s i rows))))"
  "sh_claim (finish_batch F L P cfg cols env i rows s) = (sh_claim s)(i := Idle)"
  "sh_removed (finish_batch F L P cfg cols env i rows s) =
     sh_removed s @ map (\<lambda>row. (i, row, lost_fate L P cfg env rows row)) (lost_rows F L P cfg cols env i rows s)"
  "gone (finish_batch F L P cfg cols env i rows s) = gone s @ lost_rows F L P cfg cols env i rows s"
  by (simp_all add: finish_batch_def lost_rows_def lost_fate_def gone_def Let_def comp_def split: prod.splits)

lemma table_distinct:
  assumes "table_inv P cfgs cols s"
  shows "distinct (sh_outbox s @ gone s)"
  using assms outbox_okD(1) ids_unique_distinct unfolding table_inv_def by blast

lemma finish_lost:
  assumes c: "claim_inv P cfg cols table removed (Claiming snap [] rows)"
  shows "set rows \<subseteq> table" "distinct rows" "set (lost_rows F L P cfg cols env i rows s) \<subseteq> set rows"
    "distinct (lost_rows F L P cfg cols env i rows s)"
proof -
  obtain share past where d: "outbox_ok P cfg cols snap"
      "past = filter (chosen P cfg snap share) (sort_key (rank P cfg) snap)" "rows = filter (\<lambda>r. r \<in> set rows) past"
    using c by (auto simp: claim_inv_def)
  have "distinct past" using d(2) ids_unique_distinct[OF outbox_okD(1)[OF d(1)]] by simp
  then show "distinct rows" using d(3) by (metis distinct_filter)
  then show "distinct (lost_rows F L P cfg cols env i rows s)" by (simp add: lost_rows_def)
  show "set rows \<subseteq> table" using c by (simp add: claim_inv_def)
qed (auto simp: lost_rows_def)

text \<open>A step that only changes the claim of one relay.\<close>

lemma claim_change:
  assumes inv: "table_inv P cfgs cols s" and c: "claim_inv P (cfgs i) cols (set (sh_outbox s)) (set (gone s)) c"
    and new: "\<And>j. j \<noteq> i \<Longrightarrow> set (held c) \<inter> set (held (sh_claim s j)) = {}"
  shows "table_inv P cfgs cols (s\<lparr>sh_claim := (sh_claim s)(i := c)\<rparr>)"
proof -
  have "gone (s\<lparr>sh_claim := (sh_claim s)(i := c)\<rparr>) = gone s" by (simp add: gone_def)
  moreover have "set (held (((sh_claim s)(i := c)) j)) \<inter> set (held (((sh_claim s)(i := c)) k)) = {}" if "j \<noteq> k" for j k
    using inv new[of j] new[of k] that unfolding table_inv_def by (cases "j = i"; cases "k = i") (simp_all add: Int_commute)
  ultimately show ?thesis using inv c unfolding table_inv_def by simp
qed

lemma table_ok_all: "table_inv P cfgs cols s \<Longrightarrow> outbox_ok P (cfgs i) cols (sh_outbox s @ gone s)"
  unfolding table_inv_def by blast

lemma held_disjoint: "table_inv P cfgs cols s \<Longrightarrow> i \<noteq> j \<Longrightarrow> set (held (sh_claim s i)) \<inter> set (held (sh_claim s j)) = {}"
  unfolding table_inv_def by blast

lemma claim_of: "table_inv P cfgs cols s \<Longrightarrow> sh_claim s i = c \<Longrightarrow> claim_inv P (cfgs i) cols (set (sh_outbox s)) (set (gone s)) c"
  unfolding table_inv_def by blast

lemma held_in_table: "table_inv P cfgs cols s \<Longrightarrow> set (held (sh_claim s i)) \<subseteq> set (sh_outbox s)"
  using claim_of[of P cfgs cols s i "sh_claim s i"] by (cases "sh_claim s i") (simp_all add: claim_inv_def)

lemma finish_keeps_table:
  assumes inv: "table_inv P cfgs cols s" and c: "sh_claim s i = Claiming snap [] rows"
  shows "table_inv P cfgs cols (finish_batch F L P (cfgs i) cols env i rows s)"
proof -
  let ?lost = "lost_rows F L P (cfgs i) cols env i rows s" and ?s = "finish_batch F L P (cfgs i) cols env i rows s"
  note s' = finish_fields[of F L P "cfgs i" cols env i rows s]
  have rows: "set rows \<subseteq> set (sh_outbox s)" "distinct rows" "set ?lost \<subseteq> set rows" "distinct ?lost"
    using finish_lost[OF claim_of[OF inv c]] by blast+
  have dist: "distinct (sh_outbox s @ gone s)" by (rule table_distinct[OF inv])
  have all: "set (sh_outbox ?s) \<union> set (gone ?s) = set (sh_outbox s) \<union> set (gone s)" using s'(1,5) rows(1,3) by auto
  have "distinct (sh_outbox ?s @ gone ?s)" using dist rows(1,3,4) s'(1,5) by auto
  moreover have "outbox_ok P (cfgs j) cols (sh_outbox s @ gone s)" for j using inv by (simp add: table_inv_def)
  ultimately have ok: "outbox_ok P (cfgs j) cols (sh_outbox ?s @ gone ?s)" for j
    using outbox_ok_subset[of P "cfgs j" cols "sh_outbox s @ gone s"] all by simp
  have claims: "claim_inv P (cfgs j) cols (set (sh_outbox ?s)) (set (gone ?s)) (sh_claim ?s j)" for j
  proof (cases "j = i")
    case False
    note cj = claim_of[OF inv refl, of j]
    have "set (held (sh_claim s j)) \<inter> set ?lost = {}" using held_disjoint[OF inv False] rows(3) c by auto
    moreover note held_in_table[OF inv, of j]
    ultimately have "set (held (sh_claim s j)) \<subseteq> set (sh_outbox ?s)" using s'(1) by auto
    then show ?thesis using claim_inv_mono[OF cj] all s'(3,5) False by simp
  qed (simp add: s'(3))
  have "\<forall>j k. j \<noteq> k \<longrightarrow> set (held (sh_claim ?s j)) \<inter> set (held (sh_claim ?s k)) = {}"
    using held_disjoint[OF inv] by (simp add: s'(3))
  then show ?thesis using ok claims unfolding table_inv_def by blast
qed

lemma insert_keeps_table:
  assumes inv: "table_inv P cfgs cols s" and new: "\<And>i. outbox_ok P (cfgs i) cols (sh_outbox s @ gone s @ new)"
  shows "table_inv P cfgs cols (s\<lparr>sh_outbox := sh_outbox s @ new\<rparr>)"
proof -
  let ?s = "s\<lparr>sh_outbox := sh_outbox s @ new\<rparr>"
  have g: "gone ?s = gone s" by (simp add: gone_def)
  have "distinct (sh_outbox s @ gone s @ new)" by (rule ids_unique_distinct[OF outbox_okD(1)[OF new]])
  then have "outbox_ok P (cfgs i) cols ((sh_outbox s @ new) @ gone s)" for i
    by (intro outbox_ok_subset[OF new]) auto
  moreover have "claim_inv P (cfgs i) cols (set (sh_outbox s @ new)) (set (gone s)) (sh_claim s i)" for i
  proof (rule claim_inv_mono[OF claim_of[OF inv refl]])
    show "set (held (sh_claim s i)) \<subseteq> set (sh_outbox s @ new)" using held_in_table[OF inv, of i] by auto
  qed auto
  ultimately show ?thesis using held_disjoint[OF inv] unfolding table_inv_def g by simp
qed

lemma step_keeps_table:
  assumes "step F L P cfgs cols s t s'" "table_inv P cfgs cols s"
  shows "table_inv P cfgs cols s'"
  using assms
proof (induction rule: step.induct)
  case (insert s new)
  from insert(2,1) show ?case by (rule insert_keeps_table)
next
  case (snapshot s i rows)
  have "distinct (sh_outbox s @ gone s)" by (rule table_distinct[OF snapshot(3)])
  then have "outbox_ok P (cfgs i) cols (sh_outbox s)"
    by (intro outbox_ok_subset[OF table_ok_all[OF snapshot(3)]]) simp_all
  from claim_start[OF this snapshot(2)] show ?case by (rule claim_change[OF snapshot(3)]) simp_all
next
  case (lock s i snap row todo rows)
  have "set (sh_outbox s) \<inter> set (gone s) = {}" using table_distinct[OF lock(4)] by auto
  from claim_lock[OF claim_of[OF lock(4,1)] lock(2) this] show ?case
    using held_disjoint[OF lock(4), of i] lock(1,3) by (intro claim_change[OF lock(4)]) (auto dest: lock(3))
next
  case (drop s i snap row todo rows)
  from claim_drop[OF claim_of[OF drop(3,1)] drop(2)] show ?case
    using held_disjoint[OF drop(3), of i] drop(1) by (intro claim_change[OF drop(3)]) auto
next
  case (abandon s i)
  from abandon(2) show ?case by (rule claim_change) simp_all
next
  case (finish s i snap rows env)
  from finish(4,1) show ?case by (rule finish_keeps_table)
qed

lemma reachable_table:
  assumes "reachable F L P cfgs cols guard s"
  shows "table_inv P cfgs cols s"
  using assms
proof (induction rule: reachable.induct)
  case (start s)
  then show ?case by (simp add: fresh_tables_def table_inv_def gone_def)
next
  case (turn s t s')
  then show ?case using step_keeps_table by blast
qed

end
