(* ===== verification/Shared_Table_Facts.thy ===== *)
theory Shared_Table_Facts
  imports Shared_Table
begin

text \<open>
  What the row locks give several relays on one table: every row is removed by one relay that held
  it alone, with a final fate and one dead letter; a route is worked on by one relay at a time, in
  id order; waiting for locks never deadlocks; and what a relay may not conclude from a small batch.
\<close>

section \<open>Every row is settled once\<close>

lemma claim_complete:
  assumes inv: "table_inv P cfgs cols s" and fleet: "fleet_ok cfgs" and c: "sh_claim s i = Claiming snap todo rows"
  shows "selectEvents L P (cfgs i) cols rows None None = Inr (claim_events P (cfgs i) rows)" "outbox_ok P (cfgs i) cols rows"
proof -
  obtain share past where d: "outbox_ok P (cfgs i) cols snap" "share_of P (cfgs i) snap = Some share"
      "past @ todo = filter (chosen P (cfgs i) snap share) (sort_key (rank P (cfgs i)) snap)" "rows = filter (\<lambda>r. r \<in> set rows) past"
    using claim_of[OF inv c] by (auto simp: claim_inv_def)
  have "CollectBatchTarget (cfgs i) > 0" using fleet by (simp add: fleet_ok_def)
  from claimed_rows_collected[OF d(1) this d(2,3,4)] show
    "selectEvents L P (cfgs i) cols rows None None = Inr (claim_events P (cfgs i) rows)" "outbox_ok P (cfgs i) cols rows" by blast+
qed

lemma settled_lost:
  assumes "row \<in> set rows"
  shows "settled L cfg env (claim_events P cfg rows) row \<longleftrightarrow> lost_fate L P cfg env rows row \<noteq> Kept"
  using assms by (auto simp: settled_def list_ex_iff claim_events_def lost_fate_def event_of_def)

lemma dead_count:
  "length (filter (\<lambda>e. is_dead (batch_fate L cfg env (claim_events P cfg rows) e)) (claim_events P cfg rows)) =
     length (filter (\<lambda>row. is_dead (lost_fate L P cfg env rows row)) (filter (\<lambda>row. lost_fate L P cfg env rows row \<noteq> Kept) rows))"
proof -
  have "length (filter (\<lambda>e. is_dead (batch_fate L cfg env evs e)) (claim_events P cfg rows)) =
      length (filter (\<lambda>row. is_dead (batch_fate L cfg env evs (event_of (the (resolved P cfg row)) row))) rows)" for evs
    by (simp add: claim_events_def filter_map comp_def)
  moreover have "filter (\<lambda>row. is_dead (lost_fate L P cfg env rows row)) (filter (\<lambda>row. lost_fate L P cfg env rows row \<noteq> Kept) rows) =
      filter (\<lambda>row. is_dead (lost_fate L P cfg env rows row)) rows"
    unfolding filter_filter by (rule filter_cong) (auto simp: is_dead_iff)
  ultimately show ?thesis by (simp add: lost_fate_def)
qed

text \<open>The effect of the end of a batch on the shared tables: nothing, or all that it settled.\<close>

lemma finish_effect:
  assumes inv: "table_inv P cfgs cols s" and fleet: "fleet_ok cfgs" and c: "sh_claim s i = Claiming snap [] rows"
    and arr: "arrival_ok env" and ins: "be_inserted env = []"
  obtains (unchanged) "lost_rows F L P (cfgs i) cols env i rows s = []" "sh_dlq (finish_batch F L P (cfgs i) cols env i rows s) = sh_dlq s"
    | (effect) dead where "lost_rows F L P (cfgs i) cols env i rows s = filter (\<lambda>row. lost_fate L P (cfgs i) env rows row \<noteq> Kept) rows"
      "sh_dlq (finish_batch F L P (cfgs i) cols env i rows s) = sh_dlq s @ dead"
      "\<And>row m. row \<in> set rows \<Longrightarrow> lost_fate L P (cfgs i) env rows row = Dead m \<Longrightarrow> DLQTable (cfgs i) \<noteq> [] \<Longrightarrow>
         \<exists>b. b \<in> set dead \<and> dead_letter_of L (cfgs i) row m b"
      "length dead = length (filter (\<lambda>row. is_dead (lost_fate L P (cfgs i) env rows row) \<and> DLQTable (cfgs i) \<noteq> [])
         (lost_rows F L P (cfgs i) cols env i rows s))"
proof -
  let ?view = "private_view s i rows" and ?cfg = "cfgs i"
  note claim = claim_complete[OF inv fleet c]
  obtain result err st where run: "processOneBatch F L P ?cfg cols env ?view = (result, err, st)" by (metis prod_cases3)
  have view: "as_outbox ?view = rows" "as_dlq ?view = []" by (simp_all add: private_view_def)
  have ok: "outbox_ok P ?cfg cols (as_outbox ?view @ be_inserted env)" using claim(2) ins view by simp
  have lost: "lost_rows F L P ?cfg cols env i rows s = filter (\<lambda>row. row \<notin> set (as_outbox st)) rows"
    by (simp add: lost_rows_def run)
  have dlq: "sh_dlq (finish_batch F L P ?cfg cols env i rows s) = sh_dlq s @ as_dlq st" by (simp add: finish_fields run)
  from ok arr run show ?thesis
  proof (cases rule: batch_effect)
    case unchanged
    then show ?thesis using that(1) lost dlq ins view by simp
  next
    case (effect events dead)
    then have ev: "events = claim_events P ?cfg rows" using claim(1) view by simp
    have l: "lost_rows F L P ?cfg cols env i rows s = filter (\<lambda>row. lost_fate L P ?cfg env rows row \<noteq> Kept) rows"
      unfolding lost effect(2) ev view ins using settled_lost by (intro filter_cong) auto
    have len: "length dead = length (filter (\<lambda>row. is_dead (lost_fate L P ?cfg env rows row) \<and> DLQTable ?cfg \<noteq> [])
         (lost_rows F L P ?cfg cols env i rows s))"
      unfolding effect(5) ev l dead_count by simp
    have dl: "\<exists>b. b \<in> set dead \<and> dead_letter_of L ?cfg row m b"
      if "row \<in> set rows" "lost_fate L P ?cfg env rows row = Dead m" "DLQTable ?cfg \<noteq> []" for row m
      using effect(4)[of "event_of (the (resolved P ?cfg row)) row" m] that
      by (auto simp: ev claim_events_def lost_fate_def event_of_def)
    show ?thesis by (rule that(2)[OF l _ dl len]) (use dlq effect(3) view in auto)
  qed
qed

text \<open>The history agrees with the dead-letter table.\<close>

definition entry_ok :: "golib \<Rightarrow> (nat \<Rightarrow> appConfig) \<Rightarrow> bytes list \<Rightarrow> nat \<times> row \<times> fate \<Rightarrow> bool" where
  "entry_ok L cfgs dlq e \<longleftrightarrow>
     (case e of (i, row, f) \<Rightarrow> f \<noteq> Kept \<and>
        (\<forall>m. f = Dead m \<longrightarrow> DLQTable (cfgs i) \<noteq> [] \<longrightarrow> (\<exists>b. b \<in> set dlq \<and> dead_letter_of L (cfgs i) row m b)))"

definition dead_entry :: "(nat \<Rightarrow> appConfig) \<Rightarrow> nat \<times> row \<times> fate \<Rightarrow> bool" where
  "dead_entry cfgs e \<longleftrightarrow> (case e of (i, row, f) \<Rightarrow> is_dead f \<and> DLQTable (cfgs i) \<noteq> [])"

definition history_inv :: "golib \<Rightarrow> (nat \<Rightarrow> appConfig) \<Rightarrow> shared \<Rightarrow> bool" where
  "history_inv L cfgs s \<longleftrightarrow> list_all (entry_ok L cfgs (sh_dlq s)) (sh_removed s) \<and>
     length (sh_dlq s) = length (filter (dead_entry cfgs) (sh_removed s))"

lemma entry_ok_mono: "entry_ok L cfgs dlq e \<Longrightarrow> set dlq \<subseteq> set dlq' \<Longrightarrow> entry_ok L cfgs dlq' e"
  unfolding entry_ok_def split_beta by blast

lemma finish_keeps_history:
  assumes inv: "table_inv P cfgs cols s" and fleet: "fleet_ok cfgs" and c: "sh_claim s i = Claiming snap [] rows"
    and env: "arrival_ok env" "be_inserted env = []" and h: "history_inv L cfgs s"
  shows "history_inv L cfgs (finish_batch F L P (cfgs i) cols env i rows s)"
proof -
  let ?s = "finish_batch F L P (cfgs i) cols env i rows s" and ?lost = "lost_rows F L P (cfgs i) cols env i rows s"
  let ?fate = "lost_fate L P (cfgs i) env rows"
  note rem = finish_fields(4)[of F L P "cfgs i" cols env i rows s]
  from inv fleet c env show ?thesis
  proof (cases rule: finish_effect[where F = F and L = L])
    case unchanged
    then have "sh_removed ?s = sh_removed s" "sh_dlq ?s = sh_dlq s" using rem by simp_all
    then show ?thesis using h by (simp add: history_inv_def)
  next
    case (effect dead)
    have "list_all (entry_ok L cfgs (sh_dlq s @ dead)) (map (\<lambda>row. (i, row, ?fate row)) ?lost)"
      using effect(1,3) by (auto simp: entry_ok_def list_all_iff)
    moreover have "list_all (entry_ok L cfgs (sh_dlq s @ dead)) (sh_removed s)"
      using h by (auto simp: history_inv_def list_all_iff intro: entry_ok_mono)
    moreover have "length dead = length (filter (dead_entry cfgs) (map (\<lambda>row. (i, row, ?fate row)) ?lost))"
      unfolding effect(4) by (simp add: filter_map comp_def dead_entry_def)
    ultimately show ?thesis using h unfolding history_inv_def rem effect(2) by simp
  qed
qed

lemma step_keeps_history:
  assumes "step F L P cfgs cols s t s'" "table_inv P cfgs cols s" "fleet_ok cfgs" "history_inv L cfgs s"
  shows "history_inv L cfgs s'"
  using assms
proof (induction rule: step.induct)
  case (finish s i snap rows env)
  then show ?case by (metis finish_keeps_history)
qed (simp_all add: history_inv_def)

lemma reachable_history:
  assumes "reachable F L P cfgs cols guard s" "fleet_ok cfgs"
  shows "history_inv L cfgs s"
  using assms
proof (induction rule: reachable.induct)
  case (start s)
  then show ?case by (simp add: fresh_tables_def history_inv_def)
next
  case (turn s t s')
  then show ?case using step_keeps_history reachable_table by blast
qed

text \<open>Where an entry of the history comes from.\<close>

lemma removed_by:
  assumes "reachable F L P cfgs cols guard s" "(i, row, f) \<in> set (sh_removed s)"
  shows "\<exists>s0 snap rows env. reachable F L P cfgs cols guard s0 \<and> sh_claim s0 i = Claiming snap [] rows \<and>
     row \<in> set rows \<and> f = lost_fate L P (cfgs i) env rows row"
  using assms
proof (induction rule: reachable.induct)
  case (start s)
  then show ?case by (simp add: fresh_tables_def)
next
  case (turn s t s')
  from turn.hyps(2) show ?case
  proof (cases rule: step.cases)
    case (finish j snap rows env)
    have "(i, row, f) \<in> set (sh_removed s) \<or> (i = j \<and> row \<in> set rows \<and> f = lost_fate L P (cfgs i) env rows row)"
      using turn.prems finish(2) by (auto simp: finish_fields lost_rows_def)
    then show ?thesis using turn.IH turn.hyps(1) finish(3) by blast
  qed (use turn in auto)
qed

text \<open>
  (C12) Relays that share a table settle every row once. In every reachable state of any number of
  relays, under any interleaving of their locks, batches, failures and ambiguous commits: no two
  relays hold the same row; a row that was removed was in the batch of one relay, which held it
  alone, and that batch gave it a final fate; it is removed once and never returns; and the
  dead-letter table holds, for relays with one configured, a record of every condemned row and
  not one record more.
\<close>

theorem shared_rows_settled_once:
  assumes run: "reachable F L P cfgs cols guard s" and fleet: "fleet_ok cfgs"
  shows "(\<forall>i j. i \<noteq> j \<longrightarrow> set (held (sh_claim s i)) \<inter> set (held (sh_claim s j)) = {}) \<and>
    distinct (gone s) \<and> set (sh_outbox s) \<inter> set (gone s) = {} \<and>
    (\<forall>i row f. (i, row, f) \<in> set (sh_removed s) \<longrightarrow>
       (\<exists>s0 snap rows env. reachable F L P cfgs cols guard s0 \<and> sh_claim s0 i = Claiming snap [] rows \<and> row \<in> set rows \<and>
          (\<forall>j. j \<noteq> i \<longrightarrow> row \<notin> set (held (sh_claim s0 j))) \<and> f = lost_fate L P (cfgs i) env rows row) \<and>
       (f = Delivered \<or> (\<exists>m. f = Dead m \<and>
          (DLQTable (cfgs i) \<noteq> [] \<longrightarrow> (\<exists>b. b \<in> set (sh_dlq s) \<and> dead_letter_of L (cfgs i) row m b))))) \<and>
    length (sh_dlq s) = length (filter (dead_entry cfgs) (sh_removed s))"
proof -
  note inv = reachable_table[OF run]
  note h = reachable_history[OF run fleet]
  have one: "\<exists>s0 snap rows env. reachable F L P cfgs cols guard s0 \<and> sh_claim s0 i = Claiming snap [] rows \<and> row \<in> set rows \<and>
      (\<forall>j. j \<noteq> i \<longrightarrow> row \<notin> set (held (sh_claim s0 j))) \<and> f = lost_fate L P (cfgs i) env rows row"
    if r: "(i, row, f) \<in> set (sh_removed s)" for i row f
  proof -
    obtain s0 snap rows env where s0: "reachable F L P cfgs cols guard s0" "sh_claim s0 i = Claiming snap [] rows" "row \<in> set rows"
        "f = lost_fate L P (cfgs i) env rows row"
      using removed_by[OF run r] by blast
    have "row \<notin> set (held (sh_claim s0 j))" if "j \<noteq> i" for j
      using held_disjoint[OF reachable_table[OF s0(1)] that] s0(2,3) by auto
    then show ?thesis using s0 by blast
  qed
  have fate: "f = Delivered \<or> (\<exists>m. f = Dead m \<and>
      (DLQTable (cfgs i) \<noteq> [] \<longrightarrow> (\<exists>b. b \<in> set (sh_dlq s) \<and> dead_letter_of L (cfgs i) row m b)))"
    if "(i, row, f) \<in> set (sh_removed s)" for i row f
    using h that by (cases f) (auto simp: history_inv_def list_all_iff entry_ok_def)
  have "distinct (gone s)" "set (sh_outbox s) \<inter> set (gone s) = {}" using table_distinct[OF inv] by auto
  moreover have "length (sh_dlq s) = length (filter (dead_entry cfgs) (sh_removed s))"
    using h by (simp add: history_inv_def)
  ultimately show ?thesis using held_disjoint[OF inv] one fate by blast
qed

section \<open>One relay per route, in id order\<close>

text \<open>
  Producers that insert in id order, and relays that read a route alike: if one owns a route, then
  every row the other assigns to it is assigned to it by the first as well.
\<close>

definition in_order :: "pg \<Rightarrow> appConfig \<Rightarrow> shared \<Rightarrow> turn \<Rightarrow> bool" where
  "in_order P cfg s t \<longleftrightarrow>
     (case t of Insert new \<Rightarrow> list_all (\<lambda>r. list_all (\<lambda>r'. rank P cfg r' < rank P cfg r) (sh_outbox s @ gone s)) new | _ \<Rightarrow> True)"

text \<open>
  The relays read routes alike: a row of a route for one relay is a row of that route for every
  relay that owns some row of the route.
\<close>

definition same_routes :: "pg \<Rightarrow> (nat \<Rightarrow> appConfig) \<Rightarrow> bool" where
  "same_routes P cfgs \<longleftrightarrow> (\<forall>i j r r' rt. resolved P (cfgs i) r = Some rt \<longrightarrow> resolved P (cfgs j) r' = Some rt \<longrightarrow>
     resolved P (cfgs j) r = Some rt)"

lemma fleet_rank: "fleet_ok cfgs \<Longrightarrow> rank P (cfgs i) = rank P (cfgs 0)"
proof -
  assume "fleet_ok cfgs"
  then have "EventID (cfgs i) = EventID (cfgs 0)" unfolding fleet_ok_def by blast
  then show ?thesis by (intro ext) (simp add: rank_def row_id_def)
qed

text \<open>A row of the table that a snapshot does not hold is younger than all of the snapshot.\<close>

definition ages_inv :: "pg \<Rightarrow> appConfig \<Rightarrow> shared \<Rightarrow> bool" where
  "ages_inv P cfg s \<longleftrightarrow> (\<forall>i snap todo rows r r'. sh_claim s i = Claiming snap todo rows \<longrightarrow>
     r \<in> set (sh_outbox s) \<longrightarrow> r \<notin> set snap \<longrightarrow> r' \<in> set snap \<longrightarrow> rank P cfg r' < rank P cfg r)"

lemma ages_fewer:
  assumes "ages_inv P cfg s" "set (sh_outbox s') \<subseteq> set (sh_outbox s)"
    "\<And>i snap todo rows. sh_claim s' i = Claiming snap todo rows \<Longrightarrow>
       set (sh_outbox s') \<subseteq> set snap \<or> (\<exists>todo rows. sh_claim s i = Claiming snap todo rows)"
  shows "ages_inv P cfg s'"
  using assms unfolding ages_inv_def by (metis (no_types, lifting) subsetD)

lemma step_keeps_ages:
  assumes "step F L P cfgs cols s t s'" "table_inv P cfgs cols s" "ages_inv P cfg s" "in_order P cfg s t"
  shows "ages_inv P cfg s'"
  using assms
proof (induction rule: step.induct)
  case (insert s new)
  show ?case unfolding ages_inv_def
  proof (intro allI impI)
    fix i snap todo rows r r'
    assume c: "sh_claim (s\<lparr>sh_outbox := sh_outbox s @ new\<rparr>) i = Claiming snap todo rows"
      and r: "r \<in> set (sh_outbox (s\<lparr>sh_outbox := sh_outbox s @ new\<rparr>))" "r \<notin> set snap" "r' \<in> set snap"
    have c': "sh_claim s i = Claiming snap todo rows" using c by simp
    have "r' \<in> set (sh_outbox s @ gone s)" using claim_of[OF insert(2) c'] r(3) by (auto simp: claim_inv_def)
    then have "rank P cfg r' < rank P cfg r" if "r \<in> set new" using insert(4) that by (simp add: in_order_def list_all_iff)
    moreover have "rank P cfg r' < rank P cfg r" if "r \<in> set (sh_outbox s)" using insert(3) c' that r(2,3) unfolding ages_inv_def by blast
    ultimately show "rank P cfg r' < rank P cfg r" using r(1) by auto
  qed
next
  case (finish s i snap rows env)
  show ?case by (rule ages_fewer[OF finish(5)]) (auto simp: finish_fields split: if_splits)
next
  case (snapshot s i rows)
  show ?case by (rule ages_fewer[OF snapshot(4)]) (auto split: if_splits)
next
  case (lock s i snap row todo rows)
  show ?case by (rule ages_fewer[OF lock(5)]) (use lock(1) in \<open>auto split: if_splits\<close>)
next
  case (drop s i snap row todo rows)
  show ?case by (rule ages_fewer[OF drop(4)]) (use drop(1) in \<open>auto split: if_splits\<close>)
next
  case (abandon s i)
  show ?case by (rule ages_fewer[OF abandon(3)]) (auto split: if_splits)
qed

lemma reachable_ages:
  assumes "reachable F L P cfgs cols (in_order P cfg) s"
  shows "ages_inv P cfg s"
  using assms
proof (induction rule: reachable.induct)
  case (start s)
  then show ?case by (simp add: fresh_tables_def ages_inv_def)
next
  case (turn s t s')
  then show ?case using step_keeps_ages reachable_table by blast
qed

lemma older_held:
  assumes inv: "table_inv P cfgs cols s" and ages: "ages_inv P (cfgs j) s"
    and r': "r' \<in> set (held (sh_claim s j))" and r: "r \<in> set (sh_outbox s)" "rank P (cfgs j) r < rank P (cfgs j) r'"
    and rt: "resolved P (cfgs j) r = Some rt" "resolved P (cfgs j) r' = Some rt"
  shows "r \<in> set (held (sh_claim s j))"
proof -
  let ?cfg = "cfgs j"
  obtain snap todo rows where c: "sh_claim s j = Claiming snap todo rows" using r' by (cases "sh_claim s j") auto
  obtain share past where d: "outbox_ok P ?cfg cols snap"
      "past @ todo = filter (chosen P ?cfg snap share) (sort_key (rank P ?cfg) snap)"
      "rows = filter (\<lambda>r. r \<in> set rows) past" "set past \<subseteq> set rows \<union> set (gone s)"
    using claim_of[OF inv c] by (auto simp: claim_inv_def)
  note u = outbox_okD(1)[OF d(1)]
  have all: "set (past @ todo) = {x \<in> set snap. chosen P ?cfg snap share x}" unfolding d(2) by auto
  have "r' \<in> set past" using r' c d(3) by (metis filter_is_subset held.simps(2) subsetD)
  then have r'': "r' \<in> set snap" "chosen P ?cfg snap share r'" using all by auto
  have snap: "r \<in> set snap" using ages c r r''(1) unfolding ages_inv_def by (metis not_less_iff_gr_or_eq)
  have "card (older P ?cfg snap rt r) \<le> card (older P ?cfg snap rt r')"
    using r(2) by (intro card_mono finite_subset[of "older P ?cfg snap rt r'" "set snap"]) (auto simp: older_def)
  then have "chosen P ?cfg snap share r" using chosen_iff[OF u r''(1) rt(2)] chosen_iff[OF u snap rt(1)] r''(2) by simp
  then have "r \<in> set (past @ todo)" using all snap by simp
  moreover have "sorted_wrt (\<lambda>a b. rank P ?cfg a < rank P ?cfg b) (past @ todo)"
    unfolding d(2) using sorted_key_strict[of "rank P ?cfg" snap] u by (simp add: sorted_wrt_filter ids_unique_def)
  then have "r \<notin> set todo" using \<open>r' \<in> set past\<close> r(2) unfolding sorted_wrt_append by (meson less_asym)
  ultimately have "r \<in> set past" by simp
  moreover have "r \<notin> set (gone s)" using table_distinct[OF inv] r(1) by auto
  ultimately show ?thesis using d(4) c by auto
qed

text \<open>
  (C13) One relay works on a route at a time, and in order. If producers insert in id order and the
  relays read routes alike (\<open>same_routes\<close>: a row of a route for one relay is a row of that route
  for every relay that owns some row of it, as with equal column and default settings), then in every
  reachable state a relay that holds a row holds every older row of the same route that is
  still in the table; and two relays never hold rows of the same route. So no relay publishes
  an event while an older one of its route is in the hands of another. Relays whose default
  targets or destinations differ read a row without its own into different routes, and nothing
  is claimed of them.
\<close>

theorem one_relay_per_route:
  assumes run: "reachable F L P cfgs cols (in_order P (cfgs 0)) s" and fleet: "fleet_ok cfgs" and same: "same_routes P cfgs"
    and r': "r' \<in> set (held (sh_claim s j))" and r: "r \<in> set (sh_outbox s)"
    and route: "resolved P (cfgs i) r = Some rt" "resolved P (cfgs j) r' = Some rt"
  shows "(rank P (cfgs 0) r < rank P (cfgs 0) r' \<longrightarrow> r \<in> set (held (sh_claim s j))) \<and>
    (r \<in> set (held (sh_claim s i)) \<longrightarrow> i = j)"
proof -
  note inv = reachable_table[OF run]
  note ages = reachable_ages[OF run]
  note rank = fleet_rank[OF fleet, of P]
  have agesk: "ages_inv P (cfgs k) s" for k using ages rank[of k] by (simp add: ages_inv_def)
  have rj: "resolved P (cfgs j) r = Some rt" and ri: "resolved P (cfgs i) r' = Some rt"
    using same route unfolding same_routes_def by blast+
  have old: "rank P (cfgs 0) r < rank P (cfgs 0) r' \<Longrightarrow> r \<in> set (held (sh_claim s j))"
    using older_held[OF inv agesk r' r _ rj route(2)] rank[of j] by simp
  have "i = j" if h: "r \<in> set (held (sh_claim s i))"
  proof (rule ccontr)
    assume ne: "i \<noteq> j"
    have dis: "set (held (sh_claim s i)) \<inter> set (held (sh_claim s j)) = {}" by (rule held_disjoint[OF inv ne])
    have t: "r' \<in> set (sh_outbox s)" using held_in_table[OF inv, of j] r' by blast
    have "distinct (map (rank P (cfgs 0)) (sh_outbox s @ gone s))"
      using outbox_okD(1)[OF table_ok_all[OF inv, of 0]] by (simp add: ids_unique_def)
    then have "rank P (cfgs 0) r \<noteq> rank P (cfgs 0) r'"
      using r t dis h r' by (auto simp: distinct_map dest: inj_onD)
    then consider "rank P (cfgs 0) r < rank P (cfgs 0) r'" | "rank P (cfgs 0) r' < rank P (cfgs 0) r" by linarith
    then show False
    proof cases
      case 1
      then show False using old dis h by blast
    next
      case 2
      then have "r' \<in> set (held (sh_claim s i))" using older_held[OF inv agesk h t _ ri route(1)] rank[of i] by simp
      then show False using dis r' by blast
    qed
  qed
  then show ?thesis using old by blast
qed

section \<open>Waiting for locks ends\<close>

text \<open>Whom a relay waits for, if anybody.\<close>

definition can_go_on :: "shared \<Rightarrow> nat \<Rightarrow> bool" where
  "can_go_on s i \<longleftrightarrow> (\<exists>snap todo rows. sh_claim s i = Claiming snap todo rows \<and>
     (todo = [] \<or> hd todo \<notin> set (sh_outbox s) \<or> (\<forall>j. j \<noteq> i \<longrightarrow> hd todo \<notin> set (held (sh_claim s j)))))"

lemma next_in_line:
  assumes inv: "table_inv P cfgs cols s" and fleet: "fleet_ok cfgs" and c: "sh_claim s i = Claiming snap (row # todo) rows"
    and h: "r \<in> set rows"
  shows "rank P (cfgs 0) r < rank P (cfgs 0) row"
proof -
  let ?cfg = "cfgs i"
  obtain share past where d: "outbox_ok P ?cfg cols snap"
      "past @ row # todo = filter (chosen P ?cfg snap share) (sort_key (rank P ?cfg) snap)" "rows = filter (\<lambda>r. r \<in> set rows) past"
    using claim_of[OF inv c] by (auto simp: claim_inv_def)
  have "sorted_wrt (\<lambda>a b. rank P ?cfg a < rank P ?cfg b) (past @ row # todo)"
    unfolding d(2) using sorted_key_strict[of "rank P ?cfg" snap] outbox_okD(1)[OF d(1)] by (simp add: sorted_wrt_filter ids_unique_def)
  moreover have "r \<in> set past" using h d(3) by (metis filter_is_subset subsetD)
  ultimately show ?thesis unfolding fleet_rank[OF fleet, of P i, symmetric] by (simp add: sorted_wrt_append)
qed

lemma somebody_goes_on:
  assumes inv: "table_inv P cfgs cols s" and fleet: "fleet_ok cfgs" and busy: "sh_claim s i \<noteq> Idle"
  shows "\<exists>j. can_go_on s j"
proof (cases "can_go_on s i")
  case False
  obtain snap todo rows where c: "sh_claim s i = Claiming snap todo rows" using busy by (cases "sh_claim s i") auto
  then obtain row todo' where todo: "todo = row # todo'" "row \<in> set (sh_outbox s)"
    using False by (cases todo) (auto simp: can_go_on_def)
  have "\<exists>j. can_go_on s j"
    if "sh_claim s k = Claiming snap (row # todo) rows" "row \<in> set (sh_outbox s)" for k snap row todo rows
    using that
  proof (induction "card {r \<in> set (sh_outbox s). rank P (cfgs 0) row < rank P (cfgs 0) r}" arbitrary: k snap row todo rows rule: less_induct)
    case less
    show ?case
    proof (cases "can_go_on s k")
      case False
      then obtain j where j: "j \<noteq> k" "row \<in> set (held (sh_claim s j))" using less.prems by (auto simp: can_go_on_def)
      then obtain snap' todo' rows' where cj: "sh_claim s j = Claiming snap' todo' rows'" by (cases "sh_claim s j") auto
      show ?thesis
      proof (cases "can_go_on s j")
        case False
        then obtain row' rest where t: "todo' = row' # rest" "row' \<in> set (sh_outbox s)"
          using cj by (cases todo') (auto simp: can_go_on_def)
        have lt: "rank P (cfgs 0) row < rank P (cfgs 0) row'" using next_in_line[OF inv fleet cj[unfolded t(1)]] j(2) cj by simp
        have "{r \<in> set (sh_outbox s). rank P (cfgs 0) row' < rank P (cfgs 0) r} \<subset> {r \<in> set (sh_outbox s). rank P (cfgs 0) row < rank P (cfgs 0) r}"
          using lt t(2) by fastforce
        then have "card {r \<in> set (sh_outbox s). rank P (cfgs 0) row' < rank P (cfgs 0) r} <
            card {r \<in> set (sh_outbox s). rank P (cfgs 0) row < rank P (cfgs 0) r}" by (intro psubset_card_mono) auto
        from less.hyps[OF this cj[unfolded t(1)] t(2)] show ?thesis .
      qed blast
    qed blast
  qed
  then show ?thesis using c todo by blast
qed blast

text \<open>
  (C14) Relays that wait for each other's rows never deadlock: whenever some relay is in a batch, some
  relay, the one itself or one it waits for, can lock or drop its next row, or holds all it
  waits for and can end its batch in every environment.
\<close>

theorem relays_never_deadlock:
  assumes run: "reachable F L P cfgs cols guard s" and fleet: "fleet_ok cfgs" and busy: "sh_claim s i \<noteq> Idle"
  shows "\<exists>j. (\<exists>s'. step F L P cfgs cols s (Lock j) s') \<or> (\<exists>s'. step F L P cfgs cols s (Drop j) s') \<or>
    (sh_claim s j \<noteq> Idle \<and> (\<forall>env. arrival_ok env \<longrightarrow> be_inserted env = [] \<longrightarrow> (\<exists>s'. step F L P cfgs cols s (Finish j env) s')))"
proof -
  obtain j where "can_go_on s j" using somebody_goes_on[OF reachable_table[OF run] fleet busy] by blast
  then obtain snap todo rows where c: "sh_claim s j = Claiming snap todo rows"
    and go: "todo = [] \<or> hd todo \<notin> set (sh_outbox s) \<or> (\<forall>k. k \<noteq> j \<longrightarrow> hd todo \<notin> set (held (sh_claim s k)))"
    by (auto simp: can_go_on_def)
  show ?thesis
  proof (cases todo)
    case Nil
    then have "\<exists>s'. step F L P cfgs cols s (Finish j env) s'" if "arrival_ok env" "be_inserted env = []" for env
      using step.finish[of s j snap rows env] c that by blast
    moreover have "sh_claim s j \<noteq> Idle" using c by simp
    ultimately show ?thesis by blast
  next
    case (Cons row rest)
    note c' = c[unfolded Cons]
    show ?thesis
    proof (cases "row \<in> set (sh_outbox s)")
      case True
      then have "\<And>k. k \<noteq> j \<Longrightarrow> row \<notin> set (held (sh_claim s k))" using go Cons by simp
      from step.lock[OF c' True this] show ?thesis by blast
    next
      case False
      from step.drop[OF c' this] show ?thesis by blast
    qed
  qed
qed

section \<open>A batch that lost its rows\<close>

text \<open>An iteration in which nothing fails.\<close>

definition undisturbed :: "batch_env \<Rightarrow> bool" where
  "undisturbed env \<longleftrightarrow> be_begin env = None \<and> be_query env = None \<and> be_rows env = None \<and> be_dlq env = None \<and>
     be_delete env = None \<and> be_commit env = CommitOK \<and> arrival_ok env \<and> be_inserted env = []"

lemma empty_batch:
  assumes "undisturbed env" "table_ok cfg cols []"
  shows "\<exists>result w. processEventBatch F L P cfg cols env [] = (result, None, w) \<and> br_drained result \<and>
    bs_keptForRetry (br_stats result) = 0 \<and> w = empty_tx"
proof -
  have sel: "selectEvents L P cfg cols [] None None = Inr []"
    using assms(2) by (simp add: selectEvents_def select_rows_def query_routes_def scanEvents_def result_set_def table_ok_def)
  have "be_arrival env [] = []" using assms(1) unfolding undisturbed_def arrival_ok_def by (metis mset_zero_iff_right)
  then have g: "gather L cfg env \<lparr> eventsByTarget = [], tr_poison = [] \<rparr> = \<lparr> ga_deleteIDs = [], ga_poison = [], ga_sent = 0, ga_err = None \<rparr>"
    by (simp add: gather_def sender_results_def)
  have "insertDeadLetters L cfg (be_clock env) None [] = Inr []" "deleteEvents None [] = Inr []"
    by (simp_all add: insertDeadLetters_def deleteEvents_def)
  then show ?thesis
    using assms(1) sel g
    by (simp add: undisturbed_def processEventBatch_def triageEvents_def batchDrained_def batch_stats_def empty_tx_def Let_def)
qed

text \<open>
  (C24) A relay whose selected rows were all deleted by another relay while it waited takes its empty
  batch for a drained one: its gauge reports an exact backlog of zero, whatever the table still
  holds for it.
\<close>

theorem contended_batch_reads_drained:
  assumes run: "reachable F L P cfgs cols guard s" and fleet: "fleet_ok cfgs" and c: "sh_claim s i = Claiming snap [] []"
    and env: "undisturbed env"
  shows "\<exists>s'. step F L P cfgs cols s (Finish i env) s' \<and> sh_outbox s' = sh_outbox s \<and>
    backlogEvents (fst (sh_memory s' i)) = 0 \<and> backlogFloor (fst (sh_memory s' i)) = 0"
proof -
  let ?cfg = "cfgs i"
  let ?s = "finish_batch F L P ?cfg cols env i [] s"
  have "table_ok ?cfg cols []" using outbox_okD(2)[OF claim_complete(2)[OF reachable_table[OF run] fleet c]] .
  then obtain result w where b: "processEventBatch F L P ?cfg cols env [] = (result, None, w)" "br_drained result"
      "bs_keptForRetry (br_stats result) = 0" "w = empty_tx"
    using empty_batch[OF env] by blast
  obtain st where one: "processOneBatch F L P ?cfg cols env (private_view s i []) = (result, None, st)"
    using b env by (simp add: processOneBatch_def private_view_def undisturbed_def Let_def)
  have "\<not> is_err None ErrFatalAfterCommit" "\<not> is_err None errDatabaseBatch" by simp_all
  then have "fst (sh_memory ?s i) = setBacklog (as_stats st) 0 False"
    using one b(2,3) by (simp add: finish_batch_def updateBacklog_def Let_def)
  moreover have "sh_outbox ?s = sh_outbox s" by (simp add: finish_fields lost_rows_def)
  moreover have "step F L P cfgs cols s (Finish i env) ?s" using step.finish[OF c] env by (simp add: undisturbed_def)
  ultimately show ?thesis by (intro exI[of _ ?s]) (simp add: setBacklog_def)
qed

section \<open>Two relays on a sample table\<close>

text \<open>
  Two relays with room for one event per route take their snapshots of the sample table; the
  first one locks both rows while the second waits, publishes the one, dead-letters the other and
  commits; the second finds both gone.
\<close>

definition twin_config :: appConfig where
  "twin_config = dlq_config\<lparr>CollectBatchTarget := 1\<rparr>"

definition twins :: "nat \<Rightarrow> appConfig" where
  "twins = (\<lambda>_. twin_config)"

definition first_row :: row where
  "first_row = sample_table_row 1 (GString ''sqs'')"

definition second_row :: row where
  "second_row = sample_table_row 2 (GString ''pubsub'')"

definition twins_idle :: shared where
  "twins_idle = \<lparr> sh_outbox = sample_table, sh_dlq = [], sh_claim = (\<lambda>_. Idle), sh_memory = (\<lambda>_. (newAppStats 0, 0)), sh_removed = [] \<rparr>"

definition twin_claims :: "shared \<Rightarrow> claim \<Rightarrow> claim \<Rightarrow> shared" where
  "twin_claims s c d = s\<lparr>sh_claim := (\<lambda>_. Idle)(0 := c, 1 := d)\<rparr>"

definition twins_locked :: shared where
  "twins_locked = twin_claims twins_idle (Claiming sample_table [] [first_row, second_row])
     (Claiming sample_table [first_row, second_row] [])"

definition twins_committed :: shared where
  "twins_committed = finish_batch sample_fmt sample_lib sample_pg twin_config sample_cols sample_env 0 [first_row, second_row] twins_locked"

definition twins_robbed :: shared where
  "twins_robbed = twins_committed\<lparr>sh_claim := (sh_claim twins_committed)(1 := Claiming sample_table [] [])\<rparr>"

lemma twins_fleet: "fleet_ok twins"
proof -
  have "CollectBatchTarget twin_config > 0" by code_simp
  then show ?thesis by (simp add: fleet_ok_def twins_def)
qed

lemma twins_select: "selection sample_pg twin_config sample_table = Inr [first_row, second_row]"
  by code_simp

lemma twins_start: "fresh_tables sample_pg twins sample_cols twins_idle"
proof -
  have "outbox_ok sample_pg twin_config sample_cols sample_table" by code_simp
  then show ?thesis by (simp add: fresh_tables_def twins_idle_def twins_def)
qed

lemma twins_in_order:
  "reachable sample_fmt sample_lib sample_pg twins sample_cols (in_order sample_pg (twins 0)) twins_locked"
proof -
  let ?reach = "reachable sample_fmt sample_lib sample_pg twins sample_cols (in_order sample_pg (twins 0))"
  let ?step = "step sample_fmt sample_lib sample_pg twins sample_cols"
  let ?both = "[first_row, second_row]" and ?s = "twin_claims twins_idle"
  have rows: "first_row \<in> set sample_table" "second_row \<in> set sample_table"
    by (simp_all add: sample_table_def first_row_def second_row_def)
  have sel: "selection sample_pg (twins i) sample_table = Inr ?both" for i using twins_select by (simp add: twins_def)
  have fields: "sh_outbox (?s c d) = sample_table" "sh_claim (?s c d) 0 = c" "sh_claim (?s c d) (Suc 0) = d"
    "(?s c d)\<lparr>sh_claim := (sh_claim (?s c d))(0 := e)\<rparr> = ?s e d" "(?s c d)\<lparr>sh_claim := (sh_claim (?s c d))(Suc 0 := e)\<rparr> = ?s c e" for c d e
    by (simp_all add: twin_claims_def twins_idle_def fun_upd_twist)
  have others: "held (sh_claim (?s c (Claiming snap todo [])) j) = []" if "j \<noteq> 0" for c j snap todo
    using that by (simp add: twin_claims_def)
  have go: "in_order sample_pg (twins 0) s (Snapshot i)" "in_order sample_pg (twins 0) s (Lock i)" for s i
    by (simp_all add: in_order_def)
  have "twins_idle = ?s Idle Idle" by (simp add: twin_claims_def twins_idle_def fun_eq_iff)
  then have "?reach (?s Idle Idle)" using reachable.start[OF twins_start] by metis
  moreover have "?step (?s Idle Idle) (Snapshot 0) (?s (Claiming sample_table ?both []) Idle)"
    using step.snapshot[of "?s Idle Idle" 0 sample_pg twins ?both sample_fmt sample_lib sample_cols] sel by (simp add: fields)
  ultimately have "?reach (?s (Claiming sample_table ?both []) Idle)" using go by (metis reachable.turn)
  moreover have "?step (?s (Claiming sample_table ?both []) Idle) (Snapshot 1) (?s (Claiming sample_table ?both []) (Claiming sample_table ?both []))"
    using step.snapshot[of "?s (Claiming sample_table ?both []) Idle" 1 sample_pg twins ?both sample_fmt sample_lib sample_cols] sel by (simp add: fields)
  ultimately have "?reach (?s (Claiming sample_table ?both []) (Claiming sample_table ?both []))" using go by (metis reachable.turn)
  moreover have "?step (?s (Claiming sample_table ?both []) (Claiming sample_table ?both [])) (Lock 0)
      (?s (Claiming sample_table [second_row] [first_row]) (Claiming sample_table ?both []))"
    using step.lock[of "?s (Claiming sample_table ?both []) (Claiming sample_table ?both [])" 0 sample_table first_row "[second_row]" "[]"]
      rows others by (simp add: fields)
  ultimately have "?reach (?s (Claiming sample_table [second_row] [first_row]) (Claiming sample_table ?both []))" using go by (metis reachable.turn)
  moreover have "?step (?s (Claiming sample_table [second_row] [first_row]) (Claiming sample_table ?both [])) (Lock 0) twins_locked"
    using step.lock[of "?s (Claiming sample_table [second_row] [first_row]) (Claiming sample_table ?both [])" 0 sample_table second_row "[]" "[first_row]"]
      rows others by (simp add: fields twins_locked_def)
  ultimately show ?thesis using go by (metis reachable.turn)
qed

lemma reachable_any: "reachable F L P cfgs cols guard s \<Longrightarrow> reachable F L P cfgs cols (\<lambda>_ _. True) s"
  by (induction rule: reachable.induct) (auto intro: reachable.intros)

lemma twins_fields:
  "sh_claim twins_locked 0 = Claiming sample_table [] [first_row, second_row]"
  "sh_claim twins_locked (Suc 0) = Claiming sample_table [first_row, second_row] []"
  "sh_outbox twins_locked = sample_table"
  by (simp_all add: twins_locked_def twin_claims_def twins_idle_def)

lemma twins_commit:
  "sh_outbox twins_committed = [sample_table_row 3 (GString ''sqs''), sample_table_row 4 GNil]"
  "sh_removed twins_committed = [(0, first_row, Delivered), (0, second_row, Dead ''refused'')]"
  "length (sh_dlq twins_committed) = 1"
  by code_simp+

lemma twins_run:
  "reachable sample_fmt sample_lib sample_pg twins sample_cols (\<lambda>_ _. True) twins_committed"
  "reachable sample_fmt sample_lib sample_pg twins sample_cols (\<lambda>_ _. True) twins_robbed"
proof -
  let ?reach = "reachable sample_fmt sample_lib sample_pg twins sample_cols (\<lambda>_ _. True)"
  let ?step = "step sample_fmt sample_lib sample_pg twins sample_cols"
  have "be_inserted sample_env = []" by (simp add: sample_env_def)
  from step.finish[OF twins_fields(1) sample_arrival this, of sample_fmt sample_lib sample_pg twins sample_cols]
  have fin: "?step twins_locked (Finish 0 sample_env) twins_committed" by (simp add: twins_committed_def twins_def)
  show com: "?reach twins_committed" by (rule reachable.turn[OF reachable_any[OF twins_in_order] fin]) simp
  have c: "sh_claim twins_committed (Suc 0) = Claiming sample_table [first_row, second_row] []"
    by (simp add: twins_committed_def finish_fields twins_fields)
  have n: "first_row \<notin> set (sh_outbox twins_committed)" "second_row \<notin> set (sh_outbox twins_committed)"
    unfolding twins_commit by (simp_all add: first_row_def second_row_def sample_table_row_def)
  let ?half = "twins_committed\<lparr>sh_claim := (sh_claim twins_committed)(Suc 0 := Claiming sample_table [second_row] [])\<rparr>"
  from step.drop[OF c n(1)] have "?step twins_committed (Drop (Suc 0)) ?half" .
  then have half: "?reach ?half" by (rule reachable.turn[OF com]) simp
  have "?step ?half (Drop (Suc 0)) twins_robbed"
    using step.drop[of ?half "Suc 0" sample_table second_row "[]" "[]" sample_fmt sample_lib sample_pg twins sample_cols] n(2)
    by (simp add: twins_robbed_def)
  then show "?reach twins_robbed" by (rule reachable.turn[OF half]) simp
qed

theorem shared_rows_settled_once_witness:
  "distinct (gone twins_committed) \<and> (0, second_row, Dead ''refused'') \<in> set (sh_removed twins_committed) \<and>
     (\<exists>b. b \<in> set (sh_dlq twins_committed) \<and> dead_letter_of sample_lib twin_config second_row ''refused'' b)"
proof -
  have m: "(0, second_row, Dead ''refused'') \<in> set (sh_removed twins_committed)" unfolding twins_commit by simp
  note all = shared_rows_settled_once[OF twins_run(1) twins_fleet]
  have "Dead ''refused'' = Delivered \<or> (\<exists>m. Dead ''refused'' = Dead m \<and>
      (DLQTable (twins 0) \<noteq> [] \<longrightarrow> (\<exists>b. b \<in> set (sh_dlq twins_committed) \<and> dead_letter_of sample_lib (twins 0) second_row m b)))"
    using conjunct1[OF conjunct2[OF conjunct2[OF conjunct2[OF all]]]] m by blast
  moreover have "distinct (gone twins_committed)" by (rule conjunct1[OF conjunct2[OF all]])
  moreover have "DLQTable twin_config \<noteq> []" by code_simp
  ultimately show ?thesis using m by (auto simp: twins_def)
qed

theorem one_relay_per_route_witness:
  "{i. first_row \<in> set (held (sh_claim twins_locked i))} = {0}"
proof -
  have same: "same_routes sample_pg twins" by (auto simp: same_routes_def twins_def)
  obtain rt where rt: "resolved sample_pg twin_config first_row = Some rt"
  proof -
    have "resolved sample_pg twin_config first_row \<noteq> None" by code_simp
    then show ?thesis using that by blast
  qed
  have h: "first_row \<in> set (held (sh_claim twins_locked 0))" "first_row \<in> set (sh_outbox twins_locked)"
    by (simp_all add: twins_fields sample_table_def first_row_def)
  then show ?thesis using one_relay_per_route[OF twins_in_order twins_fleet same h] rt by (auto simp: twins_def)
qed

theorem relays_never_deadlock_witness:
  "sh_claim twins_locked (Suc 0) \<noteq> Idle \<and>
     (\<exists>j. (\<exists>s'. step sample_fmt sample_lib sample_pg twins sample_cols twins_locked (Lock j) s') \<or>
       (\<exists>s'. step sample_fmt sample_lib sample_pg twins sample_cols twins_locked (Drop j) s') \<or>
       (\<exists>s'. step sample_fmt sample_lib sample_pg twins sample_cols twins_locked (Finish j sample_env) s'))"
proof -
  have b: "sh_claim twins_locked (Suc 0) \<noteq> Idle" by (simp add: twins_fields)
  have "arrival_ok sample_env" "be_inserted sample_env = []" by (simp_all add: sample_arrival sample_env_fields)
  then show ?thesis using b relays_never_deadlock[OF twins_in_order twins_fleet b] by blast
qed

theorem contended_batch_reads_drained_witness:
  "eligible sample_pg twin_config ''candidate'' (sample_table_row 3 (GString ''sqs'')) \<and>
     (\<exists>s' env. step sample_fmt sample_lib sample_pg twins sample_cols twins_robbed (Finish (Suc 0) env) s' \<and>
        sample_table_row 3 (GString ''sqs'') \<in> set (sh_outbox s') \<and>
        backlogEvents (fst (sh_memory s' (Suc 0))) = 0 \<and> backlogFloor (fst (sh_memory s' (Suc 0))) = 0)"
proof -
  have "eligible sample_pg twin_config ''candidate'' (sample_table_row 3 (GString ''sqs''))" by code_simp
  moreover have c: "sh_claim twins_robbed (Suc 0) = Claiming sample_table [] []" by (simp add: twins_robbed_def)
  moreover have e: "undisturbed sample_env"
    using sample_arrival by (simp add: undisturbed_def sample_env_def)
  moreover have "sample_table_row 3 (GString ''sqs'') \<in> set (sh_outbox twins_robbed)" by (simp add: twins_robbed_def twins_commit)
  ultimately show ?thesis using contended_batch_reads_drained[OF twins_run(2) twins_fleet c e] by metis
qed

end
