(* ===== verification/Builders.thy ===== *)
theory Builders
  imports Startup Clients Aws_Client
begin

text \<open>
  The two provider builders of \<open>providers.go\<close> with \<open>NewClient\<close> and \<open>NewCloudPublisher\<close> of \<open>pubsub/client.go\<close>:
  what the SDKs are asked for when a relay starts, works and ends. The SDK constructors are
  arguments; the calls a process makes on the Pub/Sub SDK are the trace.
\<close>

section \<open>The Pub/Sub client and its topics\<close>

record pubsub_client =
  pcl_ProjectID :: string
  pcl_Endpoint :: "string option"

definition pubsub_NewClient ::
  "(string \<Rightarrow> string option \<Rightarrow> go_error option) \<Rightarrow> pubsub_Config \<Rightarrow> go_error + pubsub_client" where
  "pubsub_NewClient sdk cfg =
     (let endpoint = (if ps_APIEndpoint cfg \<noteq> [] then Some (ps_APIEndpoint cfg) else None) in
      case sdk (ps_ProjectID cfg) endpoint of
        Some err \<Rightarrow> Inl err
      | None \<Rightarrow> Inr \<lparr> pcl_ProjectID = ps_ProjectID cfg, pcl_Endpoint = endpoint \<rparr>)"

text \<open>How the publisher of a topic is set up, and the cache a relay starts with.\<close>

record topic_settings =
  ts_EnableMessageOrdering :: bool
  ts_Timeout :: int

definition newPublisher :: "pubsub_Config \<Rightarrow> topic_settings" where
  "newPublisher cfg = \<lparr> ts_EnableMessageOrdering = True, ts_Timeout = PublishTimeout cfg \<rparr>"

definition NewCloudPublisher :: CloudPublisher where
  "NewCloudPublisher = \<lparr> publishers = [] \<rparr>"

text \<open>The operations of \<open>CloudPublisher\<close> a run of the Pub/Sub sender asks for, in its order.\<close>

fun cloud_op_of :: "ps_out \<Rightarrow> cloud_op list" where
  "cloud_op_of (Publish h) = [OpPublish (pp_message (fst h))]"
| "cloud_op_of (Flush topic) = [OpFlush topic]"
| "cloud_op_of (ResumePublish topic key) = [OpResume topic key]"
| "cloud_op_of (Report r) = []"

section \<open>The builders\<close>

text \<open>
  A built sender: its settings and its client. Only Pub/Sub has something to clean up: the cached
  publishers, whose \<open>Close\<close> never fails, and then the client; an error of that is logged.
\<close>

datatype built_sender =
    PubSubSender pubsub_Config pubsub_client topic_settings
  | SQSSender sqs_Config aws_client

definition buildPubSubSender ::
  "(string \<Rightarrow> string option \<Rightarrow> go_error option) \<Rightarrow> appConfig \<Rightarrow> go_error + built_sender" where
  "buildPubSubSender sdk cfg =
     (let providerConfig = pubsubConfig cfg in
      case pubsub_NewClient sdk providerConfig of
        Inl err \<Rightarrow> Inl err
      | Inr client \<Rightarrow> Inr (PubSubSender providerConfig client (newPublisher providerConfig)))"

definition buildSQSSender ::
  "int \<times> int \<Rightarrow> (string option \<Rightarrow> go_error option) \<Rightarrow> appConfig \<Rightarrow> go_error + built_sender" where
  "buildSQSSender transport LoadDefaultConfig cfg =
     (let providerConfig = sqsConfig cfg in
      case sqs_NewClient transport LoadDefaultConfig providerConfig of
        Inl err \<Rightarrow> Inl err
      | Inr client \<Rightarrow> Inr (SQSSender providerConfig client))"

datatype client_call = NewPubSubClient pubsub_client | OnTopic sdk_call | ClosePubSubClient

definition pubsub_cleanup ::
  "((string \<times> nat) list \<Rightarrow> (string \<times> nat) list) \<Rightarrow> go_error option \<Rightarrow> CloudPublisher \<Rightarrow> client_call list \<times> string list" where
  "pubsub_cleanup order closeErr p =
     (map OnTopic (cloud_Close order p) @ [ClosePubSubClient],
      (case closeErr of Some err \<Rightarrow> [''Failed to close Pub/Sub client''] | None \<Rightarrow> []))"

section \<open>The SDK calls of a process\<close>

text \<open>
  What the SDKs answer, what the senders of the process do with the Pub/Sub publisher while it
  processes events (any interleaving of any number of batches), the order in which \<open>Close\<close> ranges
  over its map, and the error of closing the client.
\<close>

record sdk_env =
  se_pubsub :: "string \<Rightarrow> string option \<Rightarrow> go_error option"
  se_transport :: "int \<times> int"
  se_aws :: "string option \<Rightarrow> go_error option"
  se_outputs :: "ps_out list"
  se_order :: "(string \<times> nat) list \<Rightarrow> (string \<times> nat) list"
  se_close :: "go_error option"

definition build_sender :: "sdk_env \<Rightarrow> appConfig \<Rightarrow> string \<Rightarrow> go_error + built_sender" where
  "build_sender E cfg t =
     (if t = pubsub_Target then buildPubSubSender (se_pubsub E) cfg else buildSQSSender (se_transport E) (se_aws E) cfg)"

definition build_error :: "sdk_env \<Rightarrow> appConfig \<Rightarrow> string \<Rightarrow> go_error option" where
  "build_error E cfg t = (case build_sender E cfg t of Inl err \<Rightarrow> Some err | Inr b \<Rightarrow> None)"

text \<open>The steps of a process on its way from start to exit, with the Pub/Sub publisher if there is one.\<close>

fun client_calls :: "sdk_env \<Rightarrow> appConfig \<Rightarrow> CloudPublisher option \<Rightarrow> life list \<Rightarrow> client_call list" where
  "client_calls E cfg p [] = []"
| "client_calls E cfg p (Opened (Provider t) # acts) =
     (case build_sender E cfg t of
        Inr (PubSubSender pc client topics) \<Rightarrow> NewPubSubClient client # client_calls E cfg (Some NewCloudPublisher) acts
      | _ \<Rightarrow> client_calls E cfg p acts)"
| "client_calls E cfg p (Processing # acts) =
     (case p of
        None \<Rightarrow> client_calls E cfg None acts
      | Some c \<Rightarrow> (case cloud_run (concat (map cloud_op_of (se_outputs E))) c of
          (calls, c') \<Rightarrow> map OnTopic calls @ client_calls E cfg (Some c') acts))"
| "client_calls E cfg p (Closed (Provider t) # acts) =
     (if t = pubsub_Target
      then (case p of
          None \<Rightarrow> client_calls E cfg None acts
        | Some c \<Rightarrow> fst (pubsub_cleanup (se_order E) (se_close E) c) @ client_calls E cfg None acts)
      else client_calls E cfg p acts)"
| "client_calls E cfg p (act # acts) = client_calls E cfg p acts"

section \<open>Clean shutdown of the providers\<close>

text \<open>The steps of a process that concern Pub/Sub.\<close>

definition on_pubsub :: "life \<Rightarrow> bool" where
  "on_pubsub act \<longleftrightarrow> act \<in> {Opened (Provider pubsub_Target), Processing, Closed (Provider pubsub_Target)}"

lemma build_other: "t \<noteq> pubsub_Target \<Longrightarrow> build_sender E cfg t \<noteq> Inr (PubSubSender pc client topics)"
  by (auto simp: build_sender_def buildSQSSender_def Let_def split: sum.splits)

lemma client_calls_other: "\<not> on_pubsub act \<Longrightarrow> client_calls E cfg p (act # acts) = client_calls E cfg p acts"
proof (cases act)
  case (Opened r)
  assume "\<not> on_pubsub act"
  then show ?thesis using Opened build_other[of _ E cfg]
    by (cases r) (auto simp: on_pubsub_def split: sum.splits built_sender.splits)
next
  case (Closed r)
  assume "\<not> on_pubsub act"
  then show ?thesis using Closed by (cases r) (auto simp: on_pubsub_def)
qed (simp add: on_pubsub_def)

lemma client_calls_filter: "client_calls E cfg p acts = client_calls E cfg p (filter on_pubsub acts)"
proof (induction acts arbitrary: p)
  case (Cons act acts)
  show ?case
  proof (cases "on_pubsub act")
    case True
    then consider "act = Opened (Provider pubsub_Target)" | "act = Processing" | "act = Closed (Provider pubsub_Target)"
      by (auto simp: on_pubsub_def)
    then show ?thesis
      using True Cons.IH by cases (simp_all split: sum.split built_sender.split option.split prod.split)
  qed (use client_calls_other Cons.IH in simp)
qed simp

definition pubsub_built :: "sdk_env \<Rightarrow> appConfig \<Rightarrow> bool" where
  "pubsub_built E cfg \<longleftrightarrow> PubSubEnabled cfg \<and> build_error E cfg pubsub_Target = None"

lemma relay_pubsub_steps:
  assumes "runRelay_config F env cfg = (acts, Exit r)" "rn_build env = build_error E cfg"
  shows "filter on_pubsub acts \<in> {[], [Processing]} \<or>
    (pubsub_built E cfg \<and> filter on_pubsub acts \<in>
       {[Opened (Provider pubsub_Target), Closed (Provider pubsub_Target)],
        [Opened (Provider pubsub_Target), Processing, Closed (Provider pubsub_Target)]})"
proof -
  have t: "route_target (pubsub_route cfg) = pubsub_Target" "route_target (sqs_route cfg) = sqs_Target" "sqs_Target \<noteq> pubsub_Target"
    by (simp_all add: pubsub_route_def sqs_route_def sqs_Target_def pubsub_Target_def)
  show ?thesis
    using relay_unstalled[OF assms(1)] assms(2) unfolding relay_main_def buildProviderSenders_def providerSpecs_def build_loop.simps pubsub_built_def Let_def
    by (auto simp: t on_pubsub_def fail_def split: sum.splits option.splits if_splits loop_outcome.splits prod.splits)
qed

lemma built_client:
  assumes "pubsub_built E cfg"
  obtains client where "pubsub_NewClient (se_pubsub E) (pubsubConfig cfg) = Inr client"
    "build_sender E cfg pubsub_Target = Inr (PubSubSender (pubsubConfig cfg) client (newPublisher (pubsubConfig cfg)))"
  using assms by (auto simp: pubsub_built_def build_error_def build_sender_def buildPubSubSender_def Let_def split: sum.splits)

lemma cloud_run_stops: "cloud_run ops p = (calls, p') \<Longrightarrow> SDKStop i \<notin> set calls"
proof (induction ops arbitrary: p calls)
  case (Cons op ops)
  obtain c1 p1 where one: "cloud_step op p = (c1, p1)" by fastforce
  obtain c2 where two: "cloud_run ops p1 = (c2, p')" "calls = c1 @ c2" using Cons.prems one by (auto split: prod.splits)
  have "SDKStop i \<notin> set c1"
    using one by (cases op) (auto simp: topic_publisher_def Let_def split: prod.splits option.splits if_splits)
  then show ?case using Cons.IH[OF two(1)] two(2) by simp
qed simp

text \<open>
  (C34) The providers are shut down with the process. A relay process that got past the
  validation of its settings and returns, whatever fails on the way (it is not ended by the
  watchdog, whose \<open>os.Exit(1)\<close> on a stall stops and closes nothing more), has made one of these
  sequences of calls on the Pub/Sub SDK: none; or it created one
  client, with the configured project and endpoint, made the calls of its senders on the
  publishers of their topics, every message in the order the senders published it, then
  stopped every topic publisher it ever created, each once and none before, and closed the
  client, once and last.
\<close>

theorem providers_shut_down:
  assumes run: "runRelay_config F env cfg = (acts, Exit r)" and build: "rn_build env = build_error E cfg"
    and ord: "\<And>m. mset (se_order E m) = mset m"
  shows "client_calls E cfg None acts = [] \<or>
    (\<exists>client calls stops. PubSubEnabled cfg \<and> pubsub_NewClient (se_pubsub E) (pubsubConfig cfg) = Inr client \<and>
       pcl_ProjectID client = PubSubProjectID cfg \<and>
       client_calls E cfg None acts = NewPubSubClient client # map OnTopic (calls @ stops) @ [ClosePubSubClient] \<and>
       (\<forall>i. SDKStop i \<notin> set calls) \<and> distinct (map fst (created calls)) \<and>
       mset stops = mset (map (\<lambda>(t, i). SDKStop i) (created calls)) \<and>
       (Processing \<in> set acts \<longrightarrow> sends calls = map (\<lambda>m. (the (map_of (created calls) (msg_Topic m)), msg_Data m, msg_Attributes m, msg_OrderingKey m))
          (messages (concat (map cloud_op_of (se_outputs E))))))"
proof (cases "filter on_pubsub acts \<in> {[], [Processing]}")
  case True
  then have "client_calls E cfg None (filter on_pubsub acts) = []" by auto
  then show ?thesis using client_calls_filter[of E cfg None acts] by metis
next
  case False
  from relay_pubsub_steps[OF run build] False have on: "pubsub_built E cfg"
    and steps: "filter on_pubsub acts = [Opened (Provider pubsub_Target), Closed (Provider pubsub_Target)] \<or>
      filter on_pubsub acts = [Opened (Provider pubsub_Target), Processing, Closed (Provider pubsub_Target)]" by auto
  obtain client where client: "pubsub_NewClient (se_pubsub E) (pubsubConfig cfg) = Inr client"
    "build_sender E cfg pubsub_Target = Inr (PubSubSender (pubsubConfig cfg) client (newPublisher (pubsubConfig cfg)))"
    by (rule built_client[OF on])
  have id: "pcl_ProjectID client = PubSubProjectID cfg"
    using client(1) by (auto simp: pubsub_NewClient_def pubsubConfig_def Let_def split: option.splits)
  have proc: "Processing \<in> set acts \<longleftrightarrow> Processing \<in> set (filter on_pubsub acts)" by (simp add: on_pubsub_def)
  let ?ops = "if Processing \<in> set acts then concat (map cloud_op_of (se_outputs E)) else []"
  obtain calls p where c: "cloud_run ?ops NewCloudPublisher = (calls, p)" by fastforce
  have trace: "client_calls E cfg None acts = NewPubSubClient client # map OnTopic (calls @ cloud_Close (se_order E) p) @ [ClosePubSubClient]"
    using client_calls_filter[of E cfg None acts] steps
  proof (elim disjE)
    assume f: "filter on_pubsub acts = [Opened (Provider pubsub_Target), Closed (Provider pubsub_Target)]"
    then have "calls = []" "p = NewCloudPublisher" using c proc by (simp_all split: if_splits)
    then show ?thesis using client_calls_filter[of E cfg None acts, unfolded f] client(2) by (simp add: pubsub_cleanup_def)
  next
    assume f: "filter on_pubsub acts = [Opened (Provider pubsub_Target), Processing, Closed (Provider pubsub_Target)]"
    then have "cloud_run (concat (map cloud_op_of (se_outputs E))) NewCloudPublisher = (calls, p)" using c proc by (simp split: if_splits)
    then show ?thesis using client_calls_filter[of E cfg None acts, unfolded f] client(2) by (simp add: pubsub_cleanup_def)
  qed
  have nil: "NewCloudPublisher = \<lparr> publishers = [] \<rparr>" by (simp add: NewCloudPublisher_def)
  note pub = one_publisher_per_topic[where ops = "?ops" and order = "se_order E", OF c[unfolded nil] ord]
  show ?thesis
  proof (intro disjI2 exI conjI)
    show "PubSubEnabled cfg" using on by (simp add: pubsub_built_def)
    show "\<forall>i. SDKStop i \<notin> set calls" using cloud_run_stops[OF c] by blast
    show "distinct (map fst (created calls))" "mset (cloud_Close (se_order E) p) = mset (map (\<lambda>(t, i). SDKStop i) (created calls))"
      using pub by blast+
    have "sends calls = map (\<lambda>m. (the (map_of (created calls) (msg_Topic m)), msg_Data m, msg_Attributes m, msg_OrderingKey m)) (messages ?ops)"
      using pub by blast
    then show "Processing \<in> set acts \<longrightarrow> sends calls = map (\<lambda>m. (the (map_of (created calls) (msg_Topic m)), msg_Data m, msg_Attributes m, msg_OrderingKey m))
        (messages (concat (map cloud_op_of (se_outputs E))))" by simp
  qed (fact client(1) id trace)+
qed

definition both_config :: appConfig where
  "both_config = sqs_config\<lparr>PubSubEnabled := True, DefaultPubSubTopic := ''t'', PubSubProjectID := ''p''\<rparr>"

definition sample_sdk :: sdk_env where
  "sample_sdk = \<lparr> se_pubsub = (\<lambda>_ _. None), se_transport = (2, 100), se_aws = (\<lambda>_. None),
     se_outputs = [Flush ''a'', ResumePublish ''b'' ''k''], se_order = rev, se_close = None \<rparr>"

theorem providers_shut_down_witness:
  "\<exists>acts client calls stops. runRelay_config (id, \<lambda>_. []) (sample_run\<lparr>rn_build := build_error sample_sdk both_config\<rparr>) both_config = (acts, Exit None) \<and>
     Processing \<in> set acts \<and>
     client_calls sample_sdk both_config None acts = NewPubSubClient client # map OnTopic (calls @ stops) @ [ClosePubSubClient] \<and>
     mset stops = mset (map (\<lambda>(t, i). SDKStop i) (created calls))"
proof -
  let ?env = "sample_run\<lparr>rn_build := build_error sample_sdk both_config\<rparr>"
  have b: "build_error sample_sdk both_config t = None" for t
    by (simp add: build_error_def build_sender_def buildPubSubSender_def buildSQSSender_def pubsub_NewClient_def sqs_NewClient_def sample_sdk_def Let_def)
  have db: "openDB (id, \<lambda>_. []) (rn_ReadFile ?env) (rn_has_certs ?env) (rn_parseErr ?env) both_config =
      openDB (id, \<lambda>_. []) (\<lambda>_. Inr []) (\<lambda>_. True) None both_config" by (simp add: sample_run_def)
  have run: "runRelay_config (id, \<lambda>_. []) (sample_run\<lparr>rn_build := \<lambda>_. None\<rparr>) both_config =
      ([Opened RootContext, Opened Watchdog, Opened Database, Opened (Provider ''pubsub''), Opened (Provider ''sqs''), Processing,
        Closed (Provider ''sqs''), Closed (Provider ''pubsub''), Closed Database, Closed Watchdog, Closed RootContext], Exit None)"
    by code_simp
  have "build_error sample_sdk both_config = (\<lambda>_. None)" using b by (rule ext)
  then have run': "runRelay_config (id, \<lambda>_. []) ?env both_config =
      ([Opened RootContext, Opened Watchdog, Opened Database, Opened (Provider ''pubsub''), Opened (Provider ''sqs''), Processing,
        Closed (Provider ''sqs''), Closed (Provider ''pubsub''), Closed Database, Closed Watchdog, Closed RootContext], Exit None)"
    using run by simp
  have "rn_build ?env = build_error sample_sdk both_config" by simp
  moreover have "mset (se_order sample_sdk m) = mset m" for m by (simp add: sample_sdk_def)
  moreover have "client_calls sample_sdk both_config None (Opened (Provider pubsub_Target) # acts) \<noteq> []" for acts
    by (simp add: build_sender_def buildPubSubSender_def pubsub_NewClient_def sample_sdk_def Let_def)
  then have "client_calls sample_sdk both_config None [Opened RootContext, Opened Watchdog, Opened Database, Opened (Provider ''pubsub''), Opened (Provider ''sqs''), Processing,
        Closed (Provider ''sqs''), Closed (Provider ''pubsub''), Closed Database, Closed Watchdog, Closed RootContext] \<noteq> []"
    by (simp add: pubsub_Target_def)
  ultimately obtain client calls stops where
      "client_calls sample_sdk both_config None [Opened RootContext, Opened Watchdog, Opened Database, Opened (Provider ''pubsub''), Opened (Provider ''sqs''), Processing,
        Closed (Provider ''sqs''), Closed (Provider ''pubsub''), Closed Database, Closed Watchdog, Closed RootContext] =
        NewPubSubClient client # map OnTopic (calls @ stops) @ [ClosePubSubClient]"
      "mset stops = mset (map (\<lambda>(t, i). SDKStop i) (created calls))"
    using providers_shut_down[OF run', of sample_sdk] by blast
  then show ?thesis using run' by (intro exI conjI) (assumption | simp)+
qed

end
