(* ===== verification/Lifecycle.thy ===== *)
theory Lifecycle
  imports Service Builders Relay
begin

text \<open>
  The life of a relay process around its loop: the struct \<open>app\<close> as \<open>runRelay\<close> fills it, the HTTP server
  of \<open>http.go\<close> with its goroutine, the signals \<open>main.go\<close> asks for, and the root context they cancel.
\<close>

section \<open>The struct app\<close>

text \<open>
  The watchdog's progress counter is absent in apps built without one; the listener is established
  on the first idle wait.
\<close>

record app =
  app_cfg :: appConfig
  app_db :: pgConfig
  app_senders :: "(string \<times> built_sender) list"
  app_failureLogger :: "failureLogger option"
  app_stats :: appStats
  app_watchdog :: "int option"
  app_listener :: "nat option"
  app_lastBacklogProbe :: int

definition new_app :: "appConfig \<Rightarrow> pgConfig \<Rightarrow> (string \<times> built_sender) list \<Rightarrow> int \<Rightarrow> app" where
  "new_app cfg db senders now =
     \<lparr> app_cfg = cfg, app_db = db, app_senders = senders, app_failureLogger = Some (newFailureLogger failureLogWindow),
       app_stats = newAppStats now, app_watchdog = Some 0, app_listener = None, app_lastBacklogProbe = zero_time \<rparr>"

definition app_markProgress :: "app \<Rightarrow> app" where
  "app_markProgress a = (case app_watchdog a of None \<Rightarrow> a | Some progress \<Rightarrow> a\<lparr>app_watchdog := Some (markProgress progress)\<rparr>)"

text \<open>What the loop of theory Processor starts from: the memory of the app, and the two tables.\<close>

definition loop_state :: "app \<Rightarrow> row list \<Rightarrow> bytes list \<Rightarrow> app_state" where
  "loop_state a outbox dlq =
     \<lparr> as_outbox = outbox, as_dlq = dlq, as_stats = app_stats a, as_lastBacklogProbe = app_lastBacklogProbe a \<rparr>"

section \<open>The HTTP server\<close>

record http_server =
  hs_Addr :: string
  hs_ReadHeaderTimeout :: int
  hs_ReadTimeout :: int
  hs_WriteTimeout :: int
  hs_IdleTimeout :: int

definition newHTTPServer :: "appConfig \<Rightarrow> http_server" where
  "newHTTPServer cfg =
     \<lparr> hs_Addr = '':'' @ Itoa (HealthPort cfg), hs_ReadHeaderTimeout = 5 * time_Second, hs_ReadTimeout = 10 * time_Second,
       hs_WriteTimeout = 10 * time_Second, hs_IdleTimeout = 60 * time_Second \<rparr>"

text \<open>
  The port is bound before the goroutine starts, so an occupied port fails the start-up. What
  \<open>Serve\<close> returns later: \<open>http.ErrServerClosed\<close> after \<open>Shutdown\<close>, or another error.
\<close>

definition serveHTTPRequests :: "(string \<Rightarrow> go_error option) \<Rightarrow> appConfig \<Rightarrow> go_error + http_server" where
  "serveHTTPRequests net_Listen cfg =
     (case net_Listen ('':'' @ Itoa (HealthPort cfg)) of
        Some err \<Rightarrow> Inl err
      | None \<Rightarrow> Inr (newHTTPServer cfg))"

datatype serve_result = ErrServerClosed | ServeFailed go_error

text \<open>The goroutine: the log line it writes and whether it calls \<open>a.shutdown\<close>.\<close>

definition serve_goroutine :: "serve_result \<Rightarrow> string option \<times> bool" where
  "serve_goroutine r = (case r of ErrServerClosed \<Rightarrow> (None, False) | ServeFailed err \<Rightarrow> (Some ''HTTP server failed'', True))"

definition shutdownServer_timeout :: int where
  "shutdownServer_timeout = 5 * time_Second"

section \<open>The root context\<close>

datatype os_signal = SIGINT | SIGTERM | OtherSignal

text \<open>\<open>signal.NotifyContext\<close> is asked for two signals.\<close>

definition notified :: "os_signal \<Rightarrow> bool" where
  "notified s \<longleftrightarrow> s = SIGINT \<or> s = SIGTERM"

datatype happening = Signalled os_signal | ServerEnded serve_result

definition cancels :: "happening \<Rightarrow> bool" where
  "cancels h = (case h of Signalled s \<Rightarrow> notified s | ServerEnded r \<Rightarrow> snd (serve_goroutine r))"

text \<open>
  A timeline gives each iteration of the loop what happened since the previous one. A cancelled
  context stays cancelled.
\<close>

fun with_context :: "bool \<Rightarrow> (happening list \<times> batch_env) list \<Rightarrow> batch_env list" where
  "with_context c [] = []"
| "with_context c ((hs, env) # rest) =
     (let c' = (c \<or> list_ex cancels hs) in env\<lparr>be_cancelled := c'\<rparr> # with_context c' rest)"

definition undisturbed_until :: "(happening list \<times> batch_env) list \<Rightarrow> bool" where
  "undisturbed_until plan \<longleftrightarrow> list_all (\<lambda>(hs, env). \<not> list_ex cancels hs) plan"

lemma with_context_append:
  "undisturbed_until pre \<Longrightarrow> with_context False (pre @ rest) = with_context False pre @ with_context False rest"
  by (induction pre) (auto simp: undisturbed_until_def Let_def)

lemma processEvents_append:
  "processEvents F L P cfg cols st pre = (Running, st1) \<Longrightarrow>
     processEvents F L P cfg cols st (pre @ rest) = processEvents F L P cfg cols st1 rest"
  by (induction F L P cfg cols st pre rule: processEvents.induct) (auto split: if_splits prod.splits)

lemma returned_none_told:
  assumes "processEvents F L P cfg cols st (with_context False plan) = (Returned None, st')"
  shows "\<exists>pre hs env post. plan = pre @ (hs, env) # post \<and> list_ex cancels hs \<and> undisturbed_until pre \<and>
    processEvents F L P cfg cols st (with_context False pre) = (Running, st')"
  using assms
proof (induction plan arbitrary: st)
  case (Cons x plan)
  obtain hs env where x: "x = (hs, env)" by fastforce
  show ?case
  proof (cases "list_ex cancels hs")
    case True
    then have "st' = st" using Cons.prems x by simp
    then have "x # plan = [] @ (hs, env) # plan \<and> list_ex cancels hs \<and> undisturbed_until [] \<and>
        processEvents F L P cfg cols st (with_context False []) = (Running, st')"
      using True x by (simp add: undisturbed_until_def)
    then show ?thesis by blast
  next
    case False
    let ?env = "env\<lparr>be_cancelled := False\<rparr>"
    obtain result err st1 where one: "processOneBatch F L P cfg cols ?env st = (result, err, st1)" by (metis prod_cases3)
    have run: "processEvents F L P cfg cols st (with_context False (x # plan)) = (Returned None, st')" by (rule Cons.prems)
    define next_st where "next_st = (if is_err err errDatabaseBatch then st1 else updateBacklog P cfg ?env result st1)"
    have nf: "\<not> is_err err ErrFatalAfterCommit" using run one False x by (auto simp: is_err_def split: if_splits option.splits)
    have step: "processEvents F L P cfg cols st (?env # rest) = processEvents F L P cfg cols next_st rest" for rest
      using one nf by (simp add: next_st_def)
    have "processEvents F L P cfg cols next_st (with_context False plan) = (Returned None, st')"
      using run False x step by simp
    from Cons.IH[OF this] obtain pre hs' env' post where t: "plan = pre @ (hs', env') # post" "list_ex cancels hs'" "undisturbed_until pre"
        "processEvents F L P cfg cols next_st (with_context False pre) = (Running, st')" by blast
    have "processEvents F L P cfg cols st (with_context False (x # pre)) = (Running, st')" using t(4) step False x by simp
    moreover have "undisturbed_until (x # pre)" using t(3) False x by (simp add: undisturbed_until_def)
    ultimately show ?thesis using t(1,2) by (intro exI[of _ "x # pre"]) auto
  qed
qed simp

text \<open>The loop on a timeline, as the process of theory Startup sees it.\<close>

definition looping ::
  "fmt \<Rightarrow> golib \<Rightarrow> pg \<Rightarrow> string list \<Rightarrow> app_state \<Rightarrow> (happening list \<times> batch_env) list \<Rightarrow> run_env \<Rightarrow> run_env" where
  "looping F L P cols st plan env = env\<lparr>rn_process := (\<lambda>cfg. fst (processEvents F L P cfg cols st (with_context False plan)))\<rparr>"

lemma processing_result:
  assumes "runRelay_config F env cfg = (acts, result)" "Processing \<in> set acts" "result \<noteq> StallExit"
  shows "result = (case rn_process env cfg of Running \<Rightarrow> StillRunning | Returned None \<Rightarrow> Exit None
    | Returned (Some err) \<Rightarrow> fail ''process events'' err)"
proof -
  obtain b r where b: "buildProviderSenders (rn_build env) cfg = (b, r)" by fastforce
  then have "Processing \<notin> set b" using build_no_processing by (auto simp: buildProviderSenders_def)
  then show ?thesis
    using relay_unstalled[OF assms(1,3)] assms(2) b by (cases r) (auto simp: relay_main_def Let_def split: sum.splits option.splits if_splits loop_outcome.splits)
qed

lemma running_undisturbed:
  assumes "fst (processEvents F L P cfg cols st (with_context False pre)) = Running"
  shows "undisturbed_until pre"
  using assms
proof (induction pre arbitrary: st)
  case (Cons x pre)
  obtain hs env where x: "x = (hs, env)" by fastforce
  have "\<not> list_ex cancels hs" using Cons.prems x by auto
  moreover have "\<exists>st'. fst (processEvents F L P cfg cols st' (with_context False pre)) = Running"
    using Cons.prems x calculation by (auto split: prod.splits if_splits)
  ultimately show ?case using Cons.IH x by (auto simp: undisturbed_until_def)
qed (simp add: undisturbed_until_def)

lemma told_returns:
  assumes "plan = pre @ (hs, benv) # post" "list_ex cancels hs"
    "fst (processEvents F L P cfg cols st (with_context False pre)) = Running"
  shows "processEvents F L P cfg cols st (with_context False plan) =
    (Returned None, snd (processEvents F L P cfg cols st (with_context False pre)))"
proof -
  obtain st1 where r: "processEvents F L P cfg cols st (with_context False pre) = (Running, st1)" using assms(3) by (metis prod.collapse)
  show ?thesis
    using processEvents_append[OF r] with_context_append[OF running_undisturbed[OF assms(3)]] assms(1,2) r by simp
qed

text \<open>
  (C20) A relay stops without error exactly when it is told to, between batches. A process that
  reached its loop and is not ended by its watchdog (which exits with code one) exits with code
  zero if and only if SIGINT or SIGTERM arrived, or its health server
  failed, after batches none of which ended fatally; no batch starts after that moment, so the
  tables and counters are as those batches left them.
\<close>

theorem exit_zero_iff_told:
  assumes run: "runRelay_config F (looping F L P cols st plan env) cfg = (acts, result)" and reached: "Processing \<in> set acts"
  shows "(main_exit result = Some 0 \<longleftrightarrow> result \<noteq> StallExit \<and>
      (\<exists>pre hs benv post. plan = pre @ (hs, benv) # post \<and>
         (\<exists>h. h \<in> set hs \<and> (h = Signalled SIGINT \<or> h = Signalled SIGTERM \<or> (\<exists>err. h = ServerEnded (ServeFailed err)))) \<and>
         fst (processEvents F L P cfg cols st (with_context False pre)) = Running)) \<and>
    (\<forall>pre hs benv post h. plan = pre @ (hs, benv) # post \<longrightarrow> h \<in> set hs \<longrightarrow> cancels h \<longrightarrow>
       fst (processEvents F L P cfg cols st (with_context False pre)) = Running \<longrightarrow>
       snd (processEvents F L P cfg cols st (with_context False plan)) = snd (processEvents F L P cfg cols st (with_context False pre)))"
proof -
  have told: "list_ex cancels hs \<longleftrightarrow> (\<exists>h. h \<in> set hs \<and> (h = Signalled SIGINT \<or> h = Signalled SIGTERM \<or> (\<exists>err. h = ServerEnded (ServeFailed err))))" for hs
  proof -
    have "cancels h \<longleftrightarrow> h = Signalled SIGINT \<or> h = Signalled SIGTERM \<or> (\<exists>err. h = ServerEnded (ServeFailed err))" for h
      by (auto simp: cancels_def notified_def serve_goroutine_def split: happening.splits serve_result.splits)
    then show ?thesis by (auto simp: list_ex_iff)
  qed
  let ?run = "\<lambda>envs. processEvents F L P cfg cols st (with_context False envs)"
  have "rn_process (looping F L P cols st plan env) cfg = fst (?run plan)" by (simp add: looping_def)
  then have "main_exit result = Some 0 \<longleftrightarrow> result \<noteq> StallExit \<and> fst (?run plan) = Returned None"
    using processing_result[OF run reached]
    by (cases "result = StallExit"; cases "fst (?run plan)") (simp_all add: main_exit_def fail_def split: option.split)
  moreover have "fst (?run plan) = Returned None \<longleftrightarrow>
      (\<exists>pre hs benv post. plan = pre @ (hs, benv) # post \<and> list_ex cancels hs \<and> fst (?run pre) = Running)"
    (is "_ \<longleftrightarrow> ?R")
  proof
    assume "fst (?run plan) = Returned None"
    then have "?run plan = (Returned None, snd (?run plan))" by (metis prod.collapse)
    from returned_none_told[OF this] show ?R by (metis fst_conv)
  next
    assume ?R
    then obtain pre hs benv post where "plan = pre @ (hs, benv) # post" "list_ex cancels hs" "fst (?run pre) = Running" by blast
    from told_returns[OF this] show "fst (?run plan) = Returned None" by simp
  qed
  moreover have "snd (?run plan) = snd (?run pre)"
    if "plan = pre @ (hs, benv) # post" "h \<in> set hs" "cancels h" "fst (?run pre) = Running" for pre hs benv post h
  proof -
    have "list_ex cancels hs" using that(2,3) by (auto simp: list_ex_iff)
    from told_returns[OF that(1) this that(4)] show ?thesis by simp
  qed
  ultimately show ?thesis unfolding told by blast
qed

text \<open>
  The health server of a relay fails after one batch: the process closes everything and exits with
  code zero, as after a signal.
\<close>

definition failing_server :: "(happening list \<times> batch_env) list" where
  "failing_server = [([], sample_env), ([ServerEnded (ServeFailed (ErrorString ''accept''))], sample_env)]"

theorem exit_zero_iff_told_witness:
  "main_exit (snd (runRelay_config sample_fmt (looping sample_fmt sample_lib sample_pg sample_cols sample_state failing_server sample_run) both_config)) = Some 0"
proof -
  let ?env = "looping sample_fmt sample_lib sample_pg sample_cols sample_state failing_server sample_run"
  have quiet: "runRelay_config sample_fmt (sample_run\<lparr>rn_process := f\<rparr>) both_config = relay_main sample_fmt (sample_run\<lparr>rn_process := f\<rparr>) both_config" for f
  proof -
    have "stalled_at (sample_run\<lparr>rn_process := f\<rparr>) = stalled_at sample_run" by (simp add: stalled_at_def)
    moreover have "stalled_at sample_run = None" by code_simp
    ultimately show ?thesis by (simp add: runRelay_config_def split: prod.split)
  qed
  have run: "Processing \<in> set (fst (runRelay_config sample_fmt (sample_run\<lparr>rn_process := f\<rparr>) both_config))" for f
  proof -
    have "openDB sample_fmt (rn_ReadFile sample_run) (rn_has_certs sample_run) (rn_parseErr sample_run) both_config \<noteq> Inl e" for e
      by (simp add: openDB_def sample_run_def both_config_def sqs_config_def defaultConfig_def)
    then obtain db where db: "openDB sample_fmt (rn_ReadFile sample_run) (rn_has_certs sample_run) (rn_parseErr sample_run) both_config = Inr db"
      by (metis sum.exhaust)
    have b: "buildProviderSenders (rn_build sample_run) both_config =
        ([Opened (Provider ''pubsub''), Opened (Provider ''sqs'')], Inr [''pubsub'', ''sqs''])" by code_simp
    have c: "checkDBWorks both_config (rn_columns sample_run) = None" "checkDLQWorks both_config (rn_dlq sample_run) = None"
      "rn_listen sample_run = None" by code_simp+
    show ?thesis
      using db b c unfolding quiet by (cases "f both_config") (auto simp: relay_main_def Let_def split: option.split)
  qed
  have "fst (processEvents sample_fmt sample_lib sample_pg both_config sample_cols sample_state (with_context False [([], sample_env)])) = Running"
    by code_simp
  then have told: "\<exists>pre hs benv post. failing_server = pre @ (hs, benv) # post \<and>
      (\<exists>h. h \<in> set hs \<and> (h = Signalled SIGINT \<or> h = Signalled SIGTERM \<or> (\<exists>err. h = ServerEnded (ServeFailed err)))) \<and>
      fst (processEvents sample_fmt sample_lib sample_pg both_config sample_cols sample_state (with_context False pre)) = Running"
    unfolding failing_server_def
    by (intro exI[of _ "[([], sample_env)]"] exI[of _ "[ServerEnded (ServeFailed (ErrorString ''accept''))]"] exI[of _ sample_env] exI[of _ "[]"]) simp
  have reached: "Processing \<in> set (fst (runRelay_config sample_fmt ?env both_config))" unfolding looping_def by (rule run)
  obtain acts result where r: "runRelay_config sample_fmt ?env both_config = (acts, result)" by fastforce
  then have "Processing \<in> set acts" using reached by simp
  moreover have "result \<noteq> StallExit" using r main_no_stall unfolding looping_def quiet by metis
  ultimately have "main_exit result = Some 0" using exit_zero_iff_told[OF r] told by blast
  then show ?thesis using r by simp
qed

end
