(* ===== verification/Settings_Output.thy ===== *)
theory Settings_Output
  imports Startup Provisioning_Facts
begin

text \<open>
  What the program prints about its settings: the usage message of \<open>config_flags.go\<close>, the output of a
  failed parse, and that none of it, nor the script of \<open>init\<close>, depends on a password.
\<close>

section \<open>The usage message\<close>

text \<open>Category and description of each flag, as they are registered.\<close>

definition option_texts :: "(string \<times> string \<times> string) list" where
  "option_texts =
     [(''event-table'', ''Event table'', ''Outbox table name.''),
      (''event-id'', ''Event table'', ''Event id column.''),
      (''event-timestamp'', ''Event table'', ''Event timestamp column.''),
      (''event-payload'', ''Event table'', ''Event payload column.''),
      (''event-target'', ''Event table'', ''Backend selector column. Values pubsub or sqs.''),
      (''event-destination'', ''Event table'', ''Pub/Sub topic name or SQS queue URL column.''),
      (''event-options'', ''Event table'', ''Backend-specific JSON options column.''),
      (''collect-batch-target'', ''Batch processing'', ''Approximate target rows selected per batch, spread evenly across eligible routes.''),
      (''dlq-table'', ''Batch processing'', ''Dead letter table for poison events.''),
      (''publish-timeout-ms'', ''Batch processing'', ''Timeout for a single publish call in milliseconds. Must be positive.''),
      (''max-event-age-ms'', ''Batch processing'', ''Maximum selected event age in milliseconds. 0 disables age-based poison.''),
      (''health-port'', ''HTTP / health'', ''HTTP health server port. Set to 0 to disable.''),
      (''log-level'', ''Logging'', ''Log level: debug, info, warn, or error.''),
      (''log-format'', ''Logging'', ''Log format: text or json.''),
      (''pg-host'', ''PostgreSQL'', ''PostgreSQL host.''),
      (''pg-port'', ''PostgreSQL'', ''PostgreSQL port.''),
      (''pg-user'', ''PostgreSQL'', ''PostgreSQL user.''),
      (''pg-password'', ''PostgreSQL'', ''PostgreSQL password.''),
      (''pg-database'', ''PostgreSQL'', ''PostgreSQL database.''),
      (''pg-schema'', ''PostgreSQL'', ''PostgreSQL schema containing the outbox objects.''),
      (''pg-ssl'', ''PostgreSQL'', ''Enable PostgreSQL TLS.''),
      (''pg-ssl-reject-unauthorized'', ''PostgreSQL'', ''Verify PostgreSQL TLS certificate and hostname.''),
      (''pg-ssl-root-cert'', ''PostgreSQL'', ''Path to a CA certificate (PEM) used to verify the PostgreSQL server.''),
      (''pg-query-timeout-ms'', ''PostgreSQL'', ''Timeout for a single database query in milliseconds. 0 disables the timeout.''),
      (''pubsub-enabled'', ''Google Pub/Sub'', ''Enable publishing to Google Pub/Sub.''),
      (''default-pubsub-topic'', ''Google Pub/Sub'', ''Pub/Sub topic used when an event has no destination.''),
      (''pubsub-destinations'', ''Google Pub/Sub'', ''Comma-separated Pub/Sub destinations this process owns. Empty means all Pub/Sub destinations.''),
      (''pubsub-project-id'', ''Google Pub/Sub'', ''Google Cloud project for Pub/Sub. Detected from ADC when empty.''),
      (''pubsub-api-endpoint'', ''Google Pub/Sub'', ''Optional Pub/Sub API endpoint override.''),
      (''sqs-enabled'', ''AWS SQS'', ''Enable publishing to AWS SQS.''),
      (''default-sqs-queue-url'', ''AWS SQS'', ''SQS queue URL used when an event has no destination.''),
      (''sqs-destinations'', ''AWS SQS'', ''Comma-separated SQS destinations this process owns. Empty means all SQS destinations.''),
      (''sqs-api-endpoint'', ''AWS SQS'', ''Optional SQS API endpoint override.''),
      (''aws-region'', ''AWS SQS'', ''AWS region for SQS and STS.''),
      (''aws-role-arn'', ''AWS SQS'', ''Optional AWS role to assume before publishing to SQS.''),
      (''aws-role-session-name'', ''AWS SQS'', ''AWS assume-role session name.''),
      (''aws-web-identity-provider'', ''AWS SQS'',
       ''Set to '' @ [char_of (39 :: nat)] @ ''google'' @ [char_of (39 :: nat)] @ '' to assume the AWS role with a Google OIDC token (GCP to AWS).''),
      (''aws-web-identity-audience'', ''AWS SQS'', ''Audience for the web identity token, matching the AWS IAM OIDC provider.'')]"

definition init_option_texts :: "(string \<times> string \<times> string) list" where
  "init_option_texts =
     [(''apply'', ''Provisioning'', ''Execute the generated SQL against the database instead of printing it to stdout.''),
      (''pg-init-user'', ''Provisioning'',
       ''Provisioning role to connect as for --apply. When set, init also creates and grants to the run role.''),
      (''pg-init-password'', ''Provisioning'', ''Password for the provisioning role.''),
      (''pg-producer-roles'', ''Provisioning'', ''Comma-separated existing roles granted SELECT, INSERT on the event table.'')]"

definition optionHelp :: "string \<Rightarrow> string \<Rightarrow> string \<Rightarrow> string" where
  "optionHelp description envVar defaultValue = description @ '' Env: '' @ envVar @ ''. Default: '' @ defaultValue @ ''.''"

definition redactDefault :: "string \<Rightarrow> string" where
  "redactDefault v = (if v = [] then [] else ''<set>'')"

text \<open>The default as the usage shows it, by the kind of the flag.\<close>

definition default_text :: "flag_kind \<Rightarrow> fval \<Rightarrow> string" where
  "default_text kind v =
     (case v of
        FInt n \<Rightarrow> Itoa n
      | FBool b \<Rightarrow> if b then ''true'' else ''false''
      | FUint16 w \<Rightarrow> Itoa (uint w)
      | FString s \<Rightarrow>
          (case kind of
             disableableStringValue \<Rightarrow> if s = [] then disableSentinel else s
           | secretStringValue \<Rightarrow> redactDefault s
           | _ \<Rightarrow> s))"

text \<open>
  The usage of an option. The text of its environment variables in the source is their names
  joined by comma and space; \<open>apply\<close> is registered with its bare description.
\<close>

definition option_usage :: "fmt \<Rightarrow> string \<Rightarrow> cliOption \<Rightarrow> string" where
  "option_usage F description opt =
     (if opt_name opt = ''apply'' then description
      else optionHelp
        (description @ (if opt_kind opt = disableableStringValue then '' Set to '' @ fst F disableSentinel @ '' to omit it.'' else []))
        (Join (opt_envVars opt) '', '') (default_text (opt_kind opt) (opt_default opt)))"

definition nl_text :: string where
  "nl_text = [CHR 0x0A]"

fun usage_loop :: "fmt \<Rightarrow> (string \<times> string \<times> string) list \<Rightarrow> string \<Rightarrow> cliOption list \<Rightarrow> string" where
  "usage_loop F texts currentCategory [] = []"
| "usage_loop F texts currentCategory (opt # opts) =
     (case map_of texts (opt_name opt) of
        None \<Rightarrow> usage_loop F texts currentCategory opts
      | Some (category, description) \<Rightarrow>
          (if category \<noteq> currentCategory then nl_text @ category @ '':'' @ nl_text else []) @
          ''  --'' @ opt_name opt @ nl_text @ ''      '' @ option_usage F description opt @ nl_text @
          usage_loop F texts category opts)"

definition printUsage :: "fmt \<Rightarrow> (string \<times> string \<times> string) list \<Rightarrow> cliOption list \<Rightarrow> string" where
  "printUsage F texts opts = ''Usage:'' @ nl_text @ ''  outboxer [options]'' @ nl_text @ usage_loop F texts [] opts"

text \<open>
  What \<open>parse\<close> writes to the output of the flag set: \<open>FlagSet.Parse\<close> prints an error, if it is not the
  request for help, and the usage; the checks before and after print nothing.
\<close>

definition newConfigParser_output ::
  "fmt \<Rightarrow> ((string \<times> string) list \<Rightarrow> (string \<times> string) list) \<Rightarrow> (string \<Rightarrow> string option) \<Rightarrow>
   (string \<times> string \<times> string) list \<Rightarrow> cliOption list \<Rightarrow> string list \<Rightarrow> string" where
  "newConfigParser_output F order LookupEnv texts opts args =
     (case rejectRetiredEnv order LookupEnv of
        Some err \<Rightarrow> []
      | None \<Rightarrow>
          (case applyEnv F LookupEnv opts (initial_values opts) of
             Inl err \<Rightarrow> []
           | Inr v \<Rightarrow>
               (case flags_Parse F opts args v of
                  Inl err \<Rightarrow> (if err = flag_ErrHelp then [] else error_text err @ nl_text) @ printUsage F texts opts
                | Inr r \<Rightarrow> [])))"

section \<open>Passwords are not printed\<close>

text \<open>Two environments that differ at most in the passwords they set.\<close>

definition secret_vars :: "string list" where
  "secret_vars = [''PG_PASSWORD'', ''PG_INIT_PASSWORD'']"

definition secret_flags :: "string list" where
  "secret_flags = [''pg-password'', ''pg-init-password'']"

definition same_but_passwords :: "(string \<Rightarrow> string option) \<Rightarrow> (string \<Rightarrow> string option) \<Rightarrow> bool" where
  "same_but_passwords env env' \<longleftrightarrow>
     (\<forall>n. if n \<in> set secret_vars then (env n = None \<longleftrightarrow> env' n = None) \<and> env n \<noteq> Some [] \<and> env' n \<noteq> Some [] else env n = env' n)"

definition same_values :: "flag_values \<Rightarrow> flag_values \<Rightarrow> bool" where
  "same_values v v' \<longleftrightarrow> (\<forall>n. n \<notin> set secret_flags \<longrightarrow> v n = v' n)"

text \<open>A secret flag reads its own variable and nothing else, and no other flag reads it.\<close>

definition secret_option :: "cliOption \<Rightarrow> bool" where
  "secret_option opt \<longleftrightarrow> opt_kind opt = secretStringValue \<and> opt_name opt \<in> set secret_flags \<and>
     (\<exists>x \<in> set secret_vars. opt_envVars opt = [x])"

definition secrets_apart :: "cliOption list \<Rightarrow> bool" where
  "secrets_apart opts \<longleftrightarrow> list_all (\<lambda>opt. secret_option opt \<or> list_all (\<lambda>x. x \<notin> set secret_vars) (opt_envVars opt)) opts"

lemma strip_space: "strip space_seqs (CHR '' '' # s) = strip space_seqs s"
proof -
  have "find (\<lambda>p. p \<noteq> [] \<and> HasPrefix (CHR '' '' # s) p) space_seqs = Some [CHR '' '']"
    by (simp add: space_seqs_def HasPrefix_def char_of_def bit_0)
  then show ?thesis by (simp add: strip.simps[of space_seqs "CHR '' '' # s"])
qed

lemma TrimSpace_space: "TrimSpace (CHR '' '' # s) = TrimSpace s"
  by (simp add: TrimSpace_def strip_space)

lemma TrimSpace_port: "list_all plain_char s \<Longrightarrow> TrimSpace s = s"
  using plain_not_space by (intro TrimSpace_plain) (auto simp: list_all_iff)

lemma parse_health_port: "parseStringList ''HEALTH_PORT, PORT'' = [''HEALTH_PORT'', ''PORT'']"
proof -
  have "Split (CHR '','') ''HEALTH_PORT, PORT'' = [''HEALTH_PORT'', '' PORT'']" by simp
  then show ?thesis by (simp add: parseStringList_def TrimSpace_space TrimSpace_port plain_char_def)
qed

lemma parse_no_name: "parseStringList [] = []"
  using parseStringList_Join[of "[]"] by simp

definition apart_flag :: "string \<Rightarrow> bool" where
  "apart_flag names \<longleftrightarrow> list_all (\<lambda>x. x \<notin> set secret_vars) (parseStringList names)"

lemma apart_flag_plain: "s \<noteq> [] \<Longrightarrow> list_all plain_char s \<Longrightarrow> s \<noteq> ''PG_PASSWORD'' \<Longrightarrow> s \<noteq> ''PG_INIT_PASSWORD'' \<Longrightarrow> apart_flag s"
  by (simp add: apart_flag_def parseStringList_plain secret_vars_def)

lemma apart_flag_other: "apart_flag []" "apart_flag ''HEALTH_PORT, PORT''"
  by (simp_all add: apart_flag_def parse_no_name parse_health_port secret_vars_def)

lemma apart_addFlag: "apart_flag e \<Longrightarrow> secrets_apart (addFlag k n v e # opts) \<longleftrightarrow> secrets_apart opts"
  by (simp add: secrets_apart_def addFlag_def apart_flag_def)

lemma apart_secret:
  "secrets_apart (addFlag secretStringValue ''pg-password'' v ''PG_PASSWORD'' # opts) \<longleftrightarrow> secrets_apart opts"
  "secrets_apart (addFlag secretStringValue ''pg-init-password'' v ''PG_INIT_PASSWORD'' # opts) \<longleftrightarrow> secrets_apart opts"
  by (simp_all add: secrets_apart_def addFlag_def secret_option_def secret_vars_def secret_flags_def plain_char_def parseStringList_plain)

lemma apart_flags:
  "secrets_apart (init_flags cfg)" "secrets_apart (bindConfigFlags cfg)"
  by (simp_all only: init_flags_def bindConfigFlags_def apart_secret)
    (simp_all add: apart_addFlag apart_secret apart_flag_plain apart_flag_other plain_char_def, simp_all add: secrets_apart_def)

lemma relay_secrets_apart: "secrets_apart (bindConfigFlags defaultConfig @ init_flags defaultConfig)"
  using apart_flags by (simp add: secrets_apart_def)

lemma same_values_upd: "same_values v v' \<Longrightarrow> same_values (v(n := x)) (v'(n := x))"
  by (simp add: same_values_def)

lemma first_env_same:
  "same_but_passwords env env' \<Longrightarrow> list_all (\<lambda>x. x \<notin> set secret_vars) names \<Longrightarrow> first_env env names = first_env env' names"
  by (induction names) (simp_all add: same_but_passwords_def split: option.split)

text \<open>A relation passes under the branches of a program that both sides take alike.\<close>

lemma rel_branches:
  "(P \<Longrightarrow> rel_sum A B a c) \<Longrightarrow> (\<not> P \<Longrightarrow> rel_sum A B b d) \<Longrightarrow> rel_sum A B (if P then a else b) (if P then c else d)"
  "(\<And>y z. pr = (y, z) \<Longrightarrow> rel_sum A B (f1 y z) (g1 y z)) \<Longrightarrow> rel_sum A B (case pr of (y, z) \<Rightarrow> f1 y z) (case pr of (y, z) \<Rightarrow> g1 y z)"
  "(opt = None \<Longrightarrow> rel_sum A B a c) \<Longrightarrow> (\<And>y. opt = Some y \<Longrightarrow> rel_sum A B (f2 y) (g2 y)) \<Longrightarrow>
     rel_sum A B (case opt of None \<Rightarrow> a | Some y \<Rightarrow> f2 y) (case opt of None \<Rightarrow> c | Some y \<Rightarrow> g2 y)"
  "(\<And>e. s = Inl e \<Longrightarrow> rel_sum A B (h e) (k e)) \<Longrightarrow> (\<And>y. s = Inr y \<Longrightarrow> rel_sum A B (f3 y) (g3 y)) \<Longrightarrow>
     rel_sum A B (case s of Inl e \<Rightarrow> h e | Inr y \<Rightarrow> f3 y) (case s of Inl e \<Rightarrow> k e | Inr y \<Rightarrow> g3 y)"
  "(l = [] \<Longrightarrow> rel_sum A B a c) \<Longrightarrow> (\<And>y ys. l = y # ys \<Longrightarrow> rel_sum A B (f5 y ys) (g5 y ys)) \<Longrightarrow>
     rel_sum A B (case l of [] \<Rightarrow> a | y # ys \<Rightarrow> f5 y ys) (case l of [] \<Rightarrow> c | y # ys \<Rightarrow> g5 y ys)"
  by (simp_all split: prod.split option.split sum.split list.split)

lemma applyEnv_same:
  assumes "same_but_passwords env env'" "secrets_apart opts" "same_values v v'"
  shows "rel_sum (=) same_values (applyEnv F env opts v) (applyEnv F env' opts v')"
  using assms
proof (induction opts arbitrary: v v')
  case (Cons opt opts)
  have apart: "secrets_apart opts" using Cons.prems(2) by (simp add: secrets_apart_def)
  note IH = Cons.IH[OF Cons.prems(1) apart]
  show ?case
  proof (cases "list_all (\<lambda>x. x \<notin> set secret_vars) (opt_envVars opt)")
    case True
    show ?thesis
      unfolding applyEnv.simps first_env_same[OF Cons.prems(1) True]
      by (intro rel_branches IH Cons.prems(3) same_values_upd) simp
  next
    case False
    then obtain x where x: "x \<in> set secret_vars" "opt_envVars opt = [x]" "opt_kind opt = secretStringValue" "opt_name opt \<in> set secret_flags"
      using Cons.prems(2) by (auto simp: secrets_apart_def secret_option_def)
    have e: "env x = None \<longleftrightarrow> env' x = None" "env x \<noteq> Some []" "env' x \<noteq> Some []"
      using Cons.prems(1) x(1) by (simp_all add: same_but_passwords_def)
    show ?thesis
    proof (cases "env x")
      case None
      then show ?thesis using e(1) x(2) IH[OF Cons.prems(3)] by simp
    next
      case (Some a)
      then obtain b where b: "env' x = Some b" using e(1) by (cases "env' x") auto
      have same: "same_values (v(opt_name opt := FString a)) (v'(opt_name opt := FString b))"
        using Cons.prems(3) x(4) by (auto simp: same_values_def)
      have "applyEnv F env (opt # opts) v = applyEnv F env opts (v(opt_name opt := FString a))"
        "applyEnv F env' (opt # opts) v' = applyEnv F env' opts (v'(opt_name opt := FString b))"
        using Some b e x(2,3) by (simp_all add: flag_set_def)
      then show ?thesis using IH[OF same] by metis
    qed
  qed
qed simp

lemma flags_Parse_same:
  "same_values v v' \<Longrightarrow>
     rel_sum (=) (rel_prod same_values (=)) (flags_Parse F opts args v) (flags_Parse F opts args v')"
proof (induction "length args" arbitrary: args v v' rule: less_induct)
  case less
  have IH: "rel_sum (=) (rel_prod same_values (=)) (flags_Parse F opts as (v(n := x))) (flags_Parse F opts as (v'(n := x)))"
    if "length as < length args" for as n x
    by (rule less.hyps[OF that same_values_upd[OF less.prems]])
  show ?case
  proof (cases args)
    case Nil
    then show ?thesis using less.prems by simp
  next
    case (Cons s as)
    show ?thesis
      unfolding Cons flags_Parse.simps(2) Let_def
      apply (rule rel_branches(1))
      subgoal using less.prems by simp
      apply (rule rel_branches(1))
      subgoal using less.prems by simp
      apply (rule rel_branches(1))
      subgoal by simp
      apply (rule rel_branches(2))
      apply (rule rel_branches(2))
      apply (rule rel_branches(3))
      subgoal by simp
      apply (rule rel_branches(1))
      subgoal by (rule rel_branches(4)) (simp, rule IH, simp add: Cons)
      apply (rule rel_branches(1))
      subgoal by (rule rel_branches(4)) (simp, rule IH, simp add: Cons)
      apply (rule rel_branches(5))
      subgoal by simp
      subgoal by (rule rel_branches(4)) (simp, rule IH, simp add: Cons)
      done
  qed
qed

lemma parse_values_same:
  assumes "same_but_passwords env env'" "secrets_apart opts" "\<And>xs. set (order xs) = set xs"
  shows "rel_sum (=) same_values (parse_values F order env opts args) (parse_values F order env' opts args)"
    "newConfigParser_output F order env texts opts args = newConfigParser_output F order env' texts opts args"
proof -
  have retired: "rejectRetiredEnv order env = rejectRetiredEnv order env'"
  proof -
    have "env n = env' n" if "(n, r) \<in> set (order retiredEnvVars)" for n r
      using that assms(1,3) by (auto simp: same_but_passwords_def secret_vars_def retiredEnvVars_def)
    then have "find (\<lambda>(n, r). env n \<noteq> None) (order retiredEnvVars) = find (\<lambda>(n, r). env' n \<noteq> None) (order retiredEnvVars)"
      by (intro find_cong) auto
    then show ?thesis by (simp add: rejectRetiredEnv_def)
  qed
  have initial: "rel_sum (=) same_values (applyEnv F env opts (initial_values opts)) (applyEnv F env' opts (initial_values opts))"
    by (rule applyEnv_same[OF assms(1,2)]) (simp add: same_values_def)
  show "rel_sum (=) same_values (parse_values F order env opts args) (parse_values F order env' opts args)"
  proof (cases "applyEnv F env opts (initial_values opts)")
    case (Inl e)
    then show ?thesis using initial by (auto simp: parse_values_def retired rel_sum.simps split: option.split)
  next
    case (Inr v)
    then obtain v' where v': "applyEnv F env' opts (initial_values opts) = Inr v'" "same_values v v'"
      using initial by (auto simp: rel_sum.simps)
    from flags_Parse_same[OF v'(2), of F opts args]
    show ?thesis using Inr v'(1) by (auto simp: parse_values_def retired rel_sum.simps split: option.split)
  qed
  show "newConfigParser_output F order env texts opts args = newConfigParser_output F order env' texts opts args"
  proof (cases "applyEnv F env opts (initial_values opts)")
    case (Inl e)
    then show ?thesis using initial by (auto simp: newConfigParser_output_def retired rel_sum.simps split: option.split)
  next
    case (Inr v)
    then obtain v' where v': "applyEnv F env' opts (initial_values opts) = Inr v'" "same_values v v'"
      using initial by (auto simp: rel_sum.simps)
    from flags_Parse_same[OF v'(2), of F opts args]
    show ?thesis using Inr v'(1) by (auto simp: newConfigParser_output_def retired rel_sum.simps split: option.split)
  qed
qed

text \<open>A configuration without its passwords.\<close>

definition without_passwords :: "appConfig \<Rightarrow> appConfig" where
  "without_passwords cfg = cfg\<lparr>PGPassword := [], PGInitPassword := []\<rparr>"

lemma config_of_same: "same_values v v' \<Longrightarrow> without_passwords (config_of v) = without_passwords (config_of v')"
  by (simp add: same_values_def secret_flags_def without_passwords_def config_of_def deriveConfig_def finalize_def bound_fields_def)

lemma same_fields:
  assumes "without_passwords cfg = without_passwords cfg'"
  shows "cfg' = cfg\<lparr>PGPassword := PGPassword cfg', PGInitPassword := PGInitPassword cfg'\<rparr>"
  using assms by (cases cfg; cases cfg') (simp add: without_passwords_def)

lemma validateStorage_blind: "validateStorage F (cfg\<lparr>PGPassword := p, PGInitPassword := q\<rparr>) = validateStorage F cfg"
  unfolding validateStorage_def config_columns_def by simp

lemma routes_blind: "configuredProviderRoutes (cfg\<lparr>PGPassword := p, PGInitPassword := q\<rparr>) = configuredProviderRoutes cfg"
  by (simp add: configuredProviderRoutes_def providerSpecs_def pubsub_route_def sqs_route_def)

lemma specs_blind:
  "spec \<in> set providerSpecs \<Longrightarrow> fst spec (cfg\<lparr>PGPassword := p, PGInitPassword := q\<rparr>) = fst spec cfg \<and>
     snd spec (cfg\<lparr>PGPassword := p, PGInitPassword := q\<rparr>) = snd spec cfg"
  by (auto simp: providerSpecs_def pubsub_route_def sqs_route_def)

lemma validateRuntime_blind: "validateRuntime F (cfg\<lparr>PGPassword := p, PGInitPassword := q\<rparr>) = validateRuntime F cfg"
proof -
  define cfg' where "cfg' = cfg\<lparr>PGPassword := p, PGInitPassword := q\<rparr>"
  have f1: "find (\<lambda>spec. \<not> fst spec cfg' \<and> ownedDestinations (snd spec cfg') \<noteq> []) providerSpecs =
      find (\<lambda>spec. \<not> fst spec cfg \<and> ownedDestinations (snd spec cfg) \<noteq> []) providerSpecs"
    by (rule find_cong) (simp_all add: cfg'_def specs_blind)
  have f2: "configuredProviderRoutes cfg' = configuredProviderRoutes cfg" by (simp only: cfg'_def routes_blind)
  have f3: "AWSRoleARN cfg' = AWSRoleARN cfg" "AWSWebIdentityAudience cfg' = AWSWebIdentityAudience cfg"
    "AWSWebIdentityProvider cfg' = AWSWebIdentityProvider cfg" "CollectBatchTarget cfg' = CollectBatchTarget cfg"
    "EventDestination cfg' = EventDestination cfg" "EventTarget cfg' = EventTarget cfg" "EventTimestamp cfg' = EventTimestamp cfg"
    "MaxEventAge cfg' = MaxEventAge cfg" "cfg_PublishTimeout cfg' = cfg_PublishTimeout cfg" by (simp_all add: cfg'_def)
  note fields = f1 f2 f3
  have "validateRuntime F cfg' = validateRuntime F cfg"
  proof (cases "find (\<lambda>spec. \<not> fst spec cfg \<and> ownedDestinations (snd spec cfg) \<noteq> []) providerSpecs")
    case (Some spec)
    then have "spec \<in> set providerSpecs" by (auto simp: find_Some_iff)
    then have "snd spec cfg' = snd spec cfg" by (simp add: cfg'_def specs_blind)
    with Some show ?thesis by (simp only: fields validateRuntime_def option.case)
  qed (simp only: fields validateRuntime_def option.case)
  then show ?thesis by (simp only: cfg'_def)
qed

lemma validate_blind: "validate F m (cfg\<lparr>PGPassword := p, PGInitPassword := q\<rparr>) = validate F m cfg"
  by (simp only: validate_def validateStorage_blind validateRuntime_blind)

lemma same_validated:
  assumes "without_passwords cfg = without_passwords cfg'"
  shows "validate F m cfg = validate F m cfg'" "buildInitStatements san r cfg True = buildInitStatements san r cfg' True"
  using validate_blind[where cfg = cfg and p = "PGPassword cfg'" and q = "PGInitPassword cfg'"]
    statements_blind[where cfg = cfg and p = "PGPassword cfg'" and q = "PGInitPassword cfg'"]
  by (simp_all add: same_fields[OF assms, symmetric])

lemma same_init_fields:
  "without_passwords c = without_passwords c' \<Longrightarrow>
     without_passwords (c\<lparr>PGInitUser := u, PGInitPassword := p, PGProducerRoles := r\<rparr>) =
     without_passwords (c'\<lparr>PGInitUser := u, PGInitPassword := p', PGProducerRoles := r\<rparr>)"
  by (cases c; cases c') (simp add: without_passwords_def)

lemma loadInitConfig_same:
  assumes "same_but_passwords env env'" "\<And>xs. set (order xs) = set xs"
  shows "rel_sum (=) (rel_prod (\<lambda>c c'. without_passwords c = without_passwords c') (=)) (loadInitConfig F order env args) (loadInitConfig F order env' args)"
proof -
  note vals = parse_values_same(1)[OF assms(1) relay_secrets_apart assms(2), of F args]
  have "rel_prod (\<lambda>c c'. without_passwords c = without_passwords c') (=)
      ((config_of v)\<lparr>PGInitUser := str_of (v ''pg-init-user''), PGInitPassword := str_of (v ''pg-init-password''),
          PGProducerRoles := parseStringList (str_of (v ''pg-producer-roles''))\<rparr>, bool_of (v ''apply''))
      ((config_of v')\<lparr>PGInitUser := str_of (v' ''pg-init-user''), PGInitPassword := str_of (v' ''pg-init-password''),
          PGProducerRoles := parseStringList (str_of (v' ''pg-producer-roles''))\<rparr>, bool_of (v' ''apply''))"
    if "same_values v v'" for v v'
  proof -
    have "v ''pg-init-user'' = v' ''pg-init-user''" "v ''pg-producer-roles'' = v' ''pg-producer-roles''" "v ''apply'' = v' ''apply''"
      using that by (simp_all add: same_values_def secret_flags_def)
    then show ?thesis using same_init_fields[OF config_of_same[OF that]] by simp
  qed
  then show ?thesis
    using vals by (auto simp: loadInitConfig_def rel_sum.simps)
qed

lemma relay_flags_apart: "secrets_apart (bindConfigFlags defaultConfig)"
  using relay_secrets_apart by (simp add: secrets_apart_def)

lemma loadConfig_same:
  assumes "same_but_passwords env env'" "\<And>xs. set (order xs) = set xs"
  shows "rel_sum (=) (\<lambda>c c'. without_passwords c = without_passwords c') (loadConfig F order env args) (loadConfig F order env' args)"
  using parse_values_same(1)[OF assms(1) relay_flags_apart assms(2), of F args] config_of_same
  by (auto simp: loadConfig_def rel_sum.simps)

lemma init_script_same:
  assumes "same_but_passwords env env'" "\<And>xs. set (order xs) = set xs"
  shows "fst (runInit F san randText order env i args c) = fst (runInit F san randText order env' i args c)"
proof -
  note load = loadInitConfig_same[OF assms, of F args]
  show ?thesis
  proof (cases "loadInitConfig F order env args")
    case (Inl e)
    then have "loadInitConfig F order env' args = Inl e" using load by (cases "loadInitConfig F order env' args") simp_all
    with Inl show ?thesis by (simp add: runInit_def)
  next
    case (Inr r)
    obtain cfg a where r: "r = (cfg, a)" by (cases r)
    obtain cfg' where r': "loadInitConfig F order env' args = Inr (cfg', a)" and same: "without_passwords cfg = without_passwords cfg'"
      using load Inr r by (cases "loadInitConfig F order env' args") auto
    show ?thesis
    proof (cases "validate F configValidationInit cfg' \<noteq> None \<or> a")
      case True
      then show ?thesis
        using same_validated(1)[OF same, of F configValidationInit] by (auto simp: runInit_def Inr r r' split: option.split prod.split)
    next
      case False
      then show ?thesis
        using same_validated[OF same] by (simp add: runInit_def Inr r r')
    qed
  qed
qed

text \<open>
  (C30) No password of the environment is printed. Take two environments that differ only in the values of
  \<open>PG_PASSWORD\<close> and \<open>PG_INIT_PASSWORD\<close>, and the same arguments. Loading the relay's configuration fails with
  the same error in both, or gives configurations that differ in the passwords alone and that validation treats
  alike; the parser writes the same text (an error and the usage message, or nothing), for the relay and for
  \<open>init\<close>; and \<open>init\<close> prints the same script.
\<close>

theorem passwords_never_printed:
  assumes "same_but_passwords env env'" "\<And>xs. set (order xs) = set xs"
  shows
    "rel_sum (=) (\<lambda>cfg cfg'. without_passwords cfg = without_passwords cfg' \<and> validate F m cfg = validate F m cfg')
       (loadConfig F order env args) (loadConfig F order env' args) \<and>
     newConfigParser_output F order env option_texts (bindConfigFlags defaultConfig) args =
       newConfigParser_output F order env' option_texts (bindConfigFlags defaultConfig) args \<and>
     newConfigParser_output F order env (option_texts @ init_option_texts) (bindConfigFlags defaultConfig @ init_flags defaultConfig) args =
       newConfigParser_output F order env' (option_texts @ init_option_texts) (bindConfigFlags defaultConfig @ init_flags defaultConfig) args \<and>
     fst (runInit F san randText order env i args c) = fst (runInit F san randText order env' i args c)"
proof (intro conjI)
  show "rel_sum (=) (\<lambda>cfg cfg'. without_passwords cfg = without_passwords cfg' \<and> validate F m cfg = validate F m cfg')
       (loadConfig F order env args) (loadConfig F order env' args)"
    using loadConfig_same[OF assms, of F args] by (rule sum.rel_mono_strong) (blast intro: same_validated(1))+
  show "fst (runInit F san randText order env i args c) = fst (runInit F san randText order env' i args c)"
    by (rule init_script_same[OF assms])
  show "newConfigParser_output F order env option_texts (bindConfigFlags defaultConfig) args =
       newConfigParser_output F order env' option_texts (bindConfigFlags defaultConfig) args"
    by (rule parse_values_same(2)[OF assms(1) relay_flags_apart assms(2)])
  show "newConfigParser_output F order env (option_texts @ init_option_texts) (bindConfigFlags defaultConfig @ init_flags defaultConfig) args =
       newConfigParser_output F order env' (option_texts @ init_option_texts) (bindConfigFlags defaultConfig @ init_flags defaultConfig) args"
    by (rule parse_values_same(2)[OF assms(1) relay_secrets_apart assms(2)])
qed

definition sample_env_with :: "string \<Rightarrow> string \<Rightarrow> string option" where
  "sample_env_with password = [''PG_PASSWORD'' \<mapsto> password, ''PG_INIT_USER'' \<mapsto> ''admin'']"

theorem passwords_never_printed_witness:
  "rel_sum (=) (\<lambda>cfg cfg'. without_passwords cfg = without_passwords cfg')
     (loadConfig (id, Itoa) id (sample_env_with ''a'') [''--pg-port=x'']) (loadConfig (id, Itoa) id (sample_env_with ''b'') [''--pg-port=x'']) \<and>
   newConfigParser_output (id, Itoa) id (sample_env_with ''a'') option_texts (bindConfigFlags defaultConfig) [''--pg-port=x''] =
     newConfigParser_output (id, Itoa) id (sample_env_with ''b'') option_texts (bindConfigFlags defaultConfig) [''--pg-port=x'']"
proof -
  have "same_but_passwords (sample_env_with ''a'') (sample_env_with ''b'')"
    by (simp add: same_but_passwords_def secret_vars_def sample_env_with_def)
  note same = passwords_never_printed[OF this, where order = id and F = "(id, Itoa)" and args = "[''--pg-port=x'']"]
  have "rel_sum (=) (\<lambda>cfg cfg'. without_passwords cfg = without_passwords cfg')
     (loadConfig (id, Itoa) id (sample_env_with ''a'') [''--pg-port=x'']) (loadConfig (id, Itoa) id (sample_env_with ''b'') [''--pg-port=x''])"
    by (rule sum.rel_mono_strong[OF conjunct1[OF same]]) auto
  with conjunct1[OF conjunct2[OF same]] show ?thesis by simp
qed

end
