(* ===== verification/Catalog_Query.thy ===== *)
theory Catalog_Query
  imports Provisioning
begin

text \<open>
  The catalogue query behind the check of the dead-letter table (\<open>dlqMetadataSQL\<close> of \<open>dlq.go\<close>), as a
  query on PostgreSQL's system tables, and what the check at start-up says about them.
\<close>

section \<open>The system tables\<close>

text \<open>The columns the query reads. A dropped column keeps its row; system columns have negative numbers.\<close>

record pg_class_row =
  pgc_oid :: nat
  pgc_relkind :: string

record pg_attribute_row =
  pga_attrelid :: nat
  pga_attname :: string
  pga_atttypid :: nat
  pga_attnum :: int
  pga_attnotnull :: bool
  pga_attidentity :: string
  pga_attgenerated :: string
  pga_attisdropped :: bool

record pg_type_row =
  pgt_oid :: nat
  pgt_typname :: string

record pg_attrdef_row =
  pgd_adrelid :: nat
  pgd_adnum :: int
  pgd_adbin :: string

record pg_catalog =
  pg_class :: "pg_class_row list"
  pg_attribute :: "pg_attribute_row list"
  pg_type :: "pg_type_row list"
  pg_attrdef :: "pg_attrdef_row list"
  to_regclass :: "string \<Rightarrow> nat option"
  pg_get_expr :: "string \<Rightarrow> nat \<Rightarrow> string"
  has_table_privilege :: "nat \<Rightarrow> bool"
  has_column_privilege :: "nat \<Rightarrow> string \<Rightarrow> bool"

section \<open>The query\<close>

definition left_join :: "('a \<Rightarrow> bool) \<Rightarrow> 'a list \<Rightarrow> 'a option list" where
  "left_join on rows = (case filter on rows of [] \<Rightarrow> [None] | ms \<Rightarrow> map Some ms)"

text \<open>A row of the joins, with the number of the column it is ordered by.\<close>

definition metadata_row ::
  "pg_catalog \<Rightarrow> pg_class_row \<Rightarrow> pg_attribute_row \<Rightarrow> pg_type_row \<Rightarrow> pg_attrdef_row option \<Rightarrow> int \<times> dlq_row" where
  "metadata_row C c a t d =
     (pga_attnum a, (pgc_relkind c, has_table_privilege C (pgc_oid c),
        \<lparr> col_name = pga_attname a, col_typeName = pgt_typname t, col_notNull = pga_attnotnull a,
          col_defaultExpr = (case d of None \<Rightarrow> None | Some def \<Rightarrow> Some (pg_get_expr C (pgd_adbin def) (pgd_adrelid def))),
          col_identity = pga_attidentity a, col_generated = pga_attgenerated a,
          col_canInsertColumn = has_column_privilege C (pgc_oid c) (pga_attname a) \<rparr>))"

definition dlqMetadata_joined :: "pg_catalog \<Rightarrow> string \<Rightarrow> (int \<times> dlq_row) list" where
  "dlqMetadata_joined C arg =
     concat (map (\<lambda>c.
       concat (map (\<lambda>a.
         concat (map (\<lambda>t.
           map (metadata_row C c a t)
             (left_join (\<lambda>d. pgd_adrelid d = pga_attrelid a \<and> pgd_adnum d = pga_attnum a) (pg_attrdef C)))
           (filter (\<lambda>t. pgt_oid t = pga_atttypid a) (pg_type C))))
         (filter (\<lambda>a. pga_attrelid a = pgc_oid c \<and> pga_attnum a > 0 \<and> \<not> pga_attisdropped a) (pg_attribute C))))
       (filter (\<lambda>c. to_regclass C arg = Some (pgc_oid c)) (pg_class C)))"

definition dlqMetadataSQL :: "pg_catalog \<Rightarrow> string \<Rightarrow> dlq_row list" where
  "dlqMetadataSQL C arg = map snd (sort_key fst (dlqMetadata_joined C arg))"

text \<open>The keys of the system tables, and the references between them.\<close>

definition catalog_ok :: "pg_catalog \<Rightarrow> bool" where
  "catalog_ok C \<longleftrightarrow>
     distinct (map pgc_oid (pg_class C)) \<and> distinct (map pgt_oid (pg_type C)) \<and>
     distinct (map (\<lambda>a. (pga_attrelid a, pga_attname a)) (pg_attribute C)) \<and>
     distinct (map (\<lambda>d. (pgd_adrelid d, pgd_adnum d)) (pg_attrdef C)) \<and>
     list_all (\<lambda>a. pga_attisdropped a \<or> pga_atttypid a \<in> pgt_oid ` set (pg_type C)) (pg_attribute C) \<and>
     (\<forall>arg oid. to_regclass C arg = Some oid \<longrightarrow> oid \<in> pgc_oid ` set (pg_class C))"

section \<open>The query returns the columns of the table\<close>

definition live_columns :: "pg_catalog \<Rightarrow> nat \<Rightarrow> pg_attribute_row list" where
  "live_columns C oid =
     filter (\<lambda>a. pga_attrelid a = oid \<and> pga_attnum a > 0 \<and> \<not> pga_attisdropped a) (pg_attribute C)"

definition default_of :: "pg_catalog \<Rightarrow> pg_attribute_row \<Rightarrow> pg_attrdef_row option" where
  "default_of C a = find (\<lambda>d. pgd_adrelid d = pga_attrelid a \<and> pgd_adnum d = pga_attnum a) (pg_attrdef C)"

definition type_of :: "pg_catalog \<Rightarrow> pg_attribute_row \<Rightarrow> pg_type_row" where
  "type_of C a = the (find (\<lambda>t. pgt_oid t = pga_atttypid a) (pg_type C))"

text \<open>A key selects at most one row.\<close>

lemma filter_unique_key:
  assumes "distinct (map k xs)"
  shows "filter (\<lambda>x. k x = y) xs = (case find (\<lambda>x. k x = y) xs of None \<Rightarrow> [] | Some x \<Rightarrow> [x])"
  using assms
proof (induction xs)
  case (Cons x xs)
  show ?case
  proof (cases "k x = y")
    case True
    then have "filter (\<lambda>z. k z = y) xs = []" using Cons.prems by (auto simp: filter_empty_conv) (metis image_eqI)
    then show ?thesis using True by simp
  next
    case False
    then show ?thesis using Cons by simp
  qed
qed simp

lemma left_join_key:
  assumes "distinct (map k xs)"
  shows "left_join (\<lambda>x. k x = y) xs = [find (\<lambda>x. k x = y) xs]"
  unfolding left_join_def filter_unique_key[OF assms] by (simp split: option.split)

lemma joined_columns:
  assumes ok: "catalog_ok C" and c: "c \<in> set (pg_class C)" "to_regclass C arg = Some (pgc_oid c)"
  shows "dlqMetadata_joined C arg =
    map (\<lambda>a. metadata_row C c a (type_of C a) (default_of C a)) (live_columns C (pgc_oid c))"
proof -
  have u: "distinct (map pgc_oid (pg_class C))" "distinct (map pgt_oid (pg_type C))"
    "distinct (map (\<lambda>d. (pgd_adrelid d, pgd_adnum d)) (pg_attrdef C))" using ok by (simp_all add: catalog_ok_def)
  have "find (\<lambda>x. pgc_oid x = pgc_oid c) (pg_class C) = Some c"
  proof -
    have "set (filter (\<lambda>x. pgc_oid x = pgc_oid c) (pg_class C)) = {c}" using u(1) c(1) by (auto simp: distinct_map inj_on_def)
    then show ?thesis unfolding filter_unique_key[OF u(1)] by (cases "find (\<lambda>x. pgc_oid x = pgc_oid c) (pg_class C)") auto
  qed
  then have cls: "filter (\<lambda>x. to_regclass C arg = Some (pgc_oid x)) (pg_class C) = [c]"
    using filter_unique_key[OF u(1), of "pgc_oid c"] c(2) by (simp add: eq_commute[of "pgc_oid c"])
  have defs: "left_join (\<lambda>d. pgd_adrelid d = pga_attrelid a \<and> pgd_adnum d = pga_attnum a) (pg_attrdef C) = [default_of C a]" for a
    using left_join_key[OF u(3), of "(pga_attrelid a, pga_attnum a)"] by (simp add: default_of_def)
  have types: "filter (\<lambda>t. pgt_oid t = pga_atttypid a) (pg_type C) = [type_of C a]"
    if "a \<in> set (live_columns C (pgc_oid c))" for a
  proof -
    have "pga_atttypid a \<in> pgt_oid ` set (pg_type C)" using that ok by (auto simp: live_columns_def catalog_ok_def list_all_iff)
    then have "find (\<lambda>t. pgt_oid t = pga_atttypid a) (pg_type C) \<noteq> None" by (auto simp: find_None_iff)
    then show ?thesis unfolding filter_unique_key[OF u(2)] type_of_def by (auto split: option.split)
  qed
  have "map (\<lambda>a. concat (map (\<lambda>t. map (metadata_row C c a t) [default_of C a]) (filter (\<lambda>t. pgt_oid t = pga_atttypid a) (pg_type C))))
      (live_columns C (pgc_oid c)) =
    map (\<lambda>a. [metadata_row C c a (type_of C a) (default_of C a)]) (live_columns C (pgc_oid c))"
    by (rule map_cong[OF refl]) (simp add: types)
  then show ?thesis
    unfolding dlqMetadata_joined_def cls defs live_columns_def[symmetric]
    by (simp only: list.map concat.simps append_Nil2 concat_map_singleton)
qed

lemma no_table: "to_regclass C arg = None \<Longrightarrow> dlqMetadataSQL C arg = []"
  by (simp add: dlqMetadataSQL_def dlqMetadata_joined_def)

lemma query_columns:
  assumes "catalog_ok C" "c \<in> set (pg_class C)" "to_regclass C arg = Some (pgc_oid c)"
  shows "dlqMetadataSQL C arg =
    map (\<lambda>a. snd (metadata_row C c a (type_of C a) (default_of C a))) (sort_key pga_attnum (live_columns C (pgc_oid c)))"
proof -
  have "sort_key fst (map f xs) = map f (sort_key pga_attnum xs)" if "\<And>a. fst (f a) = pga_attnum a"
    for f :: "pg_attribute_row \<Rightarrow> int \<times> dlq_row" and xs
  proof -
    have i: "insort_key fst (f a) (map f ys) = map f (insort_key pga_attnum a ys)" for a ys
      by (induction ys) (simp_all add: that)
    show ?thesis by (induction xs) (simp_all add: sort_key_def i)
  qed
  from this[of "\<lambda>a. metadata_row C c a (type_of C a) (default_of C a)"] show ?thesis
    unfolding dlqMetadataSQL_def joined_columns[OF assms] by (simp add: metadata_row_def comp_def)
qed


section \<open>What the check at start-up says about the database\<close>

lemma scanned:
  "dlq_scan (map (\<lambda>x. Inr (kind, can, col x)) xs) metadata =
     Inr (if xs = [] then metadata
       else metadata\<lparr>relkind := kind, canInsertTable := can, dlq_columns := dlq_columns metadata @ map col xs\<rparr>)"
  by (induction xs arbitrary: metadata) simp_all

text \<open>The columns PostgreSQL can fill on an insert that does not name them.\<close>

definition fills_itself :: "pg_catalog \<Rightarrow> pg_attribute_row \<Rightarrow> bool" where
  "fills_itself C a \<longleftrightarrow> \<not> pga_attnotnull a \<or> default_of C a \<noteq> None \<or> pga_attidentity a \<noteq> [] \<or> pga_attgenerated a \<noteq> []"

definition described :: "pg_catalog \<Rightarrow> pg_class_row \<Rightarrow> pg_attribute_row \<Rightarrow> dlqColumnMetadata" where
  "described C c a = snd (snd (snd (metadata_row C c a (type_of C a) (default_of C a))))"

lemma described_fields:
  "col_name (described C c a) = pga_attname a"
  "canOmitColumnFromInsert (described C c a) \<longleftrightarrow> fills_itself C a"
  "event_column_ok (described C c a) \<longleftrightarrow> pga_attgenerated a = [] \<and> pgt_typname (type_of C a) \<in> {''json'', ''jsonb''} \<and>
     has_column_privilege C (pgc_oid c) (pga_attname a)"
  by (simp_all add: described_def metadata_row_def canOmitColumnFromInsert_def fills_itself_def event_column_ok_def split: option.splits)

lemma loaded_columns:
  assumes "catalog_ok C" "c \<in> set (pg_class C)" "to_regclass C arg = Some (pgc_oid c)"
  shows "loadDLQTableMetadata (Inr (map Inr (dlqMetadataSQL C arg), None)) =
    Inr (if live_columns C (pgc_oid c) = [] then \<lparr> relkind = [], canInsertTable = False, dlq_columns = [] \<rparr>
      else \<lparr> relkind = pgc_relkind c, canInsertTable = has_table_privilege C (pgc_oid c),
             dlq_columns = map (described C c) (sort_key pga_attnum (live_columns C (pgc_oid c))) \<rparr>)"
proof -
  have "(map Inr (dlqMetadataSQL C arg) :: (go_error + dlq_row) list) = map (\<lambda>a. Inr (pgc_relkind c, has_table_privilege C (pgc_oid c), described C c a))
      (sort_key pga_attnum (live_columns C (pgc_oid c)))"
    unfolding query_columns[OF assms] by (simp add: described_def metadata_row_def)
  moreover have "sort_key pga_attnum (live_columns C (pgc_oid c)) = [] \<longleftrightarrow> live_columns C (pgc_oid c) = []"
    by (metis length_0_conv length_sort)
  ultimately show ?thesis by (simp add: loadDLQTableMetadata_def scanned)
qed

lemma live_names:
  assumes "catalog_ok C"
  shows "distinct (map pga_attname (sort_key pga_attnum (live_columns C oid)))"
proof -
  have "distinct (map (\<lambda>a. (pga_attrelid a, pga_attname a)) (live_columns C oid))"
    using assms unfolding catalog_ok_def live_columns_def by (auto intro: distinct_map_filter)
  then have "inj_on pga_attname (set (live_columns C oid))" "distinct (live_columns C oid)"
    by (auto simp: distinct_map inj_on_def live_columns_def)
  then show ?thesis by (simp add: distinct_map)
qed

lemma accepts_described:
  assumes "set (dlq_columns metadata) = described C c ` set as"
  shows "''id'' \<in> col_name ` set (dlq_columns metadata) \<longleftrightarrow> (\<exists>a. a \<in> set as \<and> pga_attname a = ''id'')"
    and "list_ex (\<lambda>x. col_name x = ''event'' \<and> event_column_ok x) (dlq_columns metadata) \<longleftrightarrow>
      (\<exists>a. a \<in> set as \<and> pga_attname a = ''event'' \<and> pga_attgenerated a = [] \<and>
         pgt_typname (type_of C a) \<in> {''json'', ''jsonb''} \<and> has_column_privilege C (pgc_oid c) ''event'')"
    and "list_all (\<lambda>x. col_name x = ''event'' \<or> canOmitColumnFromInsert x) (dlq_columns metadata) \<longleftrightarrow>
      (\<forall>a. a \<in> set as \<longrightarrow> pga_attname a = ''event'' \<or> fills_itself C a)"
proof -
  show "''id'' \<in> col_name ` set (dlq_columns metadata) \<longleftrightarrow> (\<exists>a. a \<in> set as \<and> pga_attname a = ''id'')"
    by (simp only: assms image_image described_fields image_iff Bex_def eq_commute[of "''id''"])
  show "list_ex (\<lambda>x. col_name x = ''event'' \<and> event_column_ok x) (dlq_columns metadata) \<longleftrightarrow>
      (\<exists>a. a \<in> set as \<and> pga_attname a = ''event'' \<and> pga_attgenerated a = [] \<and>
         pgt_typname (type_of C a) \<in> {''json'', ''jsonb''} \<and> has_column_privilege C (pgc_oid c) ''event'')"
    unfolding list_ex_iff assms bex_simps(7) described_fields unfolding Bex_def by (rule iff_exI) (simp cong: conj_cong)
  show "list_all (\<lambda>x. col_name x = ''event'' \<or> canOmitColumnFromInsert x) (dlq_columns metadata) \<longleftrightarrow>
      (\<forall>a. a \<in> set as \<longrightarrow> pga_attname a = ''event'' \<or> fills_itself C a)"
    unfolding list_all_iff assms ball_simps described_fields by blast
qed

text \<open>
  (C37) The check of the dead-letter table at start-up is exact about the database. On any consistent
  state of the system tables, whatever columns were dropped and however the rows are stored, the
  relay accepts the table if and only if the name resolves to an ordinary or partitioned table it
  may insert into, the live columns of that table include \<open>id\<close> and a JSON column \<open>event\<close>, not computed and
  open to inserts, and PostgreSQL fills every other live column by itself.
\<close>

theorem dlq_check_exact:
  assumes ok: "catalog_ok C" and dlq: "DLQTable cfg \<noteq> []" and name: "qualifiedIdent san (PGSchema cfg) (DLQTable cfg) = name"
  shows "checkDLQWorks cfg (Inr (map Inr (dlqMetadataSQL C name), None)) = None \<longleftrightarrow>
    (\<exists>c. c \<in> set (pg_class C) \<and> to_regclass C name = Some (pgc_oid c) \<and>
       (pgc_relkind c = ''r'' \<or> pgc_relkind c = ''p'') \<and> has_table_privilege C (pgc_oid c) \<and>
       (\<exists>a. a \<in> set (live_columns C (pgc_oid c)) \<and> pga_attname a = ''id'') \<and>
       (\<exists>a. a \<in> set (live_columns C (pgc_oid c)) \<and> pga_attname a = ''event'' \<and> pga_attgenerated a = [] \<and>
          pgt_typname (type_of C a) \<in> {''json'', ''jsonb''} \<and> has_column_privilege C (pgc_oid c) ''event'') \<and>
       (\<forall>a. a \<in> set (live_columns C (pgc_oid c)) \<longrightarrow> pga_attname a = ''event'' \<or> fills_itself C a))"
proof (cases "to_regclass C name")
  case None
  then show ?thesis using dlq by (simp add: checkDLQWorks_def loadDLQTableMetadata_def no_table validateDLQTableMetadata_def Let_def)
next
  case (Some oid)
  then obtain c where c: "c \<in> set (pg_class C)" "to_regclass C name = Some (pgc_oid c)" using ok by (force simp: catalog_ok_def)
  have only: "c' = c" if "c' \<in> set (pg_class C)" "to_regclass C name = Some (pgc_oid c')" for c'
    using that c ok by (auto simp: catalog_ok_def distinct_map inj_on_def)
  define metadata where "metadata = (if live_columns C (pgc_oid c) = [] then \<lparr> relkind = [], canInsertTable = False, dlq_columns = [] \<rparr>
      else \<lparr> relkind = pgc_relkind c, canInsertTable = has_table_privilege C (pgc_oid c),
             dlq_columns = map (described C c) (sort_key pga_attnum (live_columns C (pgc_oid c))) \<rparr>)"
  have "distinct (map col_name (dlq_columns metadata))"
    using live_names[OF ok] by (simp add: metadata_def comp_def described_fields(1))
  then have "checkDLQWorks cfg (Inr (map Inr (dlqMetadataSQL C name), None)) = None \<longleftrightarrow>
      ''id'' \<in> col_name ` set (dlq_columns metadata) \<and> accepts_event metadata"
    using dlq dlq_check_iff by (simp add: checkDLQWorks_def loaded_columns[OF ok c] flip: metadata_def)
  also have "\<dots> \<longleftrightarrow> (pgc_relkind c = ''r'' \<or> pgc_relkind c = ''p'') \<and> has_table_privilege C (pgc_oid c) \<and>
       (\<exists>a. a \<in> set (live_columns C (pgc_oid c)) \<and> pga_attname a = ''id'') \<and>
       (\<exists>a. a \<in> set (live_columns C (pgc_oid c)) \<and> pga_attname a = ''event'' \<and> pga_attgenerated a = [] \<and>
          pgt_typname (type_of C a) \<in> {''json'', ''jsonb''} \<and> has_column_privilege C (pgc_oid c) ''event'') \<and>
       (\<forall>a. a \<in> set (live_columns C (pgc_oid c)) \<longrightarrow> pga_attname a = ''event'' \<or> fills_itself C a)" (is "_ = ?table c")
  proof (cases "live_columns C (pgc_oid c) = []")
    case False
    have cols: "set (dlq_columns metadata) = described C c ` set (live_columns C (pgc_oid c))"
      and head: "relkind metadata = pgc_relkind c" "canInsertTable metadata = has_table_privilege C (pgc_oid c)"
      using False by (simp_all add: metadata_def)
    show ?thesis unfolding accepts_event_def head accepts_described[OF cols] by blast
  qed (simp add: metadata_def)
  also have "\<dots> \<longleftrightarrow> (\<exists>c. c \<in> set (pg_class C) \<and> to_regclass C name = Some (pgc_oid c) \<and> ?table c)"
    using c only by blast
  finally show ?thesis .
qed

section \<open>A sample database\<close>

text \<open>A dead-letter table with a dropped column and a system column, stored out of order.\<close>

definition sample_attribute :: "nat \<Rightarrow> string \<Rightarrow> nat \<Rightarrow> int \<Rightarrow> bool \<Rightarrow> string \<Rightarrow> bool \<Rightarrow> pg_attribute_row" where
  "sample_attribute rel name ty n notnull identity dropped =
     \<lparr> pga_attrelid = rel, pga_attname = name, pga_atttypid = ty, pga_attnum = n, pga_attnotnull = notnull,
       pga_attidentity = identity, pga_attgenerated = [], pga_attisdropped = dropped \<rparr>"

definition sample_catalog :: pg_catalog where
  "sample_catalog =
     \<lparr> pg_class = [\<lparr> pgc_oid = 6, pgc_relkind = ''r'' \<rparr>, \<lparr> pgc_oid = 7, pgc_relkind = ''r'' \<rparr>],
       pg_attribute = [sample_attribute 7 ''event'' 3802 3 True [] False, sample_attribute 6 ''id'' 20 1 True ''d'' False,
         sample_attribute 7 ''dropped'' 0 2 True [] True, sample_attribute 7 ''tableoid'' 20 (-6) True [] False,
         sample_attribute 7 ''id'' 20 1 True ''d'' False],
       pg_type = [\<lparr> pgt_oid = 20, pgt_typname = ''int8'' \<rparr>, \<lparr> pgt_oid = 3802, pgt_typname = ''jsonb'' \<rparr>],
       pg_attrdef = [],
       to_regclass = (\<lambda>name. if name = ''public.dead'' then Some 7 else None),
       pg_get_expr = (\<lambda>adbin oid. adbin), has_table_privilege = (\<lambda>oid. oid = 7),
       has_column_privilege = (\<lambda>oid name. oid = 7) \<rparr>"

theorem dlq_check_exact_witness:
  "map (\<lambda>row. col_name (snd (snd row))) (dlqMetadataSQL sample_catalog ''public.dead'') = [''id'', ''event''] \<and>
   (\<exists>c. c \<in> set (pg_class sample_catalog) \<and> to_regclass sample_catalog ''public.dead'' = Some (pgc_oid c) \<and>
     (\<exists>a. a \<in> set (live_columns sample_catalog (pgc_oid c)) \<and> pga_attname a = ''event''))"
proof
  have ok: "catalog_ok sample_catalog"
    by (auto simp: catalog_ok_def sample_catalog_def sample_attribute_def split: if_splits)
  show "map (\<lambda>row. col_name (snd (snd row))) (dlqMetadataSQL sample_catalog ''public.dead'') = [''id'', ''event'']" by code_simp
  have n: "qualifiedIdent (\<lambda>ps. Join ps ''.'') (PGSchema (defaultConfig\<lparr>DLQTable := ''dead''\<rparr>)) (DLQTable (defaultConfig\<lparr>DLQTable := ''dead''\<rparr>)) =
      ''public.dead''" by (simp add: qualifiedIdent_def defaultConfig_def)
  have "checkDLQWorks (defaultConfig\<lparr>DLQTable := ''dead''\<rparr>) (Inr (map Inr (dlqMetadataSQL sample_catalog ''public.dead''), None)) = None"
    by code_simp
  with dlq_check_exact[OF ok _ n] show "\<exists>c. c \<in> set (pg_class sample_catalog) \<and> to_regclass sample_catalog ''public.dead'' = Some (pgc_oid c) \<and>
     (\<exists>a. a \<in> set (live_columns sample_catalog (pgc_oid c)) \<and> pga_attname a = ''event'')"
    by (simp add: sample_catalog_def) blast
qed

end
