(* ===== verification/Spec2Isabelle.thy ===== *)
theory Spec2Isabelle
  imports Monitoring_Facts Relay_Backlog Relay_Poison Provisioning_Facts Config_Loading Clients Wake_Ups Relay_Accounting Aws_Client Service
    Shared_Table_Facts Lifecycle Settings_Output Catalog_Query
begin

text \<open>
  A verification development of outboxer (Go, under \<open>src/internal/outboxer\<close>), a relay for the
  transactional outbox pattern: producers insert rows into a PostgreSQL table inside their own
  transactions; the relay collects rows, publishes them to Google Pub/Sub or AWS SQS, and deletes
  what was published or moves it to a dead-letter table.

  \<^bold>\<open>The program and how its parts interact.\<close> \<open>main\<close> calls \<open>Run\<close>, which loads \<open>.env\<close> and dispatches to \<open>runInit\<close>
  (provisioning) or \<open>runRelay\<close>. The relay loads and validates its configuration, opens the database,
  builds a sender per enabled provider, checks both tables, and loops in \<open>processEvents\<close>: one batch is one
  transaction in which the collection query picks rows fairly over the routes and locks them, triage
  expires events and parses options, each target's events go to its sender in a goroutine, senders
  report every event through callbacks to a collector, poison events become dead letters, finished
  rows are deleted, and the transaction commits. Between batches an idle relay waits for a notification.
  Counters, gauges, a watchdog, a health endpoint and a rate-limited failure log observe the loop.

  \<^bold>\<open>Theories, in the order of imports, and the files they model.\<close>
  \<^item> \<open>Outbox_Prelude\<close>: Go's values (a database value is a \<open>goval\<close>), byte strings and the functions of package
    strings, 64-bit wrap-around (\<open>wrap64\<close>), times and durations in nanoseconds, maps as association lists,
    grouping; \<open>Go_Errors\<close>: error values, \<open>errors.Is\<close>, \<open>errors.Join\<close>; \<open>Goroutines\<close>: concurrent sender code as programs
    with calls, forks and a semaphore, their runs over all answers and interleavings, and the locale
    \<open>justification\<close>; \<open>Trace_Refinement\<close>: the locale of a stepping component watched by a monitor.
  \<^item> \<open>Provider_Contract\<close> (\<open>provider/*.go\<close>): events, options, callbacks, \<open>RunConcurrent\<close>, and the contract of
    \<open>provider.Sender\<close> as the locale \<open>provider_sender\<close>.
  \<^item> \<open>Config\<close> (\<open>config.go\<close>, \<open>config_validate.go\<close>, routes of \<open>providers.go\<close>); \<open>Config_Flags\<close> (\<open>config_flags.go\<close>, \<open>dotenv.go\<close>,
    \<open>loadConfig\<close>, \<open>loadInitConfig\<close>) and \<open>Config_Loading\<close> (what loading guarantees).
  \<^item> \<open>SQS_Options\<close>, \<open>SQS_Sender\<close> (\<open>sqs/options.go\<close>, \<open>sqs/sender.go\<close>) with \<open>SQS_Delivery\<close>, \<open>SQS_Guarantees\<close> and \<open>SQS_Ordering\<close>;
    \<open>Pubsub_Validation\<close>, \<open>Pubsub_Sender\<close> (\<open>pubsub/validation.go\<close>, \<open>pubsub/sender.go\<close>) with \<open>Pubsub_Delivery\<close>,
    \<open>Pubsub_Ordering\<close> and \<open>Pubsub_Guarantees\<close>; \<open>Clients\<close> (\<open>SendBatch\<close> of \<open>sqs/client.go\<close>, \<open>pubsub/client.go\<close>) and
    \<open>Aws_Client\<close> (\<open>NewClient\<close> of \<open>sqs/client.go\<close>).
  \<^item> \<open>Events\<close> (\<open>events.go\<close>); \<open>Routing_SQL\<close>, \<open>Collection\<close> (\<open>db.go\<close>) with \<open>Collection_Facts\<close>; \<open>Dead_Letters\<close> and \<open>Schema_Checks\<close>
    (\<open>dlq.go\<close>, the checks of \<open>db.go\<close> and \<open>init.go\<close>); \<open>Provisioning\<close> (\<open>init.go\<close>) with \<open>Provisioning_Facts\<close>; \<open>Catalog_Query\<close>
    (\<open>dlqMetadataSQL\<close> of \<open>dlq.go\<close> on PostgreSQL's system tables).
  \<^item> \<open>Monitoring\<close> (\<open>stats.go\<close>, \<open>failure_logger.go\<close>, \<open>watchdog.go\<close>, the health check) with \<open>Monitoring_Facts\<close>; \<open>Metrics\<close>
    (\<open>metrics.go\<close>).
  \<^item> \<open>Processor\<close> (\<open>processor.go\<close>, \<open>backlog.go\<close>): collector, triage, \<open>processEventBatch\<close>, \<open>processOneBatch\<close>, \<open>processEvents\<close>, with
    \<open>Collector_Facts\<close>, \<open>Processor_Facts\<close> and \<open>Batch_Facts\<close>; \<open>Wake_Ups\<close> (\<open>notify.go\<close>, \<open>waitForEvents\<close>).
  \<^item> \<open>Relay\<close>, \<open>Relay_Delivery\<close>, \<open>Relay_Liveness\<close>, \<open>Relay_Backlog\<close>, \<open>Relay_Poison\<close>, \<open>Relay_Accounting\<close>: runs of the loop over any
    sequence of environments; the locale \<open>relay_senders\<close> over senders that keep the contract.
  \<^item> \<open>Shared_Table\<close> and \<open>Shared_Table_Facts\<close>: several relays on one table, as a step relation over snapshots, row locks
    and batches (the \<open>FOR UPDATE\<close> of the query in \<open>db.go\<close> around \<open>processOneBatch\<close>).
  \<^item> \<open>Startup\<close> (\<open>run.go\<close>, \<open>logging.go\<close>, \<open>openDB\<close>, \<open>buildProviderSenders\<close>, \<open>runInit\<close>), \<open>Builders\<close> (the builders of
    \<open>providers.go\<close> and the SDK calls of a process), \<open>Service\<close> (\<open>http.go\<close>, the statistics lines, \<open>Run\<close>, the exit code),
    \<open>Lifecycle\<close> (\<open>app.go\<close>, the HTTP server, the signals of \<open>main.go\<close>) and \<open>Settings_Output\<close> (the usage message of
    \<open>config_flags.go\<close>, what a parse prints). This theory adds the end-to-end statement.

  \<^bold>\<open>State and operations.\<close> A definition has the name of the Go function it translates; a struct is a
  record with the struct's fields (prefixed where Isabelle needs them apart), an error return is a sum
  or an option, and a function with effects returns what it does as a value: senders are programs of
  calls and reports, a batch returns its writes as a \<open>tx\<close>, which \<open>processOneBatch\<close> applies on commit and drops on
  rollback; start-up, the listener and the Pub/Sub client return the list of their actions. What the
  outside decides in an iteration (query errors, clock, answers of the services, interleaving, arrival
  order of the senders' results, commit outcome, rows inserted meanwhile) is a \<open>batch_env\<close>, and theorems
  quantify over all of them. The generated SQL exists twice, as the text the code builds and as a
  predicate with SQL's three-valued logic; \<open>routable_sql_correct\<close> and \<open>route_match_sql_correct\<close> tie the text to
  the predicate and the predicate to an abstract routing function. The statements of \<open>init\<close> exist as the text
  \<open>buildInitStatements\<close> builds and as the plan \<open>init_plan\<close> of statements with an effect on a catalogue;
  \<open>init_sql_is_plan\<close> shows that the text is the rendering of the plan, statement by statement, so that
  a database which executes a rendered statement with its effect executes the code's text. What
  the privileges are worth is stated apart (\<open>may_relay\<close>, \<open>permits\<close>), from PostgreSQL's rules for the
  relay's own statements.

  \<^bold>\<open>What is shown.\<close> Delivery: no row leaves the outbox without an
  acknowledgement of its service or a stored reason; a batch is atomic and implements the abstract
  fate of every event; a healthy relay drains its outbox (when JSON can encode the rows that may be
  dead-lettered); an undecided ordered publish stops the relay. Several relays on one table: no row
  is held by two, each removed row was settled once, a route is worked on by one relay at a time and
  in order, and waiting for locks never deadlocks. Senders: a confirmation or a poison report always
  has its cause in an answer; requests respect the limits of the services; FIFO groups and ordering
  keys keep their order; a run without error leaves no event unreported. Collection: exactly the
  oldest rows of each route up to the share, no route starves, a drained batch is everything.
  Start-up: precedence and types of settings, exact validation, a dead-letter check that is exact
  about the system tables, provisioning that is atomic and ready, release of every resource by a
  process that returns (its watchdog's \<open>os.Exit(1)\<close> on a stall is the one other end,
  and releases nothing more), shutdown of the Pub/Sub client after its last use, an exit code that
  is zero exactly after a stop that was asked for or a failed health server, and no password in
  anything printed. Observation: exact or lower-bound backlog, metrics that account for every row,
  statistics lines that add up, a bounded failure log. Six theorems state limits of the code:
  \<open>unencodable_row_blocks\<close> (one condemned row that JSON cannot encode stops every
  batch), \<open>event_check_gap\<close> (the start-up check accepts a table the query fails on),
  \<open>duration_settings_wrap\<close> (a huge millisecond setting wraps to a tiny duration), the
  exception for a zero delay in \<open>sqs_client_faithful\<close>,
  \<open>contended_batch_reads_drained\<close> (a relay whose selected rows another relay took
  reports an exact backlog of zero), and the case of the failed health server in
  \<open>exit_zero_iff_told\<close>.

  \<^bold>\<open>Bounds and termination.\<close> There is no fuel: every definition is total, by structural recursion or with a
  measure (isolation of a refused SQS batch decreases its length). The endless loop \<open>processEvents\<close> consumes
  one environment per iteration and is \<open>Running\<close> when the list ends, so safety theorems hold for every
  prefix of an infinite run; \<open>relay_drains\<close> gives the number of iterations that is enough, one per owned row.
  Counters, durations and PostgreSQL's bigint keep their 64 bits, ports 16, delays 32.

  \<^bold>\<open>Parameters.\<close> Code outside the repository is an argument: JSON and time parsing and printing, SHA-256, URL
  parsing, \<open>fmt\<close>'s rendering of values and durations, identifier quoting and comparison of PostgreSQL, the
  SDK calls. What is assumed of it is a named hypothesis of the theorem that needs it, and each
  theorem with hypotheses has a witness on concrete values.

  \<^bold>\<open>Not modelled.\<close> Text of log lines; contexts and timers beyond whether they have expired or were cancelled; the
  Go scheduler beyond interleaving; the internals of the connection pool, of net/http and of the SDKs, so
  also retries inside an SDK; isolation levels other than PostgreSQL's READ COMMITTED; statements of
  others that update or lock outbox rows (producers only insert).
\<close>

section \<open>From the outbox to the service\<close>

text \<open>
  (C1) At-least-once delivery, end to end: in any run of the relay over the SQS and Pub/Sub
  senders, whatever the services answer, however goroutines interleave and whatever fails, a row
  that leaves the outbox was, in the run of the sender it was handed to (the run whose reports and
  error the batch used), first reported as confirmed, and the service acknowledged it in that run;
  or it was expired or had malformed options, or it was first reported as poison and refused for
  good in that run by the sender or the service, in which case its dead letter, with the reason,
  is in the dead-letter table if one is configured.
\<close>

theorem at_least_once:
  assumes ok: "outbox_ok P cfg cols (as_outbox st @ concat (map be_inserted envs))" and arr: "list_all arrival_ok envs"
    and honest: "honest_run order impl F L P cfg cols st envs"
    and run: "processEvents F L P cfg cols st envs = (out, st')"
    and row: "row \<in> set (as_outbox st)" "row \<notin> set (as_outbox st')"
  shows "\<exists>pre env post events e. envs = pre @ env # post \<and>
    selectEvents L P cfg cols (as_outbox (snd (processEvents F L P cfg cols st pre))) None None = Inr events \<and>
    e \<in> set events \<and> columns e = row \<and>
    (acknowledged order impl L cfg env events e \<or>
     (\<exists>m. refused order impl L cfg env events e m \<and>
        (DLQTable cfg \<noteq> [] \<longrightarrow> (\<exists>b. b \<in> set (as_dlq st') \<and> dead_letter_of L cfg row m b))))"
proof -
  obtain pre env post where envs: "envs = pre @ env # post"
    and acc: "accounted L P cfg cols (as_outbox (state_after F L P cfg cols st pre)) env (as_dlq st') row"
    using run_accounts[OF ok arr row(1), of F L] row(2) run by (auto simp: state_after_def)
  let ?rows = "as_outbox (snd (processEvents F L P cfg cols st pre))"
  from acc obtain events e where e: "selectEvents L P cfg cols ?rows None None = Inr events" "e \<in> set events"
      "columns e = row"
    and fate: "batch_fate L cfg env events e = Delivered \<or> (\<exists>m. batch_fate L cfg env events e = Dead m \<and>
        (DLQTable cfg \<noteq> [] \<longrightarrow> (\<exists>b. b \<in> set (as_dlq st') \<and> dead_letter_of L cfg row m b)))"
    by (auto simp: accounted_def state_after_def)
  have "outbox_ok P cfg cols (as_outbox st @ concat (map be_inserted pre) @ concat (map be_inserted (env # post)))"
    using ok unfolding envs by (simp only: map_append concat_append)
  moreover have "list_all arrival_ok pre" using arr unfolding envs by simp
  ultimately have okr: "outbox_ok P cfg cols ?rows"
    using run_outbox_ok[of P cfg cols st pre _ F L] outbox_ok_append unfolding state_after_def by blast
  have h: "honest (relay_sends order impl L cfg) relay_reports L cfg env events"
    using honest envs e(1) unfolding honest_run_def by blast
  have "acknowledged order impl L cfg env events e \<or> (\<exists>m. refused order impl L cfg env events e m \<and>
        (DLQTable cfg \<noteq> [] \<longrightarrow> (\<exists>b. b \<in> set (as_dlq st') \<and> dead_letter_of L cfg row m b)))"
    using fate fates_explained[OF okr e(1) h e(2)] by blast
  with envs e show ?thesis by (intro exI conjI)
qed

section \<open>A sample delivery\<close>

definition delivery_row :: row where
  "delivery_row = [(''id'', GInt64 1), (''payload'', GString ''hi''), (''target'', GString ''sqs''),
     (''destination'', GNil), (''timestamp'', GTime 0)]"

definition delivery_state :: app_state where
  "delivery_state = sample_state\<lparr>as_outbox := [delivery_row]\<rparr>"

definition delivery_env :: batch_env where
  "delivery_env = sample_env\<lparr>be_send := (\<lambda>t evts. (reports_of (sample_steps 1 False ''q''), None))\<rparr>"

definition delivery_cols :: "string list" where
  "delivery_cols = [''id'', ''payload'', ''target'', ''destination'', ''timestamp'']"

lemma delivery_honest:
  assumes "selectEvents sample_lib sample_pg sample_config delivery_cols [delivery_row] None None = Inr events"
  shows "honest (relay_sends id (\<lambda>_. 0) sample_lib sample_config) relay_reports sample_lib sample_config delivery_env events"
proof -
  have sel: "selectEvents sample_lib sample_pg sample_config delivery_cols [delivery_row] None None = Inr [event_of sample_sqs delivery_row]"
    by code_simp
  then have ev: "events = [event_of sample_sqs delivery_row]" using assms by simp
  have b: "batch_for sample_lib sample_config delivery_env [event_of sample_sqs delivery_row] ''sqs'' = [sample_event 1 ''q'']"
    by code_simp
  have t: "map (\<lambda>p. target (route p)) (dispatched sample_lib sample_config (be_now delivery_env) [event_of sample_sqs delivery_row]) = [''sqs'']"
    by code_simp
  have "relay_callbacks = sample_callbacks" by (simp add: relay_callbacks_def sample_callbacks_def)
  then have "relay_sends id (\<lambda>_. 0) sample_lib sample_config ''sqs'' [sample_event 1 ''q''] (Inl (sample_steps 1 False ''q'')) None"
    using sample_runs(1) by (auto simp: relay_sends_def sqs_Target_def sqs_sends_def)
  moreover have "be_send delivery_env ''sqs'' [sample_event 1 ''q''] = (relay_reports (Inl (sample_steps 1 False ''q'')), None)"
    by (simp add: delivery_env_def relay_reports_def)
  moreover have "target (route p) = ''sqs''"
    if "p \<in> set (dispatched sample_lib sample_config (be_now delivery_env) [event_of sample_sqs delivery_row])" for p
  proof -
    have "target (route p) \<in> set (map (\<lambda>p. target (route p))
        (dispatched sample_lib sample_config (be_now delivery_env) [event_of sample_sqs delivery_row]))" using that by simp
    then show ?thesis unfolding t by simp
  qed
  ultimately show ?thesis unfolding honest_def ran_def Let_def ev using b by (metis fst_conv snd_conv)
qed

theorem at_least_once_witness:
  "\<exists>events e. e \<in> set events \<and> columns e = delivery_row \<and>
    (acknowledged id (\<lambda>_. 0) sample_lib sample_config delivery_env events e \<or>
     (\<exists>m. refused id (\<lambda>_. 0) sample_lib sample_config delivery_env events e m))"
proof -
  let ?run = "processEvents sample_fmt sample_lib sample_pg sample_config delivery_cols delivery_state [delivery_env]"
  have ok: "outbox_ok sample_pg sample_config delivery_cols (as_outbox delivery_state @ concat (map be_inserted [delivery_env]))"
    by code_simp
  have arr: "list_all arrival_ok [delivery_env]" by (simp add: arrival_ok_def delivery_env_def sample_env_def)
  have row: "delivery_row \<in> set (as_outbox delivery_state)" by code_simp
  have gone: "delivery_row \<notin> set (as_outbox (snd ?run))" by code_simp
  have st: "as_outbox delivery_state = [delivery_row]" by code_simp
  have single: "pre = [] \<and> env = delivery_env" if "[delivery_env] = pre @ env # post" for pre env post
    using that by (cases pre) auto
  have h: "honest_run id (\<lambda>_. 0) sample_fmt sample_lib sample_pg sample_config delivery_cols delivery_state [delivery_env]"
    unfolding honest_run_def using single delivery_honest st by (metis processEvents.simps(1) snd_conv)
  have run: "?run = (fst ?run, snd ?run)" by simp
  from at_least_once[OF ok arr h run row gone] show ?thesis using single by metis
qed

end
